(* ===== verification/Prelude.thy ===== *)
theory Prelude
  imports Main "HOL-Library.Word" "HOL-Library.Monad_Syntax"
begin

text \<open>
  Shared ground of the development: the machine integer types of \<open>common.h\<close>, the treatment of
  the source's always-enabled \<open>assert\<close> (which prints and calls \<open>abort\<close>) as the \<open>None\<close> of an
  option, the \<open>do ... while\<close> loop over ring positions that every queue of the simulator is walked
  with, and the generic facts on lists, options and ring arithmetic that the component theories use.
\<close>

unbundle bit_operations_syntax

type_synonym u8 = "8 word"
type_synonym u16 = "16 word"
type_synonym u32 = "32 word"
type_synonym u64 = "64 word"

named_theorems ring_defs "definitions that unfold ring-buffer operations"
named_theorems asserts "rewriting of assertions in the option monad"

subsection \<open>Assertions and loops\<close>

text \<open>\<open>assert(cond)\<close>: a failed assertion ends the process, so the rest of the call has no result.\<close>

definition assert_that :: "bool \<Rightarrow> unit option" where
  "assert_that c = (if c then Some () else None)"

text \<open>
  \<open>do { body } while(next(&cur) && !stop(cur))\<close>. The body may leave the loop early (its flag) or
  abort; computing the next position may abort too. A loop that never ends has the value \<open>None\<close>.
\<close>

partial_function (option) do_while ::
  "('i \<Rightarrow> 's \<Rightarrow> (bool \<times> 's) option) \<Rightarrow> ('s \<Rightarrow> 'i \<Rightarrow> (bool \<times> 'i) option) \<Rightarrow> ('i \<Rightarrow> bool)
     \<Rightarrow> 'i \<Rightarrow> 's \<Rightarrow> 's option" where
  "do_while body nxt stop cur s = do {
     (brk, s1) \<leftarrow> body cur s;
     if brk then Some s1
     else do {
       (ok, cur1) \<leftarrow> nxt s1 cur;
       if ok \<and> \<not> stop cur1 then do_while body nxt stop cur1 s1 else Some s1 } }"

text \<open>What such a loop computes when it visits the positions of a given list in order.\<close>

fun fold_break :: "('i \<Rightarrow> 's \<Rightarrow> bool \<times> 's) \<Rightarrow> 'i list \<Rightarrow> 's \<Rightarrow> 's" where
  "fold_break f [] s = s"
| "fold_break f (x # xs) s = (case f x s of (brk, s1) \<Rightarrow> if brk then s1 else fold_break f xs s1)"

text \<open>
  \<open>while(!sync_request_q.empty())\<close>: the requests recorded during a cycle are taken from the queue
  and carried out in order; an abort of one of them ends the loop. A counting \<open>for\<close> loop with no \<open>break\<close> is the
  same recursion over the list of its indices.
\<close>

fun drain :: "('r \<Rightarrow> 's \<Rightarrow> 's option) \<Rightarrow> 'r list \<Rightarrow> 's \<Rightarrow> 's option" where
  "drain handle [] s = Some s"
| "drain handle (r # rs) s = do { s1 \<leftarrow> handle r s; drain handle rs s1 }"

text \<open>A counting \<open>for\<close> loop with a \<open>break\<close>; the body says whether it leaves the loop.\<close>

fun for_break :: "('i \<Rightarrow> 's \<Rightarrow> (bool \<times> 's) option) \<Rightarrow> 'i list \<Rightarrow> 's \<Rightarrow> 's option" where
  "for_break body [] s = Some s"
| "for_break body (x # xs) s = do {
     (brk, s1) \<leftarrow> body x s;
     if brk then Some s1 else for_break body xs s1 }"

subsection \<open>Assertions\<close>

lemma assert_that_simps [simp, asserts]:
  "assert_that True = Some ()"
  "assert_that False = None"
  by (simp_all add: assert_that_def)

lemma assert_that_Some [simp, asserts]: "assert_that c = Some u \<longleftrightarrow> c"
  by (simp add: assert_that_def)

lemma assert_that_None [simp, asserts]: "assert_that c = None \<longleftrightarrow> \<not> c"
  by (simp add: assert_that_def)

lemma assert_bind_Some [simp, asserts]:
  "Option.bind (assert_that c) f = Some y \<longleftrightarrow> c \<and> f () = Some y"
  by (simp add: assert_that_def)

lemma assert_bind_None [simp, asserts]:
  "Option.bind (assert_that c) f = None \<longleftrightarrow> (c \<longrightarrow> f () = None)"
  by (simp add: assert_that_def)

lemma assert_bind_True [simp, asserts]: "c \<Longrightarrow> Option.bind (assert_that c) f = f ()"
  by (simp add: assert_that_def)

subsection \<open>Words\<close>

text \<open>\<open>w & (1 << k)\<close> used as a truth value.\<close>

lemma and_single_bit: "w AND push_bit k 1 \<noteq> 0 \<longleftrightarrow> bit (w :: 'a :: len word) k"
proof
  assume "w AND push_bit k 1 \<noteq> 0"
  then obtain n where "bit (w AND push_bit k 1) n" by (auto simp: bit_eq_iff)
  then show "bit w k" by (auto simp: bit_simps)
next
  assume "bit w k"
  then have "bit (w AND push_bit k 1) k" using bit_imp_le_length [of w k] by (simp add: bit_simps)
  then show "w AND push_bit k 1 \<noteq> 0" by (metis bit_0_eq bot_apply bot_bool_def)
qed

subsection \<open>The loop\<close>

lemma fold_break_no_break:
  "(\<And>x s. x \<in> set xs \<Longrightarrow> f x s = (False, g x s)) \<Longrightarrow> fold_break f xs s = fold g xs s"
  by (induction xs arbitrary: s) auto

text \<open>
  The loop rule. \<open>I\<close> is an invariant of the loop's state, \<open>xs\<close> the positions it visits; the next
  position of each is the one after it in \<open>xs\<close>, and after the last one the loop stops.
\<close>

lemma do_while_fold_break:
  assumes "xs \<noteq> []" and "I s"
    and body: "\<And>x s. x \<in> set xs \<Longrightarrow> I s \<Longrightarrow> body x s = Some (f x s) \<and> I (snd (f x s))"
    and nxt: "\<And>i s. Suc i < length xs \<Longrightarrow> I s \<Longrightarrow>
      nxt s (xs ! i) = Some (True, xs ! Suc i) \<and> \<not> stop (xs ! Suc i)"
    and last: "\<And>s. I s \<Longrightarrow> \<exists>ok y. nxt s (last xs) = Some (ok, y) \<and> (ok \<longrightarrow> stop y)"
  shows "do_while body nxt stop (hd xs) s = Some (fold_break f xs s)"
  using assms
proof (induction xs arbitrary: s)
  case Nil
  then show ?case by simp
next
  case (Cons x xs)
  obtain brk s1 where f: "f x s = (brk, s1)" by (cases "f x s")
  with Cons.prems have b: "body x s = Some (brk, s1)" and I1: "I s1"
    by (metis list.set_intros(1), metis list.set_intros(1) snd_conv)
  show ?case
  proof (cases "brk \<or> xs = []")
    case True
    with f b I1 Cons.prems(5) [of s1] Cons.prems(2) show ?thesis
      by (subst do_while.simps) auto
  next
    case False
    then have ne: "xs \<noteq> []" and nb: "\<not> brk" by auto
    from Cons.prems(4) [of 0 s1] I1 ne have n: "nxt s1 x = Some (True, hd xs)" "\<not> stop (hd xs)"
      by (auto simp: hd_conv_nth)
    have "do_while body nxt stop (hd xs) s1 = Some (fold_break f xs s1)"
    proof (rule Cons.IH [OF ne I1])
      show "nxt s (xs ! i) = Some (True, xs ! Suc i) \<and> \<not> stop (xs ! Suc i)"
        if "Suc i < length xs" "I s" for i s
        using Cons.prems(4) [of "Suc i" s] that by simp
      show "\<exists>ok y. nxt s (last xs) = Some (ok, y) \<and> (ok \<longrightarrow> stop y)" if "I s" for s
        using Cons.prems(5) [OF that] ne by simp
    qed (use Cons.prems(3) in auto)
    with f b nb n show ?thesis by (subst do_while.simps) simp
  qed
qed

text \<open>
  The same rule with invariants that count the positions: \<open>I\<close> before the body, \<open>K\<close> after it, \<open>J\<close> when the loop is left,
  by the body or because there is no next position.
\<close>

lemma do_while_until:
  assumes "xs \<noteq> []" and "I 0 s"
    and body: "\<And>k s. k < length xs \<Longrightarrow> I k s \<Longrightarrow>
      \<exists>brk s1. body (xs ! k) s = Some (brk, s1) \<and> (if brk then J s1 else K k s1)"
    and nxt: "\<And>k s. Suc k < length xs \<Longrightarrow> K k s \<Longrightarrow>
      \<exists>ok. nxt s (xs ! k) = Some (ok, xs ! Suc k) \<and> \<not> stop (xs ! Suc k) \<and> (if ok then I (Suc k) s else J s)"
    and last: "\<And>s. K (length xs - 1) s \<Longrightarrow> J s \<and> (\<exists>ok y. nxt s (last xs) = Some (ok, y) \<and> (ok \<longrightarrow> stop y))"
  shows "\<exists>s1. do_while body nxt stop (hd xs) s = Some s1 \<and> J s1"
proof -
  have "\<exists>s1. do_while body nxt stop (xs ! k) s = Some s1 \<and> J s1" if "k < length xs" "I k s" for k s
    using that
  proof (induction "length xs - k" arbitrary: k s)
    case (Suc n)
    obtain brk s1 where s1: "body (xs ! k) s = Some (brk, s1)" "if brk then J s1 else K k s1"
      using body [OF Suc.prems] by blast
    show ?case
    proof (cases "brk \<or> Suc k = length xs")
      case True
      show ?thesis
      proof (cases brk)
        case False
        with True have k: "Suc k = length xs" by simp
        then have "xs ! k = List.last xs" "length xs - 1 = k" using assms(1) by (simp_all add: last_conv_nth flip: k)
        with False last [of s1] s1 show ?thesis by (subst do_while.simps) auto
      qed (use s1 in \<open>subst do_while.simps, simp\<close>)
    next
      case False
      then have k: "Suc k < length xs" using Suc.prems(1) by simp
      then obtain ok where "nxt s1 (xs ! k) = Some (ok, xs ! Suc k)" "\<not> stop (xs ! Suc k)" "if ok then I (Suc k) s1 else J s1"
        using nxt [of k s1] s1(2) False by auto
      with Suc.hyps(1) [of "Suc k" s1] Suc.hyps(2) s1 k False show ?thesis by (subst do_while.simps) (cases ok; simp)
    qed
  qed simp
  from this [of 0 s] assms(1,2) show ?thesis by (simp add: hd_conv_nth)
qed

text \<open>For bodies that never leave the loop early.\<close>

lemma do_while_steps:
  assumes "xs \<noteq> []" and "I 0 s"
    and body: "\<And>k s. k < length xs \<Longrightarrow> I k s \<Longrightarrow> \<exists>s1. body (xs ! k) s = Some (False, s1) \<and> I (Suc k) s1"
    and nxt: "\<And>k s. Suc k < length xs \<Longrightarrow> I (Suc k) s \<Longrightarrow>
      nxt s (xs ! k) = Some (True, xs ! Suc k) \<and> \<not> stop (xs ! Suc k)"
    and last: "\<And>s. I (length xs) s \<Longrightarrow> \<exists>ok y. nxt s (last xs) = Some (ok, y) \<and> (ok \<longrightarrow> stop y)"
  shows "\<exists>s1. do_while body nxt stop (hd xs) s = Some s1 \<and> I (length xs) s1"
proof (rule do_while_until [where I = I and K = "\<lambda>k. I (Suc k)"])
  show "\<exists>brk s1. body (xs ! k) s = Some (brk, s1) \<and> (if brk then I (length xs) s1 else I (Suc k) s1)" if "k < length xs" "I k s" for k s
    using body [OF that] by auto
  show "\<exists>ok. nxt s (xs ! k) = Some (ok, xs ! Suc k) \<and> \<not> stop (xs ! Suc k) \<and> (if ok then I (Suc k) s else I (length xs) s)"
    if "Suc k < length xs" "I (Suc k) s" for k s
    using nxt [OF that] that(2) by auto
  show "I (length xs) s \<and> (\<exists>ok y. nxt s (last xs) = Some (ok, y) \<and> (ok \<longrightarrow> stop y))" if "I (Suc (length xs - 1)) s" for s
    using that last [of s] assms(1) by (cases xs) simp_all
qed (rule assms)+

subsection \<open>Request queues\<close>

lemma drain_append: "drain h (xs @ ys) s = Option.bind (drain h xs s) (drain h ys)"
proof (induction xs arbitrary: s)
  case (Cons x xs)
  then show ?case by (cases "h x s") simp_all
qed simp

lemma drain_snoc: "drain h (xs @ [y]) s = Option.bind (drain h xs s) (h y)"
  by (simp add: drain_append fun_eq_iff bind_eq_Some_conv split: bind_split)

text \<open>A counting loop with a \<open>break\<close>: \<open>I\<close> holds after every full pass, \<open>J\<close> when the loop is left.\<close>

lemma for_break_steps:
  assumes "I 0 s" "\<And>s. I (length xs) s \<Longrightarrow> J s"
    and step: "\<And>k s. k < length xs \<Longrightarrow> I k s \<Longrightarrow>
      \<exists>brk s1. body (xs ! k) s = Some (brk, s1) \<and> (if brk then J s1 else I (Suc k) s1)"
  shows "\<exists>s1. for_break body xs s = Some s1 \<and> J s1"
  using assms
proof (induction xs arbitrary: I s)
  case (Cons x xs)
  obtain brk s1 where b: "body x s = Some (brk, s1)" "if brk then J s1 else I (Suc 0) s1"
    using Cons.prems(3) [of 0 s] Cons.prems(1) by auto
  show ?case
  proof (cases brk)
    case False
    have "\<exists>s2. for_break body xs s1 = Some s2 \<and> J s2"
    proof (rule Cons.IH)
      show "I (Suc 0) s1" using b(2) False by simp
      show "J s" if "I (Suc (length xs)) s" for s using Cons.prems(2) [of s] that by simp
      show "\<exists>brk s1. body (xs ! k) s = Some (brk, s1) \<and> (if brk then J s1 else I (Suc (Suc k)) s1)"
        if "k < length xs" "I (Suc k) s" for k s using Cons.prems(3) [of "Suc k" s] that by simp
    qed
    with b(1) False show ?thesis by simp
  qed (use b in simp)
qed simp

text \<open>An invariant under which every request succeeds makes the whole queue succeed.\<close>

lemma drain_invariant:
  assumes "\<And>r s. r \<in> set rs \<Longrightarrow> I s \<Longrightarrow> \<exists>s1. handle r s = Some s1 \<and> I s1" and "I s"
  shows "\<exists>s1. drain handle rs s = Some s1 \<and> I s1"
  using assms
proof (induction rs arbitrary: s)
  case (Cons r rs)
  then obtain s1 where "handle r s = Some s1" "I s1" by (meson list.set_intros(1))
  with Cons show ?case by auto
qed simp

lemma drain_total_fold:
  "(\<And>r s. r \<in> set rs \<Longrightarrow> handle r s = Some (f r s)) \<Longrightarrow> drain handle rs s = Some (fold f rs s)"
  by (induction rs arbitrary: s) simp_all

end
