(* ===== verification/Common.thy ===== *)
theory Common
  imports Prelude
begin

text \<open>
  The constants of \<open>top_header/config.h\<close> and the enumerations and bit helpers of
  \<open>top_header/common.h\<close>. Sizes and widths are natural numbers, masks are 32-bit words.
\<close>

subsection \<open>config.h\<close>

definition FETCH_WIDTH :: nat where [simp]: "FETCH_WIDTH = 4"
definition DECODE_WIDTH :: nat where [simp]: "DECODE_WIDTH = 4"
definition RENAME_WIDTH :: nat where [simp]: "RENAME_WIDTH = 4"
definition READREG_WIDTH :: nat where [simp]: "READREG_WIDTH = RENAME_WIDTH"
definition ISSUE_WIDTH :: nat where [simp]: "ISSUE_WIDTH = 2"
definition COMMIT_WIDTH :: nat where [simp]: "COMMIT_WIDTH = 4"

definition PHY_REG_NUM :: nat where "PHY_REG_NUM = 128"
definition ARCH_REG_NUM :: nat where "ARCH_REG_NUM = 32"

definition FETCH_DECODE_FIFO_SIZE :: nat where "FETCH_DECODE_FIFO_SIZE = 256"
definition DECODE_RENAME_FIFO_SIZE :: nat where "DECODE_RENAME_FIFO_SIZE = 16"
definition ISSUE_QUEUE_SIZE :: nat where "ISSUE_QUEUE_SIZE = 16"
definition ROB_SIZE :: nat where "ROB_SIZE = 64"
definition CHECKPOINT_BUFFER_SIZE :: nat where "CHECKPOINT_BUFFER_SIZE = 256"
definition STORE_BUFFER_SIZE :: nat where "STORE_BUFFER_SIZE = 16"

definition ALU_UNIT_NUM :: nat where [simp]: "ALU_UNIT_NUM = 2"
definition BRU_UNIT_NUM :: nat where [simp]: "BRU_UNIT_NUM = 1"
definition CSR_UNIT_NUM :: nat where [simp]: "CSR_UNIT_NUM = 1"
definition DIV_UNIT_NUM :: nat where [simp]: "DIV_UNIT_NUM = 1"
definition LSU_UNIT_NUM :: nat where [simp]: "LSU_UNIT_NUM = 1"
definition MUL_UNIT_NUM :: nat where [simp]: "MUL_UNIT_NUM = 2"

definition EXECUTE_UNIT_NUM :: nat where
  "EXECUTE_UNIT_NUM = ALU_UNIT_NUM + BRU_UNIT_NUM + CSR_UNIT_NUM + DIV_UNIT_NUM + LSU_UNIT_NUM + MUL_UNIT_NUM"

text \<open>The four prediction tables have the same geometry: 12 index bits, no second pc part.\<close>

definition GSHARE_PC_P1_ADDR_WIDTH :: nat where "GSHARE_PC_P1_ADDR_WIDTH = 12"
definition GSHARE_PC_P2_ADDR_WIDTH :: nat where "GSHARE_PC_P2_ADDR_WIDTH = 0"
definition GSHARE_GLOBAL_HISTORY_WIDTH :: nat where "GSHARE_GLOBAL_HISTORY_WIDTH = GSHARE_PC_P1_ADDR_WIDTH"
definition GSHARE_PHT_ADDR_WIDTH :: nat where "GSHARE_PHT_ADDR_WIDTH = GSHARE_PC_P1_ADDR_WIDTH"
definition GSHARE_PHT_SIZE :: nat where "GSHARE_PHT_SIZE = 2 ^ GSHARE_PHT_ADDR_WIDTH"
definition GSHARE_PC_P1_ADDR_MASK :: u32 where
  "GSHARE_PC_P1_ADDR_MASK = push_bit GSHARE_PC_P1_ADDR_WIDTH 1 - 1"
definition GSHARE_PC_P2_ADDR_MASK :: u32 where
  "GSHARE_PC_P2_ADDR_MASK = push_bit GSHARE_PC_P2_ADDR_WIDTH 1 - 1"
definition GSHARE_GLOBAL_HISTORY_MASK :: u32 where
  "GSHARE_GLOBAL_HISTORY_MASK = push_bit GSHARE_GLOBAL_HISTORY_WIDTH 1 - 1"

definition LOCAL_PC_P1_ADDR_WIDTH :: nat where "LOCAL_PC_P1_ADDR_WIDTH = 12"
definition LOCAL_PC_P2_ADDR_WIDTH :: nat where "LOCAL_PC_P2_ADDR_WIDTH = 0"
definition LOCAL_BHT_ADDR_WIDTH :: nat where "LOCAL_BHT_ADDR_WIDTH = LOCAL_PC_P1_ADDR_WIDTH"
definition LOCAL_BHT_SIZE :: nat where "LOCAL_BHT_SIZE = 2 ^ LOCAL_BHT_ADDR_WIDTH"
definition LOCAL_BHT_WIDTH :: nat where "LOCAL_BHT_WIDTH = LOCAL_PC_P1_ADDR_WIDTH"
definition LOCAL_PHT_ADDR_WIDTH :: nat where "LOCAL_PHT_ADDR_WIDTH = LOCAL_PC_P1_ADDR_WIDTH"
definition LOCAL_PHT_SIZE :: nat where "LOCAL_PHT_SIZE = 2 ^ LOCAL_PHT_ADDR_WIDTH"
definition LOCAL_PC_P1_ADDR_MASK :: u32 where
  "LOCAL_PC_P1_ADDR_MASK = push_bit LOCAL_PC_P1_ADDR_WIDTH 1 - 1"
definition LOCAL_PC_P2_ADDR_MASK :: u32 where
  "LOCAL_PC_P2_ADDR_MASK = push_bit LOCAL_PC_P2_ADDR_WIDTH 1 - 1"
definition LOCAL_BHT_WIDTH_MASK :: u32 where
  "LOCAL_BHT_WIDTH_MASK = push_bit LOCAL_BHT_WIDTH 1 - 1"

definition RAS_SIZE :: nat where "RAS_SIZE = 256"

definition CALL_PC_P1_ADDR_WIDTH :: nat where "CALL_PC_P1_ADDR_WIDTH = 12"
definition CALL_PC_P2_ADDR_WIDTH :: nat where "CALL_PC_P2_ADDR_WIDTH = 0"
definition CALL_GLOBAL_HISTORY_WIDTH :: nat where "CALL_GLOBAL_HISTORY_WIDTH = CALL_PC_P1_ADDR_WIDTH"
definition CALL_TARGET_CACHE_ADDR_WIDTH :: nat where "CALL_TARGET_CACHE_ADDR_WIDTH = CALL_PC_P1_ADDR_WIDTH"
definition CALL_TARGET_CACHE_SIZE :: nat where "CALL_TARGET_CACHE_SIZE = 2 ^ CALL_TARGET_CACHE_ADDR_WIDTH"
definition CALL_PC_P1_ADDR_MASK :: u32 where
  "CALL_PC_P1_ADDR_MASK = push_bit CALL_PC_P1_ADDR_WIDTH 1 - 1"
definition CALL_PC_P2_ADDR_MASK :: u32 where
  "CALL_PC_P2_ADDR_MASK = push_bit CALL_PC_P2_ADDR_WIDTH 1 - 1"
definition CALL_GLOBAL_HISTORY_MASK :: u32 where
  "CALL_GLOBAL_HISTORY_MASK = push_bit CALL_GLOBAL_HISTORY_WIDTH 1 - 1"

definition NORMAL_PC_P1_ADDR_WIDTH :: nat where "NORMAL_PC_P1_ADDR_WIDTH = 12"
definition NORMAL_PC_P2_ADDR_WIDTH :: nat where "NORMAL_PC_P2_ADDR_WIDTH = 0"
definition NORMAL_GLOBAL_HISTORY_WIDTH :: nat where
  "NORMAL_GLOBAL_HISTORY_WIDTH = NORMAL_PC_P1_ADDR_WIDTH"
definition NORMAL_TARGET_CACHE_ADDR_WIDTH :: nat where
  "NORMAL_TARGET_CACHE_ADDR_WIDTH = NORMAL_PC_P1_ADDR_WIDTH"
definition NORMAL_TARGET_CACHE_SIZE :: nat where
  "NORMAL_TARGET_CACHE_SIZE = 2 ^ NORMAL_TARGET_CACHE_ADDR_WIDTH"
definition NORMAL_PC_P1_ADDR_MASK :: u32 where
  "NORMAL_PC_P1_ADDR_MASK = push_bit NORMAL_PC_P1_ADDR_WIDTH 1 - 1"
definition NORMAL_PC_P2_ADDR_MASK :: u32 where
  "NORMAL_PC_P2_ADDR_MASK = push_bit NORMAL_PC_P2_ADDR_WIDTH 1 - 1"
definition NORMAL_GLOBAL_HISTORY_MASK :: u32 where
  "NORMAL_GLOBAL_HISTORY_MASK = push_bit NORMAL_GLOBAL_HISTORY_WIDTH 1 - 1"

subsection \<open>common.h\<close>

definition div_round_up :: "nat \<Rightarrow> nat \<Rightarrow> nat" where
  "div_round_up n d = (n + d - 1) div d"

datatype riscv_exception_t =
    instruction_address_misaligned
  | instruction_access_fault
  | illegal_instruction
  | breakpoint
  | load_address_misaligned
  | load_access_fault
  | store_amo_address_misaligned
  | store_amo_access_fault
  | environment_call_from_u_mode
  | environment_call_from_s_mode
  | reserved_10
  | environment_call_from_m_mode
  | instruction_page_fault
  | load_page_fault
  | reserved_14
  | store_amo_page_fault

fun exception_code :: "riscv_exception_t \<Rightarrow> u32" where
  "exception_code instruction_address_misaligned = 0"
| "exception_code instruction_access_fault = 1"
| "exception_code illegal_instruction = 2"
| "exception_code breakpoint = 3"
| "exception_code load_address_misaligned = 4"
| "exception_code load_access_fault = 5"
| "exception_code store_amo_address_misaligned = 6"
| "exception_code store_amo_access_fault = 7"
| "exception_code environment_call_from_u_mode = 8"
| "exception_code environment_call_from_s_mode = 9"
| "exception_code reserved_10 = 10"
| "exception_code environment_call_from_m_mode = 11"
| "exception_code instruction_page_fault = 12"
| "exception_code load_page_fault = 13"
| "exception_code reserved_14 = 14"
| "exception_code store_amo_page_fault = 15"

datatype riscv_interrupt_t =
    user_software
  | supervisor_software
  | reserved_software
  | machine_software
  | user_timer
  | supervisor_timer
  | reserved_timer
  | machine_timer
  | user_external
  | supervisor_external
  | reserved_external
  | machine_external

fun interrupt_code :: "riscv_interrupt_t \<Rightarrow> u32" where
  "interrupt_code user_software = 0"
| "interrupt_code supervisor_software = 1"
| "interrupt_code reserved_software = 2"
| "interrupt_code machine_software = 3"
| "interrupt_code user_timer = 4"
| "interrupt_code supervisor_timer = 5"
| "interrupt_code reserved_timer = 6"
| "interrupt_code machine_timer = 7"
| "interrupt_code user_external = 8"
| "interrupt_code supervisor_external = 9"
| "interrupt_code reserved_external = 10"
| "interrupt_code machine_external = 11"

definition is_align :: "u32 \<Rightarrow> u32 \<Rightarrow> bool" where
  "is_align x access_size \<longleftrightarrow> x AND (access_size - 1) = 0"

definition sign_extend :: "u32 \<Rightarrow> nat \<Rightarrow> u32 option" where
  "sign_extend imm imm_length = do {
     assert_that (0 < imm_length \<and> imm_length < 32);
     let sign_bit = drop_bit (imm_length - 1) imm;
     Some ((if sign_bit = 0 then 0
            else push_bit imm_length (push_bit (32 - imm_length) sign_bit - 1)) OR imm) }"

subsection \<open>Facts\<close>

lemmas table_defs =
  GSHARE_PC_P1_ADDR_WIDTH_def GSHARE_PC_P2_ADDR_WIDTH_def GSHARE_GLOBAL_HISTORY_WIDTH_def
  GSHARE_PHT_ADDR_WIDTH_def GSHARE_PHT_SIZE_def GSHARE_PC_P1_ADDR_MASK_def GSHARE_PC_P2_ADDR_MASK_def
  GSHARE_GLOBAL_HISTORY_MASK_def LOCAL_PC_P1_ADDR_WIDTH_def LOCAL_PC_P2_ADDR_WIDTH_def
  LOCAL_BHT_ADDR_WIDTH_def LOCAL_BHT_SIZE_def LOCAL_BHT_WIDTH_def LOCAL_PHT_ADDR_WIDTH_def
  LOCAL_PHT_SIZE_def LOCAL_PC_P1_ADDR_MASK_def LOCAL_PC_P2_ADDR_MASK_def LOCAL_BHT_WIDTH_MASK_def
  CALL_PC_P1_ADDR_WIDTH_def CALL_PC_P2_ADDR_WIDTH_def CALL_GLOBAL_HISTORY_WIDTH_def
  CALL_TARGET_CACHE_ADDR_WIDTH_def CALL_TARGET_CACHE_SIZE_def CALL_PC_P1_ADDR_MASK_def
  CALL_PC_P2_ADDR_MASK_def CALL_GLOBAL_HISTORY_MASK_def NORMAL_PC_P1_ADDR_WIDTH_def
  NORMAL_PC_P2_ADDR_WIDTH_def NORMAL_GLOBAL_HISTORY_WIDTH_def NORMAL_TARGET_CACHE_ADDR_WIDTH_def
  NORMAL_TARGET_CACHE_SIZE_def NORMAL_PC_P1_ADDR_MASK_def NORMAL_PC_P2_ADDR_MASK_def
  NORMAL_GLOBAL_HISTORY_MASK_def

lemma exception_code_inj: "exception_code a = exception_code b \<Longrightarrow> a = b"
  by (cases a; cases b) simp_all

text \<open>A size that is a power of two: alignment is divisibility.\<close>

lemma is_align_dvd:
  assumes "k < 32"
  shows "is_align x (2 ^ k) \<longleftrightarrow> 2 ^ k dvd uint x"
proof -
  have "x AND (2 ^ k - 1) = take_bit k x"
    by (simp add: take_bit_eq_mask mask_eq_exp_minus_1)
  moreover have "take_bit k x = 0 \<longleftrightarrow> take_bit k (uint x) = 0"
    by (metis unsigned_0 unsigned_eq_0_iff unsigned_take_bit_eq)
  ultimately show ?thesis by (simp add: is_align_def take_bit_eq_0_iff)
qed

lemma sign_extend_total: "0 < n \<Longrightarrow> n < 32 \<Longrightarrow> \<exists>r. sign_extend x n = Some r"
  by (simp add: sign_extend_def Let_def)

text \<open>Every bit above the field is a copy of its top bit.\<close>

lemma sign_extend_bit:
  assumes n: "0 < n" "n < 32" and x: "take_bit n x = x" and i: "i < 32"
  shows "bit (the (sign_extend x n)) i = bit x (min i (n - 1))"
proof -
  obtain m where m: "n = Suc m" using n by (cases n) auto
  have hi: "\<not> bit x j" if "m < j" for j
    using x that m by (metis bit_take_bit_iff Suc_le_eq leD)
  have sb: "drop_bit m x = of_bool (bit x m)"
  proof (rule bit_eqI)
    fix k
    show "bit (drop_bit m x) k = bit (of_bool (bit x m) :: u32) k"
      using hi [of "m + k"] by (cases k) (auto simp: bit_drop_bit_eq)
  qed
  have fill: "push_bit n (push_bit (32 - n) 1 - 1) = (push_bit n (mask (32 - n)) :: u32)"
    by (simp add: mask_eq_exp_minus_1 push_bit_eq_mult)
  have "sign_extend x n = Some ((if bit x m then push_bit n (mask (32 - n)) else 0) OR x)"
    using n fill by (simp add: sign_extend_def m sb Let_def)
  moreover have "n - 1 = m" "m < i \<longleftrightarrow> n \<le> i" using m by auto
  ultimately show ?thesis using n i hi [of i]
    by (auto simp: bit_simps min_def not_le)
qed

lemma sign_extend_word:
  assumes n: "0 < n" "n < 32" and x: "take_bit n x = x"
  shows "sign_extend x n = Some (word_of_int (signed_take_bit (n - 1) (uint x)))"
proof -
  obtain r where r: "sign_extend x n = Some r" using n sign_extend_total by blast
  have "r = word_of_int (signed_take_bit (n - 1) (uint x))"
  proof (rule bit_word_eqI)
    fix i assume "i < LENGTH(32)"
    then show "bit r i = bit (word_of_int (signed_take_bit (n - 1) (uint x)) :: u32) i"
      using sign_extend_bit [OF n x, of i] r by (simp add: bit_simps min.commute)
  qed
  with r show ?thesis by simp
qed

lemma top_bit_iff:
  assumes "0 \<le> k" "k < 2 ^ Suc m"
  shows "bit k m \<longleftrightarrow> 2 ^ m \<le> (k :: int)"
proof (cases "2 ^ m \<le> k")
  case True
  with assms have "k div 2 ^ m = 1" by (simp add: div_pos_geq)
  with True show ?thesis by (simp add: bit_iff_odd)
qed (use assms in \<open>simp add: bit_iff_odd\<close>)

subsection \<open>Properties\<close>

text \<open>C33: On a field of \<open>n\<close> bits \<open>sign_extend\<close> returns the 32-bit word whose signed value is the two's
  complement value of the field.\<close>

theorem sign_extend_sint:
  assumes "0 < n" "n < 32" "uint x < 2 ^ n"
  shows "\<exists>r. sign_extend x n = Some r \<and>
    sint r = (if uint x < 2 ^ (n - 1) then uint x else uint x - 2 ^ n)"
proof -
  obtain m where m: "n = Suc m" using assms(1) by (cases n) auto
  have tk: "take_bit n (uint x) = uint x" using assms(3) by (simp add: take_bit_int_eq_self)
  have "take_bit n x = x"
    by (rule word_uint_eqI) (simp add: unsigned_take_bit_eq tk)
  from sign_extend_word [OF assms(1,2) this] have r:
    "sign_extend x n = Some (word_of_int (signed_take_bit m (uint x)))" by (simp add: m)
  have "sint (word_of_int (signed_take_bit m (uint x)) :: u32) = signed_take_bit m (uint x)"
    using assms(2) m by (simp add: signed_of_int min_def)
  also have "\<dots> = uint x - 2 ^ n * of_bool (bit (uint x) m)"
    using tk by (simp add: signed_take_bit_eq_take_bit_minus m)
  finally show ?thesis using r top_bit_iff [of "uint x" m] assms(3) by (simp add: m)
qed

theorem sign_extend_sint_witness: "\<exists>r. sign_extend 0xFFE 12 = Some r \<and> sint r = -2"
  using sign_extend_sint [of 12 "0xFFE"] by simp

end
