(* ===== verification/Fifo.thy ===== *)
theory Fifo
  imports Prelude
begin

text \<open>
  The ring buffer \<open>component::fifo\<close> of \<open>component/fifo.h\<close>, which the pipeline uses between fetch,
  decode and rename and which \<open>rob\<close>, \<open>checkpoint_buffer\<close>, \<open>store_buffer\<close> and \<open>issue_queue\<close> inherit.
  The record is extensible, so an operation here applies to the derived classes as well.

  Pointers are natural numbers below the buffer's size: the largest buffer has 256 entries, so the
  sums \<open>wptr + size - rptr\<close> of the source never reach the width of \<open>uint32_t\<close>. The storage that
  \<open>new T[size]\<close> leaves uninitialised, and the two saved fields the constructor does not set, are
  arguments of the constructor.

  A queue with \<open>pop_status_save\<close> set counts the elements popped since the last
  \<open>reset_pop_status\<close> as still occupying their slots. The invariant therefore speaks of three ring
  positions: the saved read position, the read position and the write position.
\<close>

subsection \<open>The class\<close>

record 'a fifo =
  buffer :: "'a list"
  qsize :: nat
  wptr :: nat
  wstage :: bool
  rptr :: nat
  rstage :: bool
  pop_status_save :: bool
  rptr_saved :: nat
  rstage_saved :: bool

definition fifo_new :: "nat \<Rightarrow> 'a list \<Rightarrow> nat \<Rightarrow> bool \<Rightarrow> 'a fifo" where
  "fifo_new n mem rp rs =
     \<lparr> buffer = mem, qsize = n, wptr = 0, wstage = False, rptr = 0, rstage = False,
       pop_status_save = False, rptr_saved = rp, rstage_saved = rs \<rparr>"

definition fifo_reset :: "('a, 'b) fifo_scheme \<Rightarrow> ('a, 'b) fifo_scheme" where
  "fifo_reset q = q \<lparr> wptr := 0, wstage := False, rptr := 0, rstage := False \<rparr>"

definition fifo_flush :: "('a, 'b) fifo_scheme \<Rightarrow> ('a, 'b) fifo_scheme" where
  "fifo_flush q = q \<lparr> wptr := 0, wstage := False, rptr := 0, rstage := False \<rparr>"

definition fifo_is_empty :: "('a, 'b) fifo_scheme \<Rightarrow> bool" where
  "fifo_is_empty q \<longleftrightarrow> rptr q = wptr q \<and> rstage q = wstage q"

definition fifo_is_full :: "('a, 'b) fifo_scheme \<Rightarrow> bool" where
  "fifo_is_full q \<longleftrightarrow>
     (if pop_status_save q then rptr_saved q = wptr q \<and> rstage_saved q \<noteq> wstage q
      else rptr q = wptr q \<and> rstage q \<noteq> wstage q)"

definition fifo_push :: "'a \<Rightarrow> ('a, 'b) fifo_scheme \<Rightarrow> bool \<times> ('a, 'b) fifo_scheme" where
  "fifo_push x q =
     (if fifo_is_full q then (False, q)
      else let q1 = q \<lparr> buffer := (buffer q)[wptr q := x], wptr := wptr q + 1 \<rparr>
           in (True, if wptr q1 \<ge> qsize q1 then q1 \<lparr> wptr := 0, wstage := \<not> wstage q1 \<rparr> else q1))"

definition fifo_pop :: "('a, 'b) fifo_scheme \<Rightarrow> 'a option \<times> ('a, 'b) fifo_scheme" where
  "fifo_pop q =
     (if fifo_is_empty q then (None, q)
      else let x = buffer q ! rptr q; q1 = q \<lparr> rptr := rptr q + 1 \<rparr>
           in (Some x, if rptr q1 \<ge> qsize q1 then q1 \<lparr> rptr := 0, rstage := \<not> rstage q1 \<rparr> else q1))"

definition fifo_get_front :: "('a, 'b) fifo_scheme \<Rightarrow> 'a option" where
  "fifo_get_front q = (if fifo_is_empty q then None else Some (buffer q ! rptr q))"

definition fifo_get_tail :: "('a, 'b) fifo_scheme \<Rightarrow> 'a option" where
  "fifo_get_tail q =
     (if fifo_is_empty q then None
      else Some (buffer q ! ((wptr q + qsize q - 1) mod qsize q)))"

definition fifo_get_size :: "('a, 'b) fifo_scheme \<Rightarrow> nat" where
  "fifo_get_size q =
     (if fifo_is_full q then qsize q
      else if pop_status_save q then (wptr q + qsize q - rptr_saved q) mod qsize q
      else (wptr q + qsize q - rptr q) mod qsize q)"

definition fifo_get_remain_space :: "('a, 'b) fifo_scheme \<Rightarrow> nat" where
  "fifo_get_remain_space q = qsize q - fifo_get_size q"

definition reset_pop_status :: "('a, 'b) fifo_scheme \<Rightarrow> ('a, 'b) fifo_scheme" where
  "reset_pop_status q = q \<lparr> rptr_saved := rptr q, rstage_saved := rstage q \<rparr>"

definition set_pop_status_save :: "bool \<Rightarrow> ('a, 'b) fifo_scheme \<Rightarrow> ('a, 'b) fifo_scheme" where
  "set_pop_status_save v q = reset_pop_status (q \<lparr> pop_status_save := v \<rparr>)"

subsection \<open>Ring positions, invariant and abstraction\<close>

text \<open>A position is a pointer with a stage bit; the stage flips at each turn of the ring.\<close>

definition ring_ok :: "nat \<Rightarrow> nat \<Rightarrow> bool \<Rightarrow> nat \<Rightarrow> bool \<Rightarrow> bool" where
  "ring_ok n p ps q qs \<longleftrightarrow> p < n \<and> q < n \<and> (if ps = qs then p \<le> q else q \<le> p)"

definition ring_dist :: "nat \<Rightarrow> nat \<Rightarrow> bool \<Rightarrow> nat \<Rightarrow> bool \<Rightarrow> nat" where
  "ring_dist n p ps q qs = (if ps = qs then q - p else q + n - p)"

definition fifo_fill :: "('a, 'b) fifo_scheme \<Rightarrow> nat" where
  "fifo_fill q = ring_dist (qsize q) (rptr q) (rstage q) (wptr q) (wstage q)"

definition fifo_popped :: "('a, 'b) fifo_scheme \<Rightarrow> nat" where
  "fifo_popped q =
     (if pop_status_save q
      then ring_dist (qsize q) (rptr_saved q) (rstage_saved q) (rptr q) (rstage q) else 0)"

definition fifo_ring :: "('a, 'b) fifo_scheme \<Rightarrow> bool" where
  "fifo_ring q \<longleftrightarrow> length (buffer q) = qsize q \<and>
     ring_ok (qsize q) (rptr q) (rstage q) (wptr q) (wstage q)"

definition fifo_inv :: "('a, 'b) fifo_scheme \<Rightarrow> bool" where
  "fifo_inv q \<longleftrightarrow> fifo_ring q \<and>
     (pop_status_save q \<longrightarrow>
        ring_ok (qsize q) (rptr_saved q) (rstage_saved q) (rptr q) (rstage q) \<and>
        fifo_popped q + fifo_fill q \<le> qsize q)"

definition fifo_ids :: "('a, 'b) fifo_scheme \<Rightarrow> nat list" where
  "fifo_ids q = map (\<lambda>i. (rptr q + i) mod qsize q) [0..<fifo_fill q]"

definition fifo_contents :: "('a, 'b) fifo_scheme \<Rightarrow> 'a list" where
  "fifo_contents q = map (\<lambda>i. buffer q ! i) (fifo_ids q)"

lemmas fifo_defs = fifo_new_def fifo_reset_def fifo_flush_def fifo_is_empty_def fifo_is_full_def
  fifo_push_def fifo_pop_def fifo_get_front_def fifo_get_tail_def fifo_get_size_def
  fifo_get_remain_space_def reset_pop_status_def set_pop_status_save_def

lemmas ring_simps = ring_ok_def ring_dist_def fifo_fill_def fifo_popped_def fifo_ring_def fifo_inv_def

subsection \<open>Facts on ring positions\<close>

lemma ring_step_right:
  assumes "ring_ok n p ps q qs" "ring_dist n p ps q qs < n"
  shows "ring_ok n p ps (if Suc q \<ge> n then 0 else Suc q) (if Suc q \<ge> n then \<not> qs else qs)"
    and "ring_dist n p ps (if Suc q \<ge> n then 0 else Suc q) (if Suc q \<ge> n then \<not> qs else qs) =
      Suc (ring_dist n p ps q qs)"
  using assms by (cases "Suc q = n"; cases "ps = qs"; force simp: ring_ok_def ring_dist_def)+

lemma ring_step_left:
  assumes "ring_ok n p ps q qs" "0 < ring_dist n p ps q qs"
  shows "ring_ok n (if Suc p \<ge> n then 0 else Suc p) (if Suc p \<ge> n then \<not> ps else ps) q qs"
    and "ring_dist n (if Suc p \<ge> n then 0 else Suc p) (if Suc p \<ge> n then \<not> ps else ps) q qs =
      ring_dist n p ps q qs - 1"
  using assms by (cases "Suc p = n"; cases "ps = qs"; force simp: ring_ok_def ring_dist_def)+

lemma ring_dist_empty:
  "ring_ok n p ps q qs \<Longrightarrow> ring_dist n p ps q qs = 0 \<longleftrightarrow> p = q \<and> ps = qs"
  by (auto simp: ring_ok_def ring_dist_def split: if_splits)

lemma ring_dist_full:
  "ring_ok n p ps q qs \<Longrightarrow> ring_dist n p ps q qs = n \<longleftrightarrow> p = q \<and> ps \<noteq> qs"
  by (auto simp: ring_ok_def ring_dist_def split: if_splits)

lemma ring_dist_mod:
  "ring_ok n p ps q qs \<Longrightarrow> ring_dist n p ps q qs < n \<Longrightarrow> ring_dist n p ps q qs = (q + n - p) mod n"
  by (auto simp: ring_ok_def ring_dist_def mod_if split: if_splits)

lemma ring_dist_trans:
  assumes "ring_ok n p ps q qs" "ring_ok n q qs r rs" "ring_dist n p ps q qs + ring_dist n q qs r rs \<le> n"
  shows "ring_ok n p ps r rs"
    and "ring_dist n p ps r rs = ring_dist n p ps q qs + ring_dist n q qs r rs"
  using assms
  by (cases "ps = qs"; cases "qs = rs"; force simp: ring_ok_def ring_dist_def)+

lemma fifo_inv_ring [simp, intro]: "fifo_inv q \<Longrightarrow> fifo_ring q"
  by (simp add: fifo_inv_def)

lemma fifo_ring_size: "fifo_ring q \<Longrightarrow> 0 < qsize q \<and> length (buffer q) = qsize q \<and>
    rptr q < qsize q \<and> wptr q < qsize q"
  by (auto simp: ring_simps)

lemma fill_le_size: "fifo_ring q \<Longrightarrow> fifo_fill q \<le> qsize q"
  by (auto simp: ring_simps split: if_splits)

lemma ring_dist_end: "ring_ok n p ps q qs \<Longrightarrow> (p + ring_dist n p ps q qs) mod n = q"
  by (auto simp: ring_ok_def ring_dist_def split: if_splits)

lemma rptr_plus_fill: "fifo_ring q \<Longrightarrow> (rptr q + fifo_fill q) mod qsize q = wptr q"
  by (simp add: fifo_ring_def fifo_fill_def ring_dist_end)

lemma is_empty_fill: "fifo_ring q \<Longrightarrow> fifo_is_empty q \<longleftrightarrow> fifo_fill q = 0"
  by (auto simp: fifo_is_empty_def ring_simps split: if_splits)

lemma ids_length [simp]: "length (fifo_ids q) = fifo_fill q"
  by (simp add: fifo_ids_def)

lemma contents_length [simp]: "length (fifo_contents q) = fifo_fill q"
  by (simp add: fifo_contents_def)

lemma mod_shift_inj:
  assumes "(r + i) mod n = (r + j) mod n" "i < n" "j < (n :: nat)"
  shows "i = j"
proof -
  have *: "i = j" if "i \<le> j" "(r + j) mod n = (r + i) mod n" "j < n" for i j
  proof -
    from that have "n dvd (r + j) - (r + i)" by (subst (asm) mod_eq_dvd_iff_nat) auto
    then have "n dvd j - i" by simp
    with that show ?thesis using nat_dvd_not_less [of "j - i" n]
      by (cases "i = j") (auto intro: less_imp_diff_less)
  qed
  show ?thesis using *[of i j] *[of j i] assms by (cases "i \<le> j") auto
qed

lemma mod_pred: "0 < n \<Longrightarrow> (Suc a mod n + n - 1) mod n = a mod n"
  by (auto simp: mod_Suc)

lemma ids_nth: "i < fifo_fill q \<Longrightarrow> fifo_ids q ! i = (rptr q + i) mod qsize q"
  by (simp add: fifo_ids_def)

lemma contents_nth:
  "i < fifo_fill q \<Longrightarrow> fifo_contents q ! i = buffer q ! ((rptr q + i) mod qsize q)"
  by (simp add: fifo_contents_def ids_nth)

lemma ids_distinct: "fifo_ring q \<Longrightarrow> distinct (fifo_ids q)"
  using fill_le_size [of q]
  by (auto simp: fifo_ids_def distinct_map inj_on_def dest!: mod_shift_inj)

lemma ids_less: "fifo_ring q \<Longrightarrow> i \<in> set (fifo_ids q) \<Longrightarrow> i < qsize q"
  using fifo_ring_size [of q] by (auto simp: fifo_ids_def)

lemma wptr_not_in_ids:
  "fifo_ring q \<Longrightarrow> fifo_fill q < qsize q \<Longrightarrow> wptr q \<notin> set (fifo_ids q)"
proof
  assume a: "fifo_ring q" "fifo_fill q < qsize q" "wptr q \<in> set (fifo_ids q)"
  then obtain i where i: "i < fifo_fill q" "(rptr q + i) mod qsize q = wptr q"
    by (auto simp: fifo_ids_def)
  with a rptr_plus_fill [of q] mod_shift_inj [of "rptr q" i "qsize q" "fifo_fill q"] show False
    by simp
qed

text \<open>The set of live ids, by cases on the stages, as the derived classes test it.\<close>

lemma ids_set:
  assumes "fifo_ring q"
  shows "set (fifo_ids q) =
    (if wstage q = rstage q then {rptr q..<wptr q} else {rptr q..<qsize q} \<union> {..<wptr q})"
proof (cases "wstage q = rstage q")
  case True
  have "(\<lambda>i. (rptr q + i) mod qsize q) ` {0..<wptr q - rptr q} =
        (\<lambda>i. i + rptr q) ` {0..<wptr q - rptr q}"
    using assms True by (intro image_cong) (auto simp: ring_simps)
  with assms True show ?thesis by (simp add: fifo_ids_def ring_simps image_add_atLeastLessThan')
next
  case False
  let ?n = "qsize q" and ?r = "rptr q" and ?w = "wptr q"
  have w: "?w \<le> ?r" "?r < ?n" using assms False by (auto simp: ring_simps split: if_splits)
  have "x \<in> (\<lambda>i. (?r + i) mod ?n) ` {0..<?w + ?n - ?r} \<longleftrightarrow> x \<in> {?r..<?n} \<union> {..<?w}" for x
  proof
    assume "x \<in> (\<lambda>i. (?r + i) mod ?n) ` {0..<?w + ?n - ?r}"
    then obtain i where "x = (?r + i) mod ?n" "i < ?w + ?n - ?r" by auto
    then show "x \<in> {?r..<?n} \<union> {..<?w}" using w
      by (cases "?r + i < ?n") (auto simp: mod_if)
  next
    assume "x \<in> {?r..<?n} \<union> {..<?w}"
    then show "x \<in> (\<lambda>i. (?r + i) mod ?n) ` {0..<?w + ?n - ?r}" using w
      by (intro image_eqI [of _ _ "if ?r \<le> x then x - ?r else x + ?n - ?r"]) auto
  qed
  then have "(\<lambda>i. (?r + i) mod ?n) ` {0..<?w + ?n - ?r} = {?r..<?n} \<union> {..<?w}" by blast
  with False show ?thesis by (simp add: fifo_ids_def fifo_fill_def ring_dist_def)
qed

subsection \<open>Invariant and behaviour of the operations\<close>

lemma fifo_new_inv: "0 < n \<Longrightarrow> length mem = n \<Longrightarrow> fifo_inv (fifo_new n mem rp rs)"
  by (simp add: fifo_new_def ring_simps)

lemma flush_ring: "fifo_ring q \<Longrightarrow> fifo_ring (fifo_flush q) \<and> fifo_contents (fifo_flush q) = []"
  by (auto simp: fifo_flush_def ring_simps fifo_contents_def fifo_ids_def)

lemma reset_flush_same: "fifo_reset = fifo_flush"
  by (rule ext) (simp add: fifo_reset_def fifo_flush_def)

lemma reset_pop_status_inv: "fifo_ring q \<Longrightarrow> fifo_inv (reset_pop_status q)"
  by (auto simp: reset_pop_status_def ring_simps)

lemma reset_pop_status_contents [simp]: "fifo_contents (reset_pop_status q) = fifo_contents q"
  by (simp add: reset_pop_status_def fifo_contents_def fifo_ids_def fifo_fill_def)

lemma set_pop_status_save_inv: "fifo_ring q \<Longrightarrow> fifo_inv (set_pop_status_save v q)"
  by (auto simp: set_pop_status_save_def reset_pop_status_def ring_simps)

text \<open>Occupied slots: the live ones and those popped since \<open>reset_pop_status\<close>.\<close>

lemma occupied_saved:
  assumes "fifo_inv q" "pop_status_save q"
  shows "ring_ok (qsize q) (rptr_saved q) (rstage_saved q) (wptr q) (wstage q)"
    and "ring_dist (qsize q) (rptr_saved q) (rstage_saved q) (wptr q) (wstage q) =
      fifo_popped q + fifo_fill q"
  using assms ring_dist_trans [of "qsize q" "rptr_saved q" "rstage_saved q" "rptr q" "rstage q"]
  by (auto simp: fifo_inv_def fifo_ring_def fifo_popped_def fifo_fill_def)

lemma is_full_occupied:
  "fifo_inv q \<Longrightarrow> fifo_is_full q \<longleftrightarrow> fifo_popped q + fifo_fill q = qsize q"
  using ring_dist_full [of "qsize q" "rptr q" "rstage q" "wptr q" "wstage q"]
    occupied_saved [of q] ring_dist_full [of "qsize q" "rptr_saved q" "rstage_saved q" "wptr q" "wstage q"]
  by (auto simp: fifo_is_full_def fifo_inv_def fifo_ring_def fifo_fill_def fifo_popped_def)

lemma get_size_occupied:
  assumes "fifo_inv q"
  shows "fifo_get_size q = fifo_popped q + fifo_fill q"
proof (cases "fifo_is_full q")
  case False
  have le: "fifo_popped q + fifo_fill q \<le> qsize q"
    using assms fill_le_size [of q] by (auto simp: fifo_inv_def fifo_popped_def)
  with False is_full_occupied [OF assms] have lt: "fifo_popped q + fifo_fill q < qsize q" by simp
  show ?thesis
  proof (cases "pop_status_save q")
    case True
    with False lt occupied_saved [OF assms True] ring_dist_mod show ?thesis
      by (simp add: fifo_get_size_def)
  next
    case nosave: False
    with False lt assms ring_dist_mod [of "qsize q" "rptr q" "rstage q" "wptr q" "wstage q"]
    show ?thesis by (simp add: fifo_get_size_def fifo_popped_def fifo_fill_def fifo_inv_def fifo_ring_def)
  qed
qed (simp add: assms is_full_occupied fifo_get_size_def)

lemma get_remain_space_occupied:
  "fifo_inv q \<Longrightarrow> fifo_get_remain_space q = qsize q - (fifo_popped q + fifo_fill q)"
  by (simp add: fifo_get_remain_space_def get_size_occupied)

lemma occupied_le_size: "fifo_inv q \<Longrightarrow> fifo_popped q + fifo_fill q \<le> qsize q"
  using fill_le_size [of q] by (auto simp: fifo_inv_def fifo_popped_def)

lemma not_full_fill: "fifo_inv q \<Longrightarrow> \<not> fifo_is_full q \<Longrightarrow> fifo_popped q + fifo_fill q < qsize q"
  using is_full_occupied [of q] occupied_le_size [of q] by linarith

lemma push_full: "fifo_is_full q \<Longrightarrow> fifo_push x q = (False, q)"
  by (simp add: fifo_push_def)

lemma push_ok: "\<not> fifo_is_full q \<Longrightarrow> fst (fifo_push x q)"
  by (simp add: fifo_push_def Let_def)

lemma push_fields:
  "buffer (snd (fifo_push x q)) = (if fifo_is_full q then buffer q else (buffer q)[wptr q := x])"
  "qsize (snd (fifo_push x q)) = qsize q"
  "rptr (snd (fifo_push x q)) = rptr q"
  "rstage (snd (fifo_push x q)) = rstage q"
  "rptr_saved (snd (fifo_push x q)) = rptr_saved q"
  "rstage_saved (snd (fifo_push x q)) = rstage_saved q"
  "pop_status_save (snd (fifo_push x q)) = pop_status_save q"
  "fifo.more (snd (fifo_push x q)) = fifo.more q"
  by (simp_all add: fifo_push_def Let_def)

lemma push_popped [simp]: "fifo_popped (snd (fifo_push x q)) = fifo_popped q"
  by (simp add: fifo_popped_def push_fields)

lemma push_wptr:
  "\<not> fifo_is_full q \<Longrightarrow>
    wptr (snd (fifo_push x q)) = (if Suc (wptr q) \<ge> qsize q then 0 else Suc (wptr q))"
  "\<not> fifo_is_full q \<Longrightarrow>
    wstage (snd (fifo_push x q)) = (if Suc (wptr q) \<ge> qsize q then \<not> wstage q else wstage q)"
  by (simp_all add: fifo_push_def Let_def)

lemma push_fill:
  assumes "fifo_inv q" "\<not> fifo_is_full q"
  shows "fifo_fill (snd (fifo_push x q)) = Suc (fifo_fill q)"
  using not_full_fill [OF assms] assms
    ring_step_right [of "qsize q" "rptr q" "rstage q" "wptr q" "wstage q"]
  by (simp add: fifo_fill_def push_fields push_wptr fifo_inv_def fifo_ring_def)

lemma push_inv:
  assumes "fifo_inv q"
  shows "fifo_inv (snd (fifo_push x q))"
proof (cases "fifo_is_full q")
  case False
  have "fifo_ring (snd (fifo_push x q))"
    using not_full_fill [OF assms False] assms False
      ring_step_right [of "qsize q" "rptr q" "rstage q" "wptr q" "wstage q"]
    by (simp add: fifo_fill_def push_fields push_wptr fifo_inv_def fifo_ring_def)
  then show ?thesis
    using assms False push_fill [of q x] not_full_fill [of q] by (auto simp: fifo_inv_def push_fields)
qed (simp add: assms push_full)

lemma push_ids:
  assumes "fifo_inv q" "\<not> fifo_is_full q"
  shows "fifo_ids (snd (fifo_push x q)) = fifo_ids q @ [wptr q]"
proof -
  have "fifo_ring q" using assms by simp
  with assms show ?thesis
    using rptr_plus_fill [of q] by (simp add: fifo_ids_def push_fill push_fields)
qed

lemma push_contents:
  assumes "fifo_inv q" "\<not> fifo_is_full q"
  shows "fifo_contents (snd (fifo_push x q)) = fifo_contents q @ [x]"
proof -
  have "fifo_ring q" and nf: "fifo_fill q < qsize q" using assms not_full_fill [of q] by auto
  then have "wptr q \<notin> set (fifo_ids q)" "wptr q < length (buffer q)"
    using wptr_not_in_ids fifo_ring_size [of q] by auto
  then show ?thesis using assms
    by (auto simp: fifo_contents_def push_ids push_fields intro!: nth_list_update_neq)
qed

lemma pop_empty: "fifo_is_empty q \<Longrightarrow> fifo_pop q = (None, q)"
  by (simp add: fifo_pop_def)

lemma pop_fields:
  "buffer (snd (fifo_pop q)) = buffer q"
  "qsize (snd (fifo_pop q)) = qsize q"
  "wptr (snd (fifo_pop q)) = wptr q"
  "wstage (snd (fifo_pop q)) = wstage q"
  "rptr_saved (snd (fifo_pop q)) = rptr_saved q"
  "rstage_saved (snd (fifo_pop q)) = rstage_saved q"
  "pop_status_save (snd (fifo_pop q)) = pop_status_save q"
  "fifo.more (snd (fifo_pop q)) = fifo.more q"
  by (simp_all add: fifo_pop_def Let_def)

lemma pop_rptr:
  "\<not> fifo_is_empty q \<Longrightarrow>
    rptr (snd (fifo_pop q)) = (if Suc (rptr q) \<ge> qsize q then 0 else Suc (rptr q))"
  "\<not> fifo_is_empty q \<Longrightarrow>
    rstage (snd (fifo_pop q)) = (if Suc (rptr q) \<ge> qsize q then \<not> rstage q else rstage q)"
  by (simp_all add: fifo_pop_def Let_def)

lemma pop_fill:
  assumes "fifo_ring q"
  shows "fifo_fill (snd (fifo_pop q)) = fifo_fill q - 1"
proof (cases "fifo_is_empty q")
  case False
  with assms is_empty_fill [OF assms]
    ring_step_left [of "qsize q" "rptr q" "rstage q" "wptr q" "wstage q"] show ?thesis
    by (simp add: fifo_fill_def pop_rptr pop_fields fifo_ring_def)
qed (use assms in \<open>simp add: pop_empty is_empty_fill\<close>)

lemma pop_ring:
  assumes "fifo_ring q"
  shows "fifo_ring (snd (fifo_pop q))"
proof (cases "fifo_is_empty q")
  case False
  with assms is_empty_fill [OF assms]
    ring_step_left [of "qsize q" "rptr q" "rstage q" "wptr q" "wstage q"] show ?thesis
    by (simp add: fifo_fill_def pop_rptr pop_fields fifo_ring_def)
qed (use assms in \<open>simp add: pop_empty\<close>)

lemma pop_rptr_mod:
  "fifo_ring q \<Longrightarrow> \<not> fifo_is_empty q \<Longrightarrow> rptr (snd (fifo_pop q)) = (rptr q + 1) mod qsize q"
  using fifo_ring_size [of q] by (auto simp: pop_rptr mod_if)

lemma pop_saved:
  assumes "fifo_inv q" "\<not> fifo_is_empty q" "pop_status_save q"
  shows "ring_ok (qsize q) (rptr_saved q) (rstage_saved q)
           (rptr (snd (fifo_pop q))) (rstage (snd (fifo_pop q)))"
    and "fifo_popped (snd (fifo_pop q)) = Suc (fifo_popped q)"
  using assms is_empty_fill [of q]
    ring_step_right [of "qsize q" "rptr_saved q" "rstage_saved q" "rptr q" "rstage q"]
  by (auto simp: fifo_popped_def pop_rptr pop_fields fifo_inv_def)

lemma pop_popped:
  "fifo_inv q \<Longrightarrow> \<not> fifo_is_empty q \<Longrightarrow>
    fifo_popped (snd (fifo_pop q)) = (if pop_status_save q then Suc (fifo_popped q) else 0)"
  using pop_saved(2) [of q] by (auto simp: fifo_popped_def pop_fields)

lemma pop_inv:
  assumes "fifo_inv q"
  shows "fifo_inv (snd (fifo_pop q))"
proof (cases "fifo_is_empty q")
  case False
  with assms pop_saved [OF assms False] pop_ring [of q] pop_fill [of q] is_empty_fill [of q]
  show ?thesis by (auto simp: fifo_inv_def pop_fields)
qed (use assms in \<open>simp add: pop_empty\<close>)

lemma pop_ids: "fifo_ring q \<Longrightarrow> fifo_ids (snd (fifo_pop q)) = tl (fifo_ids q)"
proof (cases "fifo_is_empty q")
  case False
  assume ring: "fifo_ring q"
  then obtain k where k: "fifo_fill q = Suc k"
    using False is_empty_fill [of q] by (cases "fifo_fill q") auto
  have "fifo_ids (snd (fifo_pop q)) = map (\<lambda>i. (rptr q + 1 + i) mod qsize q) [0..<k]"
    using ring False k by (simp add: fifo_ids_def pop_fill pop_rptr_mod pop_fields mod_add_left_eq)
  also have "\<dots> = tl (fifo_ids q)"
    using k by (intro nth_equalityI) (simp_all add: ids_nth nth_tl)
  finally show ?thesis .
qed (simp add: pop_empty fifo_ids_def is_empty_fill)

lemma pop_contents:
  "fifo_ring q \<Longrightarrow> fifo_contents (snd (fifo_pop q)) = tl (fifo_contents q)"
  by (simp add: fifo_contents_def pop_ids pop_fields map_tl)

lemma ids_Nil: "fifo_ring q \<Longrightarrow> fifo_ids q = [] \<longleftrightarrow> fifo_is_empty q"
  by (metis ids_length is_empty_fill length_0_conv)

lemma contents_Nil: "fifo_ring q \<Longrightarrow> fifo_contents q = [] \<longleftrightarrow> fifo_is_empty q"
  by (simp add: fifo_contents_def ids_Nil)

lemma ids_hd: "fifo_ring q \<Longrightarrow> \<not> fifo_is_empty q \<Longrightarrow> hd (fifo_ids q) = rptr q"
  using ids_nth [of 0 q] fifo_ring_size [of q] is_empty_fill [of q]
  by (subst hd_conv_nth) (auto simp: ids_Nil)

lemma ids_last:
  assumes "fifo_ring q" "\<not> fifo_is_empty q"
  shows "last (fifo_ids q) = (wptr q + qsize q - 1) mod qsize q"
proof -
  obtain k where k: "fifo_fill q = Suc k"
    using assms is_empty_fill [of q] by (cases "fifo_fill q") auto
  then have "last (fifo_ids q) = (rptr q + k) mod qsize q"
    by (simp add: fifo_ids_def)
  also have "\<dots> = (wptr q + qsize q - 1) mod qsize q"
    using rptr_plus_fill [OF assms(1)] fifo_ring_size [OF assms(1)] k
      mod_pred [of "qsize q" "rptr q + k"] by simp
  finally show ?thesis .
qed

lemma pop_value:
  "fifo_ring q \<Longrightarrow> fst (fifo_pop q) =
    (case fifo_contents q of [] \<Rightarrow> None | x # xs \<Rightarrow> Some x)"
  using ids_hd [of q] contents_Nil [of q] ids_Nil [of q]
  by (auto simp: fifo_pop_def Let_def fifo_contents_def split: list.splits)

lemma pop_Cons:
  assumes "fifo_inv q" "fifo_contents q = x # xs"
  shows "\<exists>q1. fifo_pop q = (Some x, q1) \<and> fifo_inv q1 \<and> fifo_contents q1 = xs \<and> \<not> fifo_is_empty q"
proof -
  have "fifo_pop q = (Some x, snd (fifo_pop q))"
    using pop_value [of q] assms by (simp add: prod_eq_iff)
  with assms contents_Nil [of q] pop_inv [of q] pop_contents [of q] show ?thesis by auto
qed

lemma get_front_contents:
  "fifo_ring q \<Longrightarrow> fifo_get_front q = (case fifo_contents q of [] \<Rightarrow> None | x # xs \<Rightarrow> Some x)"
  using pop_value [of q] by (auto simp: fifo_get_front_def fifo_pop_def Let_def)

lemma get_tail_contents:
  "fifo_ring q \<Longrightarrow> fifo_get_tail q =
    (if fifo_contents q = [] then None else Some (last (fifo_contents q)))"
  using ids_last [of q]
  by (auto simp: fifo_get_tail_def contents_Nil fifo_contents_def last_map ids_Nil)

subsection \<open>The contract of a bounded queue\<close>

text \<open>
  What the users of a queue rely on: a push appends while there is room and changes nothing
  otherwise, a pop takes the oldest element. \<open>room\<close> is only promised not to shrink on a pop, since
  in the saved mode a popped slot is given back later.
\<close>

fun push_list :: "('a \<Rightarrow> 'q \<Rightarrow> bool \<times> 'q) \<Rightarrow> 'a list \<Rightarrow> 'q \<Rightarrow> 'q" where
  "push_list push [] q = q"
| "push_list push (x # xs) q = push_list push xs (snd (push x q))"

fun pop_list :: "('q \<Rightarrow> 'a option \<times> 'q) \<Rightarrow> nat \<Rightarrow> 'q \<Rightarrow> 'a list \<times> 'q" where
  "pop_list pop 0 q = ([], q)"
| "pop_list pop (Suc n) q =
     (case pop q of
        (None, q1) \<Rightarrow> ([], q1)
      | (Some x, q1) \<Rightarrow> (case pop_list pop n q1 of (xs, q2) \<Rightarrow> (x # xs, q2)))"

locale bounded_queue =
  fixes inv :: "'q \<Rightarrow> bool" and contents :: "'q \<Rightarrow> 'a list" and room :: "'q \<Rightarrow> nat"
    and push :: "'a \<Rightarrow> 'q \<Rightarrow> bool \<times> 'q" and pop :: "'q \<Rightarrow> 'a option \<times> 'q"
  assumes push_keeps: "inv q \<Longrightarrow> inv (snd (push x q))"
    and push_room: "inv q \<Longrightarrow> 0 < room q \<Longrightarrow>
      fst (push x q) \<and> contents (snd (push x q)) = contents q @ [x] \<and>
      room (snd (push x q)) = room q - 1"
    and push_no_room: "inv q \<Longrightarrow> room q = 0 \<Longrightarrow> push x q = (False, q)"
    and pop_keeps: "inv q \<Longrightarrow> inv (snd (pop q))"
    and pop_Cons: "inv q \<Longrightarrow> contents q = x # xs \<Longrightarrow>
      fst (pop q) = Some x \<and> contents (snd (pop q)) = xs \<and> room q \<le> room (snd (pop q))"
    and pop_Nil: "inv q \<Longrightarrow> contents q = [] \<Longrightarrow> pop q = (None, q)"
begin

lemma push_list_contents:
  "inv q \<Longrightarrow> inv (push_list push xs q) \<and>
    contents (push_list push xs q) = contents q @ take (room q) xs \<and>
    room (push_list push xs q) = room q - length xs"
proof (induction xs arbitrary: q)
  case (Cons x xs)
  show ?case
  proof (cases "room q")
    case 0
    with Cons show ?thesis by (simp add: push_no_room)
  next
    case (Suc k)
    with Cons.IH [of "snd (push x q)"] Cons.prems push_keeps push_room [of q x] show ?thesis
      by simp
  qed
qed simp

lemma pop_list_contents:
  "inv q \<Longrightarrow> fst (pop_list pop n q) = take n (contents q) \<and>
    inv (snd (pop_list pop n q)) \<and>
    contents (snd (pop_list pop n q)) = drop n (contents q)"
proof (induction n arbitrary: q)
  case (Suc n)
  show ?case
  proof (cases "contents q")
    case Nil
    with Suc.prems show ?thesis by (simp add: pop_Nil)
  next
    case (Cons x xs)
    obtain q1 where q1: "pop q = (Some x, q1)"
      using pop_Cons [OF Suc.prems Cons] by (cases "pop q") auto
    with pop_Cons [OF Suc.prems Cons] pop_keeps [OF Suc.prems] Suc.IH [of q1] Cons show ?thesis
      by (auto split: prod.splits)
  qed
qed simp

lemma push_then_pop:
  assumes "inv q" "length xs \<le> room q"
  shows "fst (pop_list pop (length (contents q) + length xs) (push_list push xs q)) =
    contents q @ xs"
  using assms push_list_contents [of q xs] pop_list_contents [of "push_list push xs q"] by simp

end

interpretation fifo_queue: bounded_queue fifo_inv fifo_contents fifo_get_remain_space fifo_push fifo_pop
proof unfold_locales
  fix q :: "('a, 'b) fifo_scheme" and x xs
  assume inv: "fifo_inv q"
  show "fifo_inv (snd (fifo_push x q))" "fifo_inv (snd (fifo_pop q))"
    using inv by (simp_all add: push_inv pop_inv)
  show "fst (fifo_push x q) \<and> fifo_contents (snd (fifo_push x q)) = fifo_contents q @ [x] \<and>
      fifo_get_remain_space (snd (fifo_push x q)) = fifo_get_remain_space q - 1"
    if "0 < fifo_get_remain_space q"
    using inv that
    by (auto simp: get_remain_space_occupied is_full_occupied push_ok push_contents push_inv
      push_fill push_fields)
  show "fifo_push x q = (False, q)" if "fifo_get_remain_space q = 0"
    using inv that occupied_le_size [of q]
    by (simp add: get_remain_space_occupied is_full_occupied push_full)
  show "fst (fifo_pop q) = Some x \<and> fifo_contents (snd (fifo_pop q)) = xs \<and>
      fifo_get_remain_space q \<le> fifo_get_remain_space (snd (fifo_pop q))"
    if "fifo_contents q = x # xs"
    using inv that contents_Nil [of q] pop_popped [of q] contents_length [of q]
    by (auto simp del: contents_length simp: pop_value pop_contents get_remain_space_occupied pop_inv pop_fill pop_fields
      fifo_popped_def)
  show "fifo_pop q = (None, q)" if "fifo_contents q = []"
    using inv that by (simp add: contents_Nil pop_empty)
qed

subsection \<open>Walking the live slots\<close>

text \<open>
  The classes derived from \<open>fifo\<close> address their elements by slot. Their common contract: the
  live slots in queue order, a test for being live, the first slot, and the successor, which
  aborts on a slot that is not live and otherwise tells whether the next one is.
\<close>

locale id_ring =
  fixes inv :: "'q \<Rightarrow> bool" and ids :: "'q \<Rightarrow> nat list" and valid :: "'q \<Rightarrow> nat \<Rightarrow> bool"
    and front_id :: "'q \<Rightarrow> nat option" and next_id :: "'q \<Rightarrow> nat \<Rightarrow> (bool \<times> nat) option"
  assumes distinct_ids: "inv q \<Longrightarrow> distinct (ids q)"
    and valid_iff: "inv q \<Longrightarrow> valid q i \<longleftrightarrow> i \<in> set (ids q)"
    and front_id_hd: "inv q \<Longrightarrow> front_id q = (if ids q = [] then None else Some (hd (ids q)))"
    and next_id_not_valid: "inv q \<Longrightarrow> i \<notin> set (ids q) \<Longrightarrow> next_id q i = None"
    and next_id_Suc: "inv q \<Longrightarrow> Suc i < length (ids q) \<Longrightarrow>
      next_id q (ids q ! i) = Some (True, ids q ! Suc i)"
    and next_id_last: "inv q \<Longrightarrow> ids q \<noteq> [] \<Longrightarrow>
      \<exists>ok y. next_id q (last (ids q)) = Some (ok, y) \<and> (ok \<longrightarrow> y = hd (ids q))"
begin

text \<open>
  The loop over the queue: its body may change the state (and the elements of the queue in it), but
  not which slots are live. It returns, and what it returns is the fold over the live slots.
\<close>

lemma walk:
  assumes "xs \<noteq> []" "I s"
    and I: "\<And>s. I s \<Longrightarrow> inv (queue s) \<and> ids (queue s) = xs"
    and body: "\<And>x s. x \<in> set xs \<Longrightarrow> I s \<Longrightarrow> body x s = Some (f x s) \<and> I (snd (f x s))"
  shows "do_while body (\<lambda>s i. next_id (queue s) i) (\<lambda>i. i = hd xs) (hd xs) s =
    Some (fold_break f xs s)"
proof (rule do_while_fold_break [where I = I])
  show "next_id (queue s) (xs ! i) = Some (True, xs ! Suc i) \<and> xs ! Suc i \<noteq> hd xs"
    if "Suc i < length xs" "I s" for i s
  proof -
    have "hd xs = xs ! 0" using assms(1) by (rule hd_conv_nth)
    then show ?thesis
      using that I [of s] next_id_Suc [of "queue s" i] distinct_ids [of "queue s"]
        nth_eq_iff_index_eq [of xs "Suc i" 0] assms(1) by auto
  qed
  show "\<exists>ok y. next_id (queue s) (last xs) = Some (ok, y) \<and> (ok \<longrightarrow> y = hd xs)" if "I s" for s
    using that I [of s] next_id_last [of "queue s"] assms(1) by auto
qed (use assms body in auto)

end

text \<open>The id operations of a plain \<open>fifo\<close>, which each derived class writes out again.\<close>

definition id_live :: "('a, 'b) fifo_scheme \<Rightarrow> nat \<Rightarrow> bool" where
  "id_live q i \<longleftrightarrow> \<not> fifo_is_empty q \<and>
     (if wstage q = rstage q then rptr q \<le> i \<and> i < wptr q
      else rptr q \<le> i \<and> i < qsize q \<or> i < wptr q)"

definition id_front :: "('a, 'b) fifo_scheme \<Rightarrow> nat option" where
  "id_front q = (if fifo_is_empty q then None else Some (rptr q))"

definition id_next :: "('a, 'b) fifo_scheme \<Rightarrow> nat \<Rightarrow> (bool \<times> nat) option" where
  "id_next q i = do {
     assert_that (id_live q i);
     Some (id_live q ((i + 1) mod qsize q), (i + 1) mod qsize q) }"

lemma id_live_iff: "fifo_ring q \<Longrightarrow> id_live q i \<longleftrightarrow> i \<in> set (fifo_ids q)"
  by (auto simp: id_live_def ids_set fifo_is_empty_def)

lemma id_next_Suc:
  assumes "fifo_ring q" "Suc i < length (fifo_ids q)"
  shows "id_next q (fifo_ids q ! i) = Some (True, fifo_ids q ! Suc i)"
proof -
  have "fifo_ids q ! i \<in> set (fifo_ids q)" "fifo_ids q ! Suc i \<in> set (fifo_ids q)"
    using assms(2) by (auto intro: nth_mem Suc_lessD)
  moreover have "(fifo_ids q ! i + 1) mod qsize q = fifo_ids q ! Suc i"
    using assms(2) by (simp add: ids_nth mod_Suc_eq)
  ultimately show ?thesis using assms(1) by (simp add: id_next_def id_live_iff)
qed

lemma id_next_last:
  assumes "fifo_ring q" "fifo_ids q \<noteq> []"
  shows "id_next q (last (fifo_ids q)) = Some (wptr q \<in> set (fifo_ids q), wptr q)"
proof -
  have "(last (fifo_ids q) + 1) mod qsize q = wptr q"
    using assms fifo_ring_size [of q] by (simp add: ids_last ids_Nil mod_Suc_eq)
  with assms show ?thesis by (simp add: id_next_def id_live_iff)
qed

lemma wptr_live_full: "fifo_ring q \<Longrightarrow> wptr q \<in> set (fifo_ids q) \<Longrightarrow> wptr q = rptr q"
  using wptr_not_in_ids [of q] fill_le_size [of q] rptr_plus_fill [of q] fifo_ring_size [of q]
  by (metis le_neq_implies_less mod_add_self2 mod_less)

lemma id_ring_fifo:
  "id_ring fifo_ring (fifo_ids :: ('a, 'b) fifo_scheme \<Rightarrow> nat list) id_live id_front id_next"
proof unfold_locales
  fix q :: "('a, 'b) fifo_scheme" and i
  assume ring: "fifo_ring q"
  show "distinct (fifo_ids q)" using ring by (rule ids_distinct)
  show "id_live q i \<longleftrightarrow> i \<in> set (fifo_ids q)" using ring by (rule id_live_iff)
  show "id_front q = (if fifo_ids q = [] then None else Some (hd (fifo_ids q)))"
    using ring by (simp add: id_front_def ids_Nil ids_hd)
  show "id_next q i = None" if "i \<notin> set (fifo_ids q)"
    using ring that by (simp add: id_next_def id_live_iff)
  show "id_next q (fifo_ids q ! i) = Some (True, fifo_ids q ! Suc i)" if "Suc i < length (fifo_ids q)"
    using ring that by (rule id_next_Suc)
  show "\<exists>ok y. id_next q (last (fifo_ids q)) = Some (ok, y) \<and> (ok \<longrightarrow> y = hd (fifo_ids q))"
    if "fifo_ids q \<noteq> []"
    using ring that wptr_live_full [of q] by (simp add: id_next_last ids_hd ids_Nil)
qed

text \<open>Writing a live slot keeps the slots and changes the element at that place only.\<close>

lemma slot_update_ring [simp]:
  "fifo_ring (q \<lparr> buffer := (buffer q)[i := x] \<rparr>) = fifo_ring q"
  "fifo_inv (q \<lparr> buffer := (buffer q)[i := x] \<rparr>) = fifo_inv q"
  "fifo_ids (q \<lparr> buffer := (buffer q)[i := x] \<rparr>) = fifo_ids q"
  "fifo_is_empty (q \<lparr> buffer := (buffer q)[i := x] \<rparr>) = fifo_is_empty q"
  "fifo_is_full (q \<lparr> buffer := (buffer q)[i := x] \<rparr>) = fifo_is_full q"
  by (simp_all add: ring_simps fifo_ids_def fifo_is_empty_def fifo_is_full_def)

lemma slot_update_contents:
  assumes "fifo_ring q" "k < fifo_fill q"
  shows "fifo_contents (q \<lparr> buffer := (buffer q)[fifo_ids q ! k := x] \<rparr>) = (fifo_contents q)[k := x]"
proof (rule nth_equalityI)
  show "length (fifo_contents (q \<lparr> buffer := (buffer q)[fifo_ids q ! k := x] \<rparr>)) =
      length ((fifo_contents q)[k := x])"
    by (simp add: fifo_fill_def)
next
  fix i assume "i < length (fifo_contents (q \<lparr> buffer := (buffer q)[fifo_ids q ! k := x] \<rparr>))"
  then have i: "i < length (fifo_ids q)" by (simp add: fifo_fill_def)
  with assms ids_distinct [OF assms(1)] ids_less [OF assms(1)] fifo_ring_size [OF assms(1)]
  show "fifo_contents (q \<lparr> buffer := (buffer q)[fifo_ids q ! k := x] \<rparr>) ! i =
      (fifo_contents q)[k := x] ! i"
    by (auto simp: fifo_contents_def nth_list_update nth_eq_iff_index_eq)
qed

subsection \<open>Positions\<close>

text \<open>The position \<open>k\<close> places after the read position.\<close>

definition ring_pos :: "('a, 'b) fifo_scheme \<Rightarrow> nat \<Rightarrow> nat \<times> bool" where
  "ring_pos q k = ((rptr q + k) mod qsize q, (qsize q \<le> rptr q + k) \<noteq> rstage q)"

definition fifo_positions :: "('a, 'b) fifo_scheme \<Rightarrow> (nat \<times> bool) list" where
  "fifo_positions q = map (ring_pos q) [0..<fifo_fill q]"

lemma positions_nth: "k < fifo_fill q \<Longrightarrow> fifo_positions q ! k = (fifo_ids q ! k, snd (ring_pos q k))"
  by (simp add: fifo_positions_def ring_pos_def ids_nth)

lemma positions_length [simp]: "length (fifo_positions q) = fifo_fill q"
  by (simp add: fifo_positions_def)

lemma ring_pos_Suc:
  assumes "fifo_ring q" "k < fifo_fill q"
  shows "ring_pos q (Suc k) =
    ((fst (ring_pos q k) + 1) mod qsize q, (fst (ring_pos q k) + 1 \<ge> qsize q) \<noteq> snd (ring_pos q k))"
proof -
  let ?n = "qsize q" and ?r = "rptr q"
  have n: "?r < ?n" "k < ?n" using fifo_ring_size [OF assms(1)] fill_le_size [OF assms(1)] assms(2) by auto
  show ?thesis
  proof (cases "?r + k < ?n")
    case True
    then show ?thesis by (simp add: ring_pos_def mod_Suc_eq Suc_le_eq le_Suc_eq)
  next
    case False
    then have "(?r + k) mod ?n = ?r + k - ?n" using n by (simp add: mod_if)
    with False n show ?thesis by (auto simp: ring_pos_def mod_if)
  qed
qed

text \<open>Cutting the queue at a position: the write position moves there and the prefix stays.\<close>

lemma cut_at_position:
  assumes "fifo_ring q" "k \<le> fifo_fill q"
  defines "q1 \<equiv> q \<lparr> wptr := fst (ring_pos q k), wstage := snd (ring_pos q k) \<rparr>"
  shows "fifo_ring q1" "fifo_fill q1 = k" "fifo_ids q1 = take k (fifo_ids q)"
proof -
  let ?n = "qsize q" and ?r = "rptr q"
  have n: "?r < ?n" "k \<le> ?n" using fifo_ring_size [OF assms(1)] fill_le_size [OF assms(1)] assms(2) by auto
  show "fifo_ring q1"
    using assms(1) n by (cases "?r + k < ?n") (auto simp: q1_def ring_pos_def fifo_ring_def ring_ok_def mod_if)
  show fill: "fifo_fill q1 = k"
    using n by (cases "?r + k < ?n") (auto simp: q1_def ring_pos_def fifo_fill_def ring_dist_def mod_if)
  show "fifo_ids q1 = take k (fifo_ids q)"
  proof (rule nth_equalityI)
    show "length (fifo_ids q1) = length (take k (fifo_ids q))" using fill assms(2) by simp
    fix i assume "i < length (fifo_ids q1)"
    with fill assms(2) show "fifo_ids q1 ! i = take k (fifo_ids q) ! i"
      by (simp add: ids_nth) (simp add: q1_def)
  qed
qed

lemma buffer_update_same [simp]:
  "fifo_ids (q \<lparr> buffer := b \<rparr>) = fifo_ids q" "fifo_fill (q \<lparr> buffer := b \<rparr>) = fifo_fill q"
  "fifo_is_empty (q \<lparr> buffer := b \<rparr>) = fifo_is_empty q" "ring_pos (q \<lparr> buffer := b \<rparr>) = ring_pos q"
  by (simp_all add: fifo_ids_def fifo_fill_def fifo_is_empty_def ring_pos_def fun_eq_iff)

subsection \<open>Slots not yet in use\<close>

text \<open>
  The derived classes can also announce the slots the next pushes will take: the write pointer, then
  its successors as long as they are free.
\<close>

definition id_free :: "('a, 'b) fifo_scheme \<Rightarrow> nat \<Rightarrow> bool" where
  "id_free q i \<longleftrightarrow> \<not> fifo_is_full q \<and>
     (if wstage q = rstage q then \<not> (rptr q \<le> i \<and> i < wptr q)
      else \<not> (rptr q \<le> i \<and> i < qsize q \<or> i < wptr q))"

definition id_new :: "('a, 'b) fifo_scheme \<Rightarrow> nat option" where
  "id_new q = (if fifo_is_full q then None else Some (wptr q))"

definition id_next_new :: "('a, 'b) fifo_scheme \<Rightarrow> nat \<Rightarrow> nat option" where
  "id_next_new q i =
     (if id_free q i \<and> id_free q ((i + 1) mod qsize q) then Some ((i + 1) mod qsize q) else None)"

text \<open>The ids a client collects by asking for the first and then \<open>k\<close> times for the next.\<close>

fun new_ids :: "('q \<Rightarrow> nat \<Rightarrow> nat option) \<Rightarrow> 'q \<Rightarrow> nat \<Rightarrow> nat option \<Rightarrow> nat list" where
  "new_ids nxt q 0 cur = []"
| "new_ids nxt q (Suc k) None = []"
| "new_ids nxt q (Suc k) (Some i) = i # new_ids nxt q k (nxt q i)"

fun push_slots :: "('a \<Rightarrow> 'q \<Rightarrow> bool \<times> nat \<times> 'q) \<Rightarrow> 'a list \<Rightarrow> 'q \<Rightarrow> nat list" where
  "push_slots push [] q = []"
| "push_slots push (x # xs) q =
     (case push x q of (ok, i, q1) \<Rightarrow> if ok then i # push_slots push xs q1 else [])"

lemma id_free_iff: "fifo_ring q \<Longrightarrow> id_free q i \<longleftrightarrow> \<not> fifo_is_full q \<and> i \<notin> set (fifo_ids q)"
  by (auto simp: id_free_def ids_set)

lemma shifted_slot_free:
  assumes "fifo_ring q" "k < qsize q"
  shows "(wptr q + k) mod qsize q \<notin> set (fifo_ids q) \<longleftrightarrow> k < qsize q - fifo_fill q"
proof -
  let ?n = "qsize q" and ?f = "fifo_fill q"
  have f: "?f \<le> ?n" using assms(1) by (rule fill_le_size)
  have w: "(wptr q + k) mod ?n = (rptr q + (?f + k)) mod ?n"
    using rptr_plus_fill [OF assms(1)] by (metis add.assoc mod_add_left_eq)
  show ?thesis
  proof (cases "?f + k < ?n")
    case True
    then have "(rptr q + (?f + k)) mod ?n \<notin> set (fifo_ids q)"
      using f by (auto simp: fifo_ids_def dest!: mod_shift_inj)
    with w True show ?thesis by simp
  next
    case False
    then have "(rptr q + (?f + k)) mod ?n = (rptr q + (?f + k - ?n)) mod ?n"
      by (metis add.assoc le_add_diff_inverse2 mod_add_self2 not_le_imp_less)
    moreover have "?f + k - ?n < ?f" using False assms(2) by linarith
    ultimately have "(wptr q + k) mod ?n \<in> set (fifo_ids q)" using w by (auto simp: fifo_ids_def)
    with False show ?thesis by simp
  qed
qed

lemma free_slots:
  "fifo_inv q \<Longrightarrow> \<not> pop_status_save q \<Longrightarrow> fifo_get_remain_space q = qsize q - fifo_fill q"
  by (simp add: get_remain_space_occupied fifo_popped_def)

lemma new_ids_shifted:
  assumes "fifo_inv q" "\<not> pop_status_save q" "j + k \<le> fifo_get_remain_space q" "0 < k"
  shows "new_ids id_next_new q k (Some ((wptr q + j) mod qsize q)) =
    map (\<lambda>i. (wptr q + j + i) mod qsize q) [0..<k]"
  using assms(3,4)
proof (induction k arbitrary: j)
  case (Suc k)
  have ring: "fifo_ring q" and room: "fifo_get_remain_space q = qsize q - fifo_fill q"
    using assms(1,2) free_slots by auto
  have nf: "\<not> fifo_is_full q"
    using Suc.prems room assms(1,2) by (auto simp: is_full_occupied fifo_popped_def)
  show ?case
  proof (cases k)
    case (Suc k')
    have "id_next_new q ((wptr q + j) mod qsize q) = Some ((wptr q + Suc j) mod qsize q)"
      using Suc Suc.prems room ring nf shifted_slot_free [OF ring, of j] shifted_slot_free [OF ring, of "Suc j"]
      by (simp add: id_next_new_def id_free_iff mod_Suc_eq)
    with Suc.IH [of "Suc j"] Suc.prems Suc show ?thesis
      by (simp add: map_upt_Suc del: upt_Suc)
  qed simp
qed simp

lemma new_ids_preview:
  assumes "fifo_inv q" "\<not> pop_status_save q" "k \<le> fifo_get_remain_space q"
  shows "new_ids id_next_new q k (id_new q) = map (\<lambda>i. (wptr q + i) mod qsize q) [0..<k]"
proof (cases k)
  case (Suc k')
  have "\<not> fifo_is_full q"
    using assms Suc free_slots [of q] by (auto simp: is_full_occupied fifo_popped_def)
  moreover have "wptr q mod qsize q = wptr q" using fifo_ring_size [of q] assms(1) by simp
  ultimately show ?thesis using new_ids_shifted [OF assms(1,2), of 0 k] assms(3) Suc
    by (simp add: id_new_def)
qed simp

lemma push_slots_shifted:
  assumes "fifo_inv q" "length xs \<le> fifo_get_remain_space q"
    and push: "\<And>x q. push x q = (fst (fifo_push x q), wptr q, snd (fifo_push x q))"
  shows "push_slots push xs q = map (\<lambda>i. (wptr q + i) mod qsize q) [0..<length xs]"
  using assms(1,2)
proof (induction xs arbitrary: q)
  case (Cons x xs)
  have room: "0 < fifo_get_remain_space q" using Cons.prems by auto
  then have nf: "\<not> fifo_is_full q"
    using Cons.prems(1) by (auto simp: is_full_occupied get_remain_space_occupied)
  have w: "wptr (snd (fifo_push x q)) = (wptr q + 1) mod qsize q"
    using nf fifo_ring_size [of q] Cons.prems(1) by (auto simp: push_wptr mod_if)
  have "push_slots push xs (snd (fifo_push x q)) =
      map (\<lambda>i. ((wptr q + 1) mod qsize q + i) mod qsize q) [0..<length xs]"
    using Cons.IH [of "snd (fifo_push x q)"] Cons.prems w fifo_queue.push_room [OF Cons.prems(1) room]
    by (simp add: push_inv push_fields)
  moreover have "wptr q mod qsize q = wptr q" using fifo_ring_size [of q] Cons.prems(1) by simp
  ultimately show ?case using nf
    by (simp add: push [of x q] push_ok map_upt_Suc mod_add_left_eq del: upt_Suc)
qed simp

subsection \<open>Refinement of a list queue\<close>

text \<open>
  A client sees a queue through the results of its calls. The specification keeps a list and the
  number \<open>k\<close> of elements popped in the current cycle whose slots are not given back yet.

  A flush leaves the saved read position where it was. In the saved-pop mode the queue is therefore only usable again after the
  \<open>reset_pop_status\<close> at the start of the next cycle; before it, even an empty queue may count as full. The core keeps to this: the
  stage that flushes the queue is the last one to use it in the cycle. \<open>flushes_settled\<close> states the rule for a sequence of calls.
\<close>

datatype 'a fifo_call = Push 'a | Pop | Get_front | Get_tail | Get_size | Is_empty | Is_full
  | Next_cycle | Flush

datatype 'a fifo_result = Ret_bool bool | Ret_item "'a option" | Ret_size nat | Ret_unit

fun fifo_exec :: "'a fifo_call \<Rightarrow> ('a, 'b) fifo_scheme \<Rightarrow> 'a fifo_result \<times> ('a, 'b) fifo_scheme" where
  "fifo_exec (Push x) q = (case fifo_push x q of (b, q1) \<Rightarrow> (Ret_bool b, q1))"
| "fifo_exec Pop q = (case fifo_pop q of (r, q1) \<Rightarrow> (Ret_item r, q1))"
| "fifo_exec Get_front q = (Ret_item (fifo_get_front q), q)"
| "fifo_exec Get_tail q = (Ret_item (fifo_get_tail q), q)"
| "fifo_exec Get_size q = (Ret_size (fifo_get_size q), q)"
| "fifo_exec Is_empty q = (Ret_bool (fifo_is_empty q), q)"
| "fifo_exec Is_full q = (Ret_bool (fifo_is_full q), q)"
| "fifo_exec Next_cycle q = (Ret_unit, reset_pop_status q)"
| "fifo_exec Flush q = (Ret_unit, fifo_flush q)"

fun list_exec :: "nat \<Rightarrow> bool \<Rightarrow> 'a fifo_call \<Rightarrow> nat \<times> 'a list \<Rightarrow> 'a fifo_result \<times> (nat \<times> 'a list)" where
  "list_exec n save (Push x) (k, xs) =
     (if k + length xs < n then (Ret_bool True, (k, xs @ [x])) else (Ret_bool False, (k, xs)))"
| "list_exec n save Pop (k, xs) =
     (case xs of [] \<Rightarrow> (Ret_item None, (k, xs))
      | y # ys \<Rightarrow> (Ret_item (Some y), (if save then k + 1 else 0, ys)))"
| "list_exec n save Get_front (k, xs) =
     (Ret_item (case xs of [] \<Rightarrow> None | y # ys \<Rightarrow> Some y), (k, xs))"
| "list_exec n save Get_tail (k, xs) =
     (Ret_item (if xs = [] then None else Some (last xs)), (k, xs))"
| "list_exec n save Get_size (k, xs) = (Ret_size (k + length xs), (k, xs))"
| "list_exec n save Is_empty (k, xs) = (Ret_bool (xs = []), (k, xs))"
| "list_exec n save Is_full (k, xs) = (Ret_bool (k + length xs = n), (k, xs))"
| "list_exec n save Next_cycle (k, xs) = (Ret_unit, (0, xs))"
| "list_exec n save Flush (k, xs) = (Ret_unit, (0, []))"

fun flushes_settled :: "'a fifo_call list \<Rightarrow> bool" where
  "flushes_settled [] \<longleftrightarrow> True"
| "flushes_settled [c] \<longleftrightarrow> c \<noteq> Flush"
| "flushes_settled (c # d # cs) \<longleftrightarrow> (c = Flush \<longrightarrow> d = Next_cycle) \<and> flushes_settled (d # cs)"

fun run_calls :: "('c \<Rightarrow> 's \<Rightarrow> 'r \<times> 's) \<Rightarrow> 'c list \<Rightarrow> 's \<Rightarrow> 'r list \<times> 's" where
  "run_calls exec [] s = ([], s)"
| "run_calls exec (c # cs) s =
     (case exec c s of (r, s1) \<Rightarrow> case run_calls exec cs s1 of (rs, s2) \<Rightarrow> (r # rs, s2))"

lemma reset_pop_status_popped [simp]: "fifo_popped (reset_pop_status q) = 0"
  by (simp add: fifo_popped_def reset_pop_status_def ring_dist_def)

lemma fifo_exec_simulates:
  assumes inv: "fifo_inv q \<and> qsize q = n \<and> pop_status_save q = save" and c: "save \<longrightarrow> c \<noteq> Flush"
  shows "(fifo_inv (snd (fifo_exec c q)) \<and> qsize (snd (fifo_exec c q)) = n \<and>
      pop_status_save (snd (fifo_exec c q)) = save) \<and>
    fst (list_exec n save c (fifo_popped q, fifo_contents q)) = fst (fifo_exec c q) \<and>
    snd (list_exec n save c (fifo_popped q, fifo_contents q)) =
      (fifo_popped (snd (fifo_exec c q)), fifo_contents (snd (fifo_exec c q)))"
proof -
  from inv have i: "fifo_inv q" and ring: "fifo_ring q" by auto
  show ?thesis
  proof (cases c)
    case (Push x)
    with inv show ?thesis
      using push_inv [OF i, of x] push_contents [OF i, of x] is_full_occupied [OF i] not_full_fill [OF i]
        push_full [of q x] push_ok [of q x]
      by (cases "fifo_is_full q") (auto simp: push_fields case_prod_unfold)
  next
    case Pop
    with inv show ?thesis
      using pop_inv [OF i] pop_contents [OF ring] pop_value [OF ring] pop_popped [OF i]
        contents_Nil [OF ring] pop_empty [of q]
      by (cases "fifo_contents q") (auto simp: pop_fields case_prod_unfold)
  next
    case Next_cycle
    with inv ring show ?thesis by (simp add: reset_pop_status_inv) (simp add: reset_pop_status_def)
  next
    case Flush
    with inv c flush_ring [OF ring] show ?thesis by (auto simp: fifo_inv_def fifo_popped_def) (simp_all add: fifo_flush_def)
  qed (use inv i ring in \<open>auto simp: get_front_contents get_tail_contents get_size_occupied
        contents_Nil is_full_occupied\<close>)
qed

lemma flush_next_cycle:
  assumes "fifo_inv q" "qsize q = n" "pop_status_save q = save"
  shows "fifo_inv (reset_pop_status (fifo_flush q)) \<and> qsize (reset_pop_status (fifo_flush q)) = n \<and>
    pop_status_save (reset_pop_status (fifo_flush q)) = save \<and> fifo_contents (reset_pop_status (fifo_flush q)) = []"
  using assms flush_ring [of q] by (simp add: reset_pop_status_inv) (simp add: reset_pop_status_def fifo_flush_def)

lemma run_calls_simulates:
  assumes "fifo_inv q \<and> qsize q = n \<and> pop_status_save q = save" "save \<longrightarrow> flushes_settled cs"
  shows "fifo_inv (snd (run_calls fifo_exec cs q)) \<and>
    fst (run_calls (list_exec n save) cs (fifo_popped q, fifo_contents q)) = fst (run_calls fifo_exec cs q) \<and>
    snd (run_calls (list_exec n save) cs (fifo_popped q, fifo_contents q)) =
      (fifo_popped (snd (run_calls fifo_exec cs q)), fifo_contents (snd (run_calls fifo_exec cs q)))"
  using assms
proof (induction "length cs" arbitrary: cs q rule: less_induct)
  case less
  show ?case
  proof (cases cs)
    case (Cons c ds)
    show ?thesis
    proof (cases "save \<and> c = Flush")
      case True
      with less.prems(2) Cons obtain es where ds: "ds = Next_cycle # es" "flushes_settled es"
        by (cases ds; cases "tl ds") auto
      have "length es < length cs" using Cons ds by simp
      from less.hyps [OF this, of "reset_pop_status (fifo_flush q)"] flush_next_cycle [of q n save] less.prems(1) ds(2)
      show ?thesis using True Cons ds by (simp add: case_prod_unfold)
    next
      case False
      have "save \<longrightarrow> flushes_settled ds" using less.prems(2) Cons by (cases ds) auto
      moreover note S = fifo_exec_simulates [OF less.prems(1), of c]
      ultimately have "fst (run_calls (list_exec n save) ds (snd (list_exec n save c (fifo_popped q, fifo_contents q)))) =
          fst (run_calls fifo_exec ds (snd (fifo_exec c q))) \<and>
        snd (run_calls (list_exec n save) ds (snd (list_exec n save c (fifo_popped q, fifo_contents q)))) =
          (fifo_popped (snd (run_calls fifo_exec ds (snd (fifo_exec c q)))), fifo_contents (snd (run_calls fifo_exec ds (snd (fifo_exec c q))))) \<and>
        fifo_inv (snd (run_calls fifo_exec ds (snd (fifo_exec c q))))"
        using less.hyps [of ds "snd (fifo_exec c q)"] Cons False by auto
      then show ?thesis using S False Cons by (simp add: case_prod_unfold)
    qed
  qed (use less.prems in simp)
qed

subsection \<open>Properties\<close>

text \<open>C20: A ring buffer returns on a sequence of calls what the bounded list queue returns on them, and is left with the
  corresponding contents. In the plain mode this holds for every sequence; in the saved-pop mode, in which the elements popped in a cycle
  keep their slots until its end, for the sequences in which a flush is the last call of its cycle.\<close>

theorem fifo_refines_list_queue:
  assumes "fifo_inv q" "pop_status_save q \<longrightarrow> flushes_settled cs"
  shows "fst (run_calls fifo_exec cs q) =
      fst (run_calls (list_exec (qsize q) (pop_status_save q)) cs (fifo_popped q, fifo_contents q)) \<and>
    fifo_contents (snd (run_calls fifo_exec cs q)) =
      snd (snd (run_calls (list_exec (qsize q) (pop_status_save q)) cs (fifo_popped q, fifo_contents q))) \<and>
    fifo_inv (snd (run_calls fifo_exec cs q))"
  using run_calls_simulates [of q "qsize q" "pop_status_save q" cs] assms by auto

theorem fifo_refines_list_queue_witness:
  "let q = set_pop_status_save True (fifo_new 2 [0, 0 :: nat] 7 True);
       cs = [Push 5, Push 6, Pop, Push 8, Next_cycle, Push 8, Get_tail, Get_size, Flush, Next_cycle, Get_size]
   in fst (run_calls fifo_exec cs q) =
      [Ret_bool True, Ret_bool True, Ret_item (Some 5), Ret_bool False, Ret_unit, Ret_bool True,
       Ret_item (Some 8), Ret_size 2, Ret_unit, Ret_unit, Ret_size 0]"
proof -
  have "fifo_inv (set_pop_status_save True (fifo_new 2 [0, 0 :: nat] 7 True))"
    by (intro set_pop_status_save_inv fifo_inv_ring fifo_new_inv) simp_all
  from fifo_refines_list_queue [OF this] show ?thesis
    by (simp add: fifo_defs fifo_popped_def fifo_fill_def ring_dist_def fifo_contents_def fifo_ids_def)
qed

text \<open>In the saved-pop mode a push never writes a slot that was occupied at the last
  \<open>reset_pop_status\<close>, whether or not it has been popped since: the elements read in a cycle
  stay readable through that cycle.\<close>

theorem push_keeps_saved_slots:
  assumes "fifo_inv q" "pop_status_save q" "i < fifo_get_size q"
  shows "buffer (snd (fifo_push x q)) ! ((rptr_saved q + i) mod qsize q) =
    buffer q ! ((rptr_saved q + i) mod qsize q)"
proof (cases "fifo_is_full q")
  case False
  let ?d = "ring_dist (qsize q) (rptr_saved q) (rstage_saved q) (wptr q) (wstage q)"
  have ok: "ring_ok (qsize q) (rptr_saved q) (rstage_saved q) (wptr q) (wstage q)"
    and d: "?d = fifo_get_size q" "?d < qsize q"
    using occupied_saved [OF assms(1,2)] get_size_occupied [OF assms(1)] not_full_fill [OF assms(1) False]
    by auto
  then have "(rptr_saved q + ?d) mod qsize q = wptr q"
    by (intro ring_dist_end)
  then have "(rptr_saved q + i) mod qsize q \<noteq> wptr q"
    using mod_shift_inj [of "rptr_saved q" i "qsize q" ?d] d assms(3) by auto
  with False show ?thesis by (simp add: push_fields)
qed (simp add: push_fields)

theorem push_keeps_saved_slots_witness:
  "let q = snd (fifo_pop (snd (fifo_push (5 :: nat) (set_pop_status_save True (fifo_new 2 [0, 0] 7 True)))))
   in buffer (snd (fifo_push 9 q)) ! ((rptr_saved q + 0) mod qsize q) = 5 \<and> fifo_contents q = []"
proof -
  let ?q = "snd (fifo_pop (snd (fifo_push (5 :: nat) (set_pop_status_save True (fifo_new 2 [0, 0] 7 True)))))"
  have "fifo_inv ?q"
    by (intro pop_inv push_inv set_pop_status_save_inv fifo_inv_ring fifo_new_inv) simp_all
  moreover have "pop_status_save ?q" "0 < fifo_get_size ?q" "buffer ?q ! ((rptr_saved ?q + 0) mod qsize ?q) = 5"
    "fifo_contents ?q = []"
    by (simp_all add: fifo_defs fifo_contents_def fifo_ids_def fifo_fill_def ring_dist_def)
  ultimately show ?thesis using push_keeps_saved_slots [of ?q 0 9] by (simp only: Let_def simp_thms)
qed

end
