(* ===== verification/Rob.thy ===== *)
theory Rob
  imports Fifo Common
begin

text \<open>
  \<open>component/rob.h\<close>: the reorder buffer, a ring buffer of \<open>rob_item_t\<close> addressed by slot. Rename takes
  slots at the tail, write back marks them finished through \<open>set_item_sync\<close>, commit retires from the
  head through \<open>pop_sync\<close> and walks back from the tail when it rolls instructions back.
\<close>

record rob_item_t =
  rob_new_phy_reg_id :: nat
  rob_old_phy_reg_id :: nat
  rob_old_phy_reg_id_valid :: bool
  rob_finish :: bool
  rob_pc :: u32
  rob_inst_value :: u32
  rob_has_exception :: bool
  rob_exception_id :: riscv_exception_t
  rob_exception_value :: u32
  rob_predicted :: bool
  rob_predicted_jump :: bool
  rob_predicted_next_pc :: u32
  rob_checkpoint_id_valid :: bool
  rob_checkpoint_id :: nat
  rob_bru_op :: bool
  rob_bru_jump :: bool
  rob_bru_next_pc :: u32
  rob_is_mret :: bool
  rob_csr_addr :: u32
  rob_csr_newvalue :: u32
  rob_csr_newvalue_valid :: bool

datatype rob_request = Rob_pop | Rob_set_item nat rob_item_t

record rob = "rob_item_t fifo" +
  rob_sync_request_q :: "rob_request list"
  rob_committed :: bool
  rob_commit_num :: u32
  rob_global_commit_num :: u64

definition rob_new :: "nat \<Rightarrow> rob_item_t list \<Rightarrow> nat \<Rightarrow> bool \<Rightarrow> rob" where
  "rob_new n mem rp rs = fifo.extend (fifo_new n mem rp rs) (rob.fields [] False 0 0)"

definition rob_check_new_id_valid :: "rob \<Rightarrow> nat \<Rightarrow> bool" where
  "rob_check_new_id_valid q i \<longleftrightarrow>
     (if fifo_is_full q then False
      else if wstage q = rstage q then \<not> (i \<ge> rptr q \<and> i < wptr q)
      else \<not> (i \<ge> rptr q \<and> i < qsize q \<or> i < wptr q))"

definition rob_check_id_valid :: "rob \<Rightarrow> nat \<Rightarrow> bool" where
  "rob_check_id_valid q i \<longleftrightarrow>
     (if fifo_is_empty q then False
      else if wstage q = rstage q then i \<ge> rptr q \<and> i < wptr q
      else i \<ge> rptr q \<and> i < qsize q \<or> i < wptr q)"

definition rob_reset :: "rob \<Rightarrow> rob" where
  "rob_reset q = (fifo_reset q) \<lparr> rob_sync_request_q := [], rob_committed := False,
     rob_commit_num := 0, rob_global_commit_num := 0 \<rparr>"

definition rob_get_committed :: "rob \<Rightarrow> bool" where
  "rob_get_committed q = rob_committed q"

definition rob_set_committed :: "bool \<Rightarrow> rob \<Rightarrow> rob" where
  "rob_set_committed v q = q \<lparr> rob_committed := v \<rparr>"

definition rob_add_commit_num :: "u32 \<Rightarrow> rob \<Rightarrow> rob" where
  "rob_add_commit_num n q = q \<lparr> rob_commit_num := rob_commit_num q + n,
     rob_global_commit_num := rob_global_commit_num q + ucast n \<rparr>"

definition rob_get_global_commit_num :: "rob \<Rightarrow> u64" where
  "rob_get_global_commit_num q = rob_global_commit_num q"

definition rob_get_commit_num :: "rob \<Rightarrow> u32" where
  "rob_get_commit_num q = rob_commit_num q"

definition rob_clear_commit_num :: "rob \<Rightarrow> rob" where
  "rob_clear_commit_num q = q \<lparr> rob_commit_num := 0 \<rparr>"

definition rob_push :: "rob_item_t \<Rightarrow> rob \<Rightarrow> bool \<times> nat \<times> rob" where
  "rob_push x q = (let item_id = wptr q; (ok, q1) = fifo_push x q in (ok, item_id, q1))"

text \<open>\<open>buffer[item_id]\<close>: an index outside the allocation is undefined behaviour, with no result.\<close>

definition rob_get_item :: "rob \<Rightarrow> nat \<Rightarrow> rob_item_t option" where
  "rob_get_item q i = (if i < length (buffer q) then Some (buffer q ! i) else None)"

definition rob_set_item :: "nat \<Rightarrow> rob_item_t \<Rightarrow> rob \<Rightarrow> rob option" where
  "rob_set_item i x q =
     (if i < length (buffer q) then Some (q \<lparr> buffer := (buffer q)[i := x] \<rparr>) else None)"

definition rob_set_item_sync :: "nat \<Rightarrow> rob_item_t \<Rightarrow> rob \<Rightarrow> rob" where
  "rob_set_item_sync i x q = q \<lparr> rob_sync_request_q := rob_sync_request_q q @ [Rob_set_item i x] \<rparr>"

definition rob_get_front :: "rob \<Rightarrow> rob_item_t" where
  "rob_get_front q = buffer q ! rptr q"

definition rob_get_size :: "rob \<Rightarrow> nat" where
  "rob_get_size q = (if fifo_is_full q then qsize q else (wptr q + qsize q - rptr q) mod qsize q)"

definition rob_get_free_space :: "rob \<Rightarrow> nat" where
  "rob_get_free_space q = qsize q - rob_get_size q"

definition rob_get_new_id :: "rob \<Rightarrow> nat option" where
  "rob_get_new_id q = (if fifo_is_full q then None else Some (wptr q))"

definition rob_get_next_new_id :: "rob \<Rightarrow> nat \<Rightarrow> nat option" where
  "rob_get_next_new_id q i =
     (if \<not> rob_check_new_id_valid q i then None
      else let n = (i + 1) mod qsize q in if rob_check_new_id_valid q n then Some n else None)"

definition rob_get_front_id :: "rob \<Rightarrow> nat option" where
  "rob_get_front_id q = (if fifo_is_empty q then None else Some (rptr q))"

definition rob_get_tail_id :: "rob \<Rightarrow> nat option" where
  "rob_get_tail_id q = (if fifo_is_empty q then None else Some ((wptr q + qsize q - 1) mod qsize q))"

definition rob_get_prev_id :: "rob \<Rightarrow> nat \<Rightarrow> (bool \<times> nat) option" where
  "rob_get_prev_id q i = do {
     assert_that (rob_check_id_valid q i);
     let p = (i + qsize q - 1) mod qsize q;
     Some (rob_check_id_valid q p, p) }"

definition rob_get_next_id :: "rob \<Rightarrow> nat \<Rightarrow> (bool \<times> nat) option" where
  "rob_get_next_id q i = do {
     assert_that (rob_check_id_valid q i);
     let n = (i + 1) mod qsize q;
     Some (rob_check_id_valid q n, n) }"

definition rob_pop :: "rob \<Rightarrow> bool \<times> rob" where
  "rob_pop q = (case fifo_pop q of (r, q1) \<Rightarrow> (r \<noteq> None, q1))"

definition rob_pop_sync :: "rob \<Rightarrow> rob" where
  "rob_pop_sync q = q \<lparr> rob_sync_request_q := rob_sync_request_q q @ [Rob_pop] \<rparr>"

fun rob_handle :: "rob_request \<Rightarrow> rob \<Rightarrow> rob option" where
  "rob_handle Rob_pop q = Some (snd (rob_pop q))"
| "rob_handle (Rob_set_item i x) q = rob_set_item i x q"

definition rob_sync :: "rob \<Rightarrow> rob option" where
  "rob_sync q = drain rob_handle (rob_sync_request_q q) (q \<lparr> rob_sync_request_q := [] \<rparr>)"

text \<open>An entry with every field zero, for concrete runs.\<close>

definition zero_rob_item :: rob_item_t where
  "zero_rob_item =
     \<lparr> rob_new_phy_reg_id = 0, rob_old_phy_reg_id = 0, rob_old_phy_reg_id_valid = False,
       rob_finish = False, rob_pc = 0, rob_inst_value = 0, rob_has_exception = False,
       rob_exception_id = instruction_address_misaligned, rob_exception_value = 0,
       rob_predicted = False, rob_predicted_jump = False, rob_predicted_next_pc = 0,
       rob_checkpoint_id_valid = False, rob_checkpoint_id = 0, rob_bru_op = False, rob_bru_jump = False,
       rob_bru_next_pc = 0, rob_is_mret = False, rob_csr_addr = 0, rob_csr_newvalue = 0,
       rob_csr_newvalue_valid = False \<rparr>"

subsection \<open>Slots\<close>

lemma rob_id_ring:
  "rob_check_id_valid q = id_live q" "rob_get_front_id q = id_front q" "rob_get_next_id q = id_next q"
  by (auto simp: fun_eq_iff rob_check_id_valid_def id_live_def rob_get_front_id_def id_front_def
    rob_get_next_id_def id_next_def Let_def)

interpretation rob_slots: id_ring fifo_ring fifo_ids rob_check_id_valid rob_get_front_id rob_get_next_id
  using id_ring_fifo by (simp add: rob_id_ring [abs_def])

lemma rob_new_id_ring: "rob_get_new_id q = id_new q" "rob_get_next_new_id q = id_next_new q"
  by (auto simp: fun_eq_iff rob_get_new_id_def id_new_def rob_get_next_new_id_def id_next_new_def
    rob_check_new_id_valid_def id_free_def Let_def)

lemma rob_push_eq: "rob_push x q = (fst (fifo_push x q), wptr q, snd (fifo_push x q))"
  by (simp add: rob_push_def Let_def case_prod_unfold)

lemma rob_get_size_fifo: "\<not> pop_status_save q \<Longrightarrow> rob_get_size q = fifo_get_size q"
  by (simp add: rob_get_size_def fifo_get_size_def)

lemma rob_get_free_space_fifo: "\<not> pop_status_save q \<Longrightarrow> rob_get_free_space q = fifo_get_remain_space q"
  by (simp add: rob_get_free_space_def fifo_get_remain_space_def rob_get_size_fifo)

text \<open>Walking back: the predecessor of a live slot other than the oldest is the live slot before it.\<close>

lemma rob_get_prev_id_nth:
  assumes "fifo_ring q" "Suc i < length (fifo_ids q)"
  shows "rob_get_prev_id q (fifo_ids q ! Suc i) = Some (True, fifo_ids q ! i)"
proof -
  have n: "0 < qsize q" using fifo_ring_size [OF assms(1)] by simp
  have "fifo_ids q ! i \<in> set (fifo_ids q)" "fifo_ids q ! Suc i \<in> set (fifo_ids q)"
    using assms(2) by (auto intro: nth_mem Suc_lessD)
  moreover have "(fifo_ids q ! Suc i + qsize q - 1) mod qsize q = fifo_ids q ! i"
    using assms(2) mod_pred [OF n, of "rptr q + i"] by (simp add: ids_nth)
  ultimately show ?thesis using assms(1) by (simp add: rob_get_prev_id_def rob_id_ring id_live_iff Let_def)
qed

lemma rob_get_tail_id_last:
  "fifo_ring q \<Longrightarrow> fifo_ids q \<noteq> [] \<Longrightarrow> rob_get_tail_id q = Some (last (fifo_ids q))"
  by (simp add: rob_get_tail_id_def ids_last ids_Nil)

lemma rob_get_prev_id_front:
  assumes "fifo_ring q" "\<not> pop_status_save q" "fifo_ids q \<noteq> []"
  shows "if fifo_is_full q then rob_get_prev_id q (hd (fifo_ids q)) = Some (True, last (fifo_ids q))
    else \<exists>p. rob_get_prev_id q (hd (fifo_ids q)) = Some (False, p)"
proof -
  have inv: "fifo_inv q" using assms(1,2) by (simp add: fifo_inv_def)
  have n: "0 < qsize q" and le: "fifo_fill q \<le> qsize q" using fifo_ring_size [OF assms(1)] fill_le_size [OF assms(1)] by simp_all
  have hd: "hd (fifo_ids q) = rptr q" "rptr q < qsize q" using ids_hd [OF assms(1)] ids_Nil [OF assms(1)] fifo_ring_size [OF assms(1)] assms(3) by auto
  have valid: "rob_check_id_valid q j \<longleftrightarrow> j \<in> set (fifo_ids q)" for j using rob_slots.valid_iff [OF assms(1)] by simp
  let ?p = "(rptr q + qsize q - 1) mod qsize q"
  have full: "fifo_is_full q \<longleftrightarrow> fifo_fill q = qsize q" using is_full_occupied [OF inv] assms(2) by (simp add: fifo_popped_def)
  have prev: "rob_get_prev_id q (hd (fifo_ids q)) = Some (?p \<in> set (fifo_ids q), ?p)"
    using assms(3) hd by (simp add: rob_get_prev_id_def Let_def valid flip: hd(1))
  have mem: "?p \<in> set (fifo_ids q) \<longleftrightarrow> fifo_fill q = qsize q"
  proof
    assume "?p \<in> set (fifo_ids q)"
    then obtain k where k: "k < fifo_fill q" "(rptr q + k) mod qsize q = ?p" by (auto simp: fifo_ids_def)
    then have "(rptr q + k) mod qsize q = (rptr q + (qsize q - 1)) mod qsize q" using n by simp
    then have "k = qsize q - 1" using mod_shift_inj [of "rptr q" k "qsize q" "qsize q - 1"] k(1) le n by simp
    with k(1) le n show "fifo_fill q = qsize q" by simp
  next
    assume "fifo_fill q = qsize q"
    then show "?p \<in> set (fifo_ids q)" using n by (auto simp: fifo_ids_def intro!: image_eqI [of _ _ "qsize q - 1"])
  qed
  have "last (fifo_ids q) = ?p" if "fifo_fill q = qsize q"
    using that n assms(3) by (simp add: last_conv_nth ids_nth)
  with prev mem full show ?thesis by auto
qed

text \<open>The slots that a walk back visits.\<close>

fun rob_walk :: "nat \<Rightarrow> nat \<Rightarrow> rob \<Rightarrow> nat list option" where
  "rob_walk 0 i q = Some []"
| "rob_walk (Suc n) i q = do {
     (ok, p) \<leftarrow> rob_get_prev_id q i;
     rest \<leftarrow> rob_walk n p q;
     Some (i # rest) }"

lemma rob_walk_prefix:
  assumes "fifo_ring q" "k < length (fifo_ids q)"
  shows "rob_walk (Suc k) (fifo_ids q ! k) q = Some (rev (take (Suc k) (fifo_ids q)))"
  using assms(2)
proof (induction k)
  case 0
  then have "rob_check_id_valid q (fifo_ids q ! 0)" using rob_slots.valid_iff [OF assms(1)] by (simp del: ids_length)
  with 0 show ?case by (simp add: rob_get_prev_id_def Let_def take_Suc_conv_app_nth del: ids_length)
next
  case (Suc k)
  have prev: "rob_get_prev_id q (fifo_ids q ! Suc k) = Some (True, fifo_ids q ! k)" using rob_get_prev_id_nth [OF assms(1)] Suc.prems .
  have "rob_walk (Suc k) (fifo_ids q ! k) q = Some (rev (take (Suc k) (fifo_ids q)))" using Suc by simp
  then show ?case using Suc.prems prev take_Suc_conv_app_nth [of "Suc k" "fifo_ids q"]
    by (subst rob_walk.simps(2)) (simp del: rob_walk.simps take_Suc_conv_app_nth)
qed

lemma rob_sync_ring:
  assumes "fifo_ring q" "\<And>i x. Rob_set_item i x \<in> set (rob_sync_request_q q) \<Longrightarrow> i < qsize q"
  shows "\<exists>q1. rob_sync q = Some q1 \<and> fifo_ring q1 \<and> qsize q1 = qsize q"
proof -
  have "\<exists>q1. drain rob_handle (rob_sync_request_q q) (q \<lparr> rob_sync_request_q := [] \<rparr>) = Some q1 \<and>
      (fifo_ring q1 \<and> qsize q1 = qsize q)"
  proof (rule drain_invariant)
    fix r and s :: rob
    assume r: "r \<in> set (rob_sync_request_q q)" and s: "fifo_ring s \<and> qsize s = qsize q"
    show "\<exists>s1. rob_handle r s = Some s1 \<and> fifo_ring s1 \<and> qsize s1 = qsize q"
    proof (cases r)
      case Rob_pop
      with s pop_ring [of s] show ?thesis by (simp add: rob_pop_def case_prod_unfold pop_fields)
    next
      case (Rob_set_item i x)
      with r s assms(2) fifo_ring_size [of s] show ?thesis by (simp add: rob_set_item_def)
    qed
  qed (use assms(1) in \<open>simp add: fifo_ring_def\<close>)
  then show ?thesis by (simp add: rob_sync_def)
qed

subsection \<open>Properties\<close>

text \<open>C26: The slots rename is told by \<open>get_new_id\<close> and \<open>get_next_new_id\<close> are, as far as there is free
  space, the slots that the pushes made afterwards take, in the same order and all of them distinct.\<close>

theorem rob_announced_ids_are_pushed_ids:
  assumes "fifo_inv q" "\<not> pop_status_save q" "length xs \<le> rob_get_free_space q"
  shows "new_ids rob_get_next_new_id q (length xs) (rob_get_new_id q) = push_slots rob_push xs q \<and>
    distinct (push_slots rob_push xs q) \<and> length (push_slots rob_push xs q) = length xs \<and>
    set (push_slots rob_push xs q) \<inter> set (fifo_ids q) = {}"
proof -
  have room: "length xs \<le> fifo_get_remain_space q" using assms by (simp add: rob_get_free_space_fifo)
  have le: "fifo_get_remain_space q \<le> qsize q" by (simp add: fifo_get_remain_space_def)
  let ?l = "map (\<lambda>i. (wptr q + i) mod qsize q) [0..<length xs]"
  have p: "push_slots rob_push xs q = ?l"
    by (rule push_slots_shifted) (use assms(1) room in \<open>simp_all add: rob_push_eq\<close>)
  moreover have "new_ids rob_get_next_new_id q (length xs) (rob_get_new_id q) = ?l"
    using new_ids_preview [OF assms(1,2) room] by (simp add: rob_new_id_ring [abs_def])
  moreover have "distinct ?l"
    using room le by (auto simp: distinct_map inj_on_def dest!: mod_shift_inj)
  moreover have "set ?l \<inter> set (fifo_ids q) = {}"
  proof -
    have "(wptr q + k) mod qsize q \<notin> set (fifo_ids q)" if "k < length xs" for k
      using that room free_slots [OF assms(1,2)] shifted_slot_free [of q k] assms(1) by simp
    then show ?thesis by auto
  qed
  ultimately show ?thesis by simp
qed

theorem rob_announced_ids_are_pushed_ids_witness:
  "let q = rob_new 3 (replicate 3 zero_rob_item) 0 False
   in new_ids rob_get_next_new_id q 2 (rob_get_new_id q) = [0, 1] \<and>
      push_slots rob_push [zero_rob_item, zero_rob_item] q = [0, 1]"
proof -
  let ?q = "rob_new 3 (replicate 3 zero_rob_item) 0 False"
  have q: "fifo_inv ?q" "\<not> pop_status_save ?q" "2 \<le> rob_get_free_space ?q"
    by (simp_all add: rob_new_def fifo.defs rob.defs fifo_new_def ring_simps rob_get_free_space_def
      rob_get_size_def fifo_is_full_def)
  have "push_slots rob_push [zero_rob_item, zero_rob_item] ?q = [0, 1]"
    by (simp add: rob_push_def Let_def rob_new_def fifo.defs rob.defs fifo_defs)
  with rob_announced_ids_are_pushed_ids [OF q(1,2), of "[zero_rob_item, zero_rob_item]"] q(3)
  show ?thesis by (simp add: Let_def numeral_2_eq_2)
qed

text \<open>C27: The walk back. Live slots are exactly those the index test accepts. Starting at the newest entry, as many calls of
  \<open>get_prev_id\<close> as there are entries go through all live slots, each once and from the newest to the oldest, without aborting.
  At the oldest entry the call reports that there is no entry before it, unless the buffer is full: then it wraps around to the newest
  one and reports success, so that a walk has to compare with the slot it is to stop at.\<close>

theorem rob_slots_walk_back:
  assumes "fifo_ring q" "\<not> pop_status_save q" "rob_get_tail_id q = Some t" "rob_get_front_id q = Some h"
  shows "rob_walk (rob_get_size q) t q = Some (rev (fifo_ids q)) \<and> distinct (fifo_ids q) \<and> last (rev (fifo_ids q)) = h \<and>
    (\<forall>j. rob_check_id_valid q j \<longleftrightarrow> j \<in> set (fifo_ids q)) \<and>
    (if fifo_is_full q then rob_get_prev_id q h = Some (True, t) else \<exists>p. rob_get_prev_id q h = Some (False, p))"
proof -
  have inv: "fifo_inv q" using assms by (simp add: fifo_inv_def)
  have ne: "fifo_ids q \<noteq> []" using assms(1,3) by (auto simp: rob_get_tail_id_def ids_Nil split: if_splits)
  have t: "t = last (fifo_ids q)" using assms(3) rob_get_tail_id_last [OF assms(1) ne] by simp
  have h: "h = hd (fifo_ids q)" using assms(4) rob_slots.front_id_hd [OF assms(1)] ne by simp
  have size: "rob_get_size q = length (fifo_ids q)"
    using rob_get_size_fifo [OF assms(2)] get_size_occupied [OF inv] assms(2) by (simp add: fifo_popped_def)
  have "rob_walk (rob_get_size q) t q = Some (rev (fifo_ids q))"
  proof -
    have "0 < length (fifo_ids q)" using ne by (simp del: ids_length)
    then obtain k where k: "length (fifo_ids q) = Suc k" using gr0_implies_Suc by blast
    then show ?thesis using rob_walk_prefix [OF assms(1), of k] last_conv_nth [OF ne] unfolding size t
      by (simp del: rob_walk.simps ids_length)
  qed
  then show ?thesis
    using rob_slots.valid_iff [OF assms(1)] ids_distinct [OF assms(1)] rob_get_prev_id_front [OF assms(1,2) ne] ne h t
    by (simp add: last_rev)
qed

theorem rob_slots_walk_back_witness:
  "let q = snd (snd (rob_push zero_rob_item (snd (snd (rob_push zero_rob_item
             (rob_new 2 (replicate 2 zero_rob_item) 0 False))))))
   in rob_walk 2 1 q = Some [1, 0] \<and> rob_get_prev_id q 0 = Some (True, 1)"
proof -
  let ?q = "snd (snd (rob_push zero_rob_item (snd (snd (rob_push zero_rob_item
             (rob_new 2 (replicate 2 zero_rob_item) 0 False))))))"
  have q: "fifo_ring ?q" "\<not> pop_status_save ?q" "rob_get_tail_id ?q = Some 1" "rob_get_front_id ?q = Some 0" "rev (fifo_ids ?q) = [1, 0]"
    "rob_get_size ?q = 2" "fifo_is_full ?q"
    by (simp_all add: rob_push_def Let_def rob_new_def fifo.defs rob.defs fifo_defs ring_simps rob_get_size_def rob_get_tail_id_def
      rob_get_front_id_def fifo_ids_def numeral_2_eq_2)
  from rob_slots_walk_back [OF q(1-4)] show ?thesis
    unfolding q(5,6) Let_def using q(7) by simp
qed

end
