(* ===== verification/Bitmap.thy ===== *)
theory Bitmap
  imports Common
begin

text \<open>
  The bit tables of \<open>rat\<close>, \<open>regfile\<close> and \<open>checkpoint_t\<close>: one bit per physical register, packed in
  an array of \<open>uint64_t\<close>, written with \<open>|= 1ULL << (id % 64)\<close> and \<open>&= ~(1ULL << (id % 64))\<close> on the
  word \<open>id / 64\<close>. The source repeats these expressions at every use; here they are written once and
  their contract, a table of independent flags, is a locale.
\<close>

type_synonym bitmap = "u64 list"

definition bitmap_get :: "bitmap \<Rightarrow> nat \<Rightarrow> bool" where
  "bitmap_get bm i \<longleftrightarrow> bm ! (i div 64) AND push_bit (i mod 64) 1 \<noteq> 0"

definition bitmap_set :: "bitmap \<Rightarrow> nat \<Rightarrow> bool \<Rightarrow> bitmap" where
  "bitmap_set bm i v =
     (if v then bm[i div 64 := bm ! (i div 64) OR push_bit (i mod 64) 1]
      else bm[i div 64 := bm ! (i div 64) AND NOT (push_bit (i mod 64) 1)])"

definition bitmap_zero :: "nat \<Rightarrow> bitmap" where
  "bitmap_zero n = replicate n 0"

subsection \<open>The contract of a flag table\<close>

locale flag_table =
  fixes cap :: "'t \<Rightarrow> nat" and get :: "'t \<Rightarrow> nat \<Rightarrow> bool" and set_flag :: "'t \<Rightarrow> nat \<Rightarrow> bool \<Rightarrow> 't"
  assumes cap_set: "cap (set_flag t i v) = cap t"
    and get_set: "i < cap t \<Longrightarrow> j < cap t \<Longrightarrow> get (set_flag t i v) j = (if j = i then v else get t j)"
begin

lemma flags_set:
  assumes "i < n" "n \<le> cap t"
  shows "{j. j < n \<and> get (set_flag t i v) j} =
    (if v then insert i {j. j < n \<and> get t j} else {j. j < n \<and> get t j} - {i})"
  using assms by (auto simp: get_set split: if_splits)

lemma get_set_same: "i < cap t \<Longrightarrow> get (set_flag t i v) i = v"
  by (simp add: get_set)

lemma get_set_other: "i < cap t \<Longrightarrow> j < cap t \<Longrightarrow> j \<noteq> i \<Longrightarrow> get (set_flag t i v) j = get t j"
  by (simp add: get_set)

lemma get_set_restore:
  assumes "i < cap t" "j < cap t"
  shows "get (set_flag (set_flag t i v) i (get t i)) j = get t j"
  using assms by (simp add: get_set cap_set)

end

lemma bitmap_get_bit: "bitmap_get bm i \<longleftrightarrow> bit (bm ! (i div 64)) (i mod 64)"
  unfolding bitmap_get_def by (rule and_single_bit)

lemma div_mod_eq_iff: "(j div 64 = i div 64 \<and> j mod 64 = i mod 64) \<longleftrightarrow> j = (i :: nat)"
  by (metis div_mult_mod_eq)

lemma bitmap_get_set:
  assumes "i < 64 * length bm" "j < 64 * length bm"
  shows "bitmap_get (bitmap_set bm i v) j = (if j = i then v else bitmap_get bm j)"
proof -
  have len: "i div 64 < length bm" "j div 64 < length bm"
    using assms by (auto simp: less_mult_imp_div_less mult.commute)
  have bound: "j mod 64 < 64" by simp
  show ?thesis
  proof (cases "j div 64 = i div 64")
    case True
    then have "j = i \<longleftrightarrow> j mod 64 = i mod 64" using div_mod_eq_iff [of j i] by auto
    with True len bound show ?thesis
      by (simp add: bitmap_get_bit bitmap_set_def bit_simps)
  next
    case False
    then have "j \<noteq> i" by auto
    with False len show ?thesis by (simp add: bitmap_get_bit bitmap_set_def)
  qed
qed

lemma bitmap_set_length [simp]: "length (bitmap_set bm i v) = length bm"
  by (simp add: bitmap_set_def)

lemma bitmap_get_zero [simp]: "i < 64 * n \<Longrightarrow> \<not> bitmap_get (bitmap_zero n) i"
  by (simp add: bitmap_get_bit bitmap_zero_def less_mult_imp_div_less mult.commute)

lemma bitmap_zero_length [simp]: "length (bitmap_zero n) = n"
  by (simp add: bitmap_zero_def)

interpretation bits: flag_table "\<lambda>bm. 64 * length bm" bitmap_get bitmap_set
  by unfold_locales (simp_all add: bitmap_get_set)

lemma round_up_cap: "n \<le> 64 * div_round_up n 64"
  by (simp add: div_round_up_def)

end
