(* ===== verification/Checkpoint_Buffer.thy ===== *)
theory Checkpoint_Buffer
  imports Fifo Bitmap
begin

text \<open>
  \<open>component/checkpoint_buffer.h\<close>: the snapshot taken at a predicted branch and the ring buffer that
  holds the live snapshots. Requests made during a cycle (\<open>pop_sync\<close>, \<open>set_item_sync\<close>) are kept in a
  queue and carried out, oldest first, by \<open>sync\<close> at the end of the cycle.

  Reading or writing a slot outside the allocation is undefined behaviour of the source and has no
  result here; the slots the core uses come from \<open>get_new_id\<close> and \<open>push\<close>.
\<close>

record checkpoint_t =
  rat_phy_map_table_valid :: bitmap
  rat_phy_map_table_visible :: bitmap
  phy_regfile_data_valid :: bitmap
  rat_phy_map_table :: "nat list"
  global_history :: u32
  local_history :: u32

definition phy_reg_num_bitmap_size :: nat where
  "phy_reg_num_bitmap_size = (PHY_REG_NUM + 64 - 1) div 64"

text \<open>\<open>src.clone(cp)\<close> copies into \<open>cp\<close>; the register file bits and the map table are left alone.\<close>

definition checkpoint_clone :: "checkpoint_t \<Rightarrow> checkpoint_t \<Rightarrow> checkpoint_t" where
  "checkpoint_clone src cp =
     cp \<lparr> rat_phy_map_table_valid := rat_phy_map_table_valid src,
          rat_phy_map_table_visible := rat_phy_map_table_visible src,
          global_history := global_history src,
          local_history := local_history src \<rparr>"

datatype cpbuf_request = Cpbuf_pop | Cpbuf_set_item nat checkpoint_t

record checkpoint_buffer = "checkpoint_t fifo" +
  cpbuf_sync_request_q :: "cpbuf_request list"

definition cpbuf_new :: "nat \<Rightarrow> checkpoint_t list \<Rightarrow> nat \<Rightarrow> bool \<Rightarrow> checkpoint_buffer" where
  "cpbuf_new n mem rp rs = fifo.extend (fifo_new n mem rp rs) (checkpoint_buffer.fields [])"

definition cpbuf_check_new_id_valid :: "checkpoint_buffer \<Rightarrow> nat \<Rightarrow> bool" where
  "cpbuf_check_new_id_valid q i \<longleftrightarrow>
     (if fifo_is_full q then False
      else if wstage q = rstage q then \<not> (i \<ge> rptr q \<and> i < wptr q)
      else \<not> (i \<ge> rptr q \<and> i < qsize q \<or> i < wptr q))"

definition cpbuf_check_id_valid :: "checkpoint_buffer \<Rightarrow> nat \<Rightarrow> bool" where
  "cpbuf_check_id_valid q i \<longleftrightarrow>
     (if fifo_is_empty q then False
      else if wstage q = rstage q then i \<ge> rptr q \<and> i < wptr q
      else i \<ge> rptr q \<and> i < qsize q \<or> i < wptr q)"

definition cpbuf_reset :: "checkpoint_buffer \<Rightarrow> checkpoint_buffer" where
  "cpbuf_reset q = (fifo_reset q) \<lparr> cpbuf_sync_request_q := [] \<rparr>"

definition cpbuf_push :: "checkpoint_t \<Rightarrow> checkpoint_buffer \<Rightarrow> bool \<times> nat \<times> checkpoint_buffer" where
  "cpbuf_push x q = (let item_id = wptr q; (ok, q1) = fifo_push x q in (ok, item_id, q1))"

definition cpbuf_get_item :: "checkpoint_buffer \<Rightarrow> nat \<Rightarrow> checkpoint_t option" where
  "cpbuf_get_item q i = (if i < length (buffer q) then Some (buffer q ! i) else None)"

definition cpbuf_set_item :: "nat \<Rightarrow> checkpoint_t \<Rightarrow> checkpoint_buffer \<Rightarrow> checkpoint_buffer option" where
  "cpbuf_set_item i x q =
     (if i < length (buffer q) then Some (q \<lparr> buffer := (buffer q)[i := x] \<rparr>) else None)"

definition cpbuf_set_item_sync :: "nat \<Rightarrow> checkpoint_t \<Rightarrow> checkpoint_buffer \<Rightarrow> checkpoint_buffer" where
  "cpbuf_set_item_sync i x q =
     q \<lparr> cpbuf_sync_request_q := cpbuf_sync_request_q q @ [Cpbuf_set_item i x] \<rparr>"

definition cpbuf_get_front :: "checkpoint_buffer \<Rightarrow> checkpoint_t" where
  "cpbuf_get_front q = buffer q ! rptr q"

definition cpbuf_get_size :: "checkpoint_buffer \<Rightarrow> nat" where
  "cpbuf_get_size q =
     (if fifo_is_full q then qsize q else (wptr q + qsize q - rptr q) mod qsize q)"

definition cpbuf_get_free_space :: "checkpoint_buffer \<Rightarrow> nat" where
  "cpbuf_get_free_space q = qsize q - cpbuf_get_size q"

definition cpbuf_get_new_id :: "checkpoint_buffer \<Rightarrow> nat option" where
  "cpbuf_get_new_id q = (if fifo_is_full q then None else Some (wptr q))"

definition cpbuf_get_next_new_id :: "checkpoint_buffer \<Rightarrow> nat \<Rightarrow> nat option" where
  "cpbuf_get_next_new_id q i =
     (if \<not> cpbuf_check_new_id_valid q i then None
      else let n = (i + 1) mod qsize q in if cpbuf_check_new_id_valid q n then Some n else None)"

definition cpbuf_get_front_id :: "checkpoint_buffer \<Rightarrow> nat option" where
  "cpbuf_get_front_id q = (if fifo_is_empty q then None else Some (rptr q))"

definition cpbuf_get_tail_id :: "checkpoint_buffer \<Rightarrow> nat option" where
  "cpbuf_get_tail_id q = (if fifo_is_empty q then None else Some ((wptr q + qsize q - 1) mod qsize q))"

definition cpbuf_get_prev_id :: "checkpoint_buffer \<Rightarrow> nat \<Rightarrow> (bool \<times> nat) option" where
  "cpbuf_get_prev_id q i = do {
     assert_that (cpbuf_check_id_valid q i);
     let p = (i + qsize q - 1) mod qsize q;
     Some (cpbuf_check_id_valid q p, p) }"

definition cpbuf_get_next_id :: "checkpoint_buffer \<Rightarrow> nat \<Rightarrow> (bool \<times> nat) option" where
  "cpbuf_get_next_id q i = do {
     assert_that (cpbuf_check_id_valid q i);
     let n = (i + 1) mod qsize q;
     Some (cpbuf_check_id_valid q n, n) }"

definition cpbuf_pop :: "checkpoint_buffer \<Rightarrow> bool \<times> checkpoint_buffer" where
  "cpbuf_pop q = (case fifo_pop q of (r, q1) \<Rightarrow> (r \<noteq> None, q1))"

definition cpbuf_pop_sync :: "checkpoint_buffer \<Rightarrow> checkpoint_buffer" where
  "cpbuf_pop_sync q = q \<lparr> cpbuf_sync_request_q := cpbuf_sync_request_q q @ [Cpbuf_pop] \<rparr>"

fun cpbuf_handle :: "cpbuf_request \<Rightarrow> checkpoint_buffer \<Rightarrow> checkpoint_buffer option" where
  "cpbuf_handle Cpbuf_pop q = Some (snd (cpbuf_pop q))"
| "cpbuf_handle (Cpbuf_set_item i x) q = cpbuf_set_item i x q"

definition cpbuf_sync :: "checkpoint_buffer \<Rightarrow> checkpoint_buffer option" where
  "cpbuf_sync q = drain cpbuf_handle (cpbuf_sync_request_q q) (q \<lparr> cpbuf_sync_request_q := [] \<rparr>)"

subsection \<open>Slots\<close>

lemma cpbuf_id_ring:
  "cpbuf_check_id_valid q = id_live q" "cpbuf_get_front_id q = id_front q" "cpbuf_get_next_id q = id_next q"
  by (auto simp: fun_eq_iff cpbuf_check_id_valid_def id_live_def cpbuf_get_front_id_def id_front_def
    cpbuf_get_next_id_def id_next_def Let_def)

interpretation cpbuf_slots: id_ring fifo_ring fifo_ids cpbuf_check_id_valid cpbuf_get_front_id cpbuf_get_next_id
  using id_ring_fifo by (simp add: cpbuf_id_ring [abs_def])

end
