(* ===== verification/Rat.thy ===== *)
theory Rat
  imports Checkpoint_Buffer
begin

text \<open>
  \<open>component/rat.h\<close>: the register alias table. It is indexed by physical register: the architectural
  register it holds, whether it is allocated (\<open>valid\<close>), whether it is the current name of that
  register (\<open>visible\<close>) and whether it is its committed name (\<open>commit\<close>). The \<open>cp_\<close> operations work on the
  copies in a checkpoint.

  The invariant \<open>rat_inv\<close> says that the visible registers are allocated and name pairwise different
  architectural registers; \<open>rat_total\<close> adds that every architectural register but \<open>x0\<close> has a name, which
  is what \<open>set_map\<close> asserts once the table is initialised.
\<close>

subsection \<open>The class\<close>

datatype rat_request =
    Rat_set_map nat nat
  | Rat_release_map nat
  | Rat_commit_map nat
  | Rat_restore_map nat nat
  | Rat_restore checkpoint_t

record rat =
  rat_sync_request_q :: "rat_request list"
  phy_reg_num :: nat
  arch_reg_num :: nat
  phy_map_table :: "nat list"
  phy_map_table_valid :: bitmap
  phy_map_table_visible :: bitmap
  phy_map_table_commit :: bitmap
  rat_bitmap_size :: nat
  init_rat :: bool

definition rat_set_valid :: "nat \<Rightarrow> bool \<Rightarrow> rat \<Rightarrow> rat option" where
  "rat_set_valid p v r = do {
     assert_that (p < phy_reg_num r);
     Some (r \<lparr> phy_map_table_valid := bitmap_set (phy_map_table_valid r) p v \<rparr>) }"

definition rat_get_valid :: "rat \<Rightarrow> nat \<Rightarrow> bool option" where
  "rat_get_valid r p = do {
     assert_that (p < phy_reg_num r);
     Some (bitmap_get (phy_map_table_valid r) p) }"

definition rat_set_visible :: "nat \<Rightarrow> bool \<Rightarrow> rat \<Rightarrow> rat option" where
  "rat_set_visible p v r = do {
     assert_that (p < phy_reg_num r);
     Some (r \<lparr> phy_map_table_visible := bitmap_set (phy_map_table_visible r) p v \<rparr>) }"

definition rat_get_visible :: "rat \<Rightarrow> nat \<Rightarrow> bool option" where
  "rat_get_visible r p = do {
     assert_that (p < phy_reg_num r);
     Some (bitmap_get (phy_map_table_visible r) p) }"

definition rat_set_commit :: "nat \<Rightarrow> bool \<Rightarrow> rat \<Rightarrow> rat option" where
  "rat_set_commit p v r = do {
     assert_that (p < phy_reg_num r);
     Some (r \<lparr> phy_map_table_commit := bitmap_set (phy_map_table_commit r) p v \<rparr>) }"

definition rat_get_commit :: "rat \<Rightarrow> nat \<Rightarrow> bool option" where
  "rat_get_commit r p = do {
     assert_that (p < phy_reg_num r);
     Some (bitmap_get (phy_map_table_commit r) p) }"

text \<open>The arrays that \<open>new\<close> leaves uninitialised are arguments.\<close>

definition rat_new :: "nat \<Rightarrow> nat \<Rightarrow> nat list \<Rightarrow> bitmap \<Rightarrow> bitmap \<Rightarrow> bitmap \<Rightarrow> rat" where
  "rat_new phy arch tab valid visible commit =
     \<lparr> rat_sync_request_q = [], phy_reg_num = phy, arch_reg_num = arch, phy_map_table = tab,
       phy_map_table_valid = valid, phy_map_table_visible = visible, phy_map_table_commit = commit,
       rat_bitmap_size = (phy + 64 - 1) div 64, init_rat = False \<rparr>"

definition rat_init_start :: "rat \<Rightarrow> rat" where
  "rat_init_start r =
     r \<lparr> phy_map_table := replicate (phy_reg_num r) 0,
         phy_map_table_valid := bitmap_zero (rat_bitmap_size r),
         phy_map_table_visible := bitmap_zero (rat_bitmap_size r),
         phy_map_table_commit := bitmap_zero (rat_bitmap_size r),
         rat_sync_request_q := [], init_rat := True \<rparr>"

definition rat_init_finish :: "rat \<Rightarrow> rat" where
  "rat_init_finish r = r \<lparr> init_rat := False \<rparr>"

definition cp_set_valid :: "rat \<Rightarrow> nat \<Rightarrow> bool \<Rightarrow> checkpoint_t \<Rightarrow> checkpoint_t option" where
  "cp_set_valid r p v cp = do {
     assert_that (p < phy_reg_num r);
     Some (cp \<lparr> rat_phy_map_table_valid := bitmap_set (rat_phy_map_table_valid cp) p v \<rparr>) }"

definition cp_get_valid :: "rat \<Rightarrow> checkpoint_t \<Rightarrow> nat \<Rightarrow> bool option" where
  "cp_get_valid r cp p = do {
     assert_that (p < phy_reg_num r);
     Some (bitmap_get (rat_phy_map_table_valid cp) p) }"

definition cp_set_visible :: "rat \<Rightarrow> nat \<Rightarrow> bool \<Rightarrow> checkpoint_t \<Rightarrow> checkpoint_t option" where
  "cp_set_visible r p v cp = do {
     assert_that (p < phy_reg_num r);
     Some (cp \<lparr> rat_phy_map_table_visible := bitmap_set (rat_phy_map_table_visible cp) p v \<rparr>) }"

definition cp_get_visible :: "rat \<Rightarrow> checkpoint_t \<Rightarrow> nat \<Rightarrow> bool option" where
  "cp_get_visible r cp p = do {
     assert_that (p < phy_reg_num r);
     Some (bitmap_get (rat_phy_map_table_visible cp) p) }"

text \<open>
  The counting loop the lookups share: \<open>for(i...) if(match(i)) { *phy_id = i; cnt++; }\<close>. The result
  pointer is written at every match, so the last match wins.
\<close>

fun count_matches :: "(nat \<Rightarrow> bool option) \<Rightarrow> nat list \<Rightarrow> nat \<Rightarrow> nat option \<Rightarrow> (nat \<times> nat option) option" where
  "count_matches m [] cnt res = Some (cnt, res)"
| "count_matches m (i # is) cnt res = do {
     b \<leftarrow> m i;
     if b then count_matches m is (cnt + 1) (Some i) else count_matches m is cnt res }"

definition cp_get_phy_id :: "rat \<Rightarrow> checkpoint_t \<Rightarrow> nat \<Rightarrow> nat option option" where
  "cp_get_phy_id r cp arch_id = do {
     assert_that (0 < arch_id \<and> arch_id < arch_reg_num r);
     (cnt, res) \<leftarrow> count_matches (\<lambda>i. do {
         v \<leftarrow> cp_get_valid r cp i;
         if v then do {
           s \<leftarrow> cp_get_visible r cp i;
           Some (s \<and> rat_phy_map_table cp ! i = arch_id) }
         else Some False }) [0..<phy_reg_num r] 0 None;
     assert_that (cnt \<le> 1);
     Some (if cnt = 1 then res else None) }"

definition cp_set_map :: "rat \<Rightarrow> nat \<Rightarrow> nat \<Rightarrow> checkpoint_t \<Rightarrow> checkpoint_t option" where
  "cp_set_map r arch_id phy_id cp = do {
     assert_that (phy_id < phy_reg_num r);
     assert_that (0 < arch_id \<and> arch_id < arch_reg_num r);
     v \<leftarrow> cp_get_valid r cp phy_id;
     assert_that (\<not> v);
     old_phy_id \<leftarrow> cp_get_phy_id r cp arch_id;
     let cp1 = cp \<lparr> rat_phy_map_table := (rat_phy_map_table cp)[phy_id := arch_id] \<rparr>;
     cp2 \<leftarrow> cp_set_valid r phy_id True cp1;
     cp3 \<leftarrow> cp_set_visible r phy_id True cp2;
     case old_phy_id of
       None \<Rightarrow> Some cp3
     | Some old \<Rightarrow> cp_set_visible r old False cp3 }"

definition rat_save :: "rat \<Rightarrow> checkpoint_t \<Rightarrow> checkpoint_t" where
  "rat_save r cp =
     cp \<lparr> rat_phy_map_table_valid := phy_map_table_valid r,
          rat_phy_map_table_visible := phy_map_table_visible r,
          rat_phy_map_table := phy_map_table r \<rparr>"

definition rat_restore :: "checkpoint_t \<Rightarrow> rat \<Rightarrow> rat" where
  "rat_restore cp r =
     r \<lparr> phy_map_table_valid := rat_phy_map_table_valid cp,
         phy_map_table_visible := rat_phy_map_table_visible cp \<rparr>"

definition rat_restore_sync :: "checkpoint_t \<Rightarrow> rat \<Rightarrow> rat" where
  "rat_restore_sync cp r = r \<lparr> rat_sync_request_q := rat_sync_request_q r @ [Rat_restore cp] \<rparr>"

text \<open>The ids written to \<open>ret\<close>; their number is the result of the call.\<close>

fun free_phy_loop :: "rat \<Rightarrow> nat \<Rightarrow> nat list \<Rightarrow> nat list \<Rightarrow> nat list option" where
  "free_phy_loop r num [] acc = Some acc"
| "free_phy_loop r num (i # is) acc = do {
     v \<leftarrow> rat_get_valid r i;
     if \<not> v then (let acc1 = acc @ [i] in
                   if length acc1 \<ge> num then Some acc1 else free_phy_loop r num is acc1)
     else free_phy_loop r num is acc }"

definition rat_get_free_phy_id :: "rat \<Rightarrow> nat \<Rightarrow> nat list option" where
  "rat_get_free_phy_id r num = free_phy_loop r num [0..<phy_reg_num r] []"

definition rat_get_phy_id :: "rat \<Rightarrow> nat \<Rightarrow> nat option option" where
  "rat_get_phy_id r arch_id = do {
     assert_that (0 < arch_id \<and> arch_id < arch_reg_num r);
     (cnt, res) \<leftarrow> count_matches (\<lambda>i. do {
         v \<leftarrow> rat_get_valid r i;
         if v then do {
           s \<leftarrow> rat_get_visible r i;
           Some (s \<and> phy_map_table r ! i = arch_id) }
         else Some False }) [0..<phy_reg_num r] 0 None;
     assert_that (cnt \<le> 1);
     Some (if cnt = 1 then res else None) }"

definition rat_get_commit_phy_id :: "rat \<Rightarrow> nat \<Rightarrow> nat option" where
  "rat_get_commit_phy_id r arch_id = do {
     assert_that (0 < arch_id \<and> arch_id < arch_reg_num r);
     (cnt, res) \<leftarrow> count_matches (\<lambda>i. do {
         v \<leftarrow> rat_get_valid r i;
         if v then do {
           c \<leftarrow> rat_get_commit r i;
           Some (c \<and> phy_map_table r ! i = arch_id) }
         else Some False }) [0..<phy_reg_num r] 0 None;
     assert_that (cnt = 1);
     res }"

definition rat_commit_map :: "nat \<Rightarrow> rat \<Rightarrow> rat option" where
  "rat_commit_map phy_id r = do {
     assert_that (phy_id < phy_reg_num r);
     v \<leftarrow> rat_get_valid r phy_id;
     assert_that v;
     c \<leftarrow> rat_get_commit r phy_id;
     assert_that (\<not> c);
     rat_set_commit phy_id True r }"

definition rat_commit_map_sync :: "nat \<Rightarrow> rat \<Rightarrow> rat" where
  "rat_commit_map_sync phy_id r =
     r \<lparr> rat_sync_request_q := rat_sync_request_q r @ [Rat_commit_map phy_id] \<rparr>"

text \<open>
  \<open>set_map\<close> returns \<open>old_phy_id\<close>, which is uninitialised when the register had no name; the model
  returns \<open>None\<close> for it in that case.
\<close>

definition rat_set_map :: "nat \<Rightarrow> nat \<Rightarrow> rat \<Rightarrow> (nat option \<times> rat) option" where
  "rat_set_map arch_id phy_id r = do {
     assert_that (phy_id < phy_reg_num r);
     assert_that (0 < arch_id \<and> arch_id < arch_reg_num r);
     v \<leftarrow> rat_get_valid r phy_id;
     assert_that (\<not> v);
     old_phy_id \<leftarrow> rat_get_phy_id r arch_id;
     (if \<not> init_rat r then do {
        assert_that (old_phy_id \<noteq> None);
        v \<leftarrow> rat_get_valid r phy_id;
        assert_that (\<not> v) }
      else Some ());
     let r1 = r \<lparr> phy_map_table := (phy_map_table r)[phy_id := arch_id] \<rparr>;
     r2 \<leftarrow> rat_set_valid phy_id True r1;
     r3 \<leftarrow> rat_set_visible phy_id True r2;
     r4 \<leftarrow> rat_set_commit phy_id False r3;
     r5 \<leftarrow> (case old_phy_id of None \<Rightarrow> Some r4 | Some old \<Rightarrow> rat_set_visible old False r4);
     Some (old_phy_id, r5) }"

definition rat_release_map :: "nat \<Rightarrow> rat \<Rightarrow> rat option" where
  "rat_release_map phy_id r = do {
     assert_that (phy_id < phy_reg_num r);
     v \<leftarrow> rat_get_valid r phy_id;
     assert_that v;
     s \<leftarrow> rat_get_visible r phy_id;
     assert_that (\<not> s);
     let r1 = r \<lparr> phy_map_table := (phy_map_table r)[phy_id := 0] \<rparr>;
     rat_set_valid phy_id False r1 }"

definition cp_release_map :: "rat \<Rightarrow> nat \<Rightarrow> checkpoint_t \<Rightarrow> checkpoint_t option" where
  "cp_release_map r phy_id cp = do {
     assert_that (phy_id < phy_reg_num r);
     v \<leftarrow> cp_get_valid r cp phy_id;
     assert_that v;
     s \<leftarrow> cp_get_visible r cp phy_id;
     assert_that (\<not> s);
     cp_set_valid r phy_id False cp }"

definition rat_restore_map :: "nat \<Rightarrow> nat \<Rightarrow> rat \<Rightarrow> rat option" where
  "rat_restore_map new_phy_id old_phy_id r = do {
     assert_that (new_phy_id < phy_reg_num r);
     assert_that (old_phy_id < phy_reg_num r);
     nv \<leftarrow> rat_get_valid r new_phy_id;
     assert_that nv;
     ov \<leftarrow> rat_get_valid r old_phy_id;
     assert_that ov;
     ns \<leftarrow> rat_get_visible r new_phy_id;
     assert_that ns;
     os \<leftarrow> rat_get_visible r old_phy_id;
     assert_that (\<not> os);
     let r1 = r \<lparr> phy_map_table := (phy_map_table r)[new_phy_id := 0] \<rparr>;
     r2 \<leftarrow> rat_set_valid new_phy_id False r1;
     r3 \<leftarrow> rat_set_visible new_phy_id False r2;
     r4 \<leftarrow> rat_set_valid old_phy_id True r3;
     rat_set_visible old_phy_id True r4 }"

definition rat_set_map_sync :: "nat \<Rightarrow> nat \<Rightarrow> rat \<Rightarrow> rat option" where
  "rat_set_map_sync arch_id phy_id r = do {
     assert_that (phy_id < phy_reg_num r);
     assert_that (0 < arch_id \<and> arch_id < arch_reg_num r);
     Some (r \<lparr> rat_sync_request_q := rat_sync_request_q r @ [Rat_set_map arch_id phy_id] \<rparr>) }"

definition rat_release_map_sync :: "nat \<Rightarrow> rat \<Rightarrow> rat" where
  "rat_release_map_sync phy_id r =
     r \<lparr> rat_sync_request_q := rat_sync_request_q r @ [Rat_release_map phy_id] \<rparr>"

definition rat_restore_map_sync :: "nat \<Rightarrow> nat \<Rightarrow> rat \<Rightarrow> rat" where
  "rat_restore_map_sync new_phy_id old_phy_id r =
     r \<lparr> rat_sync_request_q := rat_sync_request_q r @ [Rat_restore_map new_phy_id old_phy_id] \<rparr>"

fun rat_handle :: "rat_request \<Rightarrow> rat \<Rightarrow> rat option" where
  "rat_handle (Rat_set_map arch_id phy_id) r = map_option snd (rat_set_map arch_id phy_id r)"
| "rat_handle (Rat_release_map phy_id) r = rat_release_map phy_id r"
| "rat_handle (Rat_commit_map phy_id) r = rat_commit_map phy_id r"
| "rat_handle (Rat_restore_map new_phy_id old_phy_id) r = rat_restore_map new_phy_id old_phy_id r"
| "rat_handle (Rat_restore cp) r = Some (rat_restore cp r)"

definition rat_sync :: "rat \<Rightarrow> rat option" where
  "rat_sync r = drain rat_handle (rat_sync_request_q r) (r \<lparr> rat_sync_request_q := [] \<rparr>)"

subsection \<open>Set view and invariant\<close>

definition rat_valids :: "rat \<Rightarrow> nat set" where
  "rat_valids r = {p. p < phy_reg_num r \<and> bitmap_get (phy_map_table_valid r) p}"

definition rat_visibles :: "rat \<Rightarrow> nat set" where
  "rat_visibles r = {p. p < phy_reg_num r \<and> bitmap_get (phy_map_table_visible r) p}"

definition rat_commits :: "rat \<Rightarrow> nat set" where
  "rat_commits r = {p. p < phy_reg_num r \<and> bitmap_get (phy_map_table_commit r) p}"

definition rat_wf :: "rat \<Rightarrow> bool" where
  "rat_wf r \<longleftrightarrow> length (phy_map_table r) = phy_reg_num r \<and>
     phy_reg_num r \<le> 64 * length (phy_map_table_valid r) \<and>
     phy_reg_num r \<le> 64 * length (phy_map_table_visible r) \<and>
     phy_reg_num r \<le> 64 * length (phy_map_table_commit r)"

definition rat_inv :: "rat \<Rightarrow> bool" where
  "rat_inv r \<longleftrightarrow> rat_wf r \<and> rat_visibles r \<subseteq> rat_valids r \<and>
     (\<forall>p \<in> rat_visibles r. 0 < phy_map_table r ! p \<and> phy_map_table r ! p < arch_reg_num r) \<and>
     inj_on (\<lambda>p. phy_map_table r ! p) (rat_visibles r)"

definition rat_total :: "rat \<Rightarrow> bool" where
  "rat_total r \<longleftrightarrow> rat_inv r \<and>
     (\<forall>a. 0 < a \<and> a < arch_reg_num r \<longrightarrow> (\<exists>p \<in> rat_visibles r. phy_map_table r ! p = a))"

lemmas rat_sets = rat_valids_def rat_visibles_def rat_commits_def

lemma rat_total_inv [simp, intro]: "rat_total r \<Longrightarrow> rat_inv r"
  by (simp add: rat_total_def)

lemma rat_inv_wf [simp, intro]: "rat_inv r \<Longrightarrow> rat_wf r"
  by (simp add: rat_inv_def)

lemma finite_rat_sets [simp]: "finite (rat_valids r)" "finite (rat_visibles r)" "finite (rat_commits r)"
  by (auto simp: rat_sets)

subsection \<open>The counting loop\<close>

lemma count_matches_filter:
  "(\<And>i. i \<in> set is \<Longrightarrow> m i = Some (P i)) \<Longrightarrow>
    count_matches m is cnt res =
      Some (cnt + length (filter P is), if filter P is = [] then res else Some (last (filter P is)))"
  by (induction "is" arbitrary: cnt res) auto

lemma filter_unique:
  assumes "distinct xs" "\<And>x y. x \<in> set xs \<Longrightarrow> y \<in> set xs \<Longrightarrow> P x \<Longrightarrow> P y \<Longrightarrow> x = y"
  shows "filter P xs = [] \<or> (\<exists>x. filter P xs = [x])"
proof -
  have "card (set (filter P xs)) \<le> Suc 0"
    using assms(2) by (subst card_le_Suc0_iff_eq) auto
  then have "length (filter P xs) \<le> Suc 0" using assms(1) by (simp add: distinct_card del: set_filter)
  then show ?thesis by (cases "filter P xs") auto
qed

text \<open>
  A lookup loop over the physical registers succeeds when at most one register matches; it finds
  the one that does.
\<close>

lemma count_matches_unique:
  assumes "\<And>i. i < n \<Longrightarrow> m i = Some (P i)" "\<And>i j. i < n \<Longrightarrow> j < n \<Longrightarrow> P i \<Longrightarrow> P j \<Longrightarrow> i = j"
  shows "(\<exists>p < n. P p \<and> count_matches m [0..<n] 0 None = Some (1, Some p)) \<or>
    (\<forall>p < n. \<not> P p) \<and> count_matches m [0..<n] 0 None = Some (0, None)"
proof -
  have eq: "count_matches m [0..<n] 0 None = Some (length (filter P [0..<n]),
      if filter P [0..<n] = [] then None else Some (last (filter P [0..<n])))"
    using assms(1) by (subst count_matches_filter [where P = P]) auto
  have "filter P [0..<n] = [] \<or> (\<exists>x. filter P [0..<n] = [x])"
    using assms(2) by (intro filter_unique) auto
  then consider "filter P [0..<n] = []" | x where "filter P [0..<n] = [x]" by blast
  then show ?thesis
  proof cases
    case 1
    then have "\<forall>p < n. \<not> P p" by (auto simp: filter_empty_conv)
    with 1 eq show ?thesis by simp
  next
    case 2
    then have "x \<in> set (filter P [0..<n])" by simp
    then have "x < n \<and> P x" by simp
    with 2 eq show ?thesis by auto
  qed
qed

lemma rat_get_phy_id_cases:
  assumes "rat_inv r" "0 < a" "a < arch_reg_num r"
  shows "(\<exists>p \<in> rat_visibles r. phy_map_table r ! p = a \<and> rat_get_phy_id r a = Some (Some p)) \<or>
    (\<forall>p \<in> rat_visibles r. phy_map_table r ! p \<noteq> a) \<and> rat_get_phy_id r a = Some None"
proof -
  let ?P = "\<lambda>p. bitmap_get (phy_map_table_valid r) p \<and> bitmap_get (phy_map_table_visible r) p \<and>
      phy_map_table r ! p = a"
  let ?m = "\<lambda>i. do { v \<leftarrow> rat_get_valid r i;
      if v then do { s \<leftarrow> rat_get_visible r i; Some (s \<and> phy_map_table r ! i = a) } else Some False }"
  have m: "?m i = Some (?P i)" if "i < phy_reg_num r" for i
    using that by (auto simp: rat_get_valid_def rat_get_visible_def)
  have uniq: "i = j" if "i < phy_reg_num r" "j < phy_reg_num r" "?P i" "?P j" for i j
    using that assms(1) by (auto simp: rat_inv_def inj_on_def rat_visibles_def)
  have vis: "p \<in> rat_visibles r \<and> phy_map_table r ! p = a \<longleftrightarrow> p < phy_reg_num r \<and> ?P p" for p
    using assms(1) by (auto simp: rat_inv_def rat_sets)
  have d: "rat_get_phy_id r a = Option.bind (count_matches ?m [0..<phy_reg_num r] 0 None)
      (\<lambda>(cnt, res). Option.bind (assert_that (cnt \<le> 1)) (\<lambda>_. Some (if cnt = 1 then res else None)))"
    using assms(2,3) unfolding rat_get_phy_id_def by simp
  from count_matches_unique [of "phy_reg_num r" ?m ?P, OF m uniq]
  show ?thesis
  proof
    assume "\<exists>p < phy_reg_num r. ?P p \<and> count_matches ?m [0..<phy_reg_num r] 0 None = Some (1, Some p)"
    then obtain p where "p < phy_reg_num r \<and> ?P p"
      and c: "count_matches ?m [0..<phy_reg_num r] 0 None = Some (1, Some p)" by blast
    with vis [of p] show ?thesis unfolding d c by auto
  next
    assume "(\<forall>p < phy_reg_num r. \<not> ?P p) \<and> count_matches ?m [0..<phy_reg_num r] 0 None = Some (0, None)"
    then have n: "\<forall>p < phy_reg_num r. \<not> ?P p"
      and c: "count_matches ?m [0..<phy_reg_num r] 0 None = Some (0, None)" by blast+
    from n vis have "\<forall>p \<in> rat_visibles r. phy_map_table r ! p \<noteq> a" by blast
    then show ?thesis unfolding d c by simp
  qed
qed

lemma rat_get_phy_id_iff:
  assumes "rat_inv r" "0 < a" "a < arch_reg_num r"
  shows "rat_get_phy_id r a = Some (Some p) \<longleftrightarrow> p \<in> rat_visibles r \<and> phy_map_table r ! p = a"
  using rat_get_phy_id_cases [OF assms] assms(1) by (auto simp: rat_inv_def inj_on_def)

lemma rat_get_phy_id_total:
  assumes "rat_total r" "0 < a" "a < arch_reg_num r"
  shows "\<exists>p \<in> rat_visibles r. phy_map_table r ! p = a \<and> rat_get_phy_id r a = Some (Some p)"
proof -
  have "\<exists>p \<in> rat_visibles r. phy_map_table r ! p = a" using assms by (simp add: rat_total_def)
  with rat_get_phy_id_cases [of r a] assms show ?thesis by auto
qed

lemma rat_get_phy_id_range: "\<not> (0 < a \<and> a < arch_reg_num r) \<Longrightarrow> rat_get_phy_id r a = None"
  by (auto simp: rat_get_phy_id_def)

text \<open>Two tables with the same visible names answer every lookup alike.\<close>

lemma rat_get_phy_id_cong:
  assumes "rat_inv r" "rat_inv s" "arch_reg_num s = arch_reg_num r" "rat_visibles s = rat_visibles r"
    and "\<And>p. p \<in> rat_visibles r \<Longrightarrow> phy_map_table s ! p = phy_map_table r ! p"
  shows "rat_get_phy_id s a = rat_get_phy_id r a"
proof (cases "0 < a \<and> a < arch_reg_num r")
  case True
  then have a: "0 < a" "a < arch_reg_num r" "a < arch_reg_num s" using assms(3) by auto
  from rat_get_phy_id_cases [OF assms(1) a(1,2)] consider p where "p \<in> rat_visibles r" "phy_map_table r ! p = a" "rat_get_phy_id r a = Some (Some p)"
    | "\<forall>p \<in> rat_visibles r. phy_map_table r ! p \<noteq> a" "rat_get_phy_id r a = Some None"
    by blast
  then show ?thesis
  proof cases
    case 1
    with rat_get_phy_id_iff [OF assms(2) a(1,3), of p] assms(4) assms(5) [of p] show ?thesis by simp
  next
    case 2
    with rat_get_phy_id_cases [OF assms(2) a(1,3)] assms(4,5) show ?thesis by auto
  qed
next
  case False
  with assms(3) show ?thesis by (simp add: rat_get_phy_id_range)
qed

subsection \<open>Allocation\<close>

lemma rat_get_valid_set: "p < phy_reg_num r \<Longrightarrow> rat_get_valid r p = Some (p \<in> rat_valids r)"
  by (simp add: rat_get_valid_def rat_valids_def)

lemma rat_get_visible_set: "p < phy_reg_num r \<Longrightarrow> rat_get_visible r p = Some (p \<in> rat_visibles r)"
  by (simp add: rat_get_visible_def rat_visibles_def)

lemma rat_get_commit_set: "p < phy_reg_num r \<Longrightarrow> rat_get_commit r p = Some (p \<in> rat_commits r)"
  by (simp add: rat_get_commit_def rat_commits_def)

lemma free_phy_loop_take:
  assumes "\<And>i. i \<in> set is \<Longrightarrow> i < phy_reg_num r" "length acc < num"
  shows "free_phy_loop r num is acc =
    Some (acc @ take (num - length acc) (filter (\<lambda>i. i \<notin> rat_valids r) is))"
  using assms
proof (induction "is" arbitrary: acc)
  case (Cons i "is")
  show ?case
  proof (cases "i \<in> rat_valids r")
    case False
    have v: "rat_get_valid r i = Some False" using Cons.prems(1) False by (simp add: rat_get_valid_set)
    obtain k where k: "num - length acc = Suc k" using Cons.prems(2) by (cases "num - length acc") auto
    show ?thesis
    proof (cases "k = 0")
      case True
      then have "num \<le> length (acc @ [i])" using k by simp
      with True False v k show ?thesis by (simp add: Let_def)
    next
      case more: False
      then have lt: "length (acc @ [i]) < num" "num - Suc (length acc) = k" using k by simp_all
      with Cons.IH [of "acc @ [i]"] Cons.prems(1) False v k show ?thesis by (simp add: Let_def)
    qed
  qed (use Cons in \<open>simp add: rat_get_valid_set\<close>)
qed simp

lemma rat_get_free_phy_id_eq:
  "0 < num \<Longrightarrow> rat_get_free_phy_id r num =
    Some (take num (filter (\<lambda>i. i \<notin> rat_valids r) [0..<phy_reg_num r]))"
  using free_phy_loop_take [of "[0..<phy_reg_num r]" r "[]" num]
  by (simp add: rat_get_free_phy_id_def)

subsection \<open>Renaming\<close>

definition set_map_state :: "nat \<Rightarrow> nat \<Rightarrow> nat option \<Rightarrow> rat \<Rightarrow> rat" where
  "set_map_state a p old r =
     r \<lparr> phy_map_table := (phy_map_table r)[p := a],
         phy_map_table_valid := bitmap_set (phy_map_table_valid r) p True,
         phy_map_table_visible :=
           (case old of None \<Rightarrow> bitmap_set (phy_map_table_visible r) p True
            | Some q \<Rightarrow> bitmap_set (bitmap_set (phy_map_table_visible r) p True) q False),
         phy_map_table_commit := bitmap_set (phy_map_table_commit r) p False \<rparr>"

lemma rat_set_map_eq:
  assumes "p < phy_reg_num r" "p \<notin> rat_valids r" "0 < a" "a < arch_reg_num r"
    and "rat_get_phy_id r a = Some old" "\<not> init_rat r \<Longrightarrow> old \<noteq> None"
    and "\<And>q. old = Some q \<Longrightarrow> q < phy_reg_num r"
  shows "rat_set_map a p r = Some (old, set_map_state a p old r)"
  using assms
  by (cases old)
    (auto simp: rat_set_map_def rat_get_valid_set Let_def rat_set_valid_def rat_set_visible_def
      rat_set_commit_def set_map_state_def split: if_splits)

lemma set_map_state_fields [simp]:
  "phy_reg_num (set_map_state a p old r) = phy_reg_num r"
  "arch_reg_num (set_map_state a p old r) = arch_reg_num r"
  "init_rat (set_map_state a p old r) = init_rat r"
  "phy_map_table (set_map_state a p old r) = (phy_map_table r)[p := a]"
  by (simp_all add: set_map_state_def)

lemma set_map_state_sets:
  assumes "rat_wf r" "p < phy_reg_num r" "\<And>q. old = Some q \<Longrightarrow> q < phy_reg_num r \<and> q \<noteq> p"
  shows "rat_wf (set_map_state a p old r)"
    and "rat_valids (set_map_state a p old r) = insert p (rat_valids r)"
    and "rat_visibles (set_map_state a p old r) = insert p (rat_visibles r) - set_option old"
    and "rat_commits (set_map_state a p old r) = rat_commits r - {p}"
proof -
  note cap = assms(1) [unfolded rat_wf_def]
  show "rat_wf (set_map_state a p old r)"
    using assms(1) by (auto simp: rat_wf_def set_map_state_def split: option.splits)
  show "rat_valids (set_map_state a p old r) = insert p (rat_valids r)"
    "rat_commits (set_map_state a p old r) = rat_commits r - {p}"
    using cap assms(2) by (simp_all add: rat_sets set_map_state_def bits.flags_set)
  show "rat_visibles (set_map_state a p old r) = insert p (rat_visibles r) - set_option old"
    using cap assms(2,3) by (cases old) (simp_all add: rat_sets set_map_state_def bits.flags_set)
qed

lemma set_map_state_inv:
  assumes inv: "rat_inv r" and p: "p < phy_reg_num r" "p \<notin> rat_valids r" and a: "0 < a" "a < arch_reg_num r"
    and old: "rat_get_phy_id r a = Some old"
  shows "rat_inv (set_map_state a p old r)"
    and "\<And>b. rat_get_phy_id (set_map_state a p old r) b = (if b = a then Some (Some p) else rat_get_phy_id r b)"
proof -
  let ?s = "set_map_state a p old r"
  have len: "length (phy_map_table r) = phy_reg_num r" and sub: "rat_visibles r \<subseteq> rat_valids r"
    using inv by (auto simp: rat_inv_def rat_wf_def)
  have q: "q \<in> rat_visibles r \<and> phy_map_table r ! q = a" if "old = Some q" for q
    using old that rat_get_phy_id_iff [OF inv a, of q] by simp
  have none: "phy_map_table r ! x \<noteq> a" if "x \<in> rat_visibles r" "x \<notin> set_option old" for x
  proof (cases old)
    case None
    with that old rat_get_phy_id_iff [OF inv a, of x] show ?thesis by auto
  next
    case (Some y)
    with that q [OF Some] inv show ?thesis by (auto simp: rat_inv_def inj_on_def)
  qed
  have oldok: "\<And>q. old = Some q \<Longrightarrow> q < phy_reg_num r \<and> q \<noteq> p"
    using q sub p(2) by (auto simp: rat_valids_def)
  note S = set_map_state_sets [OF rat_inv_wf [OF inv] p(1) oldok, where a = a]
  have pv: "p \<notin> rat_visibles r" using sub p(2) by auto
  have nm: "phy_map_table ?s ! x = (if x = p then a else phy_map_table r ! x)" if "x < phy_reg_num r" for x
    using that len p(1) by (simp add: nth_list_update)
  have nmv: "phy_map_table ?s ! x = phy_map_table r ! x" if "x \<in> rat_visibles r" for x
    using that pv nm [of x] by (auto simp: rat_visibles_def)
  have nmp: "phy_map_table ?s ! p = a" using nm [OF p(1)] by simp
  have pold: "p \<notin> set_option old" using oldok by (auto simp: elem_set)
  have vis: "rat_visibles ?s = insert p (rat_visibles r - set_option old)" using S(3) pold by auto
  show inv': "rat_inv ?s"
    unfolding rat_inv_def
  proof (intro conjI)
    show "inj_on ((!) (phy_map_table ?s)) (rat_visibles ?s)"
      unfolding vis
    proof (subst inj_on_insert, intro conjI)
      show "inj_on ((!) (phy_map_table ?s)) (rat_visibles r - set_option old)"
        using inv nmv by (auto simp: rat_inv_def inj_on_def)
      show "phy_map_table ?s ! p \<notin> (!) (phy_map_table ?s) ` (rat_visibles r - set_option old - {p})"
        using none nmv nmp by auto
    qed
    show "\<forall>x \<in> rat_visibles ?s. 0 < phy_map_table ?s ! x \<and> phy_map_table ?s ! x < arch_reg_num ?s"
      using inv nmv nmp a by (auto simp: vis rat_inv_def)
  qed (use S sub in auto)
  show "rat_get_phy_id ?s b = (if b = a then Some (Some p) else rat_get_phy_id r b)" for b
  proof (cases "0 < b \<and> b < arch_reg_num r")
    case False
    with a show ?thesis by (auto simp: rat_get_phy_id_range)
  next
    case True
    then have b: "0 < b" "b < arch_reg_num ?s" "b < arch_reg_num r" by auto
    show ?thesis
    proof (cases "b = a")
      case True
      with rat_get_phy_id_iff [OF inv' b(1,2), of p] nmp show ?thesis by (simp add: vis)
    next
      case False
      from rat_get_phy_id_cases [OF inv b(1,3)] show ?thesis
      proof
        assume "\<exists>x \<in> rat_visibles r. phy_map_table r ! x = b \<and> rat_get_phy_id r b = Some (Some x)"
        then obtain x where x: "x \<in> rat_visibles r" "phy_map_table r ! x = b" "rat_get_phy_id r b = Some (Some x)"
          by blast
        have "x \<notin> set_option old" using x(2) False q by (auto simp: elem_set)
        with x False nmv [OF x(1)] rat_get_phy_id_iff [OF inv' b(1,2), of x] show ?thesis by (simp add: vis)
      next
        assume n: "(\<forall>x \<in> rat_visibles r. phy_map_table r ! x \<noteq> b) \<and> rat_get_phy_id r b = Some None"
        then have "\<forall>x \<in> rat_visibles ?s. phy_map_table ?s ! x \<noteq> b"
          using nmv nmp False by (auto simp: vis)
        with n False rat_get_phy_id_cases [OF inv' b(1,2)] show ?thesis by auto
      qed
    qed
  qed
qed

lemma rat_set_map_total:
  assumes "rat_total r" "p < phy_reg_num r" "p \<notin> rat_valids r" "0 < a" "a < arch_reg_num r"
  obtains q s where "rat_get_phy_id r a = Some (Some q)" "q \<in> rat_visibles r" "q \<noteq> p"
    "rat_set_map a p r = Some (Some q, s)" "s = set_map_state a p (Some q) r" "rat_total s"
    "\<And>b. rat_get_phy_id s b = (if b = a then Some (Some p) else rat_get_phy_id r b)"
proof -
  have inv: "rat_inv r" using assms(1) by simp
  obtain q where q: "q \<in> rat_visibles r" "phy_map_table r ! q = a" "rat_get_phy_id r a = Some (Some q)"
    using rat_get_phy_id_total [OF assms(1,4,5)] by blast
  have qp: "q < phy_reg_num r" "q \<noteq> p"
    using q(1) inv assms(3) by (auto simp: rat_inv_def rat_sets)
  let ?s = "set_map_state a p (Some q) r"
  have eq: "rat_set_map a p r = Some (Some q, ?s)"
    using assms q qp by (intro rat_set_map_eq) auto
  have inv': "rat_inv ?s" and look: "\<And>b. rat_get_phy_id ?s b = (if b = a then Some (Some p) else rat_get_phy_id r b)"
    using set_map_state_inv [OF inv assms(2-5) q(3)] by auto
  have arch: "arch_reg_num ?s = arch_reg_num r" by (simp add: set_map_state_def)
  have "\<exists>x \<in> rat_visibles ?s. phy_map_table ?s ! x = b" if b: "0 < b" "b < arch_reg_num ?s" for b
  proof -
    have "\<exists>x. rat_get_phy_id ?s b = Some (Some x)"
      using look [of b] rat_get_phy_id_total [OF assms(1), of b] b arch by auto
    with rat_get_phy_id_iff [OF inv' b] show ?thesis by auto
  qed
  with inv' have "rat_total ?s" by (simp add: rat_total_def)
  with that q(3,1) qp(2) eq look show thesis by blast
qed

subsection \<open>Release, commit, roll back\<close>

lemma rat_release_map_eq:
  assumes "rat_wf r" "p \<in> rat_valids r" "p \<notin> rat_visibles r"
  shows "\<exists>s. rat_release_map p r = Some s \<and> rat_wf s \<and> rat_valids s = rat_valids r - {p} \<and>
    rat_visibles s = rat_visibles r \<and> rat_commits s = rat_commits r \<and>
    phy_map_table s = (phy_map_table r)[p := 0] \<and> phy_reg_num s = phy_reg_num r \<and>
    arch_reg_num s = arch_reg_num r \<and> init_rat s = init_rat r"
proof -
  have p: "p < phy_reg_num r" using assms(2) by (simp add: rat_valids_def)
  then show ?thesis using assms
    by (simp add: rat_release_map_def rat_get_valid_set rat_get_visible_set Let_def rat_set_valid_def)
      (simp add: rat_wf_def rat_sets bits.flags_set)
qed

lemma rat_commit_map_eq:
  assumes "rat_wf r" "p \<in> rat_valids r" "p \<notin> rat_commits r"
  shows "\<exists>s. rat_commit_map p r = Some s \<and> rat_wf s \<and> rat_valids s = rat_valids r \<and>
    rat_visibles s = rat_visibles r \<and> rat_commits s = insert p (rat_commits r) \<and>
    phy_map_table s = phy_map_table r \<and> phy_reg_num s = phy_reg_num r \<and>
    arch_reg_num s = arch_reg_num r \<and> init_rat s = init_rat r"
proof -
  have p: "p < phy_reg_num r" using assms(2) by (simp add: rat_valids_def)
  then show ?thesis using assms
    by (simp add: rat_commit_map_def rat_get_valid_set rat_get_commit_set rat_set_commit_def)
      (simp add: rat_wf_def rat_sets bits.flags_set)
qed

lemma rat_restore_map_eq:
  assumes "rat_wf r" "p \<in> rat_visibles r" "p \<in> rat_valids r" "q \<in> rat_valids r" "q \<notin> rat_visibles r"
  shows "\<exists>s. rat_restore_map p q r = Some s \<and> rat_wf s \<and> rat_valids s = rat_valids r - {p} \<and>
    rat_visibles s = insert q (rat_visibles r - {p}) \<and> rat_commits s = rat_commits r \<and>
    phy_map_table s = (phy_map_table r)[p := 0] \<and> phy_reg_num s = phy_reg_num r \<and>
    arch_reg_num s = arch_reg_num r \<and> init_rat s = init_rat r"
proof -
  have pq: "p < phy_reg_num r" "q < phy_reg_num r" "p \<noteq> q"
    using assms(2,4,5) by (auto simp: rat_sets)
  have "insert q (rat_valids r - {p}) = rat_valids r - {p}" using pq(3) assms(4) by auto
  note v = this [unfolded rat_valids_def]
  show ?thesis using pq assms
    by (simp add: rat_restore_map_def rat_get_valid_set rat_get_visible_set Let_def rat_set_valid_def
        rat_set_visible_def)
      (simp add: rat_wf_def rat_sets bits.flags_set v)
qed

text \<open>Two tables that differ at most in entries of unallocated registers and in commit marks.\<close>

definition rat_same :: "rat \<Rightarrow> rat \<Rightarrow> bool" where
  "rat_same r s \<longleftrightarrow> rat_wf r \<and> rat_wf s \<and> phy_reg_num s = phy_reg_num r \<and> arch_reg_num s = arch_reg_num r \<and>
     init_rat s = init_rat r \<and> rat_valids s = rat_valids r \<and> rat_visibles s = rat_visibles r \<and>
     (\<forall>p \<in> rat_valids r. phy_map_table s ! p = phy_map_table r ! p)"

lemma rat_inv_subset: "rat_inv r \<Longrightarrow> rat_visibles r \<subseteq> rat_valids r"
  by (simp add: rat_inv_def)

lemma rat_same_inv: "rat_same r s \<Longrightarrow> rat_inv r \<Longrightarrow> rat_inv s"
  by (auto simp: rat_same_def rat_inv_def inj_on_def subset_iff)

lemma rat_same_lookup: "rat_same r s \<Longrightarrow> rat_inv r \<Longrightarrow> rat_get_phy_id s a = rat_get_phy_id r a"
proof (rule rat_get_phy_id_cong)
  assume same: "rat_same r s" and inv: "rat_inv r"
  from inv show "rat_inv r" .
  from same inv show "rat_inv s" by (rule rat_same_inv)
  from same show "arch_reg_num s = arch_reg_num r" "rat_visibles s = rat_visibles r"
    by (simp_all add: rat_same_def)
  from same rat_inv_subset [OF inv] show "phy_map_table s ! p = phy_map_table r ! p"
    if "p \<in> rat_visibles r" for p using that by (auto simp: rat_same_def)
qed

lemma rat_same_restore:
  assumes "rat_same r s" "p \<in> rat_visibles r" "p \<in> rat_valids r" "q \<in> rat_valids r" "q \<notin> rat_visibles r"
    "rat_restore_map p q r = Some r1"
  shows "\<exists>s1. rat_restore_map p q s = Some s1 \<and> rat_same r1 s1"
proof -
  have wf: "rat_wf r" "rat_wf s" and len: "length (phy_map_table r) = phy_reg_num r"
    "length (phy_map_table s) = phy_reg_num r" "p < phy_reg_num r"
    using assms(1,3) by (auto simp: rat_same_def rat_wf_def rat_valids_def)
  have s: "p \<in> rat_visibles s" "p \<in> rat_valids s" "q \<in> rat_valids s" "q \<notin> rat_visibles s"
    using assms by (auto simp: rat_same_def)
  have r1: "rat_wf r1" "rat_valids r1 = rat_valids r - {p}" "rat_visibles r1 = insert q (rat_visibles r - {p})"
    "phy_map_table r1 = (phy_map_table r)[p := 0]" "phy_reg_num r1 = phy_reg_num r"
    "arch_reg_num r1 = arch_reg_num r" "init_rat r1 = init_rat r"
    using rat_restore_map_eq [OF wf(1) assms(2-5)] assms(6) by auto
  obtain s1 where s1: "rat_restore_map p q s = Some s1" "rat_wf s1" "rat_valids s1 = rat_valids s - {p}"
    "rat_visibles s1 = insert q (rat_visibles s - {p})" "phy_map_table s1 = (phy_map_table s)[p := 0]"
    "phy_reg_num s1 = phy_reg_num s" "arch_reg_num s1 = arch_reg_num s" "init_rat s1 = init_rat s"
    using rat_restore_map_eq [OF wf(2) s] by blast
  have "rat_same r1 s1" using assms(1) r1 s1(2-8) by (auto simp: rat_same_def)
  with s1(1) show ?thesis by blast
qed

lemma restore_undoes_set_map:
  assumes "rat_total r" "p < phy_reg_num r" "p \<notin> rat_valids r" "q \<in> rat_visibles r" "q \<noteq> p"
  shows "p \<in> rat_visibles (set_map_state a p (Some q) r)" "p \<in> rat_valids (set_map_state a p (Some q) r)"
    "q \<in> rat_valids (set_map_state a p (Some q) r)" "q \<notin> rat_visibles (set_map_state a p (Some q) r)"
    "\<exists>t. rat_restore_map p q (set_map_state a p (Some q) r) = Some t \<and> rat_same r t"
proof -
  let ?s = "set_map_state a p (Some q) r"
  have inv: "rat_inv r" using assms(1) by simp
  have q: "\<And>x. Some q = Some x \<Longrightarrow> x < phy_reg_num r \<and> x \<noteq> p"
    using assms(4,5) by (simp add: rat_visibles_def)
  note S = set_map_state_sets [where a = a and old = "Some q", OF rat_inv_wf [OF inv] assms(2) q]
  have qv: "q \<in> rat_valids r" and pv: "p \<notin> rat_visibles r"
    using inv assms(3,4) by (auto simp: rat_inv_def)
  show s: "p \<in> rat_visibles ?s" "p \<in> rat_valids ?s" "q \<in> rat_valids ?s" "q \<notin> rat_visibles ?s"
    using S(2,3) qv assms(5) by auto
  have len: "length (phy_map_table r) = phy_reg_num r" using inv by (auto simp: rat_inv_def rat_wf_def)
  obtain t where t: "rat_restore_map p q ?s = Some t" "rat_wf t" "rat_valids t = rat_valids ?s - {p}"
    "rat_visibles t = insert q (rat_visibles ?s - {p})" "phy_map_table t = (phy_map_table ?s)[p := 0]"
    "phy_reg_num t = phy_reg_num ?s" "arch_reg_num t = arch_reg_num ?s" "init_rat t = init_rat ?s"
    using rat_restore_map_eq [OF S(1) s] by blast
  have "rat_valids t = rat_valids r" "rat_visibles t = rat_visibles r"
    using t S(2,3) assms(3,4) pv by auto
  moreover have "phy_map_table t ! x = phy_map_table r ! x" if "x \<in> rat_valids r" for x
  proof -
    have "x \<noteq> p" using that assms(3) by auto
    then show ?thesis unfolding t(5) by simp
  qed
  ultimately have "rat_same r t"
    unfolding rat_same_def using t(2) rat_inv_wf [OF inv] t(6-8) by simp
  with t(1) show "\<exists>t. rat_restore_map p q ?s = Some t \<and> rat_same r t" by blast
qed

text \<open>
  A run of renames, newest last: \<open>(arch, phy)\<close> pairs in, the \<open>(new, old)\<close> pairs that rename records in
  the reorder buffer out.
\<close>

fun rename_all :: "(nat \<times> nat) list \<Rightarrow> rat \<Rightarrow> ((nat \<times> nat) list \<times> rat) option" where
  "rename_all [] r = Some ([], r)"
| "rename_all ((a, p) # xs) r = do {
     (old, r1) \<leftarrow> rat_set_map a p r;
     q \<leftarrow> old;
     (log, r2) \<leftarrow> rename_all xs r1;
     Some ((p, q) # log, r2) }"

definition rollback :: "(nat \<times> nat) list \<Rightarrow> rat \<Rightarrow> rat option" where
  "rollback log r = drain (\<lambda>(new, old) r. rat_restore_map new old r) log r"

definition rename_ok :: "rat \<Rightarrow> (nat \<times> nat) list \<Rightarrow> bool" where
  "rename_ok r xs \<longleftrightarrow> distinct (map snd xs) \<and>
     (\<forall>(a, p) \<in> set xs. 0 < a \<and> a < arch_reg_num r \<and> p < phy_reg_num r \<and> p \<notin> rat_valids r)"

lemma rename_ok_Cons:
  assumes "rat_total r" "rename_ok r ((a, p) # xs)" "q \<in> rat_visibles r" "q \<noteq> p"
  shows "rename_ok (set_map_state a p (Some q) r) xs"
proof -
  have "rat_wf r" and p: "p < phy_reg_num r" and q: "\<And>x. Some q = Some x \<Longrightarrow> x < phy_reg_num r \<and> x \<noteq> p"
    using assms by (auto simp: rename_ok_def rat_visibles_def)
  from set_map_state_sets(2) [where a = a and old = "Some q", OF this] assms(2) show ?thesis
    by (auto simp: rename_ok_def image_iff)
qed

lemma rename_all_step:
  assumes "rat_total r" "rename_ok r ((a, p) # xs)"
  obtains q s where "rat_set_map a p r = Some (Some q, s)" "s = set_map_state a p (Some q) r"
    "q \<in> rat_visibles r" "q \<noteq> p" "rat_total s" "rename_ok s xs"
    "\<And>b. rat_get_phy_id s b = (if b = a then Some (Some p) else rat_get_phy_id r b)"
    "\<And>log t. rename_all xs s = Some (log, t) \<Longrightarrow> rename_all ((a, p) # xs) r = Some ((p, q) # log, t)"
proof -
  from assms(2) have p: "p < phy_reg_num r" "p \<notin> rat_valids r" "0 < a" "a < arch_reg_num r"
    by (auto simp: rename_ok_def)
  from rat_set_map_total [OF assms(1) p] obtain q s where
    s: "rat_set_map a p r = Some (Some q, s)" "s = set_map_state a p (Some q) r" "q \<in> rat_visibles r"
      "q \<noteq> p" "rat_total s"
      "\<And>b. rat_get_phy_id s b = (if b = a then Some (Some p) else rat_get_phy_id r b)"
    by metis
  have "rename_ok s xs" using rename_ok_Cons [OF assms s(3,4)] s(2) by simp
  with that s show thesis by simp
qed

lemma rename_all_lookup:
  assumes "rat_total r" "rename_ok r xs"
  shows "\<exists>log s. rename_all xs r = Some (log, s) \<and> rat_total s \<and>
    (\<forall>b. rat_get_phy_id s b =
       (case map_of (rev xs) b of Some p \<Rightarrow> Some (Some p) | None \<Rightarrow> rat_get_phy_id r b))"
  using assms
proof (induction xs arbitrary: r)
  case (Cons x xs)
  obtain a p where x: "x = (a, p)" by (cases x)
  from rename_all_step [OF Cons.prems(1) Cons.prems(2) [unfolded x]] obtain q s where
    s: "rat_total s" "rename_ok s xs"
      "\<And>b. rat_get_phy_id s b = (if b = a then Some (Some p) else rat_get_phy_id r b)"
      "\<And>log t. rename_all xs s = Some (log, t) \<Longrightarrow> rename_all ((a, p) # xs) r = Some ((p, q) # log, t)"
    by metis
  from Cons.IH [OF s(1,2)] obtain log t where
    t: "rename_all xs s = Some (log, t)" "rat_total t"
      "\<And>b. rat_get_phy_id t b = (case map_of (rev xs) b of Some p \<Rightarrow> Some (Some p) | None \<Rightarrow> rat_get_phy_id s b)"
    by blast
  have "rat_get_phy_id t b = (case map_of (rev (x # xs)) b of Some p \<Rightarrow> Some (Some p) | None \<Rightarrow> rat_get_phy_id r b)"
    for b using t(3) [of b] s(3) [of b] by (auto simp: x map_add_def split: option.splits)
  with s(4) [OF t(1)] t(2) show ?case unfolding x by blast
qed simp

lemma rename_all_rollback:
  assumes "rat_total r" "rename_ok r xs"
  shows "\<exists>log s t. rename_all xs r = Some (log, s) \<and> rollback (rev log) s = Some t \<and> rat_same r t"
  using assms
proof (induction xs arbitrary: r)
  case Nil
  then show ?case by (auto simp: rollback_def rat_same_def)
next
  case (Cons x xs)
  obtain a p where x: "x = (a, p)" by (cases x)
  from rename_all_step [OF Cons.prems(1) Cons.prems(2) [unfolded x]] obtain q s where
    s: "s = set_map_state a p (Some q) r" "q \<in> rat_visibles r" "q \<noteq> p" "rat_total s" "rename_ok s xs"
      "\<And>log t. rename_all xs s = Some (log, t) \<Longrightarrow> rename_all ((a, p) # xs) r = Some ((p, q) # log, t)"
    by metis
  from Cons.IH [OF s(4,5)] obtain log t u where
    t: "rename_all xs s = Some (log, t)" "rollback (rev log) t = Some u" "rat_same s u" by blast
  have p: "p < phy_reg_num r" "p \<notin> rat_valids r" using Cons.prems(2) x by (auto simp: rename_ok_def)
  note undo = restore_undoes_set_map [OF Cons.prems(1) p s(2,3), of a, folded s(1)]
  from undo(5) obtain v where v: "rat_restore_map p q s = Some v" "rat_same r v" by blast
  from rat_same_restore [OF t(3) undo(1-4) v(1)] obtain w where
    w: "rat_restore_map p q u = Some w" "rat_same v w" by blast
  have "rollback (rev ((p, q) # log)) t = Some w"
    using t(2) w(1) by (simp add: rollback_def drain_append)
  moreover have "rat_same r w" using v(2) w(2) by (auto simp: rat_same_def)
  ultimately show ?case using s(6) [OF t(1)] unfolding x by blast
qed

lemma card_visibles_total:
  assumes "rat_total r"
  shows "card (rat_visibles r) = arch_reg_num r - 1"
proof -
  have "bij_betw ((!) (phy_map_table r)) (rat_visibles r) {1..<arch_reg_num r}"
    unfolding bij_betw_def
  proof
    show "inj_on ((!) (phy_map_table r)) (rat_visibles r)" using assms by (auto simp: rat_total_def rat_inv_def)
    show "(!) (phy_map_table r) ` rat_visibles r = {1..<arch_reg_num r}"
    proof
      show "(!) (phy_map_table r) ` rat_visibles r \<subseteq> {1..<arch_reg_num r}"
        using assms by (auto simp: rat_total_def rat_inv_def Suc_le_eq)
      show "{1..<arch_reg_num r} \<subseteq> (!) (phy_map_table r) ` rat_visibles r"
        using assms by (fastforce simp: rat_total_def Suc_le_eq)
    qed
  qed
  then show ?thesis using bij_betw_same_card by fastforce
qed

subsection \<open>The committed names\<close>

text \<open>Every architectural register has exactly one allocated register marked as committed.\<close>

definition rat_committed :: "rat \<Rightarrow> (nat \<Rightarrow> nat) \<Rightarrow> bool" where
  "rat_committed r nm \<longleftrightarrow> rat_wf r \<and>
     (\<forall>a. 0 < a \<and> a < arch_reg_num r \<longrightarrow>
        nm a \<in> rat_valids r \<inter> rat_commits r \<and> phy_map_table r ! nm a = a \<and>
        (\<forall>p \<in> rat_valids r \<inter> rat_commits r. phy_map_table r ! p = a \<longrightarrow> p = nm a))"

lemma rat_get_commit_phy_id_eq:
  assumes "rat_committed r nm" "0 < a" "a < arch_reg_num r"
  shows "rat_get_commit_phy_id r a = Some (nm a)"
proof -
  let ?P = "\<lambda>p. bitmap_get (phy_map_table_valid r) p \<and> bitmap_get (phy_map_table_commit r) p \<and>
      phy_map_table r ! p = a"
  let ?m = "\<lambda>i. do { v \<leftarrow> rat_get_valid r i;
      if v then do { c \<leftarrow> rat_get_commit r i; Some (c \<and> phy_map_table r ! i = a) } else Some False }"
  have m: "?m i = Some (?P i)" if "i < phy_reg_num r" for i
    using that by (auto simp: rat_get_valid_def rat_get_commit_def)
  have only: "p = nm a" if "p < phy_reg_num r" "?P p" for p
    using that assms by (auto simp: rat_committed_def rat_sets)
  have nm: "nm a < phy_reg_num r \<and> ?P (nm a)"
    using assms by (auto simp: rat_committed_def rat_sets)
  have uniq: "i = j" if "i < phy_reg_num r" "j < phy_reg_num r" "?P i" "?P j" for i j
    using only [OF that(1,3)] only [OF that(2,4)] by simp
  have c: "count_matches ?m [0..<phy_reg_num r] 0 None = Some (1, Some (nm a))"
    using count_matches_unique [of "phy_reg_num r" ?m ?P, OF m uniq]
  proof
    assume "\<exists>p < phy_reg_num r. ?P p \<and> count_matches ?m [0..<phy_reg_num r] 0 None = Some (1, Some p)"
    then obtain p where p: "p < phy_reg_num r" "?P p"
      and c: "count_matches ?m [0..<phy_reg_num r] 0 None = Some (1, Some p)" by blast
    show ?thesis using c unfolding only [OF p] .
  next
    assume "(\<forall>p < phy_reg_num r. \<not> ?P p) \<and> count_matches ?m [0..<phy_reg_num r] 0 None = Some (0, None)"
    then have "\<not> ?P (nm a)" using nm by blast
    with nm show ?thesis by blast
  qed
  have "rat_get_commit_phy_id r a = Option.bind (count_matches ?m [0..<phy_reg_num r] 0 None)
      (\<lambda>(cnt, res). Option.bind (assert_that (cnt = 1)) (\<lambda>_. res))"
    using assms(2,3) unfolding rat_get_commit_phy_id_def by simp
  then show ?thesis unfolding c by simp
qed

lemma set_map_keeps_committed:
  assumes "rat_committed r nm" "p < phy_reg_num r" "p \<notin> rat_valids r"
    and old: "\<And>q. old = Some q \<Longrightarrow> q < phy_reg_num r \<and> q \<noteq> p"
  shows "rat_committed (set_map_state a p old r) nm"
proof -
  let ?s = "set_map_state a p old r"
  have wf: "rat_wf r" using assms(1) by (simp add: rat_committed_def)
  note S = set_map_state_sets [where a = a and old = old, OF wf assms(2) old]
  have both: "rat_valids ?s \<inter> rat_commits ?s = rat_valids r \<inter> rat_commits r"
    using S(2,4) assms(3) by auto
  have "phy_map_table ?s ! x = phy_map_table r ! x" if "x \<in> rat_valids r" for x
  proof -
    have "x \<noteq> p" using that assms(3) by auto
    then show ?thesis by simp
  qed
  then show ?thesis using assms(1) S(1) unfolding rat_committed_def both by auto
qed

lemma retire_committed:
  assumes "rat_committed r nm" "0 < a" "a < arch_reg_num r" "nm a \<notin> rat_visibles r"
    and "p \<in> rat_valids r" "p \<notin> rat_commits r" "phy_map_table r ! p = a"
  shows "\<exists>s. drain rat_handle [Rat_release_map (nm a), Rat_commit_map p] r = Some s \<and>
    rat_committed s (nm(a := p)) \<and> rat_visibles s = rat_visibles r \<and> rat_valids s = rat_valids r - {nm a}"
proof -
  have wf: "rat_wf r" and q: "nm a \<in> rat_valids r" "nm a \<in> rat_commits r" "phy_map_table r ! nm a = a"
    using assms(1-3) by (auto simp: rat_committed_def)
  have pq: "p \<noteq> nm a" using q assms(6) by auto
  obtain s where s: "rat_release_map (nm a) r = Some s" "rat_wf s" "rat_valids s = rat_valids r - {nm a}"
    "rat_visibles s = rat_visibles r" "rat_commits s = rat_commits r"
    "phy_map_table s = (phy_map_table r)[nm a := 0]" "arch_reg_num s = arch_reg_num r"
    using rat_release_map_eq [OF wf q(1) assms(4)] by blast
  have p: "p \<in> rat_valids s" "p \<notin> rat_commits s" using s pq assms by auto
  obtain t where t: "rat_commit_map p s = Some t" "rat_wf t" "rat_valids t = rat_valids s"
    "rat_visibles t = rat_visibles s" "rat_commits t = insert p (rat_commits s)"
    "phy_map_table t = phy_map_table s" "arch_reg_num t = arch_reg_num s"
    using rat_commit_map_eq [OF s(2) p] by blast
  have name: "phy_map_table t ! x = phy_map_table r ! x" if "x \<noteq> nm a" for x
    using that by (simp add: t s)
  have "(nm(a := p)) b \<in> rat_valids t \<inter> rat_commits t \<and> phy_map_table t ! (nm(a := p)) b = b \<and>
      (\<forall>x \<in> rat_valids t \<inter> rat_commits t. phy_map_table t ! x = b \<longrightarrow> x = (nm(a := p)) b)"
    if b: "0 < b" "b < arch_reg_num t" for b
  proof (cases "b = a")
    case True
    have "x = p" if "x \<in> rat_valids t \<inter> rat_commits t" "phy_map_table t ! x = a" for x
    proof -
      have "x \<noteq> nm a" using that(1) by (simp add: t s)
      then have "phy_map_table r ! x = a" using that(2) name by simp
      with that(1) assms(1-3) \<open>x \<noteq> nm a\<close> show ?thesis by (auto simp: t s rat_committed_def)
    qed
    then have "\<forall>x \<in> rat_valids t \<inter> rat_commits t. phy_map_table t ! x = a \<longrightarrow> x = p" by blast
    moreover have "p \<in> rat_valids t \<inter> rat_commits t" using p(1) t(3,5) by simp
    moreover have "phy_map_table t ! p = a" using name [OF pq] assms(7) by simp
    ultimately show ?thesis unfolding True fun_upd_same by blast
  next
    case False
    have nb: "nm b \<in> rat_valids r \<inter> rat_commits r" "phy_map_table r ! nm b = b"
      and ub: "\<And>x. x \<in> rat_valids r \<inter> rat_commits r \<Longrightarrow> phy_map_table r ! x = b \<Longrightarrow> x = nm b"
      using b assms(1) by (auto simp: rat_committed_def t s)
    have "nm b \<noteq> nm a" using nb(2) q(3) False by auto
    have "x = nm b" if "x \<in> rat_valids t \<inter> rat_commits t" "phy_map_table t ! x = b" for x
    proof -
      have x: "x \<noteq> nm a" "x \<in> rat_valids r" using that(1) by (auto simp: t s)
      then have "phy_map_table r ! x = b" using that(2) name by simp
      with x that(1) assms(7) False ub [of x] show ?thesis by (auto simp: t s)
    qed
    then have "\<forall>x \<in> rat_valids t \<inter> rat_commits t. phy_map_table t ! x = b \<longrightarrow> x = nm b" by blast
    moreover have "nm b \<in> rat_valids t \<inter> rat_commits t"
      using nb(1) \<open>nm b \<noteq> nm a\<close> t(3,5) s(3,5) by simp
    moreover have "phy_map_table t ! nm b = b" using name [OF \<open>nm b \<noteq> nm a\<close>] nb(2) by simp
    ultimately show ?thesis unfolding fun_upd_other [OF False] by blast
  qed
  then have "rat_committed t (nm(a := p))" using t(2) by (simp add: rat_committed_def)
  with s t show ?thesis by auto
qed

subsection \<open>The initial table\<close>

text \<open>The initialisation loop of \<open>init\<close> and \<open>reset\<close> in \<open>main.cpp\<close>, its alias table part.\<close>

definition rat_boot_step :: "nat \<Rightarrow> rat \<Rightarrow> rat option" where
  "rat_boot_step i r = do {
     (old, r1) \<leftarrow> rat_set_map i i r;
     rat_commit_map i r1 }"

definition rat_boot :: "rat \<Rightarrow> rat option" where
  "rat_boot r = do {
     r1 \<leftarrow> drain rat_boot_step [1..<32] (rat_init_start r);
     Some (rat_init_finish r1) }"

definition boot_inv :: "nat \<Rightarrow> nat \<Rightarrow> nat \<Rightarrow> rat \<Rightarrow> bool" where
  "boot_inv phy arch k r \<longleftrightarrow> rat_wf r \<and> phy_reg_num r = phy \<and> arch_reg_num r = arch \<and> init_rat r \<and>
     rat_valids r = {1..<k} \<and> rat_visibles r = {1..<k} \<and> rat_commits r = {1..<k} \<and>
     (\<forall>i \<in> {1..<k}. phy_map_table r ! i = i)"

lemma boot_inv_rat_inv: "boot_inv phy arch k r \<Longrightarrow> k \<le> arch \<Longrightarrow> rat_inv r"
  by (auto simp: boot_inv_def rat_inv_def inj_on_def)

lemma boot_step:
  assumes "boot_inv phy arch k r" "0 < k" "k < arch" "k < phy"
  shows "\<exists>s. rat_boot_step k r = Some s \<and> boot_inv phy arch (Suc k) s"
proof -
  have inv: "rat_inv r" using boot_inv_rat_inv assms by auto
  note B = assms(1) [unfolded boot_inv_def]
  have none: "rat_get_phy_id r k = Some None"
    using rat_get_phy_id_cases [OF inv assms(2)] B assms by auto
  have k: "k < phy_reg_num r" using B assms by simp
  let ?s = "set_map_state k k None r"
  have set_map: "rat_set_map k k r = Some (None, ?s)"
    using B assms none by (intro rat_set_map_eq) auto
  have S: "rat_wf ?s" "rat_valids ?s = insert k (rat_valids r)" "rat_visibles ?s = insert k (rat_visibles r)"
    "rat_commits ?s = rat_commits r - {k}"
    using set_map_state_sets [where a = k and old = None, OF _ k] B by auto
  obtain t where t: "rat_commit_map k ?s = Some t" "rat_wf t" "rat_valids t = rat_valids ?s"
    "rat_visibles t = rat_visibles ?s" "rat_commits t = insert k (rat_commits ?s)"
    "phy_map_table t = phy_map_table ?s" "phy_reg_num t = phy_reg_num ?s"
    "arch_reg_num t = arch_reg_num ?s" "init_rat t = init_rat ?s"
    using rat_commit_map_eq [OF S(1), of k] S(2,4) by auto
  have set: "insert k {1..<k} = {1..<Suc k}" "{1..<k} - {k} = {1..<k}" using assms(2) by auto
  have len: "length (phy_map_table r) = phy" using B by (simp add: rat_wf_def)
  have "\<forall>i \<in> {1..<Suc k}. phy_map_table t ! i = i"
    using B len assms(4) by (auto simp: t nth_list_update less_Suc_eq)
  with t S set B have "boot_inv phy arch (Suc k) t" by (simp add: boot_inv_def)
  with set_map t(1) show ?thesis by (simp add: rat_boot_step_def)
qed

lemma boot_loop:
  assumes "boot_inv phy arch 1 r" "n \<le> arch" "n \<le> phy"
  shows "\<exists>s. drain rat_boot_step [1..<n] r = Some s \<and> boot_inv phy arch (max 1 n) s"
  using assms(2,3)
proof (induction n)
  case (Suc n)
  then obtain s where s: "drain rat_boot_step [1..<n] r = Some s" "boot_inv phy arch (max 1 n) s" by auto
  show ?case
  proof (cases "n = 0")
    case False
    with s(2) boot_step [of phy arch n s] Suc.prems s(1) show ?thesis
      by (auto simp: drain_append max_def split: if_splits)
  qed (use assms(1) in simp)
qed (use assms(1) in simp)

lemma boot_start:
  assumes "phy_reg_num r \<le> 64 * rat_bitmap_size r"
  shows "boot_inv (phy_reg_num r) (arch_reg_num r) 1 (rat_init_start r)"
  using assms by (auto simp: boot_inv_def rat_init_start_def rat_wf_def rat_sets)

lemma boot_finish:
  assumes "boot_inv phy 32 32 s"
  shows "rat_total (rat_init_finish s)" "rat_committed (rat_init_finish s) id" "\<not> init_rat (rat_init_finish s)" "phy_reg_num (rat_init_finish s) = phy"
    "arch_reg_num (rat_init_finish s) = 32" "rat_valids (rat_init_finish s) = {1..<32}" "rat_visibles (rat_init_finish s) = {1..<32}"
    "\<forall>i \<in> {1..<32}. phy_map_table (rat_init_finish s) ! i = i"
proof -
  let ?t = "rat_init_finish s"
  have t: "rat_wf ?t" "phy_reg_num ?t = phy" "arch_reg_num ?t = 32" "rat_valids ?t = {1..<32}"
    "rat_visibles ?t = {1..<32}" "rat_commits ?t = {1..<32}" "\<forall>i \<in> {1..<32}. phy_map_table ?t ! i = i"
    "\<not> init_rat ?t"
    using assms by (auto simp: boot_inv_def rat_init_finish_def rat_wf_def rat_sets)
  then show "rat_total ?t" "rat_committed ?t id"
    by (auto simp: rat_total_def rat_inv_def inj_on_def rat_committed_def)
  from t show "\<not> init_rat ?t" "phy_reg_num ?t = phy" "arch_reg_num ?t = 32" "rat_valids ?t = {1..<32}" "rat_visibles ?t = {1..<32}"
    "\<forall>i \<in> {1..<32}. phy_map_table ?t ! i = i" by simp_all
qed

lemma rat_boot_total:
  assumes "32 \<le> phy"
  shows "\<exists>r. rat_boot (rat_new phy 32 tab valid visible commit) = Some r \<and> rat_total r \<and>
    rat_valids r = {1..<32} \<and> rat_committed r id \<and> \<not> init_rat r \<and> phy_reg_num r = phy \<and> arch_reg_num r = 32 \<and>
    rat_visibles r = {1..<32} \<and> (\<forall>i \<in> {1..<32}. phy_map_table r ! i = i)"
proof -
  let ?r = "rat_new phy 32 tab valid visible commit"
  have "boot_inv phy 32 1 (rat_init_start ?r)"
    using boot_start [of ?r] round_up_cap [of phy] by (simp add: rat_new_def div_round_up_def)
  from boot_loop [OF this, of 32] assms obtain s where
    s: "drain rat_boot_step [1..<32] (rat_init_start ?r) = Some s" "boot_inv phy 32 32 s" by auto
  with boot_finish [OF s(2)] show ?thesis by (auto simp: rat_boot_def)
qed

subsection \<open>Properties\<close>

text \<open>Renaming a group of destination registers to distinct free physical registers never fails an
  assertion on a table in which every register has a name; afterwards a register is looked up under
  the last physical register it was given in the group, all others as before, and every register
  still has exactly one name.\<close>

theorem rename_group_lookup:
  assumes "rat_total r" "rename_ok r xs"
  shows "\<exists>log s. rename_all xs r = Some (log, s) \<and> rat_total s \<and>
    (\<forall>b. rat_get_phy_id s b =
       (case map_of (rev xs) b of Some p \<Rightarrow> Some (Some p) | None \<Rightarrow> rat_get_phy_id r b))"
  using assms by (rule rename_all_lookup)

theorem rename_group_lookup_witness:
  "\<exists>r log s. rat_boot (rat_new 128 32 [] [] [] []) = Some r \<and>
     rename_all [(5, 40), (6, 41), (5, 42)] r = Some (log, s) \<and> rat_get_phy_id s 5 = Some (Some 42)"
proof -
  obtain r where r: "rat_boot (rat_new 128 32 [] [] [] []) = Some r" "rat_total r" "rat_valids r = {1..<32}"
    "phy_reg_num r = 128" "arch_reg_num r = 32"
    using rat_boot_total [of 128 "[]" "[]" "[]" "[]"] by auto
  have "rename_ok r [(5, 40), (6, 41), (5, 42)]" using r by (simp add: rename_ok_def)
  from rename_group_lookup [OF r(2) this] r(1) show ?thesis by auto
qed

text \<open>C15: Rolling back a group of renames, newest first, with the (new, old) pairs that rename recorded
  succeeds and restores the table: the same allocated and visible registers and the same lookups.\<close>

theorem rollback_undoes_renames:
  assumes "rat_total r" "rename_ok r xs"
  shows "\<exists>log s t. rename_all xs r = Some (log, s) \<and> rollback (rev log) s = Some t \<and>
    rat_valids t = rat_valids r \<and> rat_visibles t = rat_visibles r \<and>
    (\<forall>a. rat_get_phy_id t a = rat_get_phy_id r a)"
proof -
  obtain log s t where t: "rename_all xs r = Some (log, s)" "rollback (rev log) s = Some t" "rat_same r t"
    using rename_all_rollback [OF assms] by blast
  with rat_same_lookup [OF t(3)] assms(1) have "\<forall>a. rat_get_phy_id t a = rat_get_phy_id r a" by blast
  with t show ?thesis by (auto simp: rat_same_def)
qed

theorem rollback_undoes_renames_witness:
  "\<exists>r log s t. rat_boot (rat_new 128 32 [] [] [] []) = Some r \<and>
     rename_all [(5, 40), (5, 42)] r = Some (log, s) \<and> rollback (rev log) s = Some t \<and>
     rat_get_phy_id t 5 = Some (Some 5)"
proof -
  obtain r where r: "rat_boot (rat_new 128 32 [] [] [] []) = Some r" "rat_total r" "rat_valids r = {1..<32}"
    "phy_reg_num r = 128" "arch_reg_num r = 32" "rat_visibles r = {1..<32}" "\<forall>i \<in> {1..<32}. phy_map_table r ! i = i"
    using rat_boot_total [of 128 "[]" "[]" "[]" "[]"] by auto
  have "rat_get_phy_id r 5 = Some (Some 5)"
    using rat_get_phy_id_iff [of r 5 5] r by (simp add: rat_total_inv)
  moreover have "rename_ok r [(5, 40), (5, 42)]" using r by (simp add: rename_ok_def)
  ultimately show ?thesis using rollback_undoes_renames [OF r(2), of "[(5, 40), (5, 42)]"] r(1) by metis
qed

text \<open>\<open>get_free_phy_id\<close> returns the lowest unallocated physical registers, at most the number
  asked for and fewer only when no more are free; they are distinct and can be renamed to.\<close>

theorem get_free_phy_id_first_free:
  assumes "0 < num"
  shows "\<exists>ids. rat_get_free_phy_id r num = Some ids \<and>
    ids = take num (filter (\<lambda>p. p \<notin> rat_valids r) [0..<phy_reg_num r]) \<and>
    length ids = min num (phy_reg_num r - card (rat_valids r)) \<and> distinct ids \<and>
    (\<forall>p \<in> set ids. p < phy_reg_num r \<and> p \<notin> rat_valids r)"
proof -
  let ?l = "filter (\<lambda>p. p \<notin> rat_valids r) [0..<phy_reg_num r]"
  have "set ?l = {0..<phy_reg_num r} - rat_valids r" by auto
  moreover have "rat_valids r \<subseteq> {0..<phy_reg_num r}" by (auto simp: rat_valids_def)
  ultimately have "length ?l = phy_reg_num r - card (rat_valids r)"
    by (metis card_Diff_subset card_atLeastLessThan diff_zero distinct_card distinct_filter distinct_upt finite_rat_sets(1))
  then show ?thesis using rat_get_free_phy_id_eq [OF assms, of r]
    by (auto simp: dest!: in_set_takeD)
qed

theorem get_free_phy_id_first_free_witness:
  "rat_get_free_phy_id (rat_init_start (rat_new 128 32 [] [] [] [])) 2 = Some [0, 1]"
proof -
  have v: "rat_valids (rat_init_start (rat_new 128 32 [] [] [] [])) = {}"
    by (auto simp: rat_valids_def rat_init_start_def rat_new_def)
  have n: "phy_reg_num (rat_init_start (rat_new 128 32 [] [] [] [])) = 128"
    by (simp add: rat_init_start_def rat_new_def)
  show ?thesis using get_free_phy_id_first_free [of 2 "rat_init_start (rat_new 128 32 [] [] [] [])"]
    unfolding v n by (simp add: upt_rec)
qed

text \<open>After the initialisation loop every architectural register is named by, and committed
  to, the physical register of the same number, exactly 31 registers are visible, and normal renaming
  may start.\<close>

theorem rat_boot_identity:
  assumes "32 \<le> phy"
  shows "\<exists>r. rat_boot (rat_new phy 32 tab valid visible commit) = Some r \<and> rat_total r \<and> \<not> init_rat r \<and>
    card (rat_visibles r) = 31 \<and>
    (\<forall>a. 0 < a \<and> a < 32 \<longrightarrow> rat_get_phy_id r a = Some (Some a) \<and> rat_get_commit_phy_id r a = Some a)"
proof -
  obtain r where r: "rat_boot (rat_new phy 32 tab valid visible commit) = Some r" "rat_total r" "\<not> init_rat r"
    "arch_reg_num r = 32" "rat_committed r id" "rat_visibles r = {1..<32}" "\<forall>i \<in> {1..<32}. phy_map_table r ! i = i"
    using rat_boot_total [OF assms] by blast
  have "rat_get_phy_id r a = Some (Some a)" "rat_get_commit_phy_id r a = Some a" if "0 < a" "a < 32" for a
    using that r rat_get_phy_id_iff [of r a a] rat_get_commit_phy_id_eq [OF r(5), of a] by auto
  with r show ?thesis by auto
qed

theorem rat_boot_identity_witness:
  "\<exists>r. rat_boot (rat_new PHY_REG_NUM 32 [] [] [] []) = Some r \<and> rat_get_phy_id r 31 = Some (Some 31)"
  using rat_boot_identity [of PHY_REG_NUM "[]" "[]" "[]" "[]"] by (auto simp: PHY_REG_NUM_def)

text \<open>C22: Retiring an instruction, that is releasing the previously committed name of its destination
  register and committing the new one, moves the committed name of that register and no other,
  frees exactly the old physical register and leaves the current names alone.\<close>

theorem retire_moves_committed_name:
  assumes "rat_committed r nm" "0 < a" "a < arch_reg_num r" "nm a \<notin> rat_visibles r"
    and "p \<in> rat_valids r" "p \<notin> rat_commits r" "phy_map_table r ! p = a"
  shows "\<exists>s. drain rat_handle [Rat_release_map (nm a), Rat_commit_map p] r = Some s \<and>
    rat_visibles s = rat_visibles r \<and> rat_valids s = rat_valids r - {nm a} \<and>
    (\<forall>b. 0 < b \<and> b < arch_reg_num s \<longrightarrow>
       rat_get_commit_phy_id s b = Some (if b = a then p else nm b))"
proof -
  obtain s where s: "drain rat_handle [Rat_release_map (nm a), Rat_commit_map p] r = Some s"
    "rat_committed s (nm(a := p))" "rat_visibles s = rat_visibles r" "rat_valids s = rat_valids r - {nm a}"
    using retire_committed [OF assms] by blast
  have "rat_get_commit_phy_id s b = Some (if b = a then p else nm b)" if "0 < b \<and> b < arch_reg_num s" for b
    using rat_get_commit_phy_id_eq [OF s(2), of b] that by simp
  with s show ?thesis by blast
qed

theorem retire_moves_committed_name_witness:
  "\<exists>r s t. rat_boot (rat_new 128 32 [] [] [] []) = Some r \<and> rat_set_map 5 40 r = Some (Some 5, s) \<and>
     drain rat_handle [Rat_release_map 5, Rat_commit_map 40] s = Some t \<and>
     rat_get_commit_phy_id t 5 = Some 40 \<and> rat_get_commit_phy_id t 6 = Some 6"
proof -
  obtain r where r: "rat_boot (rat_new 128 32 [] [] [] []) = Some r" "rat_total r" "rat_valids r = {1..<32}"
    "phy_reg_num r = 128" "arch_reg_num r = 32" "rat_committed r id" "rat_visibles r = {1..<32}"
    "\<forall>i \<in> {1..<32}. phy_map_table r ! i = i"
    using rat_boot_total [of 128 "[]" "[]" "[]" "[]"] by auto
  have wf: "rat_wf r" using r(2) by simp
  have five: "rat_get_phy_id r 5 = Some (Some 5)"
    using rat_get_phy_id_iff [of r 5 5] r by (simp add: rat_total_inv)
  let ?s = "set_map_state 5 40 (Some 5) r"
  have s: "rat_set_map 5 40 r = Some (Some 5, ?s)" using five r by (intro rat_set_map_eq) auto
  have old: "\<And>q. Some 5 = Some q \<Longrightarrow> q < phy_reg_num r \<and> q \<noteq> 40" using r(4) by simp
  have p: "40 < phy_reg_num r" using r(4) by simp
  note S = set_map_state_sets [where a = 5 and old = "Some 5", OF wf p old]
  have len: "length (phy_map_table r) = 128" using wf r(4) by (simp add: rat_wf_def)
  have c: "rat_committed ?s id" by (rule set_map_keeps_committed) (use r in simp_all)
  have "id 5 \<notin> rat_visibles ?s" "40 \<in> rat_valids ?s" "40 \<notin> rat_commits ?s" "phy_map_table ?s ! 40 = 5"
    using S r len by simp_all
  moreover have "0 < (5 :: nat)" "5 < arch_reg_num ?s" using r(5) by simp_all
  ultimately obtain t where t: "drain rat_handle [Rat_release_map (id 5), Rat_commit_map 40] ?s = Some t"
    "\<forall>b. 0 < b \<and> b < arch_reg_num t \<longrightarrow> rat_get_commit_phy_id t b = Some (if b = 5 then 40 else id b)"
    using retire_moves_committed_name [OF c, of 5 40] by blast
  have "arch_reg_num t = 32"
    using t(1) r(5)
    by (auto simp: rat_release_map_def rat_commit_map_def Let_def rat_set_valid_def rat_set_commit_def bind_eq_Some_conv)
  with t s r(1) show ?thesis by auto
qed

end
