(* ===== verification/Regfile.thy ===== *)
theory Regfile
  imports Checkpoint_Buffer
begin

text \<open>
  \<open>component/regfile.h\<close>: the physical register file, a table of values with one valid bit each. Writes
  of a cycle are queued by \<open>write_sync\<close> and done by \<open>sync\<close>. The element type is a parameter, as in the
  source; \<open>memset\<close> of the values writes the all-zero element, which is an argument.
\<close>

datatype 'a regfile_request = Regfile_write nat 'a bool | Regfile_restore checkpoint_t

record 'a regfile =
  regfile_sync_request_q :: "'a regfile_request list"
  reg_data :: "'a list"
  reg_data_valid :: bitmap
  regfile_size :: nat
  regfile_bitmap_size :: nat

definition regfile_new :: "'a \<Rightarrow> nat \<Rightarrow> 'a regfile" where
  "regfile_new z n =
     \<lparr> regfile_sync_request_q = [], reg_data = replicate n z,
       reg_data_valid = bitmap_zero ((n + 64 - 1) div 64), regfile_size = n,
       regfile_bitmap_size = (n + 64 - 1) div 64 \<rparr>"

definition regfile_reset :: "'a \<Rightarrow> 'a regfile \<Rightarrow> 'a regfile" where
  "regfile_reset z f =
     f \<lparr> reg_data := replicate (regfile_size f) z,
         reg_data_valid := bitmap_zero (regfile_bitmap_size f),
         regfile_sync_request_q := [] \<rparr>"

definition regfile_write :: "nat \<Rightarrow> 'a \<Rightarrow> bool \<Rightarrow> 'a regfile \<Rightarrow> 'a regfile option" where
  "regfile_write addr v valid f = do {
     assert_that (addr < regfile_size f);
     Some (f \<lparr> reg_data := (reg_data f)[addr := v],
               reg_data_valid := bitmap_set (reg_data_valid f) addr valid \<rparr>) }"

definition regfile_read :: "'a regfile \<Rightarrow> nat \<Rightarrow> 'a option" where
  "regfile_read f addr = do {
     assert_that (addr < regfile_size f);
     Some (reg_data f ! addr) }"

definition cp_get_data_valid :: "'a regfile \<Rightarrow> checkpoint_t \<Rightarrow> nat \<Rightarrow> bool option" where
  "cp_get_data_valid f cp addr = do {
     assert_that (addr < regfile_size f);
     Some (bitmap_get (phy_regfile_data_valid cp) addr) }"

definition cp_set_data_valid :: "'a regfile \<Rightarrow> nat \<Rightarrow> bool \<Rightarrow> checkpoint_t \<Rightarrow> checkpoint_t option" where
  "cp_set_data_valid f addr valid cp = do {
     assert_that (addr < regfile_size f);
     Some (cp \<lparr> phy_regfile_data_valid := bitmap_set (phy_regfile_data_valid cp) addr valid \<rparr>) }"

definition read_data_valid :: "'a regfile \<Rightarrow> nat \<Rightarrow> bool option" where
  "read_data_valid f addr = do {
     assert_that (addr < regfile_size f);
     Some (bitmap_get (reg_data_valid f) addr) }"

definition regfile_write_sync :: "nat \<Rightarrow> 'a \<Rightarrow> bool \<Rightarrow> 'a regfile \<Rightarrow> 'a regfile" where
  "regfile_write_sync addr v valid f =
     f \<lparr> regfile_sync_request_q := regfile_sync_request_q f @ [Regfile_write addr v valid] \<rparr>"

definition regfile_restore :: "checkpoint_t \<Rightarrow> 'a regfile \<Rightarrow> 'a regfile" where
  "regfile_restore cp f = f \<lparr> reg_data_valid := phy_regfile_data_valid cp \<rparr>"

definition regfile_restore_sync :: "checkpoint_t \<Rightarrow> 'a regfile \<Rightarrow> 'a regfile" where
  "regfile_restore_sync cp f =
     f \<lparr> regfile_sync_request_q := regfile_sync_request_q f @ [Regfile_restore cp] \<rparr>"

fun regfile_handle :: "'a regfile_request \<Rightarrow> 'a regfile \<Rightarrow> 'a regfile option" where
  "regfile_handle (Regfile_write addr v valid) f = regfile_write addr v valid f"
| "regfile_handle (Regfile_restore cp) f = Some (regfile_restore cp f)"

definition regfile_sync :: "'a regfile \<Rightarrow> 'a regfile option" where
  "regfile_sync f = drain regfile_handle (regfile_sync_request_q f) (f \<lparr> regfile_sync_request_q := [] \<rparr>)"

subsection \<open>Invariant\<close>

definition regfile_wf :: "'a regfile \<Rightarrow> bool" where
  "regfile_wf f \<longleftrightarrow> length (reg_data f) = regfile_size f \<and> regfile_size f \<le> 64 * length (reg_data_valid f)"

lemma regfile_new_wf: "regfile_wf (regfile_new z n)"
  using round_up_cap [of n] by (simp add: regfile_wf_def regfile_new_def div_round_up_def)

lemma regfile_write_read:
  assumes "regfile_wf f" "a < regfile_size f"
  shows "\<exists>g. regfile_write a v b f = Some g \<and> regfile_wf g \<and> regfile_size g = regfile_size f \<and>
    (\<forall>i < regfile_size f. regfile_read g i = (if i = a then Some v else regfile_read f i) \<and>
       read_data_valid g i = (if i = a then Some b else read_data_valid f i))"
  using assms
  by (auto simp: regfile_write_def regfile_wf_def regfile_read_def read_data_valid_def bitmap_get_set
    nth_list_update)

text \<open>Reading back after a list of queued writes: the last write to an address wins.\<close>

definition last_write :: "(nat \<times> 'a \<times> bool) list \<Rightarrow> nat \<Rightarrow> ('a \<times> bool) option" where
  "last_write ws i = map_of (rev ws) i"

definition write_requests :: "(nat \<times> 'a \<times> bool) list \<Rightarrow> 'a regfile_request list" where
  "write_requests ws = map (\<lambda>(a, v, b). Regfile_write a v b) ws"

lemma drain_writes:
  assumes "regfile_wf f" "\<forall>(a, v, b) \<in> set ws. a < regfile_size f"
  shows "\<exists>g. drain regfile_handle (write_requests ws) f = Some g \<and> regfile_wf g \<and>
    regfile_size g = regfile_size f \<and>
    (\<forall>i < regfile_size f.
       regfile_read g i = (case last_write ws i of None \<Rightarrow> regfile_read f i | Some (v, b) \<Rightarrow> Some v) \<and>
       read_data_valid g i = (case last_write ws i of None \<Rightarrow> read_data_valid f i | Some (v, b) \<Rightarrow> Some b))"
  using assms
proof (induction ws arbitrary: f)
  case Nil
  then show ?case by (simp add: write_requests_def last_write_def)
next
  case (Cons w ws)
  obtain a v b where w: "w = (a, v, b)" by (cases w) auto
  with Cons.prems have "a < regfile_size f" by simp
  from regfile_write_read [OF Cons.prems(1) this] obtain g where
    g: "regfile_write a v b f = Some g" "regfile_wf g" "regfile_size g = regfile_size f"
      "\<And>i. i < regfile_size f \<Longrightarrow> regfile_read g i = (if i = a then Some v else regfile_read f i) \<and>
         read_data_valid g i = (if i = a then Some b else read_data_valid f i)" by blast
  from Cons.IH [OF g(2)] g(3) Cons.prems(2) obtain h where
    h: "drain regfile_handle (write_requests ws) g = Some h" "regfile_wf h" "regfile_size h = regfile_size f"
      "\<And>i. i < regfile_size f \<Longrightarrow>
        regfile_read h i = (case last_write ws i of None \<Rightarrow> regfile_read g i | Some (v, b) \<Rightarrow> Some v) \<and>
        read_data_valid h i = (case last_write ws i of None \<Rightarrow> read_data_valid g i | Some (v, b) \<Rightarrow> Some b)"
    by auto
  have "drain regfile_handle (write_requests (w # ws)) f = Some h"
    using g(1) h(1) by (simp add: w write_requests_def)
  moreover have "regfile_read h i = (case last_write (w # ws) i of None \<Rightarrow> regfile_read f i | Some (v, b) \<Rightarrow> Some v) \<and>
      read_data_valid h i = (case last_write (w # ws) i of None \<Rightarrow> read_data_valid f i | Some (v, b) \<Rightarrow> Some b)"
    if "i < regfile_size f" for i
    using h(4) [OF that] g(4) [OF that]
    by (auto simp: w last_write_def map_add_def split: option.splits)
  ultimately show ?case using h(2,3) by blast
qed

subsection \<open>Properties\<close>

text \<open>C28: The writes queued during a cycle take effect together at \<open>sync\<close>: it does not abort when the
  addresses are in range, and afterwards every register holds the value and the valid bit of the last
  write to it in the cycle, or what it held before.\<close>

theorem regfile_sync_last_write:
  assumes "regfile_wf f" "regfile_sync_request_q f = write_requests ws"
    and "\<forall>(a, v, b) \<in> set ws. a < regfile_size f"
  shows "\<exists>g. regfile_sync f = Some g \<and> regfile_wf g \<and>
    (\<forall>i < regfile_size f.
       regfile_read g i = (case last_write ws i of None \<Rightarrow> regfile_read f i | Some (v, b) \<Rightarrow> Some v) \<and>
       read_data_valid g i = (case last_write ws i of None \<Rightarrow> read_data_valid f i | Some (v, b) \<Rightarrow> Some b))"
proof -
  let ?f = "f \<lparr> regfile_sync_request_q := [] \<rparr>"
  have "regfile_wf ?f" "\<forall>(a, v, b) \<in> set ws. a < regfile_size ?f"
    using assms by (auto simp: regfile_wf_def)
  from drain_writes [OF this]
  have "\<exists>g. drain regfile_handle (write_requests ws) ?f = Some g \<and> regfile_wf g \<and>
    (\<forall>i < regfile_size f.
       regfile_read g i = (case last_write ws i of None \<Rightarrow> regfile_read ?f i | Some (v, b) \<Rightarrow> Some v) \<and>
       read_data_valid g i = (case last_write ws i of None \<Rightarrow> read_data_valid ?f i | Some (v, b) \<Rightarrow> Some b))"
    by auto
  moreover have eq: "regfile_read ?f = regfile_read f" "read_data_valid ?f = read_data_valid f"
    by (simp_all add: regfile_read_def read_data_valid_def fun_eq_iff)
  ultimately show ?thesis unfolding eq regfile_sync_def assms(2) by blast
qed

theorem regfile_sync_last_write_witness:
  "\<exists>g. regfile_sync (regfile_write_sync 3 7 True (regfile_write_sync 3 (5 :: u32) True (regfile_new 0 4))) = Some g \<and>
     regfile_read g 3 = Some 7 \<and> read_data_valid g 3 = Some True \<and> read_data_valid g 2 = Some False"
proof -
  let ?f = "regfile_write_sync 3 7 True (regfile_write_sync 3 (5 :: u32) True (regfile_new 0 4))"
  have wf: "regfile_wf ?f"
    using regfile_new_wf [of "0 :: u32" 4] by (simp add: regfile_write_sync_def regfile_wf_def)
  let ?ws = "[(3, 5 :: u32, True), (3, 7, True)]"
  have q: "regfile_sync_request_q ?f = write_requests ?ws"
    by (simp add: regfile_write_sync_def regfile_new_def write_requests_def)
  have sz: "regfile_size ?f = 4" by (simp add: regfile_write_sync_def regfile_new_def)
  have v2: "read_data_valid ?f 2 = Some False"
    by (simp add: read_data_valid_def regfile_write_sync_def regfile_new_def)
  from regfile_sync_last_write [OF wf q] sz obtain g where
    g: "regfile_sync ?f = Some g" "\<And>i. i < 4 \<Longrightarrow> regfile_read g i =
        (case last_write ?ws i of None \<Rightarrow> regfile_read ?f i | Some (v, b) \<Rightarrow> Some v) \<and>
      read_data_valid g i =
        (case last_write ?ws i of None \<Rightarrow> read_data_valid ?f i | Some (v, b) \<Rightarrow> Some b)"
    by auto
  from g(2) [of 3] g(2) [of 2] g(1) v2 show ?thesis by (auto simp: last_write_def)
qed

end
