(* ===== verification/Perf.thy ===== *)
theory Perf
  imports Common
begin

text \<open>
  The event counters of \<open>top_source/main.cpp\<close> and the functions by which the components bump them. All
  are \<open>uint64_t\<close> and wrap.
\<close>

record perf =
  cpu_clock_cycle :: u64
  committed_instruction_num :: u64
  branch_num :: u64
  branch_predicted :: u64
  branch_hit :: u64
  branch_miss :: u64
  fetch_decode_fifo_full :: u64
  decode_rename_fifo_full :: u64
  issue_queue_full :: u64
  issue_execute_fifo_full :: u64
  checkpoint_buffer_full :: u64
  rob_full :: u64
  phy_regfile_full :: u64
  ras_full :: u64
  fetch_not_full :: u64

definition perf_zero :: perf where
  "perf_zero =
     \<lparr> cpu_clock_cycle = 0, committed_instruction_num = 0, branch_num = 0, branch_predicted = 0,
       branch_hit = 0, branch_miss = 0, fetch_decode_fifo_full = 0, decode_rename_fifo_full = 0,
       issue_queue_full = 0, issue_execute_fifo_full = 0, checkpoint_buffer_full = 0, rob_full = 0,
       phy_regfile_full = 0, ras_full = 0, fetch_not_full = 0 \<rparr>"

definition branch_num_add :: "perf \<Rightarrow> perf" where
  "branch_num_add p = p \<lparr> branch_num := branch_num p + 1 \<rparr>"

definition branch_predicted_add :: "perf \<Rightarrow> perf" where
  "branch_predicted_add p = p \<lparr> branch_predicted := branch_predicted p + 1 \<rparr>"

definition branch_hit_add :: "perf \<Rightarrow> perf" where
  "branch_hit_add p = p \<lparr> branch_hit := branch_hit p + 1 \<rparr>"

definition branch_miss_add :: "perf \<Rightarrow> perf" where
  "branch_miss_add p = p \<lparr> branch_miss := branch_miss p + 1 \<rparr>"

definition fetch_decode_fifo_full_add :: "perf \<Rightarrow> perf" where
  "fetch_decode_fifo_full_add p = p \<lparr> fetch_decode_fifo_full := fetch_decode_fifo_full p + 1 \<rparr>"

definition decode_rename_fifo_full_add :: "perf \<Rightarrow> perf" where
  "decode_rename_fifo_full_add p = p \<lparr> decode_rename_fifo_full := decode_rename_fifo_full p + 1 \<rparr>"

definition issue_queue_full_add :: "perf \<Rightarrow> perf" where
  "issue_queue_full_add p = p \<lparr> issue_queue_full := issue_queue_full p + 1 \<rparr>"

definition issue_execute_fifo_full_add :: "perf \<Rightarrow> perf" where
  "issue_execute_fifo_full_add p = p \<lparr> issue_execute_fifo_full := issue_execute_fifo_full p + 1 \<rparr>"

definition checkpoint_buffer_full_add :: "perf \<Rightarrow> perf" where
  "checkpoint_buffer_full_add p = p \<lparr> checkpoint_buffer_full := checkpoint_buffer_full p + 1 \<rparr>"

definition rob_full_add :: "perf \<Rightarrow> perf" where
  "rob_full_add p = p \<lparr> rob_full := rob_full p + 1 \<rparr>"

definition phy_regfile_full_add :: "perf \<Rightarrow> perf" where
  "phy_regfile_full_add p = p \<lparr> phy_regfile_full := phy_regfile_full p + 1 \<rparr>"

definition ras_full_add :: "perf \<Rightarrow> perf" where
  "ras_full_add p = p \<lparr> ras_full := ras_full p + 1 \<rparr>"

definition fetch_not_full_add :: "perf \<Rightarrow> perf" where
  "fetch_not_full_add p = p \<lparr> fetch_not_full := fetch_not_full p + 1 \<rparr>"

definition get_cpu_clock_cycle :: "perf \<Rightarrow> u64" where
  "get_cpu_clock_cycle p = cpu_clock_cycle p"

end
