(* ===== verification/Ras.thy ===== *)
theory Ras
  imports Perf
begin

text \<open>
  \<open>component/stack.h\<close> and \<open>component/ras.h\<close>: a bounded stack and the return address stack built on it.
  The return address stack stores runs: an item is an address with the number of consecutive pushes of
  it, so that recursion takes one slot; when all slots are taken the oldest run is dropped. \<open>ras_addrs\<close>
  below is the list of return addresses it stands for, newest first.
\<close>

subsection \<open>The stack\<close>

record 'a stack =
  stack_buffer :: "'a list"
  stack_size :: nat
  top_ptr :: nat

definition stack_new :: "nat \<Rightarrow> 'a list \<Rightarrow> 'a stack" where
  "stack_new n mem = \<lparr> stack_buffer = mem, stack_size = n, top_ptr = 0 \<rparr>"

definition stack_reset :: "('a, 'b) stack_scheme \<Rightarrow> ('a, 'b) stack_scheme" where
  "stack_reset s = s \<lparr> top_ptr := 0 \<rparr>"

definition stack_flush :: "('a, 'b) stack_scheme \<Rightarrow> ('a, 'b) stack_scheme" where
  "stack_flush s = s \<lparr> top_ptr := 0 \<rparr>"

definition stack_is_empty :: "('a, 'b) stack_scheme \<Rightarrow> bool" where
  "stack_is_empty s \<longleftrightarrow> top_ptr s = 0"

definition stack_is_full :: "('a, 'b) stack_scheme \<Rightarrow> bool" where
  "stack_is_full s \<longleftrightarrow> top_ptr s = stack_size s"

definition stack_push :: "'a \<Rightarrow> ('a, 'b) stack_scheme \<Rightarrow> bool \<times> ('a, 'b) stack_scheme" where
  "stack_push x s =
     (if stack_is_full s then (False, s)
      else (True, s \<lparr> stack_buffer := (stack_buffer s)[top_ptr s := x], top_ptr := top_ptr s + 1 \<rparr>))"

definition stack_pop :: "('a, 'b) stack_scheme \<Rightarrow> 'a option \<times> ('a, 'b) stack_scheme" where
  "stack_pop s =
     (if stack_is_empty s then (None, s)
      else (Some (stack_buffer s ! (top_ptr s - 1)), s \<lparr> top_ptr := top_ptr s - 1 \<rparr>))"

definition stack_get_top :: "('a, 'b) stack_scheme \<Rightarrow> 'a option" where
  "stack_get_top s =
     (if stack_is_empty s then None else Some (stack_buffer s ! (top_ptr s - 1)))"

subsection \<open>The return address stack\<close>

record ras_item_t =
  ras_addr :: u32
  ras_cnt :: u32

record ras = "ras_item_t stack" +
  last_addr :: u32

definition ras_new :: "nat \<Rightarrow> ras_item_t list \<Rightarrow> ras" where
  "ras_new n mem = stack.extend (stack_new n mem) (ras.fields 0)"

definition ras_get_item :: "ras \<Rightarrow> nat \<Rightarrow> ras_item_t" where
  "ras_get_item s i = stack_buffer s ! i"

definition ras_set_item :: "nat \<Rightarrow> ras_item_t \<Rightarrow> ras \<Rightarrow> ras" where
  "ras_set_item i x s = s \<lparr> stack_buffer := (stack_buffer s)[i := x] \<rparr>"

definition ras_get_top_id :: "ras \<Rightarrow> nat option" where
  "ras_get_top_id s = (if stack_is_empty s then None else Some (top_ptr s - 1))"

definition ras_throw_push :: "ras_item_t \<Rightarrow> ras \<Rightarrow> ras" where
  "ras_throw_push x s =
     (let buf = fold (\<lambda>i b. b[i - 1 := b ! i]) [1..<top_ptr s] (stack_buffer s)
      in s \<lparr> stack_buffer := buf[top_ptr s - 1 := x] \<rparr>)"

definition ras_reset :: "ras \<Rightarrow> ras" where
  "ras_reset s = stack_reset (s \<lparr> last_addr := 0 \<rparr>)"

definition ras_push_addr :: "u32 \<Rightarrow> ras \<times> perf \<Rightarrow> (ras \<times> perf) option" where
  "ras_push_addr addr = (\<lambda>(s, pf).
     let fresh = \<lparr> ras_addr = addr, ras_cnt = 1 \<rparr>;
         new_run = (if stack_is_full s then Some (ras_throw_push fresh s, ras_full_add pf)
                    else Some (snd (stack_push fresh s), pf))
     in case stack_get_top s of
          Some t_item \<Rightarrow>
            if ras_addr t_item = addr \<and> ras_cnt t_item < 0xFFFFFFFF
            then do {
              item_id \<leftarrow> ras_get_top_id s;
              Some (ras_set_item item_id (t_item \<lparr> ras_cnt := ras_cnt t_item + 1 \<rparr>) s, pf) }
            else new_run
        | None \<Rightarrow> new_run)"

definition ras_pop_addr :: "ras \<Rightarrow> (u32 \<times> ras) option" where
  "ras_pop_addr s =
     (case stack_get_top s of
        Some t_item \<Rightarrow>
          if ras_cnt t_item = 1
          then (case stack_pop (s \<lparr> last_addr := ras_addr t_item \<rparr>) of
                  (Some x, s1) \<Rightarrow> Some (ras_addr x, s1)
                | (None, s1) \<Rightarrow> Some (ras_addr t_item, s1))
          else do {
            item_id \<leftarrow> ras_get_top_id s;
            Some (ras_addr t_item, ras_set_item item_id (t_item \<lparr> ras_cnt := ras_cnt t_item - 1 \<rparr>) s) }
      | None \<Rightarrow> Some (last_addr s, s))"

subsection \<open>Invariant and abstraction\<close>

definition ras_inv :: "ras \<Rightarrow> bool" where
  "ras_inv s \<longleftrightarrow> 0 < stack_size s \<and> length (stack_buffer s) = stack_size s \<and> top_ptr s \<le> stack_size s \<and>
     (\<forall>x \<in> set (take (top_ptr s) (stack_buffer s)). 0 < ras_cnt x)"

definition ras_runs :: "ras \<Rightarrow> ras_item_t list" where
  "ras_runs s = rev (take (top_ptr s) (stack_buffer s))"

definition expand :: "ras_item_t list \<Rightarrow> u32 list" where
  "expand rs = concat (map (\<lambda>x. replicate (unat (ras_cnt x)) (ras_addr x)) rs)"

definition ras_addrs :: "ras \<Rightarrow> u32 list" where
  "ras_addrs s = expand (ras_runs s)"

lemma ras_runs_length: "ras_inv s \<Longrightarrow> length (ras_runs s) = top_ptr s"
  by (simp add: ras_inv_def ras_runs_def)

lemma get_top_runs:
  "ras_inv s \<Longrightarrow> stack_get_top s = (case ras_runs s of [] \<Rightarrow> None | x # xs \<Rightarrow> Some x)"
  by (cases "top_ptr s")
    (auto simp: stack_get_top_def stack_is_empty_def ras_runs_def ras_inv_def take_Suc_conv_app_nth)

lemma ras_runs_Cons:
  assumes "ras_inv s" "ras_runs s = x # xs"
  shows "0 < top_ptr s" "stack_buffer s ! (top_ptr s - 1) = x" "rev (take (top_ptr s - 1) (stack_buffer s)) = xs"
proof -
  show "0 < top_ptr s" using assms(2) by (cases "top_ptr s") (auto simp: ras_runs_def)
  then have "take (top_ptr s) (stack_buffer s) =
      take (top_ptr s - 1) (stack_buffer s) @ [stack_buffer s ! (top_ptr s - 1)]"
    using assms(1) by (cases "top_ptr s") (auto simp: ras_inv_def take_Suc_conv_app_nth)
  with assms(2) show "stack_buffer s ! (top_ptr s - 1) = x" "rev (take (top_ptr s - 1) (stack_buffer s)) = xs"
    by (simp_all add: ras_runs_def)
qed

text \<open>Writing the top slot replaces the newest run.\<close>

lemma set_top_runs:
  assumes "ras_inv s" "ras_runs s = x # xs" "0 < ras_cnt y"
  shows "ras_inv (ras_set_item (top_ptr s - 1) y s)" "ras_runs (ras_set_item (top_ptr s - 1) y s) = y # xs"
proof -
  note R = ras_runs_Cons [OF assms(1,2)]
  have lt: "top_ptr s - 1 < length (stack_buffer s)" using R(1) assms(1) by (auto simp: ras_inv_def)
  have tk: "take (top_ptr s) ((stack_buffer s)[top_ptr s - 1 := y]) = take (top_ptr s - 1) (stack_buffer s) @ [y]"
    using R(1) lt by (cases "top_ptr s") (auto simp: take_Suc_conv_app_nth)
  then show "ras_runs (ras_set_item (top_ptr s - 1) y s) = y # xs"
    using R(3) by (simp add: ras_runs_def ras_set_item_def)
  have "set (take (top_ptr s - 1) (stack_buffer s)) \<subseteq> set (take (top_ptr s) (stack_buffer s))"
    by (rule set_take_subset_set_take) simp
  then show "ras_inv (ras_set_item (top_ptr s - 1) y s)"
    using assms(1,3) tk by (auto simp: ras_inv_def ras_set_item_def)
qed

lemma push_run:
  assumes "ras_inv s" "\<not> stack_is_full s" "0 < ras_cnt y"
  shows "ras_inv (snd (stack_push y s))" "ras_runs (snd (stack_push y s)) = y # ras_runs s"
proof -
  have lt: "top_ptr s < length (stack_buffer s)" using assms(1,2) by (auto simp: ras_inv_def stack_is_full_def)
  then have tk: "take (top_ptr s + 1) ((stack_buffer s)[top_ptr s := y]) = take (top_ptr s) (stack_buffer s) @ [y]"
    by (simp add: take_Suc_conv_app_nth)
  with assms lt show "ras_inv (snd (stack_push y s))" "ras_runs (snd (stack_push y s)) = y # ras_runs s"
    by (auto simp: ras_inv_def stack_push_def ras_runs_def)
qed

text \<open>The shifting loop moves every element one slot down, dropping the oldest.\<close>

lemma shift_down:
  "n \<le> length xs \<Longrightarrow> fold (\<lambda>i b. b[i - 1 := b ! i]) [1..<n] xs =
    (if n = 0 then xs else take (n - 1) (tl xs) @ drop (n - 1) xs)"
proof (induction n)
  case (Suc n)
  show ?case
  proof (cases "n = 0")
    case True
    then show ?thesis by simp
  next
    case False
    then obtain m where m: "n = Suc m" by (cases n) auto
    have len: "Suc m < length xs" using Suc.prems m by simp
    let ?b = "take m (tl xs) @ drop m xs"
    have b: "fold (\<lambda>i b. b[i - 1 := b ! i]) [1..<n] xs = ?b" using Suc m by simp
    have nth: "?b ! Suc m = xs ! Suc m" using len by (simp add: nth_append)
    have "?b[m := xs ! Suc m] = take (Suc m) (tl xs) @ drop (Suc m) xs"
      using len by (intro nth_equalityI) (auto simp: nth_append nth_list_update nth_tl)
    with b nth m show ?thesis by simp
  qed
qed simp

lemma throw_push_runs:
  assumes "ras_inv s" "stack_is_full s" "0 < ras_cnt y"
  shows "ras_inv (ras_throw_push y s)" "ras_runs (ras_throw_push y s) = y # butlast (ras_runs s)"
proof -
  let ?n = "top_ptr s" and ?b = "stack_buffer s"
  have n: "0 < ?n" "length ?b = ?n" using assms(1,2) by (auto simp: ras_inv_def stack_is_full_def)
  have sh: "fold (\<lambda>i b. b[i - 1 := b ! i]) [1..<?n] ?b = tl ?b @ drop (?n - 1) ?b"
    using shift_down [of ?n ?b] n by simp
  have "(tl ?b @ drop (?n - 1) ?b)[?n - 1 := y] = tl ?b @ [y]"
  proof -
    have "drop (?n - 1) ?b = [?b ! (?n - 1)]" using n by (metis Cons_nth_drop_Suc Suc_pred' diff_less drop_all order_refl zero_less_one)
    then show ?thesis using n by (simp add: list_update_append)
  qed
  with sh have buf: "stack_buffer (ras_throw_push y s) = tl ?b @ [y]"
    by (simp add: ras_throw_push_def Let_def)
  have tops: "top_ptr (ras_throw_push y s) = ?n" "stack_size (ras_throw_push y s) = stack_size s"
    by (simp_all add: ras_throw_push_def Let_def)
  show "ras_runs (ras_throw_push y s) = y # butlast (ras_runs s)"
    using n by (simp add: ras_runs_def buf tops butlast_rev)
  have "set (tl ?b) \<subseteq> set ?b" using n by (cases ?b) auto
  then show "ras_inv (ras_throw_push y s)"
    using assms n by (auto simp: ras_inv_def buf tops stack_is_full_def)
qed

subsection \<open>Push and pop on the address list\<close>

lemma expand_simps [simp]:
  "expand [] = []" "expand (x # xs) = replicate (unat (ras_cnt x)) (ras_addr x) @ expand xs"
  by (simp_all add: expand_def)

lemma replicate_head: "0 < n \<Longrightarrow> replicate n a = a # replicate (n - 1) a"
  by (cases n) auto

lemma ras_inv_cnt: "ras_inv s \<Longrightarrow> x \<in> set (ras_runs s) \<Longrightarrow> 0 < ras_cnt x"
  by (simp add: ras_inv_def ras_runs_def)

lemma new_run_addrs:
  assumes "ras_runs t = \<lparr> ras_addr = addr, ras_cnt = 1 \<rparr> # rs"
  shows "ras_addrs t = addr # expand rs"
  using assms by (simp add: ras_addrs_def)

definition merges :: "u32 \<Rightarrow> ras \<Rightarrow> bool" where
  "merges addr s \<longleftrightarrow>
     (case ras_runs s of [] \<Rightarrow> False | x # xs \<Rightarrow> ras_addr x = addr \<and> ras_cnt x < 0xFFFFFFFF)"

lemma ras_depth:
  assumes "ras_inv s"
  shows "top_ptr s \<le> length (ras_addrs s)"
proof -
  have le: "(\<forall>x \<in> set xs. 0 < ras_cnt x) \<Longrightarrow> length xs \<le> length (expand xs)" for xs
  proof (induction xs)
    case (Cons x xs)
    then have "0 < unat (ras_cnt x)" by (simp add: word_less_nat_alt)
    with Cons show ?case by simp
  qed simp
  show ?thesis using le [of "ras_runs s"] ras_inv_cnt [OF assms] ras_runs_length [OF assms] by (simp add: ras_addrs_def)
qed

lemma ras_push_addr_cases:
  assumes "ras_inv s"
  shows "\<exists>s1 pf1. ras_push_addr addr (s, pf) = Some (s1, pf1) \<and> ras_inv s1 \<and>
    stack_size s1 = stack_size s \<and>
    (if merges addr s \<or> \<not> stack_is_full s
     then ras_addrs s1 = addr # ras_addrs s \<and> pf1 = pf \<and> top_ptr s1 \<le> Suc (top_ptr s)
     else ras_addrs s1 = addr # expand (butlast (ras_runs s)) \<and> pf1 = ras_full_add pf)"
proof (cases "merges addr s")
  case True
  then obtain x xs where r: "ras_runs s = x # xs" and x: "ras_addr x = addr" "ras_cnt x < 0xFFFFFFFF"
    by (auto simp: merges_def split: list.splits)
  let ?y = "x \<lparr> ras_cnt := ras_cnt x + 1 \<rparr>"
  have cnt: "unat (ras_cnt x + 1) = Suc (unat (ras_cnt x))"
    using x(2) by (simp add: unat_word_ariths word_less_nat_alt)
  then have pos: "0 < ras_cnt ?y" by (simp add: word_less_nat_alt)
  note T = set_top_runs [OF assms r pos]
  have "ras_push_addr addr (s, pf) = Some (ras_set_item (top_ptr s - 1) ?y s, pf)"
    using x r get_top_runs [OF assms] ras_runs_Cons(1) [OF assms r]
    by (simp add: ras_push_addr_def Let_def ras_get_top_id_def stack_is_empty_def)
  moreover have "ras_addrs (ras_set_item (top_ptr s - 1) ?y s) = addr # ras_addrs s"
    using T(2) r x(1) cnt by (simp add: ras_addrs_def)
  ultimately show ?thesis using True T(1) by (simp add: ras_set_item_def)
next
  case False
  let ?y = "\<lparr> ras_addr = addr, ras_cnt = 1 \<rparr>"
  have pos: "0 < ras_cnt ?y" by simp
  have eq: "ras_push_addr addr (s, pf) =
      (if stack_is_full s then Some (ras_throw_push ?y s, ras_full_add pf) else Some (snd (stack_push ?y s), pf))"
    using False get_top_runs [OF assms]
    by (auto simp: ras_push_addr_def Let_def merges_def split: list.splits)
  show ?thesis
  proof (cases "stack_is_full s")
    case True
    note T = throw_push_runs [OF assms True pos]
    with eq True False new_run_addrs [OF T(2)] show ?thesis
      by (simp add: ras_throw_push_def Let_def)
  next
    case nf: False
    note T = push_run [OF assms nf pos]
    with eq nf new_run_addrs [OF T(2)] show ?thesis
      by (simp add: ras_addrs_def stack_push_def)
  qed
qed

lemma ras_pop_addr_cases:
  assumes "ras_inv s"
  shows "case ras_addrs s of
      [] \<Rightarrow> ras_pop_addr s = Some (last_addr s, s)
    | a # as \<Rightarrow> \<exists>s1. ras_pop_addr s = Some (a, s1) \<and> ras_inv s1 \<and> ras_addrs s1 = as \<and> stack_size s1 = stack_size s"
proof (cases "ras_runs s")
  case Nil
  then show ?thesis using get_top_runs [OF assms] by (simp add: ras_addrs_def ras_pop_addr_def)
next
  case (Cons x xs)
  have pos: "0 < unat (ras_cnt x)" using ras_inv_cnt [OF assms, of x] Cons by (simp add: word_less_nat_alt)
  note R = ras_runs_Cons [OF assms Cons]
  have addrs: "ras_addrs s = ras_addr x # replicate (unat (ras_cnt x) - 1) (ras_addr x) @ expand xs"
    using pos by (simp add: ras_addrs_def Cons replicate_head)
  have top: "stack_get_top s = Some x" using get_top_runs [OF assms] Cons by simp
  show ?thesis
  proof (cases "ras_cnt x = 1")
    case True
    let ?t = "s \<lparr> last_addr := ras_addr x, top_ptr := top_ptr s - 1 \<rparr>"
    have "ras_pop_addr s = Some (ras_addr x, ?t)"
      using top True R by (simp add: ras_pop_addr_def stack_pop_def stack_is_empty_def)
    moreover have "ras_runs ?t = xs" using R(3) by (simp add: ras_runs_def)
    moreover have "set (take (top_ptr s - 1) (stack_buffer s)) \<subseteq> set (take (top_ptr s) (stack_buffer s))"
      by (rule set_take_subset_set_take) simp
    ultimately show ?thesis using assms addrs True by (auto simp: ras_addrs_def ras_inv_def)
  next
    case False
    let ?y = "x \<lparr> ras_cnt := ras_cnt x - 1 \<rparr>"
    have "unat (ras_cnt x) \<noteq> unat (1 :: u32)" using False unsigned_word_eqI by blast
    then have one: "1 < unat (ras_cnt x)" using pos by simp
    have cnt: "unat (ras_cnt x - 1) = unat (ras_cnt x) - 1"
      using pos by (subst unat_sub) (simp_all add: word_le_nat_alt)
    then have "0 < ras_cnt ?y" using one by (simp add: word_less_nat_alt)
    note T = set_top_runs [OF assms Cons this]
    have "ras_pop_addr s = Some (ras_addr x, ras_set_item (top_ptr s - 1) ?y s)"
      using top False R(1) by (simp add: ras_pop_addr_def ras_get_top_id_def stack_is_empty_def)
    moreover have "ras_addrs (ras_set_item (top_ptr s - 1) ?y s) =
        replicate (unat (ras_cnt x) - 1) (ras_addr x) @ expand xs"
      using T(2) cnt by (simp add: ras_addrs_def)
    ultimately show ?thesis using T(1) addrs by (simp add: ras_set_item_def)
  qed
qed

fun ras_push_all :: "u32 list \<Rightarrow> ras \<times> perf \<Rightarrow> (ras \<times> perf) option" where
  "ras_push_all [] st = Some st"
| "ras_push_all (a # as) st = do { st1 \<leftarrow> ras_push_addr a st; ras_push_all as st1 }"

fun ras_pop_all :: "nat \<Rightarrow> ras \<Rightarrow> (u32 list \<times> ras) option" where
  "ras_pop_all 0 s = Some ([], s)"
| "ras_pop_all (Suc n) s = do {
     (a, s1) \<leftarrow> ras_pop_addr s;
     (as, s2) \<leftarrow> ras_pop_all n s1;
     Some (a # as, s2) }"

text \<open>A push on the runs: the newest run grows, or a new one is put in front, the oldest dropped for it when all slots are taken.\<close>

definition push_runs :: "u32 \<Rightarrow> ras \<Rightarrow> ras_item_t list" where
  "push_runs addr s =
     (case ras_runs s of
        x # xs \<Rightarrow> if merges addr s then x \<lparr> ras_cnt := ras_cnt x + 1 \<rparr> # xs
          else \<lparr> ras_addr = addr, ras_cnt = 1 \<rparr> # (if stack_is_full s then butlast (x # xs) else x # xs)
      | [] \<Rightarrow> [\<lparr> ras_addr = addr, ras_cnt = 1 \<rparr>])"

lemma ras_push_addr_runs:
  assumes "ras_inv s"
  shows "\<exists>s1 pf1. ras_push_addr addr (s, pf) = Some (s1, pf1) \<and> ras_inv s1 \<and> stack_size s1 = stack_size s \<and>
    ras_runs s1 = push_runs addr s \<and> (merges addr s \<or> \<not> stack_is_full s \<longrightarrow> pf1 = pf)"
proof (cases "merges addr s")
  case True
  then obtain x xs where r: "ras_runs s = x # xs" and x: "ras_addr x = addr" "ras_cnt x < 0xFFFFFFFF"
    by (auto simp: merges_def split: list.splits)
  have "0 < ras_cnt (x \<lparr> ras_cnt := ras_cnt x + 1 \<rparr>)" using x(2) by (simp add: word_less_nat_alt unat_word_ariths)
  note T = set_top_runs [OF assms r this]
  have "ras_push_addr addr (s, pf) = Some (ras_set_item (top_ptr s - 1) (x \<lparr> ras_cnt := ras_cnt x + 1 \<rparr>) s, pf)"
    using x r get_top_runs [OF assms] ras_runs_Cons(1) [OF assms r]
    by (simp add: ras_push_addr_def Let_def ras_get_top_id_def stack_is_empty_def)
  with T True r show ?thesis by (simp add: push_runs_def) (simp add: ras_set_item_def)
next
  case False
  let ?y = "\<lparr> ras_addr = addr, ras_cnt = 1 \<rparr>"
  have eq: "ras_push_addr addr (s, pf) =
      (if stack_is_full s then Some (ras_throw_push ?y s, ras_full_add pf) else Some (snd (stack_push ?y s), pf))"
    using False get_top_runs [OF assms] by (auto simp: ras_push_addr_def Let_def merges_def split: list.splits)
  have "ras_runs s \<noteq> []" if "stack_is_full s"
    using that assms ras_runs_length [OF assms] by (auto simp: stack_is_full_def ras_inv_def)
  then show ?thesis
    using eq False throw_push_runs [OF assms, of ?y] push_run [OF assms, of ?y]
    by (cases "stack_is_full s"; cases "ras_runs s") (auto simp: push_runs_def ras_throw_push_def stack_push_def Let_def)
qed

text \<open>What a chain of pushes leaves: its own runs, the oldest of them possibly merged with the run that was on top before, and
  everything else when there was room. The counters stay below their limit.\<close>

definition pushed :: "u32 list \<Rightarrow> ras \<Rightarrow> perf \<Rightarrow> ras \<Rightarrow> perf \<Rightarrow> bool" where
  "pushed as s pf s1 pf1 \<longleftrightarrow>
     (\<exists>e. expand (take (length (remdups_adj as)) (ras_runs s1)) = rev as @ replicate e (hd as)) \<and>
     length (remdups_adj as) \<le> length (ras_runs s1) \<and> (as \<noteq> [] \<longrightarrow> ras_addr (hd (ras_runs s1)) = last as) \<and>
     (top_ptr s + length (remdups_adj as) \<le> stack_size s \<longrightarrow>
        ras_addrs s1 = rev as @ ras_addrs s \<and> pf1 = pf \<and> length (ras_runs s1) \<le> top_ptr s + length (remdups_adj as))"

lemma pushed_newest: "pushed as s pf s1 pf1 \<Longrightarrow> \<exists>ys. ras_addrs s1 = rev as @ ys"
proof -
  let ?j = "length (remdups_adj as)"
  assume "pushed as s pf s1 pf1"
  then obtain e where e: "expand (take ?j (ras_runs s1)) = rev as @ replicate e (hd as)" by (auto simp: pushed_def)
  have "expand (xs @ zs) = expand xs @ expand zs" for xs zs by (simp add: expand_def)
  from this [of "take ?j (ras_runs s1)" "drop ?j (ras_runs s1)"]
  have "ras_addrs s1 = rev as @ replicate e (hd as) @ expand (drop ?j (ras_runs s1))" using e by (simp add: ras_addrs_def)
  then show ?thesis by blast
qed

lemma remdups_adj_snoc: "length (remdups_adj (as @ [a])) = length (remdups_adj as) + (if as \<noteq> [] \<and> last as = a then 0 else 1)"
  by (cases as rule: rev_cases) (auto simp: remdups_adj_append_two)

lemma remdups_adj_prefix_length: "length (remdups_adj as) \<le> length (remdups_adj (as @ bs))"
proof (induction bs rule: rev_induct)
  case (snoc b bs)
  then show ?case using remdups_adj_snoc [of "as @ bs" b] by simp
qed simp

lemma ras_push_all_snoc: "ras_push_all (as @ [a]) st = do { st1 \<leftarrow> ras_push_all as st; ras_push_addr a st1 }"
  by (induction as arbitrary: st) (simp_all split: bind_split)

lemma push_runs_addrs:
  assumes "\<forall>x \<in> set (ras_runs s). unat (ras_cnt x) + 1 < 2 ^ 32"
  shows "merges a s \<longleftrightarrow> ras_runs s \<noteq> [] \<and> ras_addr (hd (ras_runs s)) = a"
    and "ras_runs s = x # xs \<Longrightarrow> unat (ras_cnt x + 1) = Suc (unat (ras_cnt x))"
  using assms by (auto simp: merges_def word_less_nat_alt unat_word_ariths split: list.splits)

lemma pushed_step_merges:
  assumes "pushed as s pf s1 pf1" "merges a s1" "ras_runs s1 = x # xs" "unat (ras_cnt x + 1) = Suc (unat (ras_cnt x))"
    and "ras_runs s2 = x \<lparr> ras_cnt := ras_cnt x + 1 \<rparr> # xs"
  shows "pushed (as @ [a]) s pf s2 pf1"
proof -
  let ?j = "length (remdups_adj as)" and ?i = "length (remdups_adj (as @ [a]))"
  have a: "ras_addr x = a" using assms(2,3) by (simp add: merges_def)
  have addrs: "ras_addrs s2 = a # ras_addrs s1" using assms(3-5) a by (simp add: ras_addrs_def)
  have "\<exists>e. expand (take ?i (ras_runs s2)) = rev (as @ [a]) @ replicate e (hd (as @ [a]))"
  proof (cases "as = []")
    case True
    then show ?thesis using assms(4,5) a by (intro exI [of _ "unat (ras_cnt x)"]) simp
  next
    case False
    then obtain k where k: "?j = Suc k" by (cases ?j) auto
    have "?i = ?j" using False assms(1,3) a by (simp add: remdups_adj_snoc pushed_def)
    moreover obtain e where "expand (take ?j (ras_runs s1)) = rev as @ replicate e (hd as)" using assms(1) by (auto simp: pushed_def)
    ultimately show ?thesis using False k assms(3-5) a by (intro exI [of _ e]) simp
  qed
  moreover have "?i \<le> length (ras_runs s2)" "?j \<le> ?i"
    using assms(1,3,5) a by (auto simp: pushed_def remdups_adj_snoc Suc_le_eq)
  ultimately show ?thesis using assms(1,3,5) a addrs by (auto simp: pushed_def)
qed

lemma pushed_step_new:
  assumes "pushed as s pf s1 pf1" "as \<noteq> [] \<longrightarrow> last as \<noteq> a" "stack_size s1 = stack_size s" "ras_inv s1"
    and "ras_runs s2 = \<lparr> ras_addr = a, ras_cnt = 1 \<rparr> # (if stack_is_full s1 then butlast (ras_runs s1) else ras_runs s1)"
    and "length (remdups_adj (as @ [a])) \<le> stack_size s" "\<not> stack_is_full s1 \<longrightarrow> pf2 = pf1"
  shows "pushed (as @ [a]) s pf s2 pf2"
proof -
  let ?j = "length (remdups_adj as)" and ?rs = "if stack_is_full s1 then butlast (ras_runs s1) else ras_runs s1"
  have i: "length (remdups_adj (as @ [a])) = Suc ?j" using assms(2) by (auto simp: remdups_adj_snoc)
  have len: "length (ras_runs s1) = top_ptr s1" by (rule ras_runs_length [OF assms(4)])
  have j: "?j \<le> length ?rs" "take ?j ?rs = take ?j (ras_runs s1)"
    using assms(1,3,6) i len by (auto simp: pushed_def stack_is_full_def take_butlast)
  obtain e where e: "expand (take ?j (ras_runs s1)) = rev as @ replicate e (hd as)" using assms(1) by (auto simp: pushed_def)
  then have "\<exists>e. expand (take (Suc ?j) (ras_runs s2)) = rev (as @ [a]) @ replicate e (hd (as @ [a]))"
    unfolding assms(5) using j(2) by (cases "as = []") (auto intro: exI [of _ e] exI [of _ 0])
  moreover have "ras_addrs s2 = rev (as @ [a]) @ ras_addrs s \<and> pf2 = pf \<and> length (ras_runs s2) \<le> top_ptr s + Suc ?j"
    if "top_ptr s + Suc ?j \<le> stack_size s"
  proof -
    have f: "ras_addrs s1 = rev as @ ras_addrs s" "pf1 = pf" "length (ras_runs s1) \<le> top_ptr s + ?j"
      using assms(1) that by (simp_all add: pushed_def)
    then have "\<not> stack_is_full s1" using that assms(3) len by (simp add: stack_is_full_def)
    with f assms(5,7) show ?thesis by (simp add: ras_addrs_def)
  qed
  ultimately show ?thesis using j(1) unfolding pushed_def i by (simp add: assms(5))
qed

lemma ras_push_all_pushed:
  assumes "ras_inv s" "length (remdups_adj as) \<le> stack_size s" "length as < 2 ^ 32"
    and "\<forall>x \<in> set (ras_runs s). unat (ras_cnt x) + length as < 2 ^ 32"
  shows "\<exists>s1 pf1. ras_push_all as (s, pf) = Some (s1, pf1) \<and> ras_inv s1 \<and> pushed as s pf s1 pf1"
proof -
  have "\<exists>s1 pf1. ras_push_all ps (s, pf) = Some (s1, pf1) \<and> ras_inv s1 \<and> stack_size s1 = stack_size s \<and> pushed ps s pf s1 pf1 \<and>
      (\<forall>x \<in> set (ras_runs s1). unat (ras_cnt x) + length qs < 2 ^ 32)" if "as = ps @ qs" for ps qs
    using that
  proof (induction ps arbitrary: qs rule: rev_induct)
    case Nil
    with assms show ?case by (simp add: pushed_def ras_runs_length)
  next
    case (snoc a ps)
    then obtain s1 pf1 where s1: "ras_push_all ps (s, pf) = Some (s1, pf1)" "ras_inv s1" "stack_size s1 = stack_size s"
      "pushed ps s pf s1 pf1" "\<forall>x \<in> set (ras_runs s1). unat (ras_cnt x) + length (a # qs) < 2 ^ 32"
      using snoc.IH [of "a # qs"] by auto
    have cnt: "\<forall>x \<in> set (ras_runs s1). unat (ras_cnt x) + 1 < 2 ^ 32" using s1(5) by auto
    note M = push_runs_addrs [OF cnt]
    obtain s2 pf2 where s2: "ras_push_addr a (s1, pf1) = Some (s2, pf2)" "ras_inv s2" "stack_size s2 = stack_size s1"
      "ras_runs s2 = push_runs a s1" "merges a s1 \<or> \<not> stack_is_full s1 \<longrightarrow> pf2 = pf1" using ras_push_addr_runs [OF s1(2)] by blast
    have fit: "length (remdups_adj (ps @ [a])) \<le> stack_size s"
      using assms(2) snoc.prems remdups_adj_prefix_length [of "ps @ [a]" qs] by simp
    have "pushed (ps @ [a]) s pf s2 pf2 \<and> (\<forall>x \<in> set (ras_runs s2). unat (ras_cnt x) + length qs < 2 ^ 32)"
    proof (cases "merges a s1")
      case True
      then obtain x xs where x: "ras_runs s1 = x # xs" by (auto simp: merges_def split: list.splits)
      with True s2(4) have r: "ras_runs s2 = x \<lparr> ras_cnt := ras_cnt x + 1 \<rparr> # xs" by (simp add: push_runs_def)
      with pushed_step_merges [OF s1(4) True x M(2) [OF x] r] True s2(5) s1(5) M(2) [OF x] x show ?thesis by auto
    next
      case False
      then have r: "ras_runs s2 = \<lparr> ras_addr = a, ras_cnt = 1 \<rparr> # (if stack_is_full s1 then butlast (ras_runs s1) else ras_runs s1)"
        using s2(4) by (auto simp: push_runs_def split: list.splits)
      have "ps \<noteq> [] \<longrightarrow> last ps \<noteq> a"
        using False M(1) s1(4) by (auto simp: pushed_def)
      moreover have "\<forall>x \<in> set (ras_runs s2). unat (ras_cnt x) + length qs < 2 ^ 32"
      proof
        fix x assume "x \<in> set (ras_runs s2)"
        then consider "ras_cnt x = 1" | "x \<in> set (ras_runs s1)" unfolding r by (auto dest: in_set_butlastD split: if_splits)
        then show "unat (ras_cnt x) + length qs < 2 ^ 32"
        proof cases
          case 2
          with s1(5) show ?thesis by auto
        qed (use assms(3) snoc.prems in simp)
      qed
      ultimately show ?thesis using pushed_step_new [OF s1(4) _ s1(3,2) r fit, of pf2] s2(5) by blast
    qed
    with s1(1,3) s2(1-3) show ?case by (simp add: ras_push_all_snoc)
  qed
  from this [of as "[]"] show ?thesis by auto
qed

lemma ras_pop_all_addrs:
  "ras_inv s \<Longrightarrow> n \<le> length (ras_addrs s) \<Longrightarrow>
    \<exists>s1. ras_pop_all n s = Some (take n (ras_addrs s), s1) \<and> ras_inv s1 \<and> ras_addrs s1 = drop n (ras_addrs s)"
proof (induction n arbitrary: s)
  case (Suc n)
  then obtain a as where a: "ras_addrs s = a # as" by (cases "ras_addrs s") auto
  with ras_pop_addr_cases [OF Suc.prems(1)] obtain s1 where
    s1: "ras_pop_addr s = Some (a, s1)" "ras_inv s1" "ras_addrs s1 = as" by auto
  have "n \<le> length (ras_addrs s1)" using s1(3) a Suc.prems(2) by simp
  from Suc.IH [OF s1(2) this] s1 a show ?case by auto
qed simp

subsection \<open>Properties\<close>

text \<open>A push makes the address the newest one and keeps all others, unless all slots hold
  other runs: then the oldest run is dropped and the full counter is bumped. Neither outcome aborts.\<close>

theorem ras_push_addr_newest:
  assumes "ras_inv s"
  shows "\<exists>s1 pf1. ras_push_addr addr (s, pf) = Some (s1, pf1) \<and> ras_inv s1 \<and>
    (if merges addr s \<or> \<not> stack_is_full s then ras_addrs s1 = addr # ras_addrs s \<and> pf1 = pf
     else ras_addrs s1 = addr # expand (butlast (ras_runs s)) \<and> pf1 = ras_full_add pf)"
  using ras_push_addr_cases [OF assms, of addr pf] by (auto split: if_splits)

theorem ras_push_addr_newest_witness:
  "\<exists>s1 s2. ras_push_addr 4 (ras_new 1 [\<lparr> ras_addr = 0, ras_cnt = 0 \<rparr>], perf_zero) = Some (s1, perf_zero) \<and>
     ras_push_addr 8 (s1, perf_zero) = Some (s2, ras_full_add perf_zero) \<and> ras_addrs s2 = [8]"
proof -
  let ?s = "ras_new 1 [\<lparr> ras_addr = 0, ras_cnt = 0 \<rparr>]"
  let ?t = "snd (stack_push \<lparr> ras_addr = 4, ras_cnt = 1 \<rparr> ?s)"
  have "ras_push_addr 4 (?s, perf_zero) = Some (?t, perf_zero)"
    by (simp add: ras_push_addr_def Let_def ras_new_def stack_new_def stack.defs ras.defs
      stack_get_top_def stack_is_empty_def stack_is_full_def)
  moreover have "ras_inv ?t" "\<not> merges 8 ?t" "stack_is_full ?t" "expand (butlast (ras_runs ?t)) = []"
    by (simp_all add: ras_inv_def ras_new_def stack_new_def stack.defs ras.defs stack_push_def
      stack_is_full_def merges_def ras_runs_def)
  ultimately show ?thesis using ras_push_addr_newest [of ?t 8 perf_zero] by auto
qed

text \<open>C25: Returns match calls. A chain of calls may be longer than the stack has slots, as long as it does not change the
  return address more often than that (recursion takes one slot) and no counter overflows. Whatever the stack held before, also
  when it was full, as many pops as there were pushes yield the return addresses in reverse order. When the chain fits the slots
  that were free, the addresses pushed before are still there afterwards and no push was counted as one on a full stack.\<close>

theorem ras_returns_match_calls:
  assumes "ras_inv s" "length (remdups_adj as) \<le> stack_size s" "length as < 2 ^ 32"
    and "\<forall>x \<in> set (ras_runs s). unat (ras_cnt x) + length as < 2 ^ 32"
  shows "\<exists>s1 pf1 s2. ras_push_all as (s, pf) = Some (s1, pf1) \<and> ras_pop_all (length as) s1 = Some (rev as, s2) \<and>
    (top_ptr s + length (remdups_adj as) \<le> stack_size s \<longrightarrow> ras_addrs s2 = ras_addrs s \<and> pf1 = pf)"
proof -
  obtain s1 pf1 where s1: "ras_push_all as (s, pf) = Some (s1, pf1)" "ras_inv s1" "pushed as s pf s1 pf1"
    using ras_push_all_pushed [OF assms] by blast
  obtain ys where ys: "ras_addrs s1 = rev as @ ys" using pushed_newest [OF s1(3)] by blast
  then obtain s2 where s2: "ras_pop_all (length as) s1 = Some (rev as, s2)" "ras_addrs s2 = ys"
    using ras_pop_all_addrs [OF s1(2), of "length as"] by auto
  have "ys = ras_addrs s \<and> pf1 = pf" if "top_ptr s + length (remdups_adj as) \<le> stack_size s"
    using s1(3) that ys by (simp add: pushed_def)
  with s1(1) s2 show ?thesis by blast
qed

theorem ras_returns_match_calls_witness:
  "\<exists>s s1 pf1 s2 s3. ras_push_all [4] (ras_new 2 (replicate 2 \<lparr> ras_addr = 0, ras_cnt = 0 \<rparr>), perf_zero) = Some (s, perf_zero) \<and>
     ras_push_all [8, 8, 8, 12] (s, perf_zero) = Some (s1, pf1) \<and> ras_pop_all 4 s1 = Some ([12, 8, 8, 8], s2) \<and>
     ras_push_all [8, 8, 8] (s, perf_zero) = Some (s3, perf_zero)"
proof -
  let ?s = "snd (stack_push \<lparr> ras_addr = 4, ras_cnt = 1 \<rparr> (ras_new 2 (replicate 2 \<lparr> ras_addr = 0, ras_cnt = 0 \<rparr>)))"
  have s: "ras_push_all [4] (ras_new 2 (replicate 2 \<lparr> ras_addr = 0, ras_cnt = 0 \<rparr>), perf_zero) = Some (?s, perf_zero)"
    by (simp add: ras_push_addr_def Let_def ras_new_def stack_new_def stack.defs ras.defs stack_get_top_def stack_is_empty_def stack_is_full_def)
  have inv: "ras_inv ?s" "stack_size ?s = 2" "top_ptr ?s = 1" "ras_runs ?s = [\<lparr> ras_addr = 4, ras_cnt = 1 \<rparr>]"
    by (simp_all add: ras_inv_def ras_new_def stack_new_def stack.defs ras.defs stack_push_def stack_is_full_def ras_runs_def numeral_2_eq_2)
  have "\<exists>s1 pf1 s2. ras_push_all [8, 8, 8, 12] (?s, perf_zero) = Some (s1, pf1) \<and> ras_pop_all 4 s1 = Some ([12, 8, 8, 8], s2)"
  proof -
    have "ras_pop_all 4 = ras_pop_all (length [8 :: u32, 8, 8, 12])" by (simp add: eval_nat_numeral)
    with ras_returns_match_calls [OF inv(1), of "[8, 8, 8, 12]" perf_zero] inv show ?thesis
      by (auto simp del: ras_push_all.simps ras_pop_all.simps)
  qed
  moreover have "\<exists>s3. ras_push_all [8, 8, 8] (?s, perf_zero) = Some (s3, perf_zero)"
    using ras_returns_match_calls [OF inv(1), of "[8, 8, 8]" perf_zero] inv by (simp del: ras_push_all.simps ras_pop_all.simps) blast
  ultimately show ?thesis using s by blast
qed

end
