(* ===== verification/Issue_Queue.thy ===== *)
theory Issue_Queue
  imports Fifo
begin

text \<open>
  \<open>component/issue_queue.h\<close>: a ring buffer from the middle of which issued instructions are removed.
  \<open>compress\<close> moves the remaining elements towards the head, in place, and pulls the write position back;
  the loop runs over ring positions (slot and stage).
\<close>

subsection \<open>The class\<close>

datatype 'a issue_queue_request = Iq_pop | Iq_set_item nat 'a | Iq_compress "nat list"

record 'a issue_queue = "'a fifo" +
  iq_sync_request_q :: "'a issue_queue_request list"

definition iq_check_id_valid :: "'a issue_queue \<Rightarrow> nat \<Rightarrow> bool" where
  "iq_check_id_valid q i \<longleftrightarrow>
     (if fifo_is_empty q then False
      else if wstage q = rstage q then i \<ge> rptr q \<and> i < wptr q
      else i \<ge> rptr q \<and> i < qsize q \<or> i < wptr q)"

definition iq_get_next_id_stage :: "'a issue_queue \<Rightarrow> nat \<times> bool \<Rightarrow> (bool \<times> (nat \<times> bool)) option" where
  "iq_get_next_id_stage q = (\<lambda>(i, stage). do {
     assert_that (iq_check_id_valid q i);
     let next_id = (i + 1) mod qsize q;
     let next_stage = ((i + 1 \<ge> qsize q) \<noteq> stage);
     Some (iq_check_id_valid q next_id, (next_id, next_stage)) })"

definition iq_new :: "nat \<Rightarrow> 'a list \<Rightarrow> nat \<Rightarrow> bool \<Rightarrow> 'a issue_queue" where
  "iq_new n mem rp rs = fifo.extend (fifo_new n mem rp rs) (issue_queue.fields [])"

definition iq_reset :: "'a issue_queue \<Rightarrow> 'a issue_queue" where
  "iq_reset q = (fifo_reset q) \<lparr> iq_sync_request_q := [] \<rparr>"

definition iq_get_size :: "'a issue_queue \<Rightarrow> nat" where
  "iq_get_size q = (if fifo_is_full q then qsize q else (wptr q + qsize q - rptr q) mod qsize q)"

definition iq_get_item :: "'a issue_queue \<Rightarrow> nat \<Rightarrow> 'a option" where
  "iq_get_item q i = do { assert_that (iq_check_id_valid q i); Some (buffer q ! i) }"

definition iq_set_item :: "nat \<Rightarrow> 'a \<Rightarrow> 'a issue_queue \<Rightarrow> 'a issue_queue option" where
  "iq_set_item i x q = do {
     assert_that (iq_check_id_valid q i);
     Some (q \<lparr> buffer := (buffer q)[i := x] \<rparr>) }"

definition iq_set_item_sync :: "nat \<Rightarrow> 'a \<Rightarrow> 'a issue_queue \<Rightarrow> 'a issue_queue" where
  "iq_set_item_sync i x q = q \<lparr> iq_sync_request_q := iq_sync_request_q q @ [Iq_set_item i x] \<rparr>"

definition iq_get_front_id :: "'a issue_queue \<Rightarrow> nat option" where
  "iq_get_front_id q = (if fifo_is_empty q then None else Some (rptr q))"

definition iq_get_tail_id :: "'a issue_queue \<Rightarrow> nat option" where
  "iq_get_tail_id q = (if fifo_is_empty q then None else Some ((wptr q + qsize q - 1) mod qsize q))"

definition iq_get_next_id :: "'a issue_queue \<Rightarrow> nat \<Rightarrow> (bool \<times> nat) option" where
  "iq_get_next_id q i = do {
     assert_that (iq_check_id_valid q i);
     let n = (i + 1) mod qsize q;
     Some (iq_check_id_valid q n, n) }"

definition iq_get_front :: "'a issue_queue \<Rightarrow> bool \<times> 'a" where
  "iq_get_front q = (\<not> fifo_is_empty q, buffer q ! rptr q)"

text \<open>The locals of \<open>compress\<close> that the loop changes.\<close>

record 'a compress_state =
  cs_queue :: "'a issue_queue"
  new_wptr :: nat
  new_wstage :: bool
  next_id :: nat
  invalid_item_found :: bool
  cs_i :: nat

definition compress_body ::
  "nat list \<Rightarrow> nat \<times> bool \<Rightarrow> 'a compress_state \<Rightarrow> (bool \<times> 'a compress_state) option" where
  "compress_body item_id_list = (\<lambda>(cur_id, cur_stage) s.
     if \<not> invalid_item_found s then
       if cs_i s < length item_id_list \<and> cur_id = item_id_list ! cs_i s
       then Some (False, s \<lparr> invalid_item_found := True, cs_i := cs_i s + 1, next_id := cur_id,
                             new_wptr := cur_id, new_wstage := cur_stage \<rparr>)
       else Some (False, s)
     else
       if cs_i s < length item_id_list \<and> cur_id = item_id_list ! cs_i s
       then Some (False, s \<lparr> cs_i := cs_i s + 1 \<rparr>)
       else do {
         x \<leftarrow> iq_get_item (cs_queue s) cur_id;
         q1 \<leftarrow> iq_set_item (next_id s) x (cs_queue s);
         (ok, (w, ws)) \<leftarrow> iq_get_next_id_stage q1 (next_id s, new_wstage s);
         Some (False, s \<lparr> cs_queue := q1, new_wptr := w, new_wstage := ws, next_id := w \<rparr>) })"

definition iq_compress :: "nat list \<Rightarrow> 'a issue_queue \<Rightarrow> 'a issue_queue option" where
  "iq_compress item_id_list q =
     (if length item_id_list > 0 then
        case iq_get_front_id q of
          None \<Rightarrow> Some q
        | Some first_id \<Rightarrow> do {
            s \<leftarrow> do_while (compress_body item_id_list)
                  (\<lambda>s cur. iq_get_next_id_stage (cs_queue s) cur) (\<lambda>(cur_id, cur_stage). cur_id = first_id)
                  (first_id, rstage q)
                  \<lparr> cs_queue = q, new_wptr = first_id, new_wstage = rstage q, next_id = first_id,
                    invalid_item_found = False, cs_i = 0 \<rparr>;
            Some ((cs_queue s) \<lparr> wptr := new_wptr s, wstage := new_wstage s \<rparr>) }
      else Some q)"

definition iq_compress_sync :: "nat list \<Rightarrow> 'a issue_queue \<Rightarrow> 'a issue_queue" where
  "iq_compress_sync ids q = q \<lparr> iq_sync_request_q := iq_sync_request_q q @ [Iq_compress ids] \<rparr>"

definition iq_pop_sync :: "'a issue_queue \<Rightarrow> 'a issue_queue" where
  "iq_pop_sync q = q \<lparr> iq_sync_request_q := iq_sync_request_q q @ [Iq_pop] \<rparr>"

fun iq_handle :: "'a issue_queue_request \<Rightarrow> 'a issue_queue \<Rightarrow> 'a issue_queue option" where
  "iq_handle (Iq_set_item i x) q = iq_set_item i x q"
| "iq_handle Iq_pop q = Some (snd (fifo_pop q))"
| "iq_handle (Iq_compress ids) q = iq_compress ids q"

definition iq_sync :: "'a issue_queue \<Rightarrow> 'a issue_queue option" where
  "iq_sync q = drain iq_handle (iq_sync_request_q q) (q \<lparr> iq_sync_request_q := [] \<rparr>)"

subsection \<open>Slots and positions\<close>

lemma iq_id_ring:
  "iq_check_id_valid q = id_live q" "iq_get_front_id q = id_front q" "iq_get_next_id q = id_next q"
  by (auto simp: fun_eq_iff iq_check_id_valid_def id_live_def iq_get_front_id_def id_front_def
    iq_get_next_id_def id_next_def Let_def)

interpretation iq_slots: id_ring fifo_ring fifo_ids iq_check_id_valid iq_get_front_id iq_get_next_id
  using id_ring_fifo by (simp add: iq_id_ring [abs_def])

subsection \<open>The compressing loop\<close>

text \<open>
  After \<open>k\<close> positions: \<open>m\<close> elements were kept, they fill the first \<open>m\<close> slots in order once a gap
  has been found, and the slots from \<open>k\<close> on still hold what they held.
\<close>

definition compress_inv :: "'a issue_queue \<Rightarrow> (nat \<Rightarrow> bool) \<Rightarrow> nat \<Rightarrow> 'a compress_state \<Rightarrow> bool" where
  "compress_inv q D k s \<longleftrightarrow>
     (let kept = filter (\<lambda>i. \<not> D i) (take k (fifo_ids q)); gone = filter D (take k (fifo_ids q));
          m = length kept
      in cs_i s = length gone \<and> invalid_item_found s = (gone \<noteq> []) \<and>
         (gone \<noteq> [] \<longrightarrow> next_id s = fst (ring_pos q m) \<and> new_wptr s = fst (ring_pos q m) \<and>
            new_wstage s = snd (ring_pos q m)) \<and>
         cs_queue s = q \<lparr> buffer := buffer (cs_queue s) \<rparr> \<and> length (buffer (cs_queue s)) = qsize q \<and>
         (\<forall>j < m. buffer (cs_queue s) ! (fifo_ids q ! j) = buffer q ! (kept ! j)) \<and>
         (\<forall>j. k \<le> j \<and> j < fifo_fill q \<longrightarrow>
            buffer (cs_queue s) ! (fifo_ids q ! j) = buffer q ! (fifo_ids q ! j)))"

lemma iq_valid_buffer [simp]: "iq_check_id_valid (q \<lparr> buffer := b \<rparr>) = iq_check_id_valid q"
  by (simp add: fun_eq_iff iq_check_id_valid_def)

lemma next_removed:
  assumes "distinct xs" "k < length xs"
  shows "length (filter D (take k xs)) < length (filter D xs) \<and>
      xs ! k = filter D xs ! length (filter D (take k xs)) \<longleftrightarrow> D (xs ! k)"
proof -
  have split: "xs = take k xs @ xs ! k # drop (Suc k) xs" using assms(2) by (simp add: id_take_nth_drop)
  define a where "a = filter D (take k xs)"
  define b where "b = filter D (drop (Suc k) xs)"
  have f: "filter D xs = a @ (if D (xs ! k) then [xs ! k] else []) @ b"
    by (subst split) (simp add: a_def b_def)
  show ?thesis
  proof (cases "D (xs ! k)")
    case True
    with f show ?thesis by (simp flip: a_def)
  next
    case False
    have "b ! 0 \<noteq> xs ! k" if "b \<noteq> []"
    proof -
      have "b ! 0 \<in> set b" using that by simp
      then have "D (b ! 0)" by (simp add: b_def)
      with False show ?thesis by auto
    qed
    with False f show ?thesis by (auto simp: nth_append simp flip: a_def)
  qed
qed

lemma compress_step:
  assumes ring: "fifo_ring q" and k: "k < fifo_fill q" and inv: "compress_inv q D k s"
  shows "\<exists>s1. compress_body (filter D (fifo_ids q)) (fifo_positions q ! k) s = Some (False, s1) \<and>
    compress_inv q D (Suc k) s1"
proof -
  let ?ids = "fifo_ids q" and ?x = "fifo_ids q ! k"
  define kept where "kept = filter (\<lambda>i. \<not> D i) (take k ?ids)"
  define gone where "gone = filter D (take k ?ids)"
  define m where "m = length kept"
  have dist: "distinct ?ids" and klen: "k < length ?ids" using ids_distinct [OF ring] k by auto
  have tk: "take (Suc k) ?ids = take k ?ids @ [?x]" using klen by (rule take_Suc_conv_app_nth)
  have I: "cs_i s = length gone" "invalid_item_found s = (gone \<noteq> [])"
    "gone \<noteq> [] \<Longrightarrow> next_id s = fst (ring_pos q m) \<and> new_wptr s = fst (ring_pos q m) \<and> new_wstage s = snd (ring_pos q m)"
    "cs_queue s = q \<lparr> buffer := buffer (cs_queue s) \<rparr>" "length (buffer (cs_queue s)) = qsize q"
    "\<And>j. j < m \<Longrightarrow> buffer (cs_queue s) ! (?ids ! j) = buffer q ! (kept ! j)"
    "\<And>j. k \<le> j \<Longrightarrow> j < fifo_fill q \<Longrightarrow> buffer (cs_queue s) ! (?ids ! j) = buffer q ! (?ids ! j)"
    using inv by (simp_all add: compress_inv_def Let_def kept_def gone_def m_def)
  have match: "cs_i s < length (filter D ?ids) \<and> ?x = filter D ?ids ! cs_i s \<longleftrightarrow> D ?x"
    using next_removed [OF dist klen, of D] by (simp add: I(1) gone_def)
  have count: "m + length gone = k"
    using sum_length_filter_compl [of "\<lambda>i. \<not> D i" "take k ?ids"] klen by (simp add: m_def kept_def gone_def)
  have pos: "fifo_positions q ! k = (?x, snd (ring_pos q k))" using k by (rule positions_nth)
  show ?thesis
  proof (cases "D ?x")
    case True
    show ?thesis
    proof (cases "gone = []")
      case g: True
      then have mk: "m = k" using count by simp
      with k have "ring_pos q m = (?x, snd (ring_pos q k))" by (simp add: ids_nth ring_pos_def)
      with True g match I tk pos show ?thesis
        by (auto simp: compress_body_def compress_inv_def Let_def kept_def gone_def m_def)
    next
      case g: False
      with True match I tk pos show ?thesis
        by (auto simp: compress_body_def compress_inv_def Let_def kept_def gone_def m_def)
    qed
  next
    case False
    show ?thesis
    proof (cases "gone = []")
      case g: True
      then have mk: "m = k" using count by simp
      have "buffer (cs_queue s) ! (?ids ! j) = buffer q ! ((kept @ [?x]) ! j)" if "j < Suc m" for j
        using that I(6) [of j] I(7) [of k] mk k by (cases "j = m") (auto simp: nth_append m_def)
      with False g match I tk pos show ?thesis
        by (auto simp: compress_body_def compress_inv_def Let_def kept_def gone_def m_def)
    next
      case g: False
      then have mk: "m < k" using count by (cases gone) auto
      let ?b = "buffer (cs_queue s)"
      let ?b1 = "?b[?ids ! m := ?b ! ?x]"
      have mlive: "fst (ring_pos q m) = ?ids ! m" using mk k by (simp add: ring_pos_def ids_nth)
      have live: "iq_check_id_valid q (?ids ! m)" "iq_check_id_valid q ?x"
        using mk k ring by (auto simp: iq_slots.valid_iff intro!: nth_mem)
      have lt: "?ids ! m < length ?b" using ids_less [OF ring, of "?ids ! m"] mk k I(5) by simp
      obtain ok where nx: "iq_get_next_id_stage (q \<lparr> buffer := ?b1 \<rparr>) (?ids ! m, snd (ring_pos q m)) =
          Some (ok, ring_pos q (Suc m))"
        using live(1) ring_pos_Suc [OF ring, of m] mk k mlive by (auto simp: iq_get_next_id_stage_def Let_def)
      define s1 where "s1 = s \<lparr> cs_queue := q \<lparr> buffer := ?b1 \<rparr>, new_wptr := fst (ring_pos q (Suc m)),
          new_wstage := snd (ring_pos q (Suc m)), next_id := fst (ring_pos q (Suc m)) \<rparr>"
      have item: "iq_get_item (cs_queue s) ?x = Some (?b ! ?x)"
        using live(2) by (subst I(4)) (simp add: iq_get_item_def)
      have upd: "iq_set_item (?ids ! m) y (cs_queue s) = Some (q \<lparr> buffer := ?b[?ids ! m := y] \<rparr>)" for y
        using live(1) by (subst I(4)) (simp add: iq_set_item_def)
      have nid: "next_id s = ?ids ! m" "new_wstage s = snd (ring_pos q m)" using I(3) [OF g] mlive by simp_all
      have body: "compress_body (filter D ?ids) (fifo_positions q ! k) s = Some (False, s1)"
        unfolding pos compress_body_def prod.case I(2) match using g False
        by (simp add: item upd nid nx case_prod_unfold s1_def)
      have idx: "?ids ! i = ?ids ! m \<longleftrightarrow> i = m" if "i < fifo_fill q" for i
        using that dist mk k by (simp add: nth_eq_iff_index_eq)
      have old: "?b1 ! (?ids ! j) = buffer q ! ((kept @ [?x]) ! j)" if "j < Suc m" for j
        using that I(6) [of j] I(7) [of k] idx [of j] mk k lt
        by (cases "j = m") (auto simp: nth_append m_def)
      have rest: "?b1 ! (?ids ! j) = buffer q ! (?ids ! j)" if "Suc k \<le> j" "j < fifo_fill q" for j
        using that I(7) [of j] idx [of j] mk by simp
      have "compress_inv q D (Suc k) s1"
        using False g I(1,2,5) old rest tk
        by (simp add: compress_inv_def Let_def s1_def flip: kept_def gone_def m_def)
      with body show ?thesis by blast
    qed
  qed
qed

lemma positions_next:
  assumes "fifo_ring q" "Suc k < fifo_fill q"
  shows "iq_get_next_id_stage q (fifo_positions q ! k) = Some (True, fifo_positions q ! Suc k)"
proof -
  have live: "iq_check_id_valid q (fifo_ids q ! k)" "iq_check_id_valid q (fifo_ids q ! Suc k)"
    using assms by (auto simp: iq_slots.valid_iff intro!: nth_mem)
  have k: "fst (ring_pos q k) = fifo_ids q ! k" "fst (ring_pos q (Suc k)) = fifo_ids q ! Suc k"
    using assms(2) by (simp_all add: ring_pos_def ids_nth)
  have suc: "ring_pos q (Suc k) =
      ((fifo_ids q ! k + 1) mod qsize q, (fifo_ids q ! k + 1 \<ge> qsize q) \<noteq> snd (ring_pos q k))"
    using ring_pos_Suc [OF assms(1), of k] assms(2) k(1) by simp
  have "(fifo_ids q ! k + 1) mod qsize q = fifo_ids q ! Suc k" using k(2) unfolding suc by simp
  with live suc assms(2) show ?thesis
    by (simp add: positions_nth iq_get_next_id_stage_def Let_def)
qed

lemma positions_last:
  assumes "fifo_ring q" "0 < fifo_fill q"
  shows "\<exists>ok y. iq_get_next_id_stage q (last (fifo_positions q)) = Some (ok, y) \<and>
    (ok \<longrightarrow> fst y = rptr q)"
proof -
  have ne: "fifo_positions q \<noteq> []" "fifo_ids q \<noteq> []" "\<not> fifo_is_empty q"
    using assms is_empty_fill [of q] by (auto simp flip: length_0_conv)
  have fst: "map fst (fifo_positions q) = fifo_ids q"
    by (simp add: fifo_positions_def fifo_ids_def ring_pos_def)
  then have l: "fst (last (fifo_positions q)) = last (fifo_ids q)" using ne(1) by (metis last_map)
  have "last (fifo_ids q) \<in> set (fifo_ids q)" using ne(2) by simp
  then have "iq_check_id_valid q (last (fifo_ids q))" using assms(1) by (simp add: iq_slots.valid_iff)
  moreover have "(last (fifo_ids q) + 1) mod qsize q = rptr q"
    if "iq_check_id_valid q ((last (fifo_ids q) + 1) mod qsize q)"
    using that iq_slots.next_id_last [OF assms(1) ne(2)] ids_hd [OF assms(1) ne(3)] calculation
    by (auto simp: iq_get_next_id_def Let_def)
  ultimately show ?thesis using l
    by (cases "last (fifo_positions q)") (simp add: iq_get_next_id_stage_def Let_def)
qed

lemma compress_loop:
  assumes ring: "fifo_ring q" and f: "0 < fifo_fill q"
  shows "\<exists>s. do_while (compress_body (filter D (fifo_ids q)))
        (\<lambda>s cur. iq_get_next_id_stage (cs_queue s) cur) (\<lambda>(cur_id, cur_stage). cur_id = rptr q)
        (rptr q, rstage q)
        \<lparr> cs_queue = q, new_wptr = rptr q, new_wstage = rstage q, next_id = rptr q,
          invalid_item_found = False, cs_i = 0 \<rparr> = Some s \<and>
      compress_inv q D (fifo_fill q) s"
proof -
  let ?xs = "fifo_positions q"
  have ne: "?xs \<noteq> []" using f by (simp flip: length_0_conv)
  have r: "rptr q mod qsize q = rptr q" "\<not> qsize q \<le> rptr q" using fifo_ring_size [OF ring] by auto
  have hd: "hd ?xs = (rptr q, rstage q)"
    using f r by (simp add: hd_conv_nth ne positions_nth ids_nth ring_pos_def)
  have same: "iq_get_next_id_stage (cs_queue s) = iq_get_next_id_stage q" if "compress_inv q D k s" for k s
  proof -
    have "cs_queue s = q \<lparr> buffer := buffer (cs_queue s) \<rparr>" using that by (simp add: compress_inv_def Let_def)
    then have "iq_get_next_id_stage (cs_queue s) = iq_get_next_id_stage (q \<lparr> buffer := buffer (cs_queue s) \<rparr>)"
      by (rule arg_cong)
    then show ?thesis by (simp add: iq_get_next_id_stage_def)
  qed
  have "\<exists>s. do_while (compress_body (filter D (fifo_ids q)))
        (\<lambda>s cur. iq_get_next_id_stage (cs_queue s) cur) (\<lambda>(cur_id, cur_stage). cur_id = rptr q)
        (hd ?xs)
        \<lparr> cs_queue = q, new_wptr = rptr q, new_wstage = rstage q, next_id = rptr q,
          invalid_item_found = False, cs_i = 0 \<rparr> = Some s \<and>
      compress_inv q D (length ?xs) s"
  proof (rule do_while_steps [where I = "compress_inv q D"])
    show "?xs \<noteq> []" by (rule ne)
    show "compress_inv q D 0 \<lparr> cs_queue = q, new_wptr = rptr q, new_wstage = rstage q, next_id = rptr q,
          invalid_item_found = False, cs_i = 0 \<rparr>"
      using fifo_ring_size [OF ring] by (simp add: compress_inv_def)
    show "\<exists>s1. compress_body (filter D (fifo_ids q)) (?xs ! k) s = Some (False, s1) \<and> compress_inv q D (Suc k) s1"
      if "k < length ?xs" "compress_inv q D k s" for k s
      using compress_step [OF ring _ that(2)] that(1) by simp
    show "iq_get_next_id_stage (cs_queue s) (?xs ! k) = Some (True, ?xs ! Suc k) \<and>
        \<not> (case ?xs ! Suc k of (cur_id, cur_stage) \<Rightarrow> cur_id = rptr q)"
      if "Suc k < length ?xs" "compress_inv q D (Suc k) s" for k s
    proof -
      have "fifo_ids q ! Suc k \<noteq> fifo_ids q ! 0"
        using that(1) ids_distinct [OF ring] nth_eq_iff_index_eq [of "fifo_ids q" "Suc k" 0] by auto
      moreover have "fifo_ids q ! 0 = rptr q" using f r by (simp add: ids_nth)
      ultimately show ?thesis using that positions_next [OF ring, of k] same [OF that(2)]
        by (simp add: positions_nth)
    qed
    show "\<exists>ok y. iq_get_next_id_stage (cs_queue s) (last ?xs) = Some (ok, y) \<and>
        (ok \<longrightarrow> (case y of (cur_id, cur_stage) \<Rightarrow> cur_id = rptr q))"
      if "compress_inv q D (length ?xs) s" for s
      using positions_last [OF ring f] same [OF that] by (simp add: case_prod_unfold)
  qed
  then show ?thesis by (simp add: hd)
qed

lemma iq_compress_keeps_order:
  assumes ring: "fifo_ring q"
  shows "\<exists>q1. iq_compress (filter D (fifo_ids q)) q = Some q1 \<and> fifo_ring q1 \<and>
    fifo_contents q1 = map (\<lambda>i. buffer q ! i) (filter (\<lambda>i. \<not> D i) (fifo_ids q)) \<and>
    qsize q1 = qsize q \<and> rptr q1 = rptr q \<and> rstage q1 = rstage q \<and>
    iq_sync_request_q q1 = iq_sync_request_q q \<and> pop_status_save q1 = pop_status_save q"
proof (cases "filter D (fifo_ids q) = []")
  case True
  then have "filter (\<lambda>i. \<not> D i) (fifo_ids q) = fifo_ids q" by (auto simp: filter_empty_conv)
  with True ring show ?thesis by (simp add: iq_compress_def fifo_contents_def)
next
  case False
  then have ne: "fifo_ids q \<noteq> []" by auto
  then have f: "0 < fifo_fill q" and nemp: "\<not> fifo_is_empty q"
    using ring is_empty_fill [of q] by (auto simp flip: length_greater_0_conv)
  obtain s where s: "do_while (compress_body (filter D (fifo_ids q)))
        (\<lambda>s cur. iq_get_next_id_stage (cs_queue s) cur) (\<lambda>(cur_id, cur_stage). cur_id = rptr q)
        (rptr q, rstage q)
        \<lparr> cs_queue = q, new_wptr = rptr q, new_wstage = rstage q, next_id = rptr q,
          invalid_item_found = False, cs_i = 0 \<rparr> = Some s" "compress_inv q D (fifo_fill q) s"
    using compress_loop [OF ring f] by blast
  let ?kept = "filter (\<lambda>i. \<not> D i) (fifo_ids q)"
  let ?m = "length ?kept" and ?b = "buffer (cs_queue s)"
  have "take (fifo_fill q) (fifo_ids q) = fifo_ids q" by simp
  with s(2) False have S: "new_wptr s = fst (ring_pos q ?m)" "new_wstage s = snd (ring_pos q ?m)"
    "cs_queue s = q \<lparr> buffer := ?b \<rparr>" "length ?b = qsize q"
    "\<And>j. j < ?m \<Longrightarrow> ?b ! (fifo_ids q ! j) = buffer q ! (?kept ! j)"
    by (auto simp: compress_inv_def Let_def)
  have m: "?m \<le> fifo_fill q" using length_filter_le [of _ "fifo_ids q"] by simp
  let ?q = "q \<lparr> buffer := ?b \<rparr>"
  let ?q1 = "?q \<lparr> wptr := fst (ring_pos ?q ?m), wstage := snd (ring_pos ?q ?m) \<rparr>"
  have ring': "fifo_ring ?q" using ring S(4) by (simp add: fifo_ring_def)
  have "fifo_ids ?q1 = take ?m (fifo_ids ?q)" "fifo_ring ?q1"
    using cut_at_position [OF ring', of ?m] m by simp_all
  moreover from this have "fifo_contents ?q1 = map (\<lambda>i. buffer q ! i) ?kept"
    using S(5) m by (intro nth_equalityI) (simp_all add: fifo_contents_def)
  moreover have "iq_compress (filter D (fifo_ids q)) q = Some ?q1"
  proof -
    have "(cs_queue s) \<lparr> wptr := new_wptr s, wstage := new_wstage s \<rparr> = ?q1"
      using S(1,2) by (subst S(3)) simp
    then show ?thesis using False s(1) nemp by (simp add: iq_compress_def iq_get_front_id_def)
  qed
  ultimately show ?thesis by simp
qed

subsection \<open>Properties\<close>

text \<open>C21: Compressing the queue with a list of issued slots, given in queue order, terminates without
  aborting and removes exactly these elements: the others stay, in their order, and the ring
  invariant holds.\<close>

theorem iq_compress_removes_issued:
  assumes "fifo_ring q"
  shows "\<exists>q1. iq_compress (filter D (fifo_ids q)) q = Some q1 \<and> fifo_ring q1 \<and>
    fifo_contents q1 = map (\<lambda>i. buffer q ! i) (filter (\<lambda>i. \<not> D i) (fifo_ids q))"
  using iq_compress_keeps_order [OF assms, of D] by blast

theorem iq_compress_removes_issued_witness:
  "\<exists>q1. iq_compress [3, 1] (iq_new 4 [10, 11, 12, 13 :: nat] 0 False
        \<lparr> rptr := 2, wptr := 2, wstage := True \<rparr>) = Some q1 \<and> fifo_contents q1 = [12, 10]"
proof -
  let ?q = "iq_new 4 [10, 11, 12, 13 :: nat] 0 False \<lparr> rptr := 2, wptr := 2, wstage := True \<rparr>"
  have four: "[0..<4] = [0, 1, 2, 3 :: nat]" by (simp add: eval_nat_numeral)
  have "fifo_fill ?q = 4"
    by (simp add: fifo_fill_def ring_dist_def iq_new_def fifo.defs issue_queue.defs fifo_new_def)
  then have ids: "fifo_ids ?q = [2, 3, 0, 1]"
    unfolding fifo_ids_def by (simp add: four iq_new_def fifo.defs issue_queue.defs fifo_new_def)
  have "fifo_ring ?q"
    by (simp add: fifo_ring_def ring_ok_def iq_new_def fifo.defs issue_queue.defs fifo_new_def)
  from iq_compress_removes_issued [OF this, of odd] show ?thesis
    unfolding ids by (auto simp: iq_new_def fifo.defs issue_queue.defs fifo_new_def)
qed

end
