(* ===== verification/Csr.thy ===== *)
theory Csr
  imports Common
begin

text \<open>
  \<open>component/csr_base.h\<close>, the classes under \<open>component/csr\<close>, \<open>component/csr_all.h\<close> and
  \<open>component/csrfile.h\<close>: the control and status registers and the table that maps addresses to them.

  Each register is a record of its class, initial and current value; the class decides the virtual
  \<open>filter\<close> and \<open>read\<close>. The \<open>charfifo\<close> register talks to two character queues shared with the network
  threads (\<open>boost::lockfree::spsc_queue\<close> of 1024 characters). They are a field of the register file here,
  as the sequential queues their documentation promises; the loops \<open>while(!pop());\<close> and
  \<open>while(!push(c));\<close> do not return while the queue stays empty or full, so they have no result in that
  state. The register names, used for printing, are left out.
\<close>

subsection \<open>Registers\<close>

datatype csr_class =
    Marchid | Mcause | Mconfigptr | Mcounteren | Mcycle | Mcycleh | Mepc | Mhartid | Mie | Mimpid
  | Minstret | Minstreth | Mip | Misa | Mscratch | Mstatus | Mstatush | Mtval | Mtvec | Mvendorid
  | Pmpaddr | Pmpcfg | Charfifo | Finish | Mhpmcounter | Mhpmcounterh

record csr_base =
  csr_class :: csr_class
  csr_init_value :: u32
  csr_value :: u32

definition csr_base_new :: "csr_class \<Rightarrow> u32 \<Rightarrow> csr_base" where
  "csr_base_new c init_value = \<lparr> csr_class = c, csr_init_value = init_value, csr_value = init_value \<rparr>"

definition csr_reset :: "csr_base \<Rightarrow> csr_base" where
  "csr_reset c = c \<lparr> csr_value := csr_init_value c \<rparr>"

definition csr_load :: "u32 \<Rightarrow> csr_base \<Rightarrow> csr_base" where
  "csr_load v c = c \<lparr> csr_value := v \<rparr>"

definition csr_get_value :: "csr_base \<Rightarrow> u32" where
  "csr_get_value c = csr_value c"

text \<open>The overrides of \<open>filter\<close> without side effects.\<close>

definition mcounteren_filter :: "u32 \<Rightarrow> u32" where "mcounteren_filter v = v AND 0x07"
definition mepc_filter :: "u32 \<Rightarrow> u32" where "mepc_filter v = v AND NOT 0x03"
definition mie_filter :: "u32 \<Rightarrow> u32" where "mie_filter v = v AND 0x888"
definition mip_filter :: "u32 \<Rightarrow> u32" where "mip_filter v = v AND 0x888"
definition mstatus_filter :: "u32 \<Rightarrow> u32" where "mstatus_filter v = v AND 0x88"
definition mstatush_filter :: "u32 \<Rightarrow> u32" where "mstatush_filter v = 0"
definition mtvec_filter :: "u32 \<Rightarrow> u32" where "mtvec_filter v = v AND NOT 0x03"
definition pmpaddr_filter :: "u32 \<Rightarrow> u32" where "pmpaddr_filter v = 0"
definition pmpcfg_filter :: "u32 \<Rightarrow> u32" where "pmpcfg_filter v = 0"

fun csr_filter :: "csr_class \<Rightarrow> u32 \<Rightarrow> u32" where
  "csr_filter Mcounteren v = mcounteren_filter v"
| "csr_filter Mepc v = mepc_filter v"
| "csr_filter Mie v = mie_filter v"
| "csr_filter Mip v = mip_filter v"
| "csr_filter Mstatus v = mstatus_filter v"
| "csr_filter Mstatush v = mstatush_filter v"
| "csr_filter Mtvec v = mtvec_filter v"
| "csr_filter Pmpaddr v = pmpaddr_filter v"
| "csr_filter Pmpcfg v = pmpcfg_filter v"
| "csr_filter _ v = v"

text \<open>The character queues, and the two overrides of \<open>charfifo\<close>. A \<open>char\<close> is signed, so or-ing it to an
  \<open>unsigned\<close> extends its sign.\<close>

record charqueues =
  send_fifo :: "u8 list"
  rev_fifo :: "u8 list"

definition charfifo_capacity :: nat where "charfifo_capacity = 1024"

definition charfifo_filter :: "u32 \<Rightarrow> charqueues \<Rightarrow> (u32 \<times> charqueues) option" where
  "charfifo_filter v cq =
     (if v AND 0x80000000 \<noteq> 0 then
        (case rev_fifo cq of [] \<Rightarrow> None | c # cs \<Rightarrow> Some (0, cq \<lparr> rev_fifo := cs \<rparr>))
      else
        (if length (send_fifo cq) < charfifo_capacity
         then Some (0, cq \<lparr> send_fifo := send_fifo cq @ [ucast (v AND 0xff)] \<rparr>) else None))"

definition charfifo_read :: "charqueues \<Rightarrow> u32" where
  "charfifo_read cq =
     (case rev_fifo cq of [] \<Rightarrow> 0 | ch # cs \<Rightarrow> 0x80000000 OR scast ch)"

text \<open>\<open>csr_base::write\<close> and \<open>read\<close> with the virtual calls resolved by class.\<close>

definition csr_write :: "u32 \<Rightarrow> csr_base \<times> charqueues \<Rightarrow> (csr_base \<times> charqueues) option" where
  "csr_write v = (\<lambda>(c, cq).
     if csr_class c = Charfifo
     then do { (v1, cq1) \<leftarrow> charfifo_filter v cq; Some (c \<lparr> csr_value := v1 \<rparr>, cq1) }
     else Some (c \<lparr> csr_value := csr_filter (csr_class c) v \<rparr>, cq))"

definition csr_read :: "csr_base \<Rightarrow> charqueues \<Rightarrow> u32" where
  "csr_read c cq = (if csr_class c = Charfifo then charfifo_read cq else csr_value c)"

text \<open>\<open>setbit\<close> and \<open>getbit\<close>, used by the registers with plain reads and filters only.\<close>

definition csr_setbit :: "nat \<Rightarrow> bool \<Rightarrow> csr_base \<Rightarrow> csr_base" where
  "csr_setbit n v c =
     c \<lparr> csr_value := csr_filter (csr_class c)
           ((csr_value c AND NOT (push_bit n 1)) OR push_bit n (if v then 1 else 0)) \<rparr>"

definition csr_getbit :: "nat \<Rightarrow> csr_base \<Rightarrow> bool" where
  "csr_getbit n c \<longleftrightarrow> csr_value c AND push_bit n 1 \<noteq> 0"

definition mcounteren_set_cy :: "bool \<Rightarrow> csr_base \<Rightarrow> csr_base" where "mcounteren_set_cy = csr_setbit 0"
definition mcounteren_get_cy :: "csr_base \<Rightarrow> bool" where "mcounteren_get_cy = csr_getbit 0"
definition mcounteren_set_tm :: "bool \<Rightarrow> csr_base \<Rightarrow> csr_base" where "mcounteren_set_tm = csr_setbit 1"
definition mcounteren_get_tm :: "csr_base \<Rightarrow> bool" where "mcounteren_get_tm = csr_getbit 1"
definition mcounteren_set_ir :: "bool \<Rightarrow> csr_base \<Rightarrow> csr_base" where "mcounteren_set_ir = csr_setbit 2"
definition mcounteren_get_ir :: "csr_base \<Rightarrow> bool" where "mcounteren_get_ir = csr_getbit 2"
definition mie_set_msie :: "bool \<Rightarrow> csr_base \<Rightarrow> csr_base" where "mie_set_msie = csr_setbit 3"
definition mie_get_msie :: "csr_base \<Rightarrow> bool" where "mie_get_msie = csr_getbit 3"
definition mie_set_mtie :: "bool \<Rightarrow> csr_base \<Rightarrow> csr_base" where "mie_set_mtie = csr_setbit 7"
definition mie_get_mtie :: "csr_base \<Rightarrow> bool" where "mie_get_mtie = csr_getbit 7"
definition mie_set_meie :: "bool \<Rightarrow> csr_base \<Rightarrow> csr_base" where "mie_set_meie = csr_setbit 11"
definition mie_get_meie :: "csr_base \<Rightarrow> bool" where "mie_get_meie = csr_getbit 11"
definition mip_set_msip :: "bool \<Rightarrow> csr_base \<Rightarrow> csr_base" where "mip_set_msip = csr_setbit 3"
definition mip_get_msip :: "csr_base \<Rightarrow> bool" where "mip_get_msip = csr_getbit 3"
definition mip_set_mtip :: "bool \<Rightarrow> csr_base \<Rightarrow> csr_base" where "mip_set_mtip = csr_setbit 7"
definition mip_get_mtip :: "csr_base \<Rightarrow> bool" where "mip_get_mtip = csr_getbit 7"
definition mip_set_meip :: "bool \<Rightarrow> csr_base \<Rightarrow> csr_base" where "mip_set_meip = csr_setbit 11"
definition mip_get_meip :: "csr_base \<Rightarrow> bool" where "mip_get_meip = csr_getbit 11"
definition mstatus_set_mie :: "bool \<Rightarrow> csr_base \<Rightarrow> csr_base" where "mstatus_set_mie = csr_setbit 3"
definition mstatus_get_mie :: "csr_base \<Rightarrow> bool" where "mstatus_get_mie = csr_getbit 3"
definition mstatus_set_mpie :: "bool \<Rightarrow> csr_base \<Rightarrow> csr_base" where "mstatus_set_mpie = csr_setbit 7"
definition mstatus_get_mpie :: "csr_base \<Rightarrow> bool" where "mstatus_get_mpie = csr_getbit 7"

text \<open>The constructors.\<close>

definition marchid_new :: csr_base where "marchid_new = csr_base_new Marchid 0x19981001"
definition mcause_new :: csr_base where "mcause_new = csr_base_new Mcause 0"
definition mconfigptr_new :: csr_base where "mconfigptr_new = csr_base_new Mconfigptr 0"
definition mcounteren_new :: csr_base where "mcounteren_new = csr_base_new Mcounteren 0"
definition mcycle_new :: csr_base where "mcycle_new = csr_base_new Mcycle 0"
definition mcycleh_new :: csr_base where "mcycleh_new = csr_base_new Mcycleh 0"
definition mepc_new :: csr_base where "mepc_new = csr_base_new Mepc 0"
definition mhartid_new :: csr_base where "mhartid_new = csr_base_new Mhartid 0"
definition mie_new :: csr_base where "mie_new = csr_base_new Mie 0"
definition mimpid_new :: csr_base where "mimpid_new = csr_base_new Mimpid 0x20220201"
definition minstret_new :: csr_base where "minstret_new = csr_base_new Minstret 0"
definition minstreth_new :: csr_base where "minstreth_new = csr_base_new Minstreth 0"
definition mip_new :: csr_base where "mip_new = csr_base_new Mip 0"
definition misa_new :: csr_base where "misa_new = csr_base_new Misa 0x40001100"
definition mscratch_new :: csr_base where "mscratch_new = csr_base_new Mscratch 0"
definition mstatus_new :: csr_base where "mstatus_new = csr_base_new Mstatus 0"
definition mstatush_new :: csr_base where "mstatush_new = csr_base_new Mstatush 0"
definition mtval_new :: csr_base where "mtval_new = csr_base_new Mtval 0"
definition mtvec_new :: csr_base where "mtvec_new = csr_base_new Mtvec 0"
definition mvendorid_new :: csr_base where "mvendorid_new = csr_base_new Mvendorid 0"
definition pmpaddr_new :: csr_base where "pmpaddr_new = csr_base_new Pmpaddr 0"
definition pmpcfg_new :: csr_base where "pmpcfg_new = csr_base_new Pmpcfg 0"
definition charfifo_new :: csr_base where "charfifo_new = csr_base_new Charfifo 0"
definition finish_new :: csr_base where "finish_new = csr_base_new Finish 0xFFFFFFFF"
definition mhpmcounter_new :: csr_base where "mhpmcounter_new = csr_base_new Mhpmcounter 0"
definition mhpmcounterh_new :: csr_base where "mhpmcounterh_new = csr_base_new Mhpmcounterh 0"

subsection \<open>Addresses\<close>

abbreviation (input) CSR_MVENDORID :: u32 where "CSR_MVENDORID \<equiv> 0xF11"
abbreviation (input) CSR_MARCHID :: u32 where "CSR_MARCHID \<equiv> 0xF12"
abbreviation (input) CSR_MIMPID :: u32 where "CSR_MIMPID \<equiv> 0xF13"
abbreviation (input) CSR_MHARTID :: u32 where "CSR_MHARTID \<equiv> 0xF14"
abbreviation (input) CSR_MCONFIGPTR :: u32 where "CSR_MCONFIGPTR \<equiv> 0xF15"
abbreviation (input) CSR_MSTATUS :: u32 where "CSR_MSTATUS \<equiv> 0x300"
abbreviation (input) CSR_MISA :: u32 where "CSR_MISA \<equiv> 0x301"
abbreviation (input) CSR_MIE :: u32 where "CSR_MIE \<equiv> 0x304"
abbreviation (input) CSR_MTVEC :: u32 where "CSR_MTVEC \<equiv> 0x305"
abbreviation (input) CSR_MCOUNTEREN :: u32 where "CSR_MCOUNTEREN \<equiv> 0x306"
abbreviation (input) CSR_MSTATUSH :: u32 where "CSR_MSTATUSH \<equiv> 0x310"
abbreviation (input) CSR_MSCRATCH :: u32 where "CSR_MSCRATCH \<equiv> 0x340"
abbreviation (input) CSR_MEPC :: u32 where "CSR_MEPC \<equiv> 0x341"
abbreviation (input) CSR_MCAUSE :: u32 where "CSR_MCAUSE \<equiv> 0x342"
abbreviation (input) CSR_MTVAL :: u32 where "CSR_MTVAL \<equiv> 0x343"
abbreviation (input) CSR_MIP :: u32 where "CSR_MIP \<equiv> 0x344"
abbreviation (input) CSR_CHARFIFO :: u32 where "CSR_CHARFIFO \<equiv> 0x800"
abbreviation (input) CSR_FINISH :: u32 where "CSR_FINISH \<equiv> 0x804"
abbreviation (input) CSR_MCYCLE :: u32 where "CSR_MCYCLE \<equiv> 0xB00"
abbreviation (input) CSR_MINSTRET :: u32 where "CSR_MINSTRET \<equiv> 0xB02"
abbreviation (input) CSR_MCYCLEH :: u32 where "CSR_MCYCLEH \<equiv> 0xB80"
abbreviation (input) CSR_MINSTRETH :: u32 where "CSR_MINSTRETH \<equiv> 0xB82"
abbreviation (input) CSR_BRANCHNUM :: u32 where "CSR_BRANCHNUM \<equiv> 0xB03"
abbreviation (input) CSR_BRANCHNUMH :: u32 where "CSR_BRANCHNUMH \<equiv> 0xB83"
abbreviation (input) CSR_BRANCHPREDICTED :: u32 where "CSR_BRANCHPREDICTED \<equiv> 0xB04"
abbreviation (input) CSR_BRANCHPREDICTEDH :: u32 where "CSR_BRANCHPREDICTEDH \<equiv> 0xB84"
abbreviation (input) CSR_BRANCHHIT :: u32 where "CSR_BRANCHHIT \<equiv> 0xB05"
abbreviation (input) CSR_BRANCHHITH :: u32 where "CSR_BRANCHHITH \<equiv> 0xB85"
abbreviation (input) CSR_BRANCHMISS :: u32 where "CSR_BRANCHMISS \<equiv> 0xB06"
abbreviation (input) CSR_BRANCHMISSH :: u32 where "CSR_BRANCHMISSH \<equiv> 0xB86"
abbreviation (input) CSR_FD :: u32 where "CSR_FD \<equiv> 0xB07"
abbreviation (input) CSR_FDH :: u32 where "CSR_FDH \<equiv> 0xB87"
abbreviation (input) CSR_DR :: u32 where "CSR_DR \<equiv> 0xB08"
abbreviation (input) CSR_DRH :: u32 where "CSR_DRH \<equiv> 0xB88"
abbreviation (input) CSR_IQ :: u32 where "CSR_IQ \<equiv> 0xB09"
abbreviation (input) CSR_IQH :: u32 where "CSR_IQH \<equiv> 0xB89"
abbreviation (input) CSR_IE :: u32 where "CSR_IE \<equiv> 0xB0A"
abbreviation (input) CSR_IEH :: u32 where "CSR_IEH \<equiv> 0xB8A"
abbreviation (input) CSR_CB :: u32 where "CSR_CB \<equiv> 0xB0B"
abbreviation (input) CSR_CBH :: u32 where "CSR_CBH \<equiv> 0xB8B"
abbreviation (input) CSR_ROB :: u32 where "CSR_ROB \<equiv> 0xB0C"
abbreviation (input) CSR_ROBH :: u32 where "CSR_ROBH \<equiv> 0xB8C"
abbreviation (input) CSR_PHY :: u32 where "CSR_PHY \<equiv> 0xB0D"
abbreviation (input) CSR_PHYH :: u32 where "CSR_PHYH \<equiv> 0xB8D"
abbreviation (input) CSR_RAS :: u32 where "CSR_RAS \<equiv> 0xB0E"
abbreviation (input) CSR_RASH :: u32 where "CSR_RASH \<equiv> 0xB8E"
abbreviation (input) CSR_FNF :: u32 where "CSR_FNF \<equiv> 0xB0F"
abbreviation (input) CSR_FNFH :: u32 where "CSR_FNFH \<equiv> 0xB8F"

subsection \<open>The register file\<close>

record csr_item_t =
  csr_readonly :: bool
  csr_reg :: csr_base

datatype csr_request = Csr_write u32 u32 | Csr_write_sys u32 u32

record csrfile =
  csr_sync_request_q :: "csr_request list"
  csr_map_table :: "u32 \<rightharpoonup> csr_item_t"
  csr_chars :: charqueues

definition csrfile_new :: "charqueues \<Rightarrow> csrfile" where
  "csrfile_new cq = \<lparr> csr_sync_request_q = [], csr_map_table = Map.empty, csr_chars = cq \<rparr>"

definition csrfile_reset :: "csrfile \<Rightarrow> csrfile" where
  "csrfile_reset f =
     f \<lparr> csr_map_table := (\<lambda>a. map_option (\<lambda>t. t \<lparr> csr_reg := csr_reset (csr_reg t) \<rparr>) (csr_map_table f a)),
         csr_sync_request_q := [] \<rparr>"

definition csrfile_map :: "u32 \<Rightarrow> bool \<Rightarrow> csr_base \<Rightarrow> csrfile \<Rightarrow> csrfile option" where
  "csrfile_map addr readonly c f = do {
     assert_that (csr_map_table f addr = None);
     Some (f \<lparr> csr_map_table := (csr_map_table f)(addr \<mapsto> \<lparr> csr_readonly = readonly, csr_reg = c \<rparr>) \<rparr>) }"

text \<open>Writing the register at a mapped address.\<close>

definition csr_store :: "u32 \<Rightarrow> u32 \<Rightarrow> csr_item_t \<Rightarrow> csrfile \<Rightarrow> csrfile option" where
  "csr_store addr v t f = do {
     (c, cq) \<leftarrow> csr_write v (csr_reg t, csr_chars f);
     Some (f \<lparr> csr_map_table := (csr_map_table f)(addr \<mapsto> t \<lparr> csr_reg := c \<rparr>), csr_chars := cq \<rparr>) }"

definition csrfile_write_sys :: "u32 \<Rightarrow> u32 \<Rightarrow> csrfile \<Rightarrow> csrfile option" where
  "csrfile_write_sys addr v f =
     (case csr_map_table f addr of
        None \<Rightarrow> None
      | Some t \<Rightarrow> csr_store addr v t f)"

definition csrfile_write_sys_sync :: "u32 \<Rightarrow> u32 \<Rightarrow> csrfile \<Rightarrow> csrfile" where
  "csrfile_write_sys_sync addr v f =
     f \<lparr> csr_sync_request_q := csr_sync_request_q f @ [Csr_write_sys addr v] \<rparr>"

definition csrfile_read_sys :: "csrfile \<Rightarrow> u32 \<Rightarrow> u32 option" where
  "csrfile_read_sys f addr =
     (case csr_map_table f addr of
        None \<Rightarrow> None
      | Some t \<Rightarrow> Some (csr_read (csr_reg t) (csr_chars f)))"

definition csrfile_write_check :: "csrfile \<Rightarrow> u32 \<Rightarrow> u32 \<Rightarrow> bool" where
  "csrfile_write_check f addr v =
     (case csr_map_table f addr of
        None \<Rightarrow> False
      | Some t \<Rightarrow> \<not> csr_readonly t)"

definition csrfile_write :: "u32 \<Rightarrow> u32 \<Rightarrow> csrfile \<Rightarrow> (bool \<times> csrfile) option" where
  "csrfile_write addr v f =
     (if \<not> csrfile_write_check f addr v then Some (False, f)
      else case csr_map_table f addr of
        None \<Rightarrow> None
      | Some t \<Rightarrow> do { g \<leftarrow> csr_store addr v t f; Some (True, g) })"

definition csrfile_write_sync :: "u32 \<Rightarrow> u32 \<Rightarrow> csrfile \<Rightarrow> csrfile" where
  "csrfile_write_sync addr v f =
     f \<lparr> csr_sync_request_q := csr_sync_request_q f @ [Csr_write addr v] \<rparr>"

definition csrfile_read :: "csrfile \<Rightarrow> u32 \<Rightarrow> u32 option" where
  "csrfile_read f addr =
     (case csr_map_table f addr of
        None \<Rightarrow> None
      | Some t \<Rightarrow> Some (csr_read (csr_reg t) (csr_chars f)))"

fun csrfile_handle :: "csr_request \<Rightarrow> csrfile \<Rightarrow> csrfile option" where
  "csrfile_handle (Csr_write addr v) f = do {
     (ok, g) \<leftarrow> csrfile_write addr v f;
     assert_that ok;
     Some g }"
| "csrfile_handle (Csr_write_sys addr v) f = csrfile_write_sys addr v f"

definition csrfile_sync :: "csrfile \<Rightarrow> csrfile option" where
  "csrfile_sync f = drain csrfile_handle (csr_sync_request_q f) (f \<lparr> csr_sync_request_q := [] \<rparr>)"

subsection \<open>The table of the core\<close>

text \<open>The \<open>csr_file.map\<close> calls of \<open>init\<close> in \<open>main.cpp\<close>, in order.\<close>

definition csr_map_list :: "(u32 \<times> bool \<times> csr_base) list" where
  "csr_map_list =
     [(CSR_MVENDORID, True, mvendorid_new),
      (CSR_MARCHID, True, marchid_new),
      (CSR_MIMPID, True, mimpid_new),
      (CSR_MHARTID, True, mhartid_new),
      (CSR_MCONFIGPTR, True, mconfigptr_new),
      (CSR_MSTATUS, False, mstatus_new),
      (CSR_MISA, False, misa_new),
      (CSR_MIE, False, mie_new),
      (CSR_MTVEC, False, mtvec_new),
      (CSR_MCOUNTEREN, False, mcounteren_new),
      (CSR_MSTATUSH, False, mstatush_new),
      (CSR_MSCRATCH, False, mscratch_new),
      (CSR_MEPC, False, mepc_new),
      (CSR_MCAUSE, False, mcause_new),
      (CSR_MTVAL, False, mtval_new),
      (CSR_MIP, False, mip_new),
      (CSR_CHARFIFO, False, charfifo_new),
      (CSR_FINISH, False, finish_new),
      (CSR_MCYCLE, False, mcycle_new),
      (CSR_MINSTRET, False, minstret_new),
      (CSR_MCYCLEH, False, mcycleh_new),
      (CSR_MINSTRETH, False, minstreth_new),
      (CSR_BRANCHNUM, True, mhpmcounter_new),
      (CSR_BRANCHNUMH, True, mhpmcounterh_new),
      (CSR_BRANCHPREDICTED, True, mhpmcounter_new),
      (CSR_BRANCHPREDICTEDH, True, mhpmcounterh_new),
      (CSR_BRANCHHIT, True, mhpmcounter_new),
      (CSR_BRANCHHITH, True, mhpmcounterh_new),
      (CSR_BRANCHMISS, True, mhpmcounter_new),
      (CSR_BRANCHMISSH, True, mhpmcounterh_new),
      (CSR_FD, True, mhpmcounter_new),
      (CSR_FDH, True, mhpmcounterh_new),
      (CSR_DR, True, mhpmcounter_new),
      (CSR_DRH, True, mhpmcounterh_new),
      (CSR_IQ, True, mhpmcounter_new),
      (CSR_IQH, True, mhpmcounterh_new),
      (CSR_IE, True, mhpmcounter_new),
      (CSR_IEH, True, mhpmcounterh_new),
      (CSR_CB, True, mhpmcounter_new),
      (CSR_CBH, True, mhpmcounterh_new),
      (CSR_ROB, True, mhpmcounter_new),
      (CSR_ROBH, True, mhpmcounterh_new),
      (CSR_PHY, True, mhpmcounter_new),
      (CSR_PHYH, True, mhpmcounterh_new),
      (CSR_RAS, True, mhpmcounter_new),
      (CSR_RASH, True, mhpmcounterh_new),
      (CSR_FNF, True, mhpmcounterh_new),
      (CSR_FNFH, True, mhpmcounterh_new)] @
     map (\<lambda>i. (0x3A0 + of_nat i, False, pmpcfg_new)) [0..<16] @
     map (\<lambda>i. (0x3B0 + of_nat i, False, pmpaddr_new)) [0..<64]"

definition csrfile_init :: "csrfile \<Rightarrow> csrfile option" where
  "csrfile_init f = drain (\<lambda>(addr, readonly, c). csrfile_map addr readonly c) csr_map_list f"

subsection \<open>Bits and filters\<close>

lemma csr_getbit_bit: "csr_getbit n c \<longleftrightarrow> bit (csr_value c) n"
  unfolding csr_getbit_def by (rule and_single_bit)

lemma csr_filter_idem: "csr_filter c (csr_filter c v) = csr_filter c v"
  by (cases c)
    (simp_all add: mcounteren_filter_def mepc_filter_def mie_filter_def mip_filter_def mstatus_filter_def
      mstatush_filter_def mtvec_filter_def pmpaddr_filter_def pmpcfg_filter_def and.assoc)

lemma setbit_word_bit:
  "n < 32 \<Longrightarrow> k < 32 \<Longrightarrow>
    bit ((v AND NOT (push_bit n 1)) OR push_bit n (if b then 1 else 0) :: u32) k =
      (if k = n then b else bit v k)"
  by (auto simp: bit_simps)

text \<open>Setting one bit of a register whose filter is a mask containing that bit.\<close>

lemma csr_setbit_mask:
  assumes "csr_filter (csr_class c) = (\<lambda>v. v AND m)" "bit m n" "n < 32" "csr_value c AND m = csr_value c" "k < 32"
  shows "csr_getbit k (csr_setbit n b c) = (if k = n then b else csr_getbit k c)"
proof -
  have v: "bit (csr_value c) k \<Longrightarrow> bit m k" using assms(4) by (metis bit_and_iff)
  have "csr_value (csr_setbit n b c) = ((csr_value c AND NOT (push_bit n 1)) OR push_bit n (if b then 1 else 0)) AND m"
    using assms(1) by (simp add: csr_setbit_def)
  then show ?thesis using assms setbit_word_bit [of n k "csr_value c" b] v
    by (simp add: csr_getbit_bit bit_and_iff) auto
qed

subsection \<open>Reads after writes\<close>

lemma csr_store_plain:
  assumes "csr_class (csr_reg t) \<noteq> Charfifo"
  shows "csr_store addr v t f = Some (f \<lparr> csr_map_table := (csr_map_table f)(addr \<mapsto>
      t \<lparr> csr_reg := (csr_reg t) \<lparr> csr_value := csr_filter (csr_class (csr_reg t)) v \<rparr> \<rparr>) \<rparr>)"
  using assms by (simp add: csr_store_def csr_write_def)

lemma map_list_fold:
  assumes "distinct (map fst xs)" "\<And>a. a \<in> fst ` set xs \<Longrightarrow> csr_map_table f a = None"
  shows "\<exists>g. drain (\<lambda>(addr, readonly, c). csrfile_map addr readonly c) xs f = Some g \<and>
    csr_chars g = csr_chars f \<and> csr_sync_request_q g = csr_sync_request_q f \<and>
    (\<forall>a. csr_map_table g a = (case map_of xs a of
        Some (ro, c) \<Rightarrow> Some \<lparr> csr_readonly = ro, csr_reg = c \<rparr> | None \<Rightarrow> csr_map_table f a))"
  using assms
proof (induction xs arbitrary: f)
  case (Cons x xs)
  obtain a ro c where x: "x = (a, ro, c)" by (cases x) auto
  let ?f = "f \<lparr> csr_map_table := (csr_map_table f)(a \<mapsto> \<lparr> csr_readonly = ro, csr_reg = c \<rparr>) \<rparr>"
  have a: "a \<notin> fst ` set xs" and step: "csrfile_map a ro c f = Some ?f"
    using Cons.prems x by (simp_all add: csrfile_map_def)
  have "distinct (map fst xs)" "\<And>b. b \<in> fst ` set xs \<Longrightarrow> csr_map_table ?f b = None"
    using Cons.prems a x by auto
  from Cons.IH [OF this] obtain g where
    g: "drain (\<lambda>(addr, readonly, c). csrfile_map addr readonly c) xs ?f = Some g" "csr_chars g = csr_chars f"
      "csr_sync_request_q g = csr_sync_request_q f"
      "\<And>b. csr_map_table g b = (case map_of xs b of
        Some (ro, c) \<Rightarrow> Some \<lparr> csr_readonly = ro, csr_reg = c \<rparr> | None \<Rightarrow> csr_map_table ?f b)"
    by auto
  have "map_of xs a = None" using a by (simp add: map_of_eq_None_iff)
  then have "csr_map_table g b = (case map_of (x # xs) b of
      Some (ro, c) \<Rightarrow> Some \<lparr> csr_readonly = ro, csr_reg = c \<rparr> | None \<Rightarrow> csr_map_table f b)" for b
    using g(4) [of b] x by (auto split: option.splits)
  with g(1-3) step x show ?case by auto
qed simp

lemma unat_block: "b + n \<le> 2 ^ 32 \<Longrightarrow> i < n \<Longrightarrow> unat (of_nat b + of_nat i :: u32) = b + i"
  by (simp add: unat_of_nat flip: of_nat_add)

lemma map_unat_block:
  "b + n \<le> 2 ^ 32 \<Longrightarrow> map (\<lambda>i. unat (of_nat b + of_nat i :: u32)) [0..<n] = [b..<b + n]"
  by (intro nth_equalityI) (simp_all add: unat_block)

lemma csr_map_list_distinct: "distinct (map fst csr_map_list)"
proof -
  have cfg: "map unat (map fst (map (\<lambda>i. (0x3A0 + of_nat i :: u32, False, pmpcfg_new)) [0..<16])) = [0x3A0..<0x3B0]"
    using map_unat_block [of "0x3A0" 16] by (simp add: comp_def)
  have adr: "map unat (map fst (map (\<lambda>i. (0x3B0 + of_nat i :: u32, False, pmpaddr_new)) [0..<64])) = [0x3B0..<0x3F0]"
    using map_unat_block [of "0x3B0" 64] by (simp add: comp_def)
  have "distinct (map unat (map fst csr_map_list))"
    unfolding csr_map_list_def map_append cfg adr by simp
  then show ?thesis by (simp only: distinct_map)
qed

subsection \<open>Properties\<close>

text \<open>C29: A software write through \<open>csrfile::write\<close> to an unmapped or read-only address reports failure
  and changes nothing. To any other register but the character register it succeeds, the register reads back as the written value
  through its class's filter, and every other register keeps its value. A write to the character register takes a received character
  when bit 31 is set and else sends the low byte; while there is none, or no room, it waits for the console and so does not return.
  What it reads next is the front of the receive queue, not what was written, and all registers of the other classes keep their values.\<close>

theorem csrfile_write_read:
  "case csr_map_table f addr of
      None \<Rightarrow> csrfile_write addr v f = Some (False, f)
    | Some t \<Rightarrow>
        if csr_readonly t then csrfile_write addr v f = Some (False, f)
        else if csr_class (csr_reg t) \<noteq> Charfifo then
          \<exists>g. csrfile_write addr v f = Some (True, g) \<and>
            csrfile_read g addr = Some (csr_filter (csr_class (csr_reg t)) v) \<and> csr_chars g = csr_chars f \<and>
            (\<forall>a. a \<noteq> addr \<longrightarrow> csrfile_read g a = csrfile_read f a)
        else if bit v 31 \<and> rev_fifo (csr_chars f) = [] \<or> \<not> bit v 31 \<and> 1024 \<le> length (send_fifo (csr_chars f))
        then csrfile_write addr v f = None
        else \<exists>g. csrfile_write addr v f = Some (True, g) \<and>
          csr_chars g = (if bit v 31 then (csr_chars f) \<lparr> rev_fifo := tl (rev_fifo (csr_chars f)) \<rparr>
            else (csr_chars f) \<lparr> send_fifo := send_fifo (csr_chars f) @ [ucast v] \<rparr>) \<and>
          csrfile_read g addr = Some (case rev_fifo (csr_chars g) of [] \<Rightarrow> 0 | ch # cs \<Rightarrow> 0x80000000 OR scast ch) \<and>
          (\<forall>a t1. csr_map_table f a = Some t1 \<and> csr_class (csr_reg t1) \<noteq> Charfifo \<longrightarrow> csrfile_read g a = csrfile_read f a)"
proof (cases "csr_map_table f addr")
  case None
  then show ?thesis by (simp add: csrfile_write_def csrfile_write_check_def)
next
  case (Some t)
  show ?thesis
  proof (cases "csr_readonly t \<or> csr_class (csr_reg t) \<noteq> Charfifo")
    case True
    with Some show ?thesis
      by (auto simp: csrfile_write_def csrfile_write_check_def csr_store_plain csrfile_read_def csr_read_def split: option.splits)
  next
    case False
    have bit: "v AND 0x80000000 = 0 \<longleftrightarrow> \<not> bit v 31" using and_single_bit [of v 31] by auto
    have low: "ucast (v AND 0xff) = (ucast v :: u8)" by (intro bit_word_eqI) (auto simp: bit_simps bit_numeral_rec less_Suc_eq eval_nat_numeral)
    from Some False bit low show ?thesis
      by (auto simp: csrfile_write_def csrfile_write_check_def csr_store_def csr_write_def charfifo_filter_def charfifo_capacity_def
        csrfile_read_def csr_read_def charfifo_read_def split: list.splits)
  qed
qed

theorem csrfile_write_read_witness:
  "\<exists>g. csrfile_write CSR_MIE 0xFFF (the (csrfile_map CSR_MIE False mie_new
      (csrfile_new \<lparr> send_fifo = [], rev_fifo = [] \<rparr>))) = Some (True, g) \<and>
    csrfile_read g CSR_MIE = Some 0x888"
  using csrfile_write_read [where addr = CSR_MIE and v = "0xFFF" and f = "the (csrfile_map CSR_MIE False mie_new
      (csrfile_new \<lparr> send_fifo = [], rev_fifo = [] \<rparr>))"]
  by (auto simp: csrfile_map_def csrfile_new_def mie_new_def csr_base_new_def mie_filter_def)

end
