(* ===== verification/Interrupt.thy ===== *)
theory Interrupt
  imports Csr
begin

text \<open>
  \<open>component/interrupt_interface.h\<close>: pending and acknowledge lines of the three machine interrupts and
  the choice of the one to take. The register file is a pointer in the source; here the calls that read
  or write it take it as an argument.
\<close>

datatype intif_request = Set_ack riscv_interrupt_t

record interrupt_interface =
  intif_sync_request_q :: "intif_request list"
  meip :: bool
  msip :: bool
  mtip :: bool
  mei_ack :: bool
  msi_ack :: bool
  mti_ack :: bool

definition intif_new :: interrupt_interface where
  "intif_new = \<lparr> intif_sync_request_q = [], meip = False, msip = False, mtip = False,
     mei_ack = False, msi_ack = False, mti_ack = False \<rparr>"

definition intif_reset :: "interrupt_interface \<Rightarrow> interrupt_interface" where
  "intif_reset i = i \<lparr> mei_ack := False, msi_ack := False, mti_ack := False \<rparr>"

text \<open>The outer option is the abort of \<open>read_sys\<close> on an unmapped register, the inner one the result.\<close>

definition intif_get_cause :: "csrfile \<Rightarrow> interrupt_interface \<Rightarrow> riscv_interrupt_t option option" where
  "intif_get_cause f i = do {
     mie_v \<leftarrow> csrfile_read_sys f CSR_MIE;
     mstatus_v \<leftarrow> csrfile_read_sys f CSR_MSTATUS;
     let mie = csr_load mie_v mie_new;
     let mstatus = csr_load mstatus_v mstatus_new;
     Some (if \<not> mstatus_get_mie mstatus then None
           else if meip i \<and> mie_get_meie mie then Some machine_external
           else if msip i \<and> mie_get_msie mie then Some machine_software
           else if mtip i \<and> mie_get_mtie mie then Some machine_timer
           else None) }"

definition intif_has_interrupt :: "csrfile \<Rightarrow> interrupt_interface \<Rightarrow> bool option" where
  "intif_has_interrupt f i = do {
     mie_v \<leftarrow> csrfile_read_sys f CSR_MIE;
     mstatus_v \<leftarrow> csrfile_read_sys f CSR_MSTATUS;
     let mie = csr_load mie_v mie_new;
     let mstatus = csr_load mstatus_v mstatus_new;
     Some (mstatus_get_mie mstatus \<and>
       (meip i \<and> mie_get_meie mie \<or> msip i \<and> mie_get_msie mie \<or> mtip i \<and> mie_get_mtie mie)) }"

definition intif_set_pending :: "riscv_interrupt_t \<Rightarrow> bool \<Rightarrow> interrupt_interface \<Rightarrow> interrupt_interface" where
  "intif_set_pending cause pending i =
     (case cause of
        machine_external \<Rightarrow> i \<lparr> meip := pending \<rparr>
      | machine_software \<Rightarrow> i \<lparr> msip := pending \<rparr>
      | machine_timer \<Rightarrow> i \<lparr> mtip := pending \<rparr>
      | _ \<Rightarrow> i)"

definition intif_set_ack :: "riscv_interrupt_t \<Rightarrow> interrupt_interface \<Rightarrow> interrupt_interface" where
  "intif_set_ack cause i =
     (case cause of
        machine_external \<Rightarrow> i \<lparr> mei_ack := True \<rparr>
      | machine_software \<Rightarrow> i \<lparr> msi_ack := True \<rparr>
      | machine_timer \<Rightarrow> i \<lparr> mti_ack := True \<rparr>
      | _ \<Rightarrow> i)"

definition intif_set_ack_sync :: "riscv_interrupt_t \<Rightarrow> interrupt_interface \<Rightarrow> interrupt_interface" where
  "intif_set_ack_sync cause i =
     i \<lparr> intif_sync_request_q := intif_sync_request_q i @ [Set_ack cause] \<rparr>"

definition intif_get_ack :: "interrupt_interface \<Rightarrow> riscv_interrupt_t \<Rightarrow> bool" where
  "intif_get_ack i cause =
     (case cause of
        machine_external \<Rightarrow> mei_ack i
      | machine_software \<Rightarrow> msi_ack i
      | machine_timer \<Rightarrow> mti_ack i
      | _ \<Rightarrow> False)"

definition intif_run :: "csrfile \<times> interrupt_interface \<Rightarrow> (csrfile \<times> interrupt_interface) option" where
  "intif_run = (\<lambda>(f, i). do {
     let i1 = i \<lparr> mei_ack := False, msi_ack := False, mti_ack := False \<rparr>;
     mip_v \<leftarrow> csrfile_read_sys f CSR_MIP;
     let mip = csr_load mip_v mip_new;
     let mip1 = mip_set_mtip (mtip i1) (mip_set_msip (msip i1) (mip_set_meip (meip i1) mip));
     Some (csrfile_write_sys_sync CSR_MIP (csr_get_value mip1) f, i1) })"

fun intif_handle :: "intif_request \<Rightarrow> interrupt_interface \<Rightarrow> interrupt_interface option" where
  "intif_handle (Set_ack cause) i = Some (intif_set_ack cause i)"

definition intif_sync :: "interrupt_interface \<Rightarrow> interrupt_interface option" where
  "intif_sync i = drain intif_handle (intif_sync_request_q i) (i \<lparr> intif_sync_request_q := [] \<rparr>)"

subsection \<open>Facts\<close>

lemmas mie_bits = mie_get_meie_def mie_get_msie_def mie_get_mtie_def mstatus_get_mie_def csr_getbit_bit
  csr_load_def mie_new_def mstatus_new_def csr_base_new_def

text \<open>An interrupt line by its number, with the enable bit of the same number.\<close>

fun pending :: "interrupt_interface \<Rightarrow> riscv_interrupt_t \<Rightarrow> bool" where
  "pending i machine_external = meip i"
| "pending i machine_software = msip i"
| "pending i machine_timer = mtip i"
| "pending i _ = False"

definition enabled :: "u32 \<Rightarrow> u32 \<Rightarrow> riscv_interrupt_t \<Rightarrow> bool" where
  "enabled mstatus_v mie_v c \<longleftrightarrow> bit mstatus_v 3 \<and> bit mie_v (unat (interrupt_code c))"

fun priority :: "riscv_interrupt_t \<Rightarrow> nat" where
  "priority machine_external = 3"
| "priority machine_software = 2"
| "priority machine_timer = 1"
| "priority _ = 0"

lemma pending_cases:
  "pending i d \<longleftrightarrow> d = machine_external \<and> meip i \<or> d = machine_software \<and> msip i \<or> d = machine_timer \<and> mtip i"
  by (cases d) simp_all

subsection \<open>Properties\<close>

text \<open>C31: \<open>has_interrupt\<close> holds exactly when \<open>get_cause\<close> returns a cause, and the cause returned is a
  pending interrupt whose bit in \<open>mie\<close> is set under \<open>mstatus.MIE\<close>, the one of highest priority (external,
  then software, then timer) among those.\<close>

theorem intif_cause_highest_priority:
  assumes "csrfile_read_sys f CSR_MIE = Some mie_v" "csrfile_read_sys f CSR_MSTATUS = Some mstatus_v"
  shows "\<exists>c. intif_get_cause f i = Some c \<and> intif_has_interrupt f i = Some (c \<noteq> None) \<and>
    (case c of
       None \<Rightarrow> \<forall>d. \<not> (pending i d \<and> enabled mstatus_v mie_v d)
     | Some k \<Rightarrow> pending i k \<and> enabled mstatus_v mie_v k \<and>
         (\<forall>d. pending i d \<and> enabled mstatus_v mie_v d \<longrightarrow> priority d \<le> priority k))"
  using assms
  by (auto simp: intif_get_cause_def intif_has_interrupt_def Let_def mie_bits enabled_def pending_cases)

theorem intif_cause_highest_priority_witness:
  "let f = the (csrfile_map CSR_MSTATUS False (csr_load 8 mstatus_new)
             (the (csrfile_map CSR_MIE False (csr_load 0x88 mie_new)
               (csrfile_new \<lparr> send_fifo = [], rev_fifo = [] \<rparr>))));
       i = intif_new \<lparr> meip := True, msip := True, mtip := True \<rparr>
   in intif_has_interrupt f i = Some True \<and> intif_get_cause f i = Some (Some machine_software)"
proof -
  let ?f = "the (csrfile_map CSR_MSTATUS False (csr_load 8 mstatus_new)
             (the (csrfile_map CSR_MIE False (csr_load 0x88 mie_new)
               (csrfile_new \<lparr> send_fifo = [], rev_fifo = [] \<rparr>))))"
  let ?i = "intif_new \<lparr> meip := True, msip := True, mtip := True \<rparr>"
  have r: "csrfile_read_sys ?f CSR_MIE = Some 0x88" "csrfile_read_sys ?f CSR_MSTATUS = Some 8"
    by (simp_all add: csrfile_read_sys_def csrfile_map_def csrfile_new_def
      csr_load_def csr_read_def mie_new_def mstatus_new_def csr_base_new_def)
  have "intif_get_cause ?f ?i = Some (Some machine_software)"
    unfolding intif_get_cause_def r by (simp add: Let_def mie_bits intif_new_def)
  with intif_cause_highest_priority [OF r, of ?i] show ?thesis by (simp add: Let_def)
qed

text \<open>Each cycle \<open>run\<close> queues a write of \<open>mip\<close> whose bits 11, 3 and 7 are the external, software and
  timer lines and whose other bits are zero, and clears the acknowledge lines.\<close>

theorem intif_run_updates_mip:
  assumes "csrfile_read_sys f CSR_MIP = Some v" "v AND 0x888 = v"
  shows "\<exists>w. intif_run (f, i) = Some (csrfile_write_sys_sync CSR_MIP w f,
      i \<lparr> mei_ack := False, msi_ack := False, mti_ack := False \<rparr>) \<and>
    (\<forall>k < 32. bit w k = (k = 11 \<and> meip i \<or> k = 3 \<and> msip i \<or> k = 7 \<and> mtip i))"
proof -
  define m0 where "m0 = csr_load v mip_new"
  define m1 where "m1 = mip_set_meip (meip i) m0"
  define m2 where "m2 = mip_set_msip (msip i) m1"
  define m3 where "m3 = mip_set_mtip (mtip i) m2"
  have run: "intif_run (f, i) = Some (csrfile_write_sys_sync CSR_MIP (csr_value m3) f,
      i \<lparr> mei_ack := False, msi_ack := False, mti_ack := False \<rparr>)"
    using assms(1) by (simp add: intif_run_def Let_def m0_def m1_def m2_def m3_def csr_get_value_def)
  have cls: "csr_class m0 = Mip" "csr_class m1 = Mip" "csr_class m2 = Mip"
    by (simp_all add: m0_def m1_def m2_def csr_load_def mip_new_def csr_base_new_def mip_set_meip_def
      mip_set_msip_def csr_setbit_def)
  have flt: "csr_filter Mip = (\<lambda>v. v AND 0x888)" by (simp add: fun_eq_iff mip_filter_def)
  have mask: "csr_value (csr_setbit n b c) AND 0x888 = csr_value (csr_setbit n b c)" if "csr_class c = Mip" for n b c
    using that by (simp add: csr_setbit_def flt and.assoc)
  have v0: "csr_value m0 AND 0x888 = csr_value m0" using assms(2) by (simp add: m0_def csr_load_def)
  have b888: "bit (0x888 :: u32) k = (k = 3 \<or> k = 7 \<or> k = 11)" if "k < 32" for k
  proof -
    have "\<forall>k \<in> set [0..<32]. bit (0x888 :: u32) k = (k = 3 \<or> k = 7 \<or> k = 11)" by code_simp
    with that show ?thesis by simp
  qed
  have b0: "bit (csr_value m0) k \<Longrightarrow> k = 3 \<or> k = 7 \<or> k = 11" if "k < 32" for k
    using v0 b888 [OF that] by (metis bit_and_iff)
  have "bit (csr_value m3) k = (k = 11 \<and> meip i \<or> k = 3 \<and> msip i \<or> k = 7 \<and> mtip i)" if k: "k < 32" for k
  proof -
    have s1: "csr_getbit k m1 = (if k = 11 then meip i else csr_getbit k m0)"
      unfolding m1_def mip_set_meip_def
      by (rule csr_setbit_mask [where m = "0x888"]) (use k cls flt v0 b888 [of 11] in simp_all)
    have s2: "csr_getbit k m2 = (if k = 3 then msip i else csr_getbit k m1)"
      unfolding m2_def mip_set_msip_def
      by (rule csr_setbit_mask [where m = "0x888"])
        (use k cls flt b888 [of 3] mask [OF cls(1)] in \<open>simp_all add: m1_def mip_set_meip_def\<close>)
    have s3: "csr_getbit k m3 = (if k = 7 then mtip i else csr_getbit k m2)"
      unfolding m3_def mip_set_mtip_def
      by (rule csr_setbit_mask [where m = "0x888"])
        (use k cls flt b888 [of 7] mask [OF cls(2)] in \<open>simp_all add: m2_def mip_set_msip_def\<close>)
    show ?thesis using s1 s2 s3 b0 [OF k] by (auto simp: csr_getbit_bit)
  qed
  with run show ?thesis by blast
qed

theorem intif_run_updates_mip_witness:
  "\<exists>w. intif_run (the (csrfile_map CSR_MIP False mip_new (csrfile_new \<lparr> send_fifo = [], rev_fifo = [] \<rparr>)),
        intif_new \<lparr> mtip := True \<rparr>) =
      Some (csrfile_write_sys_sync CSR_MIP w
        (the (csrfile_map CSR_MIP False mip_new (csrfile_new \<lparr> send_fifo = [], rev_fifo = [] \<rparr>))),
        intif_new \<lparr> mtip := True \<rparr>) \<and> bit w 7 \<and> \<not> bit w 3"
proof -
  let ?f = "the (csrfile_map CSR_MIP False mip_new (csrfile_new \<lparr> send_fifo = [], rev_fifo = [] \<rparr>))"
  have r: "csrfile_read_sys ?f CSR_MIP = Some 0" "(0 :: u32) AND 0x888 = 0"
    by (simp_all add: csrfile_read_sys_def csrfile_map_def csrfile_new_def csr_read_def mip_new_def csr_base_new_def)
  from intif_run_updates_mip [OF r, of "intif_new \<lparr> mtip := True \<rparr>"] show ?thesis
    by (auto simp: intif_new_def)
qed

end
