(* ===== verification/Slave.thy ===== *)
theory Slave
  imports Interrupt
begin

text \<open>
  \<open>component/slave_base.h\<close>, \<open>component/slave/memory.h\<close> and \<open>component/slave/clint.h\<close>: the devices on the bus.
  The base class checks alignment and bounds and then calls the virtual access of the device; a device
  is a constructor of \<open>device\<close> here. With \<open>test_mode\<close> off, as in the simulator, a failed check aborts.

  The memory accesses more than one byte through pointer casts; the model has the little-endian order of
  the hosts the simulator runs on.
\<close>

subsection \<open>Memory\<close>

definition memory_init :: "u32 \<Rightarrow> u8 list" where
  "memory_init sz = replicate (unat sz) 0"

definition memory_write8 :: "u32 \<Rightarrow> u8 \<Rightarrow> u8 list \<Rightarrow> u8 list" where
  "memory_write8 addr v mem = mem[unat addr := v]"

definition memory_write16 :: "u32 \<Rightarrow> u16 \<Rightarrow> u8 list \<Rightarrow> u8 list" where
  "memory_write16 addr v mem =
     mem[unat addr := ucast v, unat addr + 1 := ucast (drop_bit 8 v)]"

definition memory_write32 :: "u32 \<Rightarrow> u32 \<Rightarrow> u8 list \<Rightarrow> u8 list" where
  "memory_write32 addr v mem =
     mem[unat addr := ucast v, unat addr + 1 := ucast (drop_bit 8 v),
         unat addr + 2 := ucast (drop_bit 16 v), unat addr + 3 := ucast (drop_bit 24 v)]"

definition memory_read8 :: "u8 list \<Rightarrow> u32 \<Rightarrow> u8" where
  "memory_read8 mem addr = mem ! unat addr"

definition memory_read16 :: "u8 list \<Rightarrow> u32 \<Rightarrow> u16" where
  "memory_read16 mem addr =
     ucast (mem ! unat addr) OR push_bit 8 (ucast (mem ! (unat addr + 1)))"

definition memory_read32 :: "u8 list \<Rightarrow> u32 \<Rightarrow> u32" where
  "memory_read32 mem addr =
     ucast (mem ! unat addr) OR push_bit 8 (ucast (mem ! (unat addr + 1))) OR
     push_bit 16 (ucast (mem ! (unat addr + 2))) OR push_bit 24 (ucast (mem ! (unat addr + 3)))"

subsection \<open>Core local interruptor\<close>

record clint =
  clint_msip :: bool
  mtimecmp :: u64
  mtime :: u64

definition MSIP_ADDR :: u32 where "MSIP_ADDR = 0x0"
definition MTIMECMP_ADDR :: u32 where "MTIMECMP_ADDR = 0x4000"
definition MTIME_ADDR :: u32 where "MTIME_ADDR = 0xBFF8"

definition clint_new :: clint where
  "clint_new = \<lparr> clint_msip = False, mtimecmp = 0, mtime = 0 \<rparr>"

definition clint_reset :: "clint \<Rightarrow> clint" where
  "clint_reset c = c \<lparr> clint_msip := False, mtimecmp := 0, mtime := 0 \<rparr>"

definition clint_write8 :: "u32 \<Rightarrow> u8 \<Rightarrow> clint \<Rightarrow> clint" where
  "clint_write8 addr v c = c"

definition clint_write16 :: "u32 \<Rightarrow> u16 \<Rightarrow> clint \<Rightarrow> clint" where
  "clint_write16 addr v c = c"

definition clint_write32 :: "u32 \<Rightarrow> u32 \<Rightarrow> clint \<Rightarrow> clint" where
  "clint_write32 addr v c =
     (if addr = MSIP_ADDR then c \<lparr> clint_msip := (v AND 0x01 \<noteq> 0) \<rparr>
      else if addr = MTIMECMP_ADDR
        then c \<lparr> mtimecmp := (mtimecmp c AND 0xFFFFFFFF00000000) OR ucast v \<rparr>
      else if addr = MTIMECMP_ADDR + 4
        then c \<lparr> mtimecmp := (mtimecmp c AND 0xFFFFFFFF) OR push_bit 32 (ucast v) \<rparr>
      else if addr = MTIME_ADDR
        then c \<lparr> mtime := (mtime c AND 0xFFFFFFFF00000000) OR ucast v \<rparr>
      else if addr = MTIME_ADDR + 4
        then c \<lparr> mtime := (mtime c AND 0xFFFFFFFF) OR push_bit 32 (ucast v) \<rparr>
      else c)"

definition clint_read8 :: "clint \<Rightarrow> u32 \<Rightarrow> u8" where
  "clint_read8 c addr = 0"

definition clint_read16 :: "clint \<Rightarrow> u32 \<Rightarrow> u16" where
  "clint_read16 c addr = 0"

definition clint_read32 :: "clint \<Rightarrow> u32 \<Rightarrow> u32" where
  "clint_read32 c addr =
     (if addr = MSIP_ADDR then (if clint_msip c then 1 else 0)
      else if addr = MTIMECMP_ADDR then ucast (mtimecmp c AND 0xFFFFFFFF)
      else if addr = MTIMECMP_ADDR + 4 then ucast (drop_bit 32 (mtimecmp c))
      else if addr = MTIME_ADDR then ucast (mtime c AND 0xFFFFFFFF)
      else if addr = MTIME_ADDR + 4 then ucast (drop_bit 32 (mtime c))
      else 0)"

definition clint_run_pre :: "clint \<Rightarrow> interrupt_interface \<Rightarrow> interrupt_interface" where
  "clint_run_pre c i =
     intif_set_pending machine_software (clint_msip c)
       (intif_set_pending machine_timer (mtime c \<ge> mtimecmp c) i)"

definition clint_run_post :: "clint \<Rightarrow> clint" where
  "clint_run_post c = c \<lparr> mtime := mtime c + 1 \<rparr>"

subsection \<open>The base class\<close>

datatype device = Memory "u8 list" | Clint clint

record slave_base =
  slave_size :: u32
  test_mode :: bool
  has_error :: bool
  device :: device

definition slave_new :: "device \<Rightarrow> slave_base" where
  "slave_new d = \<lparr> slave_size = 0, test_mode = False, has_error = False, device = d \<rparr>"

definition slave_check :: "u32 \<Rightarrow> u32 \<Rightarrow> slave_base \<Rightarrow> (bool \<times> slave_base) option" where
  "slave_check addr access_size s =
     (if \<not> test_mode s then do {
        assert_that (addr AND (access_size - 1) = 0);
        assert_that (addr < slave_size s);
        assert_that (slave_size s - addr \<ge> access_size);
        Some (\<not> has_error s, s) }
      else
        let s1 = (if addr AND (access_size - 1) \<noteq> 0 then s \<lparr> has_error := True \<rparr>
                  else if \<not> (addr < slave_size s) then s \<lparr> has_error := True \<rparr>
                  else if \<not> (slave_size s - addr \<ge> access_size) then s \<lparr> has_error := True \<rparr>
                  else s)
        in Some (\<not> has_error s1, s1))"

text \<open>The virtual functions, by device.\<close>

fun device_init :: "u32 \<Rightarrow> device \<Rightarrow> device" where
  "device_init sz (Memory m) = Memory (memory_init sz)"
| "device_init sz (Clint c) = Clint c"

fun device_reset :: "device \<Rightarrow> device" where
  "device_reset (Memory m) = Memory m"
| "device_reset (Clint c) = Clint (clint_reset c)"

fun device_write8 :: "u32 \<Rightarrow> u8 \<Rightarrow> device \<Rightarrow> device" where
  "device_write8 a v (Memory m) = Memory (memory_write8 a v m)"
| "device_write8 a v (Clint c) = Clint (clint_write8 a v c)"

fun device_write16 :: "u32 \<Rightarrow> u16 \<Rightarrow> device \<Rightarrow> device" where
  "device_write16 a v (Memory m) = Memory (memory_write16 a v m)"
| "device_write16 a v (Clint c) = Clint (clint_write16 a v c)"

fun device_write32 :: "u32 \<Rightarrow> u32 \<Rightarrow> device \<Rightarrow> device" where
  "device_write32 a v (Memory m) = Memory (memory_write32 a v m)"
| "device_write32 a v (Clint c) = Clint (clint_write32 a v c)"

fun device_read8 :: "device \<Rightarrow> u32 \<Rightarrow> u8" where
  "device_read8 (Memory m) a = memory_read8 m a"
| "device_read8 (Clint c) a = clint_read8 c a"

fun device_read16 :: "device \<Rightarrow> u32 \<Rightarrow> u16" where
  "device_read16 (Memory m) a = memory_read16 m a"
| "device_read16 (Clint c) a = clint_read16 c a"

fun device_read32 :: "device \<Rightarrow> u32 \<Rightarrow> u32" where
  "device_read32 (Memory m) a = memory_read32 m a"
| "device_read32 (Clint c) a = clint_read32 c a"

definition slave_init :: "u32 \<Rightarrow> slave_base \<Rightarrow> slave_base" where
  "slave_init sz s = s \<lparr> slave_size := sz, device := device_init sz (device s) \<rparr>"

definition slave_reset :: "slave_base \<Rightarrow> slave_base" where
  "slave_reset s = s \<lparr> device := device_reset (device s) \<rparr>"

definition slave_check_align :: "slave_base \<Rightarrow> u32 \<Rightarrow> u32 \<Rightarrow> bool" where
  "slave_check_align s addr access_size \<longleftrightarrow> addr AND (access_size - 1) = 0"

definition slave_check_boundary :: "slave_base \<Rightarrow> u32 \<Rightarrow> u32 \<Rightarrow> bool" where
  "slave_check_boundary s addr access_size \<longleftrightarrow> addr < slave_size s \<and> slave_size s - addr \<ge> access_size"

definition slave_entry_test_mode :: "slave_base \<Rightarrow> slave_base" where
  "slave_entry_test_mode s = s \<lparr> test_mode := True, has_error := False \<rparr>"

definition slave_get_error :: "slave_base \<Rightarrow> bool" where
  "slave_get_error s = has_error s"

definition slave_clear_error :: "slave_base \<Rightarrow> slave_base" where
  "slave_clear_error s = s \<lparr> has_error := False \<rparr>"

definition slave_write8 :: "u32 \<Rightarrow> u8 \<Rightarrow> slave_base \<Rightarrow> slave_base option" where
  "slave_write8 addr v s = do {
     (ok, s1) \<leftarrow> slave_check addr 1 s;
     Some (if ok then s1 \<lparr> device := device_write8 addr v (device s1) \<rparr> else s1) }"

definition slave_write16 :: "u32 \<Rightarrow> u16 \<Rightarrow> slave_base \<Rightarrow> slave_base option" where
  "slave_write16 addr v s = do {
     (ok, s1) \<leftarrow> slave_check addr 2 s;
     Some (if ok then s1 \<lparr> device := device_write16 addr v (device s1) \<rparr> else s1) }"

definition slave_write32 :: "u32 \<Rightarrow> u32 \<Rightarrow> slave_base \<Rightarrow> slave_base option" where
  "slave_write32 addr v s = do {
     (ok, s1) \<leftarrow> slave_check addr 4 s;
     Some (if ok then s1 \<lparr> device := device_write32 addr v (device s1) \<rparr> else s1) }"

definition slave_read8 :: "u32 \<Rightarrow> slave_base \<Rightarrow> (u8 \<times> slave_base) option" where
  "slave_read8 addr s = do {
     (ok, s1) \<leftarrow> slave_check addr 1 s;
     Some (if ok then device_read8 (device s1) addr else 0, s1) }"

definition slave_read16 :: "u32 \<Rightarrow> slave_base \<Rightarrow> (u16 \<times> slave_base) option" where
  "slave_read16 addr s = do {
     (ok, s1) \<leftarrow> slave_check addr 2 s;
     Some (if ok then device_read16 (device s1) addr else 0, s1) }"

definition slave_read32 :: "u32 \<Rightarrow> slave_base \<Rightarrow> (u32 \<times> slave_base) option" where
  "slave_read32 addr s = do {
     (ok, s1) \<leftarrow> slave_check addr 4 s;
     Some (if ok then device_read32 (device s1) addr else 0, s1) }"

subsection \<open>Bytes of words\<close>

definition byte_of :: "'a :: len word \<Rightarrow> nat \<Rightarrow> u8" where
  "byte_of w k = ucast (drop_bit (8 * k) w)"

lemma byte_of_bit: "n < 8 \<Longrightarrow> bit (byte_of w k) n = bit w (8 * k + n)"
  by (auto simp: byte_of_def bit_simps dest: bit_imp_le_length)

lemma byte_high [simp]: "8 \<le> n \<Longrightarrow> bit (w :: u8) n = False"
  by (auto dest: bit_imp_le_length)

lemma word_eq_bytes:
  fixes v w :: "'a :: len word"
  assumes "\<And>k. 8 * k < LENGTH('a) \<Longrightarrow> byte_of v k = byte_of w k"
  shows "v = w"
proof (rule bit_word_eqI)
  fix n assume n: "n < LENGTH('a)"
  then have "8 * (n div 8) < LENGTH('a)" by (meson div_times_less_eq_dividend le_less_trans mult.commute order_le_less_trans times_div_less_eq_dividend)
  from assms [OF this] have "bit (byte_of v (n div 8)) (n mod 8) = bit (byte_of w (n div 8)) (n mod 8)" by simp
  then show "bit v n = bit w n" by (simp add: byte_of_bit)
qed

lemma byte_of_read8: "byte_of (memory_read8 m a) 0 = m ! unat a"
  by (simp add: byte_of_def memory_read8_def)

lemma byte_of_read16:
  "k < 2 \<Longrightarrow> byte_of (memory_read16 m a) k = m ! (unat a + k)"
proof -
  assume "k < 2"
  then consider "k = 0" | "k = 1" by linarith
  then show ?thesis
    by cases (auto intro!: bit_word_eqI simp: byte_of_bit memory_read16_def bit_simps)
qed

lemma byte_of_read32:
  "k < 4 \<Longrightarrow> byte_of (memory_read32 m a) k = m ! (unat a + k)"
proof -
  assume "k < 4"
  then consider "k = 0" | "k = 1" | "k = 2" | "k = 3" by linarith
  then show ?thesis
    by cases (auto intro!: bit_word_eqI simp: byte_of_bit memory_read32_def bit_simps)
qed

lemma write_bytes:
  "unat a < length m \<Longrightarrow> memory_write8 a v m = m[unat a := byte_of v 0]"
  "memory_write16 a w m = m[unat a := byte_of w 0, unat a + 1 := byte_of w 1]"
  "memory_write32 a x m = m[unat a := byte_of x 0, unat a + 1 := byte_of x 1, unat a + 2 := byte_of x 2,
     unat a + 3 := byte_of x 3]"
  by (simp_all add: memory_write8_def memory_write16_def memory_write32_def byte_of_def)

text \<open>A write of \<open>n\<close> bytes as a change of the byte function.\<close>

lemma memory_write32_nth:
  "unat a + 4 \<le> length m \<Longrightarrow> i < length m \<Longrightarrow> memory_write32 a v m ! i =
    (if unat a \<le> i \<and> i < unat a + 4 then byte_of v (i - unat a) else m ! i)"
  by (auto simp: write_bytes nth_list_update numeral_eq_Suc less_Suc_eq)

lemma memory_write16_nth:
  "unat a + 2 \<le> length m \<Longrightarrow> i < length m \<Longrightarrow> memory_write16 a v m ! i =
    (if unat a \<le> i \<and> i < unat a + 2 then byte_of v (i - unat a) else m ! i)"
  by (auto simp: write_bytes nth_list_update numeral_eq_Suc less_Suc_eq)

lemma memory_write8_nth:
  "unat a < length m \<Longrightarrow> i < length m \<Longrightarrow> memory_write8 a v m ! i =
    (if i = unat a then v else m ! i)"
  by (auto simp: memory_write8_def nth_list_update)

lemma memory_write_length [simp]:
  "length (memory_write8 a v m) = length m"
  "length (memory_write16 a w m) = length m"
  "length (memory_write32 a x m) = length m"
  by (simp_all add: memory_write8_def memory_write16_def memory_write32_def)

subsection \<open>Properties\<close>

text \<open>The 64-bit comparator and time of the CLINT are written and read as two 32-bit halves: a write
  of one half reads back, leaves the other half, and the two halves make up the register.\<close>

theorem clint_halves:
  "clint_read32 (clint_write32 MTIMECMP_ADDR lo (clint_write32 (MTIMECMP_ADDR + 4) hi c)) MTIMECMP_ADDR = lo \<and>
   clint_read32 (clint_write32 MTIMECMP_ADDR lo (clint_write32 (MTIMECMP_ADDR + 4) hi c)) (MTIMECMP_ADDR + 4) = hi \<and>
   mtimecmp (clint_write32 MTIMECMP_ADDR lo (clint_write32 (MTIMECMP_ADDR + 4) hi c)) =
     push_bit 32 (ucast hi) OR ucast lo \<and>
   mtime (clint_write32 MTIME_ADDR lo (clint_write32 (MTIME_ADDR + 4) hi c)) = push_bit 32 (ucast hi) OR ucast lo \<and>
   mtime (clint_write32 MTIMECMP_ADDR lo c) = mtime c \<and> mtimecmp (clint_write32 MTIME_ADDR lo c) = mtimecmp c"
proof -
  have low: "(0xFFFFFFFF :: u64) = mask 32" and high: "(0xFFFFFFFF00000000 :: u64) = NOT (mask 32)"
    by (simp_all add: mask_eq_exp_minus_1)
  have join: "(((x AND 0xFFFFFFFF) OR push_bit 32 (ucast hi)) AND 0xFFFFFFFF00000000) OR ucast lo =
      (push_bit 32 (ucast hi) OR ucast lo :: u64)" for x
    unfolding low high by (rule bit_word_eqI) (auto simp: bit_simps)
  have lo: "ucast ((push_bit 32 (ucast hi) OR ucast lo :: u64) AND 0xFFFFFFFF) = lo"
    unfolding low by (rule bit_word_eqI) (auto simp: bit_simps)
  have hi: "ucast (drop_bit 32 (push_bit 32 (ucast hi) :: u64) OR drop_bit 32 (ucast lo)) = hi"
    by (rule bit_word_eqI) (auto simp: bit_simps dest: bit_imp_le_length)
  show ?thesis
    by (simp add: clint_write32_def clint_read32_def MSIP_ADDR_def MTIMECMP_ADDR_def MTIME_ADDR_def join lo hi)
qed

text \<open>The timer interrupt line follows the comparison of time and comparator and the software line
  the \<open>msip\<close> bit; the external line is left alone.\<close>

theorem clint_run_pre_lines:
  "mtip (clint_run_pre c i) = (unat (mtimecmp c) \<le> unat (mtime c)) \<and> msip (clint_run_pre c i) = clint_msip c \<and>
   meip (clint_run_pre c i) = meip i"
  by (simp add: clint_run_pre_def intif_set_pending_def word_le_nat_alt)

end
