(* ===== verification/Bus.thy ===== *)
theory Bus
  imports Slave
begin

text \<open>
  \<open>component/bus.h\<close>: the address map of the core. An access goes to the first slave whose region holds
  the address, at the offset from the region's base; an access outside every region reads zero or is
  dropped. Stores reach the bus through the request queue and take effect at \<open>sync\<close>.

  \<open>bus_view\<close> is the byte seen at an address in the memory regions. The access lemmas say that a write of
  1, 2 or 4 bytes changes these bytes of the view and no others, and that a read returns them in
  little-endian order.
\<close>

subsection \<open>The class\<close>

record slave_info_t =
  slv_base :: u32
  slv_size :: u32
  slv :: slave_base

datatype bus_request = Bus_write8 u32 u8 | Bus_write16 u32 u16 | Bus_write32 u32 u32

record bus =
  bus_sync_request_q :: "bus_request list"
  slave_info_list :: "slave_info_t list"

definition bus_new :: bus where
  "bus_new = \<lparr> bus_sync_request_q = [], slave_info_list = [] \<rparr>"

definition bus_check_addr_override :: "u32 \<Rightarrow> u32 \<Rightarrow> bus \<Rightarrow> bool" where
  "bus_check_addr_override base sz b \<longleftrightarrow>
     (\<exists>s \<in> set (slave_info_list b).
        base \<ge> slv_base s \<and> base < slv_base s + slv_size s \<or>
        base < slv_base s \<and> base + sz > slv_base s)"

fun find_slave_loop :: "slave_info_t list \<Rightarrow> nat \<Rightarrow> u32 \<Rightarrow> nat option" where
  "find_slave_loop [] i addr = None"
| "find_slave_loop (s # ss) i addr =
     (if addr \<ge> slv_base s \<and> addr < slv_base s + slv_size s then Some i
      else find_slave_loop ss (i + 1) addr)"

definition find_slave_info :: "bus \<Rightarrow> u32 \<Rightarrow> nat option" where
  "find_slave_info b addr = find_slave_loop (slave_info_list b) 0 addr"

definition bus_get_slave_obj :: "bus \<Rightarrow> u32 \<Rightarrow> slave_base option" where
  "bus_get_slave_obj b addr = map_option (\<lambda>i. slv (slave_info_list b ! i)) (find_slave_info b addr)"

definition bus_convert_to_slave_addr :: "bus \<Rightarrow> u32 \<Rightarrow> u32" where
  "bus_convert_to_slave_addr b addr =
     (case find_slave_info b addr of
        Some i \<Rightarrow> addr - slv_base (slave_info_list b ! i)
      | None \<Rightarrow> addr)"

definition bus_map :: "u32 \<Rightarrow> u32 \<Rightarrow> slave_base \<Rightarrow> bus \<Rightarrow> bus option" where
  "bus_map base sz s b = do {
     assert_that (\<not> bus_check_addr_override base sz b);
     Some (b \<lparr> slave_info_list := slave_info_list b @
        [\<lparr> slv_base = base, slv_size = sz, slv = slave_init sz s \<rparr>] \<rparr>) }"

definition bus_reset :: "bus \<Rightarrow> bus" where
  "bus_reset b = b \<lparr> bus_sync_request_q := [] \<rparr>"

definition bus_check_align :: "u32 \<Rightarrow> u32 \<Rightarrow> bool" where
  "bus_check_align addr access_size \<longleftrightarrow> addr AND (access_size - 1) = 0"

text \<open>Replacing the object of one slave.\<close>

definition set_slave :: "nat \<Rightarrow> slave_base \<Rightarrow> bus \<Rightarrow> bus" where
  "set_slave i s b =
     b \<lparr> slave_info_list := (slave_info_list b)[i := (slave_info_list b ! i) \<lparr> slv := s \<rparr>] \<rparr>"

definition bus_write8 :: "u32 \<Rightarrow> u8 \<Rightarrow> bus \<Rightarrow> bus option" where
  "bus_write8 addr v b =
     (case find_slave_info b addr of
        Some i \<Rightarrow> do {
          s \<leftarrow> slave_write8 (addr - slv_base (slave_info_list b ! i)) v (slv (slave_info_list b ! i));
          Some (set_slave i s b) }
      | None \<Rightarrow> Some b)"

definition bus_write8_sync :: "u32 \<Rightarrow> u8 \<Rightarrow> bus \<Rightarrow> bus" where
  "bus_write8_sync addr v b = b \<lparr> bus_sync_request_q := bus_sync_request_q b @ [Bus_write8 addr v] \<rparr>"

definition bus_write16 :: "u32 \<Rightarrow> u16 \<Rightarrow> bus \<Rightarrow> bus option" where
  "bus_write16 addr v b =
     (case find_slave_info b addr of
        Some i \<Rightarrow> do {
          s \<leftarrow> slave_write16 (addr - slv_base (slave_info_list b ! i)) v (slv (slave_info_list b ! i));
          Some (set_slave i s b) }
      | None \<Rightarrow> Some b)"

definition bus_write16_sync :: "u32 \<Rightarrow> u16 \<Rightarrow> bus \<Rightarrow> bus" where
  "bus_write16_sync addr v b = b \<lparr> bus_sync_request_q := bus_sync_request_q b @ [Bus_write16 addr v] \<rparr>"

definition bus_write32 :: "u32 \<Rightarrow> u32 \<Rightarrow> bus \<Rightarrow> bus option" where
  "bus_write32 addr v b =
     (case find_slave_info b addr of
        Some i \<Rightarrow> do {
          s \<leftarrow> slave_write32 (addr - slv_base (slave_info_list b ! i)) v (slv (slave_info_list b ! i));
          Some (set_slave i s b) }
      | None \<Rightarrow> Some b)"

definition bus_write32_sync :: "u32 \<Rightarrow> u32 \<Rightarrow> bus \<Rightarrow> bus" where
  "bus_write32_sync addr v b = b \<lparr> bus_sync_request_q := bus_sync_request_q b @ [Bus_write32 addr v] \<rparr>"

definition bus_read8 :: "u32 \<Rightarrow> bus \<Rightarrow> (u8 \<times> bus) option" where
  "bus_read8 addr b =
     (case find_slave_info b addr of
        Some i \<Rightarrow> do {
          (v, s) \<leftarrow> slave_read8 (addr - slv_base (slave_info_list b ! i)) (slv (slave_info_list b ! i));
          Some (v, set_slave i s b) }
      | None \<Rightarrow> Some (0, b))"

definition bus_read16 :: "u32 \<Rightarrow> bus \<Rightarrow> (u16 \<times> bus) option" where
  "bus_read16 addr b =
     (case find_slave_info b addr of
        Some i \<Rightarrow> do {
          (v, s) \<leftarrow> slave_read16 (addr - slv_base (slave_info_list b ! i)) (slv (slave_info_list b ! i));
          Some (v, set_slave i s b) }
      | None \<Rightarrow> Some (0, b))"

definition bus_read32 :: "u32 \<Rightarrow> bus \<Rightarrow> (u32 \<times> bus) option" where
  "bus_read32 addr b =
     (case find_slave_info b addr of
        Some i \<Rightarrow> do {
          (v, s) \<leftarrow> slave_read32 (addr - slv_base (slave_info_list b ! i)) (slv (slave_info_list b ! i));
          Some (v, set_slave i s b) }
      | None \<Rightarrow> Some (0, b))"

fun bus_handle :: "bus_request \<Rightarrow> bus \<Rightarrow> bus option" where
  "bus_handle (Bus_write8 a v) b = bus_write8 a v b"
| "bus_handle (Bus_write16 a v) b = bus_write16 a v b"
| "bus_handle (Bus_write32 a v) b = bus_write32 a v b"

definition bus_sync :: "bus \<Rightarrow> bus option" where
  "bus_sync b = drain bus_handle (bus_sync_request_q b) (b \<lparr> bus_sync_request_q := [] \<rparr>)"

subsection \<open>Regions\<close>

definition region :: "slave_info_t \<Rightarrow> nat set" where
  "region s = {unat (slv_base s)..<unat (slv_base s) + unat (slv_size s)}"

text \<open>A well-formed slave entry: its region ends below the top of the address space, it starts at a word
  boundary, the device is as large as the region, and accesses are checked by assertion.\<close>

definition slave_ok :: "slave_info_t \<Rightarrow> bool" where
  "slave_ok s \<longleftrightarrow> unat (slv_base s) + unat (slv_size s) < 2 ^ 32 \<and> slv_base s AND 3 = 0 \<and>
     slave_size (slv s) = slv_size s \<and> \<not> test_mode (slv s) \<and> \<not> has_error (slv s) \<and>
     (\<forall>m. device (slv s) = Memory m \<longrightarrow> length m = unat (slv_size s))"

definition disjoint_regions :: "slave_info_t list \<Rightarrow> bool" where
  "disjoint_regions ss \<longleftrightarrow>
     (\<forall>i < length ss. \<forall>j < length ss. i \<noteq> j \<longrightarrow> region (ss ! i) \<inter> region (ss ! j) = {})"

definition bus_wf :: "bus \<Rightarrow> bool" where
  "bus_wf b \<longleftrightarrow> (\<forall>s \<in> set (slave_info_list b). slave_ok s) \<and> disjoint_regions (slave_info_list b)"

definition bus_view :: "bus \<Rightarrow> u32 \<Rightarrow> u8" where
  "bus_view b x =
     (case find_slave_info b x of
        None \<Rightarrow> 0
      | Some i \<Rightarrow>
          (case device (slv (slave_info_list b ! i)) of
             Memory m \<Rightarrow> m ! unat (x - slv_base (slave_info_list b ! i))
           | Clint c \<Rightarrow> 0))"

lemma no_wrap_end:
  "unat (slv_base s) + unat (slv_size s) < 2 ^ 32 \<Longrightarrow>
    unat (slv_base s + slv_size s) = unat (slv_base s) + unat (slv_size s)"
  by (simp add: unat_word_ariths)

lemma in_region:
  "slave_ok s \<Longrightarrow> addr \<ge> slv_base s \<and> addr < slv_base s + slv_size s \<longleftrightarrow> unat addr \<in> region s"
  by (auto simp: slave_ok_def region_def word_le_nat_alt word_less_nat_alt no_wrap_end)

lemma find_slave_loop_Some:
  "find_slave_loop ss k addr = Some i \<Longrightarrow>
    k \<le> i \<and> i < k + length ss \<and> addr \<ge> slv_base (ss ! (i - k)) \<and> addr < slv_base (ss ! (i - k)) + slv_size (ss ! (i - k))"
proof (induction ss k addr rule: find_slave_loop.induct)
  case (2 s ss i0 addr)
  then show ?case
  proof (cases "addr \<ge> slv_base s \<and> addr < slv_base s + slv_size s")
    case False
    with 2 show ?thesis by (auto simp: nth_Cons' split: if_splits)
  qed auto
qed simp

lemma find_slave_loop_None:
  "find_slave_loop ss k addr = None \<longleftrightarrow>
    (\<forall>s \<in> set ss. \<not> (addr \<ge> slv_base s \<and> addr < slv_base s + slv_size s))"
  by (induction ss k addr rule: find_slave_loop.induct) auto

lemma find_slave_info_iff:
  assumes "bus_wf b"
  shows "find_slave_info b addr = Some i \<longleftrightarrow>
    i < length (slave_info_list b) \<and> unat addr \<in> region (slave_info_list b ! i)"
proof
  assume "find_slave_info b addr = Some i"
  then show "i < length (slave_info_list b) \<and> unat addr \<in> region (slave_info_list b ! i)"
    using find_slave_loop_Some [of "slave_info_list b" 0 addr i] assms
      in_region [of "slave_info_list b ! i" addr]
    by (auto simp: find_slave_info_def bus_wf_def)
next
  assume a: "i < length (slave_info_list b) \<and> unat addr \<in> region (slave_info_list b ! i)"
  then have "addr \<ge> slv_base (slave_info_list b ! i) \<and>
      addr < slv_base (slave_info_list b ! i) + slv_size (slave_info_list b ! i)"
    using assms in_region [of "slave_info_list b ! i" addr] by (auto simp: bus_wf_def)
  then have "find_slave_info b addr \<noteq> None"
    using a by (auto simp: find_slave_info_def find_slave_loop_None intro!: bexI [of _ "slave_info_list b ! i"])
  then obtain j where j: "find_slave_info b addr = Some j" by blast
  then have "j < length (slave_info_list b) \<and> unat addr \<in> region (slave_info_list b ! j)"
    using find_slave_loop_Some [of "slave_info_list b" 0 addr j] assms
      in_region [of "slave_info_list b ! j" addr]
    by (auto simp: find_slave_info_def bus_wf_def)
  with a assms have "j = i" by (auto simp: bus_wf_def disjoint_regions_def)
  with j show "find_slave_info b addr = Some i" by simp
qed

lemma disjoint_append:
  assumes "disjoint_regions ss" "\<And>s. s \<in> set ss \<Longrightarrow> region s \<inter> region e = {}"
  shows "disjoint_regions (ss @ [e])"
  unfolding disjoint_regions_def
proof (intro allI impI)
  fix i j
  assume i: "i < length (ss @ [e])" and j: "j < length (ss @ [e])" and ij: "i \<noteq> j"
  consider "i < length ss" "j < length ss" | "i < length ss" "j = length ss" | "i = length ss" "j < length ss"
    using i j ij by fastforce
  then show "region ((ss @ [e]) ! i) \<inter> region ((ss @ [e]) ! j) = {}"
  proof cases
    case 1
    with assms(1) ij show ?thesis by (simp add: disjoint_regions_def nth_append)
  next
    case 2
    with assms(2) [of "ss ! i"] show ?thesis by (simp add: nth_append)
  next
    case 3
    with assms(2) [of "ss ! j"] show ?thesis by (simp add: nth_append Int_commute)
  qed
qed

lemma bus_map_wf:
  assumes "bus_wf b" "\<not> bus_check_addr_override base sz b"
    and "unat base + unat sz < 2 ^ 32" "0 < sz" "base AND 3 = 0" "\<not> test_mode s" "\<not> has_error s"
    and "\<And>m. device (slave_init sz s) = Memory m \<Longrightarrow> length m = unat sz"
  shows "\<exists>b1. bus_map base sz s b = Some b1 \<and> bus_wf b1"
proof -
  let ?e = "\<lparr> slv_base = base, slv_size = sz, slv = slave_init sz s \<rparr>"
  have ok: "slave_ok ?e" using assms by (simp add: slave_ok_def slave_init_def)
  have dis: "region e \<inter> region ?e = {}" if "e \<in> set (slave_info_list b)" for e
  proof -
    have "slave_ok e" using assms(1) that by (simp add: bus_wf_def)
    then have e: "unat (slv_base e + slv_size e) = unat (slv_base e) + unat (slv_size e)"
      by (auto simp: slave_ok_def no_wrap_end)
    have b: "unat (base + sz) = unat base + unat sz" using no_wrap_end [of ?e] assms(3) by simp
    have "\<not> (base \<ge> slv_base e \<and> base < slv_base e + slv_size e \<or> base < slv_base e \<and> base + sz > slv_base e)"
      using assms(2) that by (auto simp: bus_check_addr_override_def)
    then show ?thesis
      by (auto simp: region_def word_le_nat_alt word_less_nat_alt e b)
  qed
  have "bus_wf (b \<lparr> slave_info_list := slave_info_list b @ [?e] \<rparr>)"
    using assms(1) ok disjoint_append [of "slave_info_list b" ?e] dis by (auto simp: bus_wf_def)
  with assms(2) show ?thesis by (simp add: bus_map_def)
qed

subsection \<open>Memory accesses\<close>

text \<open>An aligned access of \<open>n\<close> bytes that lies in the memory at position \<open>i\<close> of the slave list.\<close>

definition mem_access :: "bus \<Rightarrow> nat \<Rightarrow> u32 \<Rightarrow> nat \<Rightarrow> bool" where
  "mem_access b i a n \<longleftrightarrow> i < length (slave_info_list b) \<and>
     (case device (slv (slave_info_list b ! i)) of Memory m \<Rightarrow> True | Clint c \<Rightarrow> False) \<and>
     n \<in> {1, 2, 4} \<and> a AND (of_nat n - 1) = 0 \<and>
     unat (slv_base (slave_info_list b ! i)) \<le> unat a \<and>
     unat a + n \<le> unat (slv_base (slave_info_list b ! i)) + unat (slv_size (slave_info_list b ! i))"

text \<open>The bytes \<open>n\<close> bytes long from \<open>a\<close> replaced by those of \<open>v\<close>, lowest first.\<close>

definition put_bytes :: "nat \<Rightarrow> u32 \<Rightarrow> 'a :: len word \<Rightarrow> (u32 \<Rightarrow> u8) \<Rightarrow> u32 \<Rightarrow> u8" where
  "put_bytes n a v f x = (if unat (x - a) < n then byte_of v (unat (x - a)) else f x)"

lemma unat_sub32: "unat (x - y :: u32) = (if unat y \<le> unat x then unat x - unat y else unat x + 2 ^ 32 - unat y)"
  using unat_sub_if_size [of x y] by (simp add: word_size)

lemma aligned_offset:
  assumes "x AND (of_nat n - 1) = 0" "base AND 3 = (0 :: u32)" "unat base \<le> unat x" "n \<in> {1, 2, 4}"
  shows "(x - base) AND (of_nat n - 1) = 0"
proof -
  obtain k where k: "n = 2 ^ k" "k \<le> 2"
  proof -
    have "n = 2 ^ 0 \<or> n = 2 ^ 1 \<or> n = 2 ^ 2" using assms(4) by auto
    with that [of 0] that [of 1] that [of 2] show thesis by auto
  qed
  have dx: "2 ^ k dvd uint x" using assms(1) k is_align_dvd [of k x] by (simp add: is_align_def)
  have "is_align base (2 ^ 2)" using assms(2) by (simp add: is_align_def)
  then have "2 ^ 2 dvd uint base" using is_align_dvd [of 2 base] by simp
  then have db: "2 ^ k dvd uint base" using k(2) by (meson dvd_trans le_imp_power_dvd)
  have "base \<le> x" using assms(3) by (simp add: word_le_nat_alt)
  then have "uint (x - base) = uint x - uint base" by (simp only: uint_minus_simple_alt)
  then have "2 ^ k dvd uint (x - base)" using dx db by simp
  then show ?thesis using k is_align_dvd [of k "x - base"] by (simp add: is_align_def)
qed

lemma mem_access_offset:
  assumes "bus_wf b" "mem_access b i a n"
  defines "e \<equiv> slave_info_list b ! i"
  shows "find_slave_info b a = Some i" "unat (a - slv_base e) = unat a - unat (slv_base e)"
    "unat (a - slv_base e) + n \<le> unat (slv_size e)"
    "slave_check (a - slv_base e) (of_nat n) (slv e) = Some (True, slv e)"
proof -
  have m: "i < length (slave_info_list b)" "n \<in> {1, 2, 4}" "a AND (of_nat n - 1) = 0"
    "unat (slv_base e) \<le> unat a" "unat a + n \<le> unat (slv_base e) + unat (slv_size e)"
    using assms(2) by (auto simp: mem_access_def e_def)
  have ok: "slave_ok e" using assms(1) m(1) by (auto simp: bus_wf_def e_def)
  have "unat a \<in> region e" using m by (auto simp: region_def)
  with m(1) show "find_slave_info b a = Some i"
    using find_slave_info_iff [OF assms(1)] by (simp add: e_def)
  show off: "unat (a - slv_base e) = unat a - unat (slv_base e)" using m(4) by (simp add: unat_sub32)
  then show lim: "unat (a - slv_base e) + n \<le> unat (slv_size e)" using m(4,5) by linarith
  have un: "unat (of_nat n :: u32) = n" using m(2) by auto
  have al: "(a - slv_base e) AND (of_nat n - 1) = 0"
    using aligned_offset [OF m(3) _ m(4,2)] ok by (auto simp: slave_ok_def)
  have sz: "slave_size (slv e) = slv_size e" using ok by (simp add: slave_ok_def)
  have "a - slv_base e < slv_size e" using lim m(2) by (auto simp: word_less_nat_alt)
  moreover have "of_nat n \<le> slv_size e - (a - slv_base e)"
    using lim un by (auto simp: word_le_nat_alt unat_sub32)
  ultimately show "slave_check (a - slv_base e) (of_nat n) (slv e) = Some (True, slv e)"
    using ok al sz by (simp add: slave_check_def slave_ok_def)
qed

lemma set_slave_memory:
  assumes "bus_wf b" "i < length (slave_info_list b)" "device (slv (slave_info_list b ! i)) = Memory m"
    "length m1 = length m"
  defines "b1 \<equiv> set_slave i ((slv (slave_info_list b ! i)) \<lparr> device := Memory m1 \<rparr>) b"
  shows "bus_wf b1" "bus_sync_request_q b1 = bus_sync_request_q b"
    "bus_view b1 x = (if unat x \<in> region (slave_info_list b ! i)
       then m1 ! unat (x - slv_base (slave_info_list b ! i)) else bus_view b x)"
proof -
  let ?l = "slave_info_list b" and ?e = "slave_info_list b ! i"
  have l1: "slave_info_list b1 = ?l[i := ?e \<lparr> slv := (slv ?e) \<lparr> device := Memory m1 \<rparr> \<rparr>]"
    by (simp add: b1_def set_slave_def)
  have geo: "slv_base (slave_info_list b1 ! j) = slv_base (?l ! j)" "slv_size (slave_info_list b1 ! j) = slv_size (?l ! j)"
    if "j < length ?l" for j using that assms(2) by (simp_all add: l1 nth_list_update)
  then have reg: "region (slave_info_list b1 ! j) = region (?l ! j)" if "j < length ?l" for j
    using that by (simp add: region_def)
  have oki: "slave_ok ?e" using assms(1,2) by (simp add: bus_wf_def)
  have "slave_ok (?e \<lparr> slv := (slv ?e) \<lparr> device := Memory m1 \<rparr> \<rparr>)"
    using oki assms(3,4) by (simp add: slave_ok_def)
  then have "\<forall>s \<in> set (slave_info_list b1). slave_ok s"
    using assms(1) by (auto simp: l1 bus_wf_def dest!: set_update_subset_insert [THEN subsetD])
  moreover have "disjoint_regions (slave_info_list b1)"
    using assms(1) reg by (simp add: disjoint_regions_def bus_wf_def l1)
  ultimately show wf: "bus_wf b1" by (simp add: bus_wf_def)
  show "bus_sync_request_q b1 = bus_sync_request_q b" by (simp add: b1_def set_slave_def)
  have len: "length (slave_info_list b1) = length ?l" by (simp add: l1)
  have same: "find_slave_info b1 x = find_slave_info b x"
  proof (cases "find_slave_info b x")
    case None
    have "find_slave_info b1 x \<noteq> Some j" for j
      using find_slave_info_iff [OF wf, of x j] find_slave_info_iff [OF assms(1), of x j] reg [of j] len None by auto
    with None show ?thesis by (cases "find_slave_info b1 x") auto
  next
    case (Some j)
    with find_slave_info_iff [OF wf, of x j] find_slave_info_iff [OF assms(1), of x j] reg [of j] len show ?thesis
      by simp
  qed
  show "bus_view b1 x = (if unat x \<in> region ?e then m1 ! unat (x - slv_base ?e) else bus_view b x)"
  proof (cases "unat x \<in> region ?e")
    case True
    then have "find_slave_info b1 x = Some i" using find_slave_info_iff [OF assms(1)] assms(2) same by simp
    with True assms(2) show ?thesis by (simp add: bus_view_def l1)
  next
    case False
    then have "find_slave_info b x \<noteq> Some i" using find_slave_info_iff [OF assms(1)] by simp
    with False same assms(2) show ?thesis
      by (auto simp: bus_view_def l1 split: option.splits device.splits)
  qed
qed

lemma put_bytes_region:
  assumes "bus_wf b" "mem_access b i a n"
  defines "e \<equiv> slave_info_list b ! i"
  shows "unat x \<notin> region e \<Longrightarrow> \<not> unat (x - a) < n"
    and "unat x \<in> region e \<Longrightarrow> unat (x - a) < n \<longleftrightarrow>
      unat (a - slv_base e) \<le> unat (x - slv_base e) \<and> unat (x - slv_base e) < unat (a - slv_base e) + n"
    and "unat x \<in> region e \<Longrightarrow> unat (x - a) < n \<Longrightarrow> unat (x - a) = unat (x - slv_base e) - unat (a - slv_base e)"
    and "unat x \<in> region e \<Longrightarrow> unat (x - slv_base e) < unat (slv_size e)"
proof -
  have m: "unat (slv_base e) \<le> unat a" "unat a + n \<le> unat (slv_base e) + unat (slv_size e)"
    "unat (slv_base e) + unat (slv_size e) < 2 ^ 32"
    using assms by (auto simp: mem_access_def bus_wf_def slave_ok_def e_def)
  show "\<not> unat (x - a) < n" if "unat x \<notin> region e"
    using that m by (auto simp: region_def unat_sub32)
  show "unat (x - a) < n \<longleftrightarrow>
      unat (a - slv_base e) \<le> unat (x - slv_base e) \<and> unat (x - slv_base e) < unat (a - slv_base e) + n"
    if "unat x \<in> region e" using that m by (auto simp: region_def unat_sub32)
  show "unat (x - a) = unat (x - slv_base e) - unat (a - slv_base e)" if "unat x \<in> region e" "unat (x - a) < n"
    using that m by (auto simp: region_def unat_sub32 split: if_splits)
  show "unat (x - slv_base e) < unat (slv_size e)" if "unat x \<in> region e"
    using that m by (auto simp: region_def unat_sub32)
qed

text \<open>The three writes and the three reads share one argument: the device is a memory of the right length
  and the offset passes the check.\<close>

lemma mem_access_memory:
  assumes "bus_wf b" "mem_access b i a n"
  obtains m where "device (slv (slave_info_list b ! i)) = Memory m" "i < length (slave_info_list b)"
    "length m = unat (slv_size (slave_info_list b ! i))"
    "unat (a - slv_base (slave_info_list b ! i)) + n \<le> length m"
proof -
  obtain m where m: "device (slv (slave_info_list b ! i)) = Memory m" "i < length (slave_info_list b)"
    using assms(2) by (auto simp: mem_access_def split: device.splits)
  then have "length m = unat (slv_size (slave_info_list b ! i))"
    using assms(1) by (auto simp: bus_wf_def slave_ok_def)
  with m that mem_access_offset(3) [OF assms] show thesis by simp
qed

lemma view_after_write:
  assumes wf: "bus_wf b" and acc: "mem_access b i a n"
    and m: "device (slv (slave_info_list b ! i)) = Memory m"
    and len: "length m1 = length m"
    and nth: "\<And>j. j < length m \<Longrightarrow> m1 ! j =
      (if unat (a - slv_base (slave_info_list b ! i)) \<le> j \<and> j < unat (a - slv_base (slave_info_list b ! i)) + n
       then byte_of v (j - unat (a - slv_base (slave_info_list b ! i))) else m ! j)"
  defines "b1 \<equiv> set_slave i ((slv (slave_info_list b ! i)) \<lparr> device := Memory m1 \<rparr>) b"
  shows "bus_wf b1 \<and> mem_access b1 = mem_access b \<and> bus_sync_request_q b1 = bus_sync_request_q b \<and>
    bus_view b1 = put_bytes n a v (bus_view b)"
proof -
  let ?e = "slave_info_list b ! i"
  obtain m' where m': "device (slv ?e) = Memory m'" "i < length (slave_info_list b)" "length m' = unat (slv_size ?e)"
    using mem_access_memory [OF wf acc] by blast
  then have lm: "length m = unat (slv_size ?e)" using m by simp
  note S = set_slave_memory [OF wf m'(2) m len, folded b1_def]
  note R = put_bytes_region [OF wf acc]
  have "bus_view b1 x = put_bytes n a v (bus_view b) x" for x
  proof (cases "unat x \<in> region ?e")
    case False
    with S(3) [of x] R(1) [OF False] show ?thesis by (simp add: put_bytes_def)
  next
    case True
    then have f: "find_slave_info b x = Some i" using find_slave_info_iff [OF wf] m'(2) by simp
    have lt: "unat (x - slv_base ?e) < length m" using R(4) [OF True] lm by simp
    have old: "bus_view b x = m ! unat (x - slv_base ?e)" using f m by (simp add: bus_view_def)
    show ?thesis
    proof (cases "unat (x - a) < n")
      case in_access: True
      with S(3) [of x] True nth [OF lt] R(2) [OF True] R(3) [OF True in_access] show ?thesis
        by (simp add: put_bytes_def)
    next
      case out: False
      with S(3) [of x] True nth [OF lt] R(2) [OF True] old show ?thesis by (auto simp: put_bytes_def)
    qed
  qed
  moreover have "mem_access b1 = mem_access b"
    using m'(1,2) by (auto simp: fun_eq_iff mem_access_def b1_def set_slave_def nth_list_update split: device.splits)
  ultimately show ?thesis using S(1,2) by blast
qed

lemma bus_write32_view:
  assumes wf: "bus_wf b" and acc: "mem_access b i a 4"
  shows "\<exists>b1. bus_write32 a v b = Some b1 \<and> bus_wf b1 \<and> mem_access b1 = mem_access b \<and> bus_sync_request_q b1 = bus_sync_request_q b \<and>
    bus_view b1 = put_bytes 4 a v (bus_view b)"
proof -
  obtain m where m: "device (slv (slave_info_list b ! i)) = Memory m"
    "unat (a - slv_base (slave_info_list b ! i)) + 4 \<le> length m"
    using mem_access_memory [OF wf acc] by blast
  note A = mem_access_offset [OF wf acc]
  have "bus_write32 a v b = Some (set_slave i ((slv (slave_info_list b ! i))
      \<lparr> device := Memory (memory_write32 (a - slv_base (slave_info_list b ! i)) v m) \<rparr>) b)"
    using A(1,4) m(1) by (simp add: bus_write32_def slave_write32_def)
  moreover note view_after_write [OF wf acc m(1), where v = v]
  ultimately show ?thesis using memory_write32_nth [OF m(2)] by simp
qed

lemma bus_write16_view:
  assumes wf: "bus_wf b" and acc: "mem_access b i a 2"
  shows "\<exists>b1. bus_write16 a v b = Some b1 \<and> bus_wf b1 \<and> mem_access b1 = mem_access b \<and> bus_sync_request_q b1 = bus_sync_request_q b \<and>
    bus_view b1 = put_bytes 2 a v (bus_view b)"
proof -
  obtain m where m: "device (slv (slave_info_list b ! i)) = Memory m"
    "unat (a - slv_base (slave_info_list b ! i)) + 2 \<le> length m"
    using mem_access_memory [OF wf acc] by blast
  note A = mem_access_offset [OF wf acc]
  have "bus_write16 a v b = Some (set_slave i ((slv (slave_info_list b ! i))
      \<lparr> device := Memory (memory_write16 (a - slv_base (slave_info_list b ! i)) v m) \<rparr>) b)"
    using A(1,4) m(1) by (simp add: bus_write16_def slave_write16_def)
  moreover note view_after_write [OF wf acc m(1), where v = v]
  ultimately show ?thesis using memory_write16_nth [OF m(2)] by simp
qed

lemma bus_write8_view:
  assumes wf: "bus_wf b" and acc: "mem_access b i a 1"
  shows "\<exists>b1. bus_write8 a v b = Some b1 \<and> bus_wf b1 \<and> mem_access b1 = mem_access b \<and> bus_sync_request_q b1 = bus_sync_request_q b \<and>
    bus_view b1 = put_bytes 1 a v (bus_view b)"
proof -
  obtain m where m: "device (slv (slave_info_list b ! i)) = Memory m"
    "unat (a - slv_base (slave_info_list b ! i)) + 1 \<le> length m"
    using mem_access_memory [OF wf acc] by blast
  note A = mem_access_offset [OF wf acc]
  have one: "(of_nat 1 :: u32) = 1" by simp
  have "bus_write8 a v b = Some (set_slave i ((slv (slave_info_list b ! i))
      \<lparr> device := Memory (memory_write8 (a - slv_base (slave_info_list b ! i)) v m) \<rparr>) b)"
    using A(1) A(4) [unfolded one] m(1) by (simp add: bus_write8_def slave_write8_def)
  moreover note view_after_write [OF wf acc m(1), where v = v]
  moreover have "byte_of v 0 = v" by (simp add: byte_of_def)
  ultimately show ?thesis using memory_write8_nth [of "a - slv_base (slave_info_list b ! i)" m] m(2)
    by (auto simp: less_Suc_eq_le)
qed

lemma set_slave_same: "i < length (slave_info_list b) \<Longrightarrow> set_slave i (slv (slave_info_list b ! i)) b = b"
  by (simp add: set_slave_def)

lemma view_in_access:
  assumes wf: "bus_wf b" and acc: "mem_access b i a n" and k: "k < n"
    and m: "device (slv (slave_info_list b ! i)) = Memory m"
  shows "bus_view b (a + of_nat k) = m ! (unat (a - slv_base (slave_info_list b ! i)) + k)"
proof -
  let ?e = "slave_info_list b ! i"
  have A: "unat (slv_base ?e) \<le> unat a" "unat a + n \<le> unat (slv_base ?e) + unat (slv_size ?e)"
    "unat (slv_base ?e) + unat (slv_size ?e) < 2 ^ 32" "i < length (slave_info_list b)" "n \<in> {1, 2, 4}"
    using acc wf by (auto simp: mem_access_def bus_wf_def slave_ok_def)
  have uk: "unat (of_nat k :: u32) = k" using k A(5) by (auto simp: unat_of_nat)
  have ua: "unat (a + of_nat k) = unat a + k"
    using A k uk by (simp add: unat_word_ariths)
  then have "unat (a + of_nat k) \<in> region ?e" using A k by (auto simp: region_def)
  then have f: "find_slave_info b (a + of_nat k) = Some i" using find_slave_info_iff [OF wf] A(4) by simp
  have "unat (a + of_nat k - slv_base ?e) = unat (a - slv_base ?e) + k"
    using ua A(1) by (simp add: unat_sub32)
  with f m show ?thesis by (simp add: bus_view_def)
qed

lemma bus_read32_view:
  assumes wf: "bus_wf b" and acc: "mem_access b i a 4"
  shows "\<exists>v. bus_read32 a b = Some (v, b) \<and> (\<forall>k < 4. byte_of v k = bus_view b (a + of_nat k))"
proof -
  obtain m where m: "device (slv (slave_info_list b ! i)) = Memory m" "i < length (slave_info_list b)"
    using mem_access_memory [OF wf acc] by blast
  note A = mem_access_offset [OF wf acc]
  have "bus_read32 a b = Some (memory_read32 m (a - slv_base (slave_info_list b ! i)), b)"
    using A(1,4) m by (simp add: bus_read32_def slave_read32_def set_slave_same)
  then show ?thesis using view_in_access [OF wf acc _ m(1)] byte_of_read32 by auto
qed

lemma bus_read16_view:
  assumes wf: "bus_wf b" and acc: "mem_access b i a 2"
  shows "\<exists>v. bus_read16 a b = Some (v, b) \<and> (\<forall>k < 2. byte_of v k = bus_view b (a + of_nat k))"
proof -
  obtain m where m: "device (slv (slave_info_list b ! i)) = Memory m" "i < length (slave_info_list b)"
    using mem_access_memory [OF wf acc] by blast
  note A = mem_access_offset [OF wf acc]
  have "bus_read16 a b = Some (memory_read16 m (a - slv_base (slave_info_list b ! i)), b)"
    using A(1,4) m by (simp add: bus_read16_def slave_read16_def set_slave_same)
  then show ?thesis using view_in_access [OF wf acc _ m(1)] byte_of_read16 by auto
qed

lemma bus_read8_view:
  assumes wf: "bus_wf b" and acc: "mem_access b i a 1"
  shows "bus_read8 a b = Some (bus_view b a, b)"
proof -
  obtain m where m: "device (slv (slave_info_list b ! i)) = Memory m" "i < length (slave_info_list b)"
    using mem_access_memory [OF wf acc] by blast
  note A = mem_access_offset [OF wf acc]
  have one: "(of_nat 1 :: u32) = 1" by simp
  have "bus_read8 a b = Some (memory_read8 m (a - slv_base (slave_info_list b ! i)), b)"
    using A(1) A(4) [unfolded one] m by (simp add: bus_read8_def slave_read8_def set_slave_same)
  then show ?thesis using view_in_access [OF wf acc _ m(1), of 0] by (simp add: memory_read8_def)
qed

subsection \<open>Properties\<close>

text \<open>What a store request means for the memory seen through the bus.\<close>

fun put_request :: "bus_request \<Rightarrow> (u32 \<Rightarrow> u8) \<Rightarrow> u32 \<Rightarrow> u8" where
  "put_request (Bus_write8 a v) = put_bytes 1 a v"
| "put_request (Bus_write16 a v) = put_bytes 2 a v"
| "put_request (Bus_write32 a v) = put_bytes 4 a v"

fun request_ok :: "bus \<Rightarrow> bus_request \<Rightarrow> bool" where
  "request_ok b (Bus_write8 a v) \<longleftrightarrow> (\<exists>i < length (slave_info_list b). mem_access b i a 1)"
| "request_ok b (Bus_write16 a v) \<longleftrightarrow> (\<exists>i < length (slave_info_list b). mem_access b i a 2)"
| "request_ok b (Bus_write32 a v) \<longleftrightarrow> (\<exists>i < length (slave_info_list b). mem_access b i a 4)"

lemma mem_access_len: "mem_access b i a n \<Longrightarrow> i < length (slave_info_list b)"
  by (simp add: mem_access_def)

lemma request_ok_cong: "mem_access b1 = mem_access b \<Longrightarrow> request_ok b1 = request_ok b"
proof
  fix r
  assume eq: "mem_access b1 = mem_access b"
  have "(\<exists>i < length (slave_info_list b1). mem_access b1 i a n) \<longleftrightarrow> (\<exists>i < length (slave_info_list b). mem_access b i a n)"
    for a n by (metis eq mem_access_len)
  then show "request_ok b1 r = request_ok b r" by (cases r) simp_all
qed

lemma bus_handle_view:
  assumes "bus_wf b" "request_ok b r"
  shows "\<exists>b1. bus_handle r b = Some b1 \<and> bus_wf b1 \<and> mem_access b1 = mem_access b \<and>
    bus_sync_request_q b1 = bus_sync_request_q b \<and> bus_view b1 = put_request r (bus_view b)"
  using assms(2) bus_write8_view [OF assms(1)] bus_write16_view [OF assms(1)] bus_write32_view [OF assms(1)]
  by (cases r) auto

lemma drain_bus_view:
  "bus_wf b \<Longrightarrow> (\<And>r. r \<in> set rs \<Longrightarrow> request_ok b r) \<Longrightarrow>
    \<exists>b1. drain bus_handle rs b = Some b1 \<and> bus_wf b1 \<and> mem_access b1 = mem_access b \<and>
      bus_sync_request_q b1 = bus_sync_request_q b \<and> bus_view b1 = fold put_request rs (bus_view b)"
proof (induction rs arbitrary: b)
  case (Cons r rs)
  obtain b1 where b1: "bus_handle r b = Some b1" "bus_wf b1" "mem_access b1 = mem_access b"
    "bus_sync_request_q b1 = bus_sync_request_q b" "bus_view b1 = put_request r (bus_view b)"
    using bus_handle_view [OF Cons.prems(1), of r] Cons.prems(2) by auto
  have "\<And>r'. r' \<in> set rs \<Longrightarrow> request_ok b1 r'" using Cons.prems(2) request_ok_cong [OF b1(3)] by simp
  from Cons.IH [OF b1(2) this] b1 show ?case by auto
qed simp

lemma queue_update_irrelevant [simp]:
  "bus_wf (b \<lparr> bus_sync_request_q := q \<rparr>) = bus_wf b"
  "mem_access (b \<lparr> bus_sync_request_q := q \<rparr>) = mem_access b"
  "bus_view (b \<lparr> bus_sync_request_q := q \<rparr>) = bus_view b"
  by (simp_all add: bus_wf_def mem_access_def bus_view_def find_slave_info_def fun_eq_iff
      split: option.splits device.splits)

text \<open>A small memory map: 16 bytes of memory at address \<open>0x80000000\<close>, after a second one at 0.\<close>

definition sample_memory :: "nat \<Rightarrow> slave_base" where
  "sample_memory n = \<lparr> slave_size = of_nat n, test_mode = False, has_error = False, device = Memory (replicate n 0) \<rparr>"

definition sample_bus :: bus where
  "sample_bus = \<lparr> bus_sync_request_q = [],
     slave_info_list = [\<lparr> slv_base = 0x80000000, slv_size = 16, slv = sample_memory 16 \<rparr>] \<rparr>"

lemma sample_bus_wf: "bus_wf sample_bus"
  by (simp add: sample_bus_def sample_memory_def bus_wf_def disjoint_regions_def slave_ok_def)

text \<open>C23: The stores recorded during a cycle take effect at \<open>sync\<close>, in the order they were recorded: each
  replaces its 1, 2 or 4 bytes (little-endian) of the memory seen through the bus and leaves every other
  byte alone, the queue is empty afterwards, and the map of regions stays well-formed.\<close>

theorem bus_sync_stores_in_order:
  assumes "bus_wf b" "\<forall>r \<in> set (bus_sync_request_q b). request_ok b r"
  shows "\<exists>b1. bus_sync b = Some b1 \<and> bus_wf b1 \<and> bus_sync_request_q b1 = [] \<and>
    bus_view b1 = fold put_request (bus_sync_request_q b) (bus_view b)"
proof -
  let ?b = "b \<lparr> bus_sync_request_q := [] \<rparr>"
  have "request_ok ?b = request_ok b" by (rule request_ok_cong) simp
  then show ?thesis
    using drain_bus_view [of ?b "bus_sync_request_q b"] assms by (auto simp: bus_sync_def)
qed

theorem bus_sync_stores_in_order_witness:
  "\<exists>b1. bus_sync (bus_write8_sync 0x80000005 0xAB (bus_write32_sync 0x80000004 0x11223344 sample_bus)) = Some b1 \<and>
    bus_view b1 0x80000004 = 0x44 \<and> bus_view b1 0x80000005 = 0xAB \<and> bus_view b1 0x80000007 = 0x11"
proof -
  let ?b = "bus_write8_sync 0x80000005 0xAB (bus_write32_sync 0x80000004 0x11223344 sample_bus)"
  have q: "bus_sync_request_q ?b = [Bus_write32 0x80000004 0x11223344, Bus_write8 0x80000005 0xAB]"
    by (simp add: bus_write8_sync_def bus_write32_sync_def sample_bus_def)
  have "mem_access sample_bus 0 0x80000004 4" "mem_access sample_bus 0 0x80000005 1"
    by (simp_all add: mem_access_def sample_bus_def sample_memory_def)
  moreover have "length (slave_info_list sample_bus) = 1" by (simp add: sample_bus_def)
  ultimately have "\<forall>r \<in> set (bus_sync_request_q ?b). request_ok ?b r"
    unfolding q by (simp add: bus_write8_sync_def bus_write32_sync_def)
  from bus_sync_stores_in_order [OF _ this] sample_bus_wf
  show ?thesis unfolding q
    by (auto simp: bus_write8_sync_def bus_write32_sync_def put_bytes_def byte_of_def unat_gt_0)
qed

text \<open>C24: A read through the bus returns the bytes of the memory at the address and the following ones in
  little-endian order and changes nothing, for each of the three widths; in particular it returns the value
  of the last write to the same place.\<close>

theorem bus_read_view:
  assumes "bus_wf b"
  shows "(mem_access b i a 4 \<longrightarrow> (\<exists>v. bus_read32 a b = Some (v, b) \<and> (\<forall>k < 4. byte_of v k = bus_view b (a + of_nat k)))) \<and>
    (mem_access b i a 2 \<longrightarrow> (\<exists>v. bus_read16 a b = Some (v, b) \<and> (\<forall>k < 2. byte_of v k = bus_view b (a + of_nat k)))) \<and>
    (mem_access b i a 1 \<longrightarrow> bus_read8 a b = Some (bus_view b a, b)) \<and>
    (mem_access b i a 4 \<longrightarrow> (\<exists>b1. bus_write32 a w b = Some b1 \<and> bus_read32 a b1 = Some (w, b1)))"
proof -
  have "\<exists>b1. bus_write32 a w b = Some b1 \<and> bus_read32 a b1 = Some (w, b1)" if acc: "mem_access b i a 4"
  proof -
    obtain b1 where b1: "bus_write32 a w b = Some b1" "bus_wf b1" "mem_access b1 = mem_access b"
      "bus_view b1 = put_bytes 4 a w (bus_view b)"
      using bus_write32_view [OF assms acc] by blast
    obtain v where v: "bus_read32 a b1 = Some (v, b1)" "\<forall>k < 4. byte_of v k = bus_view b1 (a + of_nat k)"
      using bus_read32_view [OF b1(2)] acc b1(3) by metis
    have bytes: "byte_of v k = byte_of w k" if "k < 4" for k
      using that v(2) by (simp add: b1(4) put_bytes_def unat_of_nat)
    have "v = w" by (rule word_eq_bytes) (simp add: bytes)
    with b1(1) v(1) show ?thesis by blast
  qed
  with bus_read32_view [OF assms] bus_read16_view [OF assms] bus_read8_view [OF assms] show ?thesis by blast
qed

theorem bus_read_view_witness:
  "\<exists>b1. bus_write32 0x80000008 0xDEADBEEF sample_bus = Some b1 \<and> bus_read32 0x80000008 b1 = Some (0xDEADBEEF, b1)"
  using bus_read_view [OF sample_bus_wf, of 0 "0x80000008"]
  by (simp add: mem_access_def sample_bus_def sample_memory_def)

text \<open>C32: Mapping a slave at a place that overlaps no earlier one succeeds, keeps the map well-formed, sends
  every address of the new region to the new slave at its offset from the base, and leaves the routing of
  every other address as it was.\<close>

theorem bus_map_routes:
  assumes "bus_wf b" "\<not> bus_check_addr_override base sz b" "unat base + unat sz < 2 ^ 32" "0 < sz"
    "base AND 3 = 0" "\<not> test_mode s" "\<not> has_error s"
  shows "\<exists>b1. bus_map base sz s b = Some b1 \<and> bus_wf b1 \<and>
    (\<forall>x. find_slave_info b1 x = (if unat base \<le> unat x \<and> unat x < unat base + unat sz
       then Some (length (slave_info_list b)) else find_slave_info b x)) \<and>
    (\<forall>x. unat base \<le> unat x \<and> unat x < unat base + unat sz \<longrightarrow> bus_convert_to_slave_addr b1 x = x - base)"
proof -
  have dev: "\<And>m. device (slave_init sz s) = Memory m \<Longrightarrow> length m = unat sz"
    by (cases "device s") (auto simp: slave_init_def memory_init_def)
  obtain b1 where b1: "bus_map base sz s b = Some b1" "bus_wf b1"
    using bus_map_wf [OF assms(1-7) dev] by blast
  then have l: "slave_info_list b1 = slave_info_list b @ [\<lparr> slv_base = base, slv_size = sz, slv = slave_init sz s \<rparr>]"
    by (auto simp: bus_map_def)
  let ?n = "length (slave_info_list b)"
  have iff: "find_slave_info b1 x = Some j \<longleftrightarrow>
      (j < ?n \<and> unat x \<in> region (slave_info_list b ! j)) \<or>
      (j = ?n \<and> unat base \<le> unat x \<and> unat x < unat base + unat sz)" for x j
    unfolding find_slave_info_iff [OF b1(2)] by (auto simp: l nth_append region_def less_Suc_eq)
  have route: "find_slave_info b1 x = (if unat base \<le> unat x \<and> unat x < unat base + unat sz
       then Some ?n else find_slave_info b x)" for x
  proof (cases "unat base \<le> unat x \<and> unat x < unat base + unat sz")
    case True
    with iff [of x ?n] show ?thesis by simp
  next
    case False
    then have "find_slave_info b1 x = Some j \<longleftrightarrow> find_slave_info b x = Some j" for j
      using iff [of x j] find_slave_info_iff [OF assms(1), of x j] by blast
    with False show ?thesis by (metis option.exhaust)
  qed
  then have "bus_convert_to_slave_addr b1 x = x - base" if "unat base \<le> unat x \<and> unat x < unat base + unat sz" for x
    using that by (simp add: bus_convert_to_slave_addr_def l)
  with b1 route show ?thesis by blast
qed

theorem bus_map_routes_witness:
  "\<exists>b1. bus_map 0x1000 16 (sample_memory 16) sample_bus = Some b1 \<and> bus_wf b1 \<and>
    find_slave_info b1 0x1004 = Some 1 \<and> find_slave_info b1 0x80000004 = Some 0 \<and>
    bus_convert_to_slave_addr b1 0x1004 = 4"
proof -
  have "\<not> bus_check_addr_override 0x1000 16 sample_bus" "find_slave_info sample_bus 0x80000004 = Some 0"
    by (simp_all add: bus_check_addr_override_def sample_bus_def find_slave_info_def)
  with bus_map_routes [OF sample_bus_wf, of "0x1000" 16 "sample_memory 16"] show ?thesis
    by (force simp: sample_memory_def sample_bus_def)
qed

end
