(* ===== verification/Pipeline_Types.thy ===== *)
theory Pipeline_Types
  imports Common Fifo
begin

text \<open>
  The data of the pipeline: the enumerations of \<open>pipeline/pipeline_common.h\<close>, the packs that travel
  from stage to stage (\<open>fetch_decode.h\<close>, \<open>decode_rename.h\<close>, \<open>rename_readreg.h\<close>, \<open>readreg_issue.h\<close>,
  \<open>issue_execute.h\<close>, \<open>execute_wb.h\<close>, \<open>wb_commit.h\<close>), the feedback packs that travel back
  (\<open>execute.h\<close>, \<open>wb.h\<close>, \<open>commit.h\<close>, \<open>issue.h\<close>, \<open>decode.h\<close>, \<open>rename.h\<close>), and the register between two
  stages, \<open>component/port.h\<close>.

  Each pack repeats the fields of the one before it and adds some, so the packs are extensible records.
  \<open>memset(&pack, 0, sizeof(pack))\<close> is the pack with zero in every field.
\<close>

subsection \<open>Enumerations\<close>

datatype op_unit_t = Unit_alu | Unit_mul | Unit_div | Unit_lsu | Unit_bru | Unit_csr

datatype arg_src_t = Src_reg | Src_imm | Src_disable

datatype op_t =
  Op_add | Op_addi | Op_and | Op_andi | Op_auipc | Op_csrrc | Op_csrrci | Op_csrrs | Op_csrrsi
  | Op_csrrw | Op_csrrwi | Op_ebreak | Op_ecall | Op_fence | Op_fence_i | Op_lui | Op_or | Op_ori
  | Op_sll | Op_slli | Op_slt | Op_slti | Op_sltiu | Op_sltu | Op_sra | Op_srai | Op_srl | Op_srli
  | Op_sub | Op_xor | Op_xori | Op_beq | Op_bge | Op_bgeu | Op_blt | Op_bltu | Op_bne | Op_jal
  | Op_jalr | Op_div | Op_divu | Op_rem | Op_remu | Op_lb | Op_lbu | Op_lh | Op_lhu | Op_lw | Op_sb
  | Op_sh | Op_sw | Op_mul | Op_mulh | Op_mulhsu | Op_mulhu | Op_mret

datatype alu_op_t =
  Alu_add | Alu_and | Alu_auipc | Alu_ebreak | Alu_ecall | Alu_fence | Alu_fence_i | Alu_lui | Alu_or
  | Alu_sll | Alu_slt | Alu_sltu | Alu_sra | Alu_srl | Alu_sub | Alu_xor

datatype bru_op_t =
  Bru_beq | Bru_bge | Bru_bgeu | Bru_blt | Bru_bltu | Bru_bne | Bru_jal | Bru_jalr | Bru_mret

datatype div_op_t = Div_div | Div_divu | Div_rem | Div_remu

datatype lsu_op_t = Lsu_lb | Lsu_lbu | Lsu_lh | Lsu_lhu | Lsu_lw | Lsu_sb | Lsu_sh | Lsu_sw

datatype mul_op_t = Mul_mul | Mul_mulh | Mul_mulhsu | Mul_mulhu

datatype csr_op_t = Csr_csrrc | Csr_csrrs | Csr_csrrw

text \<open>
  The union \<open>sub_op\<close>: the member last written, or the zero bytes \<open>memset\<close> leaves, which every member
  reads as its first enumerator. Reading another member than the one written is not defined.
\<close>

datatype sub_op_t =
  Sub_zero | Sub_alu alu_op_t | Sub_bru bru_op_t | Sub_div div_op_t | Sub_lsu lsu_op_t
  | Sub_mul mul_op_t | Sub_csr csr_op_t

fun sub_alu_op :: "sub_op_t \<Rightarrow> alu_op_t option" where
  "sub_alu_op Sub_zero = Some Alu_add"
| "sub_alu_op (Sub_alu x) = Some x"
| "sub_alu_op _ = None"

fun sub_bru_op :: "sub_op_t \<Rightarrow> bru_op_t option" where
  "sub_bru_op Sub_zero = Some Bru_beq"
| "sub_bru_op (Sub_bru x) = Some x"
| "sub_bru_op _ = None"

fun sub_div_op :: "sub_op_t \<Rightarrow> div_op_t option" where
  "sub_div_op Sub_zero = Some Div_div"
| "sub_div_op (Sub_div x) = Some x"
| "sub_div_op _ = None"

fun sub_lsu_op :: "sub_op_t \<Rightarrow> lsu_op_t option" where
  "sub_lsu_op Sub_zero = Some Lsu_lb"
| "sub_lsu_op (Sub_lsu x) = Some x"
| "sub_lsu_op _ = None"

fun sub_mul_op :: "sub_op_t \<Rightarrow> mul_op_t option" where
  "sub_mul_op Sub_zero = Some Mul_mul"
| "sub_mul_op (Sub_mul x) = Some x"
| "sub_mul_op _ = None"

fun sub_csr_op :: "sub_op_t \<Rightarrow> csr_op_t option" where
  "sub_csr_op Sub_zero = Some Csr_csrrc"
| "sub_csr_op (Sub_csr x) = Some x"
| "sub_csr_op _ = None"

subsection \<open>Packs\<close>

record fetch_decode_pack_t =
  fd_pc :: u32
  fd_value :: u32
  fd_enable :: bool
  fd_has_exception :: bool
  fd_exception_id :: riscv_exception_t
  fd_exception_value :: u32
  fd_predicted :: bool
  fd_predicted_jump :: bool
  fd_predicted_next_pc :: u32
  fd_checkpoint_id_valid :: bool
  fd_checkpoint_id :: nat

record decode_rename_pack_t =
  o_enable :: bool
  o_value :: u32
  o_valid :: bool
  o_pc :: u32
  o_imm :: u32
  o_has_exception :: bool
  o_exception_id :: riscv_exception_t
  o_exception_value :: u32
  o_predicted :: bool
  o_predicted_jump :: bool
  o_predicted_next_pc :: u32
  o_checkpoint_id_valid :: bool
  o_checkpoint_id :: nat
  o_rs1 :: nat
  o_arg1_src :: arg_src_t
  o_rs1_need_map :: bool
  o_rs2 :: nat
  o_arg2_src :: arg_src_t
  o_rs2_need_map :: bool
  o_rd :: nat
  o_rd_enable :: bool
  o_need_rename :: bool
  o_csr :: u32
  o_op :: op_t
  o_op_unit :: op_unit_t
  o_sub_op :: sub_op_t

record rename_readreg_op_info_t = decode_rename_pack_t +
  o_rob_id :: nat
  o_rs1_phy :: nat
  o_rs2_phy :: nat
  o_rd_phy :: nat

record readreg_issue_op_info_t = rename_readreg_op_info_t +
  o_src1_value :: u32
  o_src1_loaded :: bool
  o_src2_value :: u32
  o_src2_loaded :: bool

record issue_execute_pack_t = readreg_issue_op_info_t +
  o_lsu_addr :: u32

record execute_wb_pack_t = readreg_issue_op_info_t +
  o_bru_jump :: bool
  o_bru_next_pc :: u32
  o_rd_value :: u32
  o_csr_newvalue :: u32
  o_csr_newvalue_valid :: bool

type_synonym rename_readreg_pack_t = "rename_readreg_op_info_t list"
type_synonym readreg_issue_pack_t = "readreg_issue_op_info_t list"
type_synonym issue_queue_item_t = readreg_issue_op_info_t
type_synonym wb_commit_op_info_t = execute_wb_pack_t
type_synonym wb_commit_pack_t = "wb_commit_op_info_t list"

text \<open>The packs with every byte zero: the first enumerators, \<open>False\<close>, 0.\<close>

definition zero_decode_rename_pack :: decode_rename_pack_t where
  "zero_decode_rename_pack =
     \<lparr> o_enable = False, o_value = 0, o_valid = False, o_pc = 0, o_imm = 0, o_has_exception = False,
       o_exception_id = instruction_address_misaligned, o_exception_value = 0, o_predicted = False,
       o_predicted_jump = False, o_predicted_next_pc = 0, o_checkpoint_id_valid = False,
       o_checkpoint_id = 0, o_rs1 = 0, o_arg1_src = Src_reg, o_rs1_need_map = False, o_rs2 = 0,
       o_arg2_src = Src_reg, o_rs2_need_map = False, o_rd = 0, o_rd_enable = False,
       o_need_rename = False, o_csr = 0, o_op = Op_add, o_op_unit = Unit_alu, o_sub_op = Sub_zero \<rparr>"

definition zero_rename_readreg_op_info :: rename_readreg_op_info_t where
  "zero_rename_readreg_op_info =
     decode_rename_pack_t.extend zero_decode_rename_pack (rename_readreg_op_info_t.fields 0 0 0 0)"

definition zero_readreg_issue_op_info :: readreg_issue_op_info_t where
  "zero_readreg_issue_op_info =
     rename_readreg_op_info_t.extend zero_rename_readreg_op_info (readreg_issue_op_info_t.fields 0 False 0 False)"

definition zero_issue_execute_pack :: issue_execute_pack_t where
  "zero_issue_execute_pack = readreg_issue_op_info_t.extend zero_readreg_issue_op_info (issue_execute_pack_t.fields 0)"

definition zero_execute_wb_pack :: execute_wb_pack_t where
  "zero_execute_wb_pack =
     readreg_issue_op_info_t.extend zero_readreg_issue_op_info (execute_wb_pack_t.fields False 0 0 0 False)"

subsection \<open>Feedback\<close>

record execute_feedback_channel_t =
  ch_enable :: bool
  ch_phy_id :: nat
  ch_value :: u32

type_synonym execute_feedback_pack_t = "execute_feedback_channel_t list"
type_synonym wb_feedback_channel_t = execute_feedback_channel_t
type_synonym wb_feedback_pack_t = "wb_feedback_channel_t list"

record commit_feedback_pack_t =
  cf_enable :: bool
  cf_next_handle_rob_id_valid :: bool
  cf_next_handle_rob_id :: nat
  cf_has_exception :: bool
  cf_exception_pc :: u32
  cf_flush :: bool
  cf_committed_rob_id :: "nat list"
  cf_committed_rob_id_valid :: "bool list"
  cf_jump_enable :: bool
  cf_jump :: bool
  cf_next_pc :: u32

record issue_feedback_pack_t =
  if_stall :: bool

record decode_feedback_pack_t =
  df_idle :: bool

record rename_feedback_pack_t =
  rf_idle :: bool

record phy_regfile_item_t =
  phy_value :: u32

definition zero_feedback_channel :: execute_feedback_channel_t where
  "zero_feedback_channel = \<lparr> ch_enable = False, ch_phy_id = 0, ch_value = 0 \<rparr>"

text \<open>\<open>commit_feedback_pack.enable && commit_feedback_pack.flush\<close>, the guard every stage starts with.\<close>

definition cf_flushing :: "commit_feedback_pack_t \<Rightarrow> bool" where
  "cf_flushing cf \<longleftrightarrow> cf_enable cf \<and> cf_flush cf"

text \<open>A feedback that commits nothing, for the examples.\<close>

definition sample_commit_feedback :: "bool \<Rightarrow> commit_feedback_pack_t" where
  "sample_commit_feedback fl = \<lparr> cf_enable = True, cf_next_handle_rob_id_valid = False, cf_next_handle_rob_id = 0,
     cf_has_exception = False, cf_exception_pc = 0, cf_flush = fl, cf_committed_rob_id = replicate COMMIT_WIDTH 0,
     cf_committed_rob_id_valid = replicate COMMIT_WIDTH False, cf_jump_enable = False, cf_jump = False,
     cf_next_pc = 0 \<rparr>"

subsection \<open>Port\<close>

record 'a port =
  port_value :: 'a
  init_value :: 'a

definition port_new :: "'a \<Rightarrow> 'a port" where
  "port_new v = \<lparr> port_value = v, init_value = v \<rparr>"

definition port_reset :: "'a port \<Rightarrow> 'a port" where
  "port_reset p = p \<lparr> port_value := init_value p \<rparr>"

definition port_set :: "'a \<Rightarrow> 'a port \<Rightarrow> 'a port" where
  "port_set v p = p \<lparr> port_value := v \<rparr>"

definition port_get :: "'a port \<Rightarrow> 'a" where
  "port_get p = port_value p"

lemma port_set_get [simp]:
  "port_get (port_set v p) = v" "init_value (port_set v p) = init_value p"
  "port_get (port_reset p) = init_value p" "port_get (port_new v) = v"
  by (simp_all add: port_get_def port_set_def port_reset_def port_new_def)

end
