(* ===== verification/Store_Buffer.thy ===== *)
theory Store_Buffer
  imports Bus Pipeline_Types
begin

text \<open>
  \<open>component/store_buffer.h\<close>: stores wait here from their execution until they are committed, and then go
  to the bus one per cycle, oldest first. A load reads the bus and takes the bytes of the waiting stores
  over it (\<open>get_feedback_value\<close>); a flush drops the stores that are not committed and do not commit in
  this cycle.
\<close>

subsection \<open>The class\<close>

record store_buffer_item_t =
  sb_enable :: bool
  sb_committed :: bool
  sb_rob_id :: nat
  sb_pc :: u32
  sb_addr :: u32
  sb_data :: u32
  sb_size :: u32

record store_buffer_state_pack_t =
  sbs_wptr :: nat
  sbs_wstage :: bool

datatype store_buffer_request = Sb_push store_buffer_item_t | Sb_pop | Sb_restore store_buffer_state_pack_t

record store_buffer = "store_buffer_item_t fifo" +
  sb_sync_request_q :: "store_buffer_request list"

definition sb_new :: "nat \<Rightarrow> store_buffer_item_t list \<Rightarrow> nat \<Rightarrow> bool \<Rightarrow> store_buffer" where
  "sb_new n mem rp rs = fifo.extend (fifo_new n mem rp rs) (store_buffer.fields [])"

definition sb_reset :: "store_buffer \<Rightarrow> store_buffer" where
  "sb_reset q = (fifo_reset q) \<lparr> sb_sync_request_q := [] \<rparr>"

definition sb_check_id_valid :: "store_buffer \<Rightarrow> nat \<Rightarrow> bool" where
  "sb_check_id_valid q i \<longleftrightarrow>
     (if fifo_is_empty q then False
      else if wstage q = rstage q then i \<ge> rptr q \<and> i < wptr q
      else i \<ge> rptr q \<and> i < qsize q \<or> i < wptr q)"

definition sb_get_item :: "store_buffer \<Rightarrow> nat \<Rightarrow> store_buffer_item_t option" where
  "sb_get_item q i = do { assert_that (sb_check_id_valid q i); Some (buffer q ! i) }"

definition sb_set_item :: "nat \<Rightarrow> store_buffer_item_t \<Rightarrow> store_buffer \<Rightarrow> store_buffer option" where
  "sb_set_item i x q = do {
     assert_that (sb_check_id_valid q i);
     Some (q \<lparr> buffer := (buffer q)[i := x] \<rparr>) }"

definition sb_get_front_id :: "store_buffer \<Rightarrow> nat option" where
  "sb_get_front_id q = (if fifo_is_empty q then None else Some (rptr q))"

definition sb_get_front_id_stage :: "store_buffer \<Rightarrow> (nat \<times> bool) option" where
  "sb_get_front_id_stage q = (if fifo_is_empty q then None else Some (rptr q, rstage q))"

definition sb_get_tail_id :: "store_buffer \<Rightarrow> nat option" where
  "sb_get_tail_id q = (if fifo_is_empty q then None else Some ((wptr q + qsize q - 1) mod qsize q))"

definition sb_get_next_id :: "store_buffer \<Rightarrow> nat \<Rightarrow> (bool \<times> nat) option" where
  "sb_get_next_id q i = do {
     assert_that (sb_check_id_valid q i);
     let n = (i + 1) mod qsize q;
     Some (sb_check_id_valid q n, n) }"

definition sb_get_next_id_stage :: "store_buffer \<Rightarrow> nat \<times> bool \<Rightarrow> (bool \<times> (nat \<times> bool)) option" where
  "sb_get_next_id_stage q = (\<lambda>(i, stage). do {
     assert_that (sb_check_id_valid q i);
     let next_id = (i + 1) mod qsize q;
     let next_stage = ((i + 1 \<ge> qsize q) \<noteq> stage);
     Some (sb_check_id_valid q next_id, (next_id, next_stage)) })"

definition sb_save :: "store_buffer \<Rightarrow> store_buffer_state_pack_t" where
  "sb_save q = \<lparr> sbs_wptr = wptr q, sbs_wstage = wstage q \<rparr>"

definition sb_restore :: "store_buffer_state_pack_t \<Rightarrow> store_buffer \<Rightarrow> store_buffer" where
  "sb_restore pack q = q \<lparr> wptr := sbs_wptr pack, wstage := sbs_wstage pack \<rparr>"

definition sb_restore_sync :: "store_buffer_state_pack_t \<Rightarrow> store_buffer \<Rightarrow> store_buffer" where
  "sb_restore_sync pack q = q \<lparr> sb_sync_request_q := sb_sync_request_q q @ [Sb_restore pack] \<rparr>"

definition sb_push_sync :: "store_buffer_item_t \<Rightarrow> store_buffer \<Rightarrow> store_buffer" where
  "sb_push_sync x q = q \<lparr> sb_sync_request_q := sb_sync_request_q q @ [Sb_push x] \<rparr>"

definition sb_pop_sync :: "store_buffer \<Rightarrow> store_buffer" where
  "sb_pop_sync q = q \<lparr> sb_sync_request_q := sb_sync_request_q q @ [Sb_pop] \<rparr>"

text \<open>The body of the loop of \<open>get_feedback_value\<close>: one waiting store laid over the value so far.\<close>

definition feedback_bit_mask :: "u32 \<Rightarrow> u32" where
  "feedback_bit_mask bit_length = (if bit_length = 32 then 0xffffffff else push_bit (unat bit_length) 1 - 1)"

definition feedback_merge :: "u32 \<Rightarrow> u32 \<Rightarrow> store_buffer_item_t \<Rightarrow> u32 \<Rightarrow> u32" where
  "feedback_merge addr sz cur_item result =
     (if sb_addr cur_item \<ge> addr \<and> sb_addr cur_item < addr + sz then
        let bit_offset = push_bit 3 (sb_addr cur_item - addr);
            bit_length = push_bit 3 (min (sb_size cur_item) (addr + sz - sb_addr cur_item));
            bit_mask = feedback_bit_mask bit_length;
            cleared = result AND NOT (push_bit (unat bit_offset) bit_mask)
        in cleared OR push_bit (unat bit_offset) (sb_data cur_item AND bit_mask)
      else if sb_addr cur_item < addr \<and> sb_addr cur_item + sb_size cur_item > addr then
        let bit_offset = push_bit 3 (addr - sb_addr cur_item);
            bit_length = push_bit 3 (min sz (sb_addr cur_item + sb_size cur_item - addr));
            bit_mask = feedback_bit_mask bit_length;
            cleared = result AND NOT bit_mask
        in cleared OR (drop_bit (unat bit_offset) (sb_data cur_item) AND bit_mask)
      else result)"

definition sb_get_feedback_value :: "u32 \<Rightarrow> u32 \<Rightarrow> u32 \<Rightarrow> store_buffer \<Rightarrow> u32 option" where
  "sb_get_feedback_value addr sz bus_value q =
     (case sb_get_front_id q of
        None \<Rightarrow> Some bus_value
      | Some first_id \<Rightarrow>
          do_while (\<lambda>cur_id result. do {
              cur_item \<leftarrow> sb_get_item q cur_id;
              Some (False, feedback_merge addr sz cur_item result) })
            (\<lambda>result cur_id. sb_get_next_id q cur_id) (\<lambda>cur_id. cur_id = first_id) first_id bus_value)"

text \<open>Some entry of the commit feedback carries the instruction.\<close>

definition cf_commits :: "commit_feedback_pack_t \<Rightarrow> nat \<Rightarrow> bool" where
  "cf_commits cf rob_id \<longleftrightarrow>
     list_ex (\<lambda>i. cf_committed_rob_id_valid cf ! i \<and> cf_committed_rob_id cf ! i = rob_id) [0..<COMMIT_WIDTH]"

text \<open>\<open>run\<close>, in its three parts: the flush, the write back of the oldest committed store, and the marking
  of the stores that commit.\<close>

definition flush_search_body ::
  "commit_feedback_pack_t \<Rightarrow> store_buffer \<Rightarrow> nat \<times> bool \<Rightarrow> (nat \<times> bool) option
     \<Rightarrow> (bool \<times> (nat \<times> bool) option) option" where
  "flush_search_body cf q = (\<lambda>(cur_id, cur_stage) found. do {
     cur_item \<leftarrow> sb_get_item q cur_id;
     if \<not> sb_committed cur_item \<and> \<not> (cf_enable cf \<and> cf_commits cf (sb_rob_id cur_item))
     then Some (True, Some (cur_id, cur_stage))
     else Some (False, found) })"

definition sb_flush :: "commit_feedback_pack_t \<Rightarrow> store_buffer \<Rightarrow> store_buffer option" where
  "sb_flush cf q = do {
     q1 \<leftarrow> (case sb_get_front_id_stage q of
        None \<Rightarrow> Some q
      | Some (first_id, first_stage) \<Rightarrow> do {
          found \<leftarrow> do_while (flush_search_body cf q) (\<lambda>found cur. sb_get_next_id_stage q cur)
                    (\<lambda>(cur_id, cur_stage). cur_id = first_id) (first_id, first_stage) None;
          Some (case found of
             None \<Rightarrow> q
           | Some (found_id, found_stage) \<Rightarrow> q \<lparr> wptr := found_id, wstage := found_stage \<rparr>) });
     Some (q1 \<lparr> sb_sync_request_q := [] \<rparr>) }"

definition sb_write_back :: "store_buffer \<Rightarrow> bus \<Rightarrow> (store_buffer \<times> bus) option" where
  "sb_write_back q b =
     (case fifo_get_front q of
        None \<Rightarrow> Some (q, b)
      | Some item \<Rightarrow>
          if sb_committed item then do {
            let q1 = snd (fifo_pop q);
            assert_that (sb_size item = 1 \<or> sb_size item = 2 \<or> sb_size item = 4);
            Some (q1,
              if sb_size item = 1 then bus_write8_sync (sb_addr item) (ucast (sb_data item)) b
              else if sb_size item = 2 then bus_write16_sync (sb_addr item) (ucast (sb_data item)) b
              else bus_write32_sync (sb_addr item) (sb_data item) b) }
          else Some (q, b))"

definition mark_item :: "commit_feedback_pack_t \<Rightarrow> store_buffer_item_t \<Rightarrow> store_buffer_item_t" where
  "mark_item cf it = (if cf_commits cf (sb_rob_id it) then it \<lparr> sb_committed := True \<rparr> else it)"

definition sb_feedback :: "commit_feedback_pack_t \<Rightarrow> store_buffer \<Rightarrow> store_buffer option" where
  "sb_feedback cf q =
     (if cf_enable cf then
        case sb_get_front_id q of
          None \<Rightarrow> Some q
        | Some first_id \<Rightarrow>
            do_while (\<lambda>cur_id q. do {
                cur_item \<leftarrow> sb_get_item q cur_id;
                q1 \<leftarrow> sb_set_item cur_id (mark_item cf cur_item) q;
                Some (False, q1) })
              sb_get_next_id (\<lambda>cur_id. cur_id = first_id) first_id q
      else Some q)"

definition sb_run :: "commit_feedback_pack_t \<Rightarrow> store_buffer \<Rightarrow> bus \<Rightarrow> (store_buffer \<times> bus) option" where
  "sb_run cf q b = do {
     (q1, b1) \<leftarrow> (if cf_enable cf \<and> cf_flush cf
        then do { q1 \<leftarrow> sb_flush cf q; Some (q1, b) }
        else sb_write_back q b);
     q2 \<leftarrow> sb_feedback cf q1;
     Some (q2, b1) }"

fun sb_handle :: "store_buffer_request \<Rightarrow> store_buffer \<Rightarrow> store_buffer option" where
  "sb_handle (Sb_push x) q = Some (snd (fifo_push x q))"
| "sb_handle Sb_pop q = Some (snd (fifo_pop q))"
| "sb_handle (Sb_restore pack) q = Some (sb_restore pack q)"

definition sb_sync :: "store_buffer \<Rightarrow> store_buffer option" where
  "sb_sync q = drain sb_handle (sb_sync_request_q q) (q \<lparr> sb_sync_request_q := [] \<rparr>)"

subsection \<open>Slots\<close>

lemma sb_id_ring:
  "sb_check_id_valid q = id_live q" "sb_get_front_id q = id_front q" "sb_get_next_id q = id_next q"
  by (auto simp: fun_eq_iff sb_check_id_valid_def id_live_def sb_get_front_id_def id_front_def
    sb_get_next_id_def id_next_def Let_def)

interpretation sb_slots: id_ring fifo_ring fifo_ids sb_check_id_valid sb_get_front_id sb_get_next_id
  using id_ring_fifo by (simp add: sb_id_ring [abs_def])

lemma fold_break_contents:
  "(\<And>x s. x \<in> set (fifo_ids q) \<Longrightarrow> f x s = (False, g (buffer q ! x) s)) \<Longrightarrow>
    fold_break f (fifo_ids q) s = fold g (fifo_contents q) s"
  by (subst fold_break_no_break) (auto simp: fifo_contents_def fold_map comp_def)

text \<open>The forwarded value is the fold of the merge over the waiting stores, oldest first.\<close>

lemma feedback_value_fold:
  assumes "fifo_ring q"
  shows "sb_get_feedback_value addr sz v q = Some (fold (feedback_merge addr sz) (fifo_contents q) v)"
proof (cases "fifo_ids q = []")
  case True
  with assms show ?thesis by (simp add: sb_get_feedback_value_def sb_slots.front_id_hd fifo_contents_def)
next
  case False
  let ?f = "\<lambda>i r. (False, feedback_merge addr sz (buffer q ! i) r)"
  have "do_while (\<lambda>cur_id result. do {
              cur_item \<leftarrow> sb_get_item q cur_id;
              Some (False, feedback_merge addr sz cur_item result) })
            (\<lambda>result cur_id. sb_get_next_id q cur_id) (\<lambda>cur_id. cur_id = hd (fifo_ids q)) (hd (fifo_ids q)) v =
      Some (fold_break ?f (fifo_ids q) v)"
    by (rule sb_slots.walk [OF False, where I = "\<lambda>_. True" and queue = "\<lambda>_. q"])
      (use assms in \<open>simp_all add: sb_get_item_def sb_slots.valid_iff\<close>)
  then show ?thesis using False assms
    by (simp add: sb_get_feedback_value_def sb_slots.front_id_hd fold_break_contents)
qed

subsection \<open>Forwarding\<close>

text \<open>A store as a change of memory, and the stores the buffer may hold: 1, 2 or 4 bytes that do not reach the
  top of the address space.\<close>

definition put_store :: "store_buffer_item_t \<Rightarrow> (u32 \<Rightarrow> u8) \<Rightarrow> u32 \<Rightarrow> u8" where
  "put_store it = put_bytes (unat (sb_size it)) (sb_addr it) (sb_data it)"

definition store_ok :: "store_buffer_item_t \<Rightarrow> bool" where
  "store_ok it \<longleftrightarrow> unat (sb_size it) \<in> {1, 2, 4} \<and> unat (sb_addr it) + unat (sb_size it) < 2 ^ 32"

lemma feedback_bit_mask_bytes:
  assumes "l \<le> 4" "unat w = 8 * l"
  shows "feedback_bit_mask w = mask (8 * l)"
proof -
  have w: "w = of_nat (8 * l)" using assms(2) [symmetric] by simp
  consider "l = 0" | "l = 1" | "l = 2" | "l = 3" | "l = 4" using assms(1) by linarith
  then show ?thesis unfolding w feedback_bit_mask_def
    by cases (simp_all add: mask_eq_exp_minus_1)
qed

lemma unat_shift3: "unat (w :: u32) \<le> 4 \<Longrightarrow> unat (push_bit 3 w) = 8 * unat w"
  by (simp add: push_bit_eq_mult unat_word_ariths)

text \<open>The two branches of the merge on bits: a block of \<open>8 * l\<close> bits of the data replaces a block of the value.\<close>

lemma byte_of_merge_up:
  assumes "d + l \<le> 4" "k < 4"
  shows "byte_of (((r :: u32) AND NOT (push_bit (8 * d) (mask (8 * l)))) OR push_bit (8 * d) (v AND mask (8 * l))) k =
    (if d \<le> k \<and> k < d + l then byte_of v (k - d) else byte_of r k)"
proof (rule bit_word_eqI)
  fix n assume "n < LENGTH(8)"
  then have n: "n < 8" by simp
  have lt: "8 * k + n < 32" using n assms(2) by linarith
  have c: "8 * k + n - 8 * d < 8 * l \<longleftrightarrow> k < d + l" if "d \<le> k" using that n by linarith
  have e: "8 * d \<le> 8 * k + n \<longleftrightarrow> d \<le> k" using n by linarith
  have m: "8 * k + n - 8 * d = 8 * (k - d) + n" if "d \<le> k" using that by (simp add: diff_mult_distrib2)
  show "bit (byte_of ((r AND NOT (push_bit (8 * d) (mask (8 * l)))) OR push_bit (8 * d) (v AND mask (8 * l))) k) n =
      bit (if d \<le> k \<and> k < d + l then byte_of v (k - d) else byte_of r k) n"
    using n lt c e m
    by (cases "d \<le> k"; cases "k < d + l") (auto simp: byte_of_bit bit_simps)
qed

lemma byte_of_merge_down:
  assumes "l \<le> 4" "k < 4" "d + l \<le> 4"
  shows "byte_of (((r :: u32) AND NOT (mask (8 * l))) OR (drop_bit (8 * d) v AND mask (8 * l))) k =
    (if k < l then byte_of v (k + d) else byte_of r k)"
proof (rule bit_word_eqI)
  fix n assume "n < LENGTH(8)"
  then have n: "n < 8" by simp
  have lt: "8 * k + n < 32" using n assms(2) by linarith
  have c: "8 * k + n < 8 * l \<longleftrightarrow> k < l" using n by linarith
  show "bit (byte_of ((r AND NOT (mask (8 * l))) OR (drop_bit (8 * d) v AND mask (8 * l))) k) n =
      bit (if k < l then byte_of v (k + d) else byte_of r k) n"
    using n lt c by (cases "k < l") (auto simp: byte_of_bit bit_simps algebra_simps)
qed

lemma feedback_merge_byte:
  assumes it: "store_ok it" and n: "unat n \<in> {1, 2, 4}" "unat addr + unat n < 2 ^ 32" and k: "k < 4"
  shows "byte_of (feedback_merge addr n it r) k =
    (if k < unat n \<and> unat (sb_addr it) \<le> unat addr + k \<and> unat addr + k < unat (sb_addr it) + unat (sb_size it)
     then byte_of (sb_data it) (unat addr + k - unat (sb_addr it)) else byte_of r k)"
proof -
  let ?a = "unat addr" and ?n = "unat n" and ?b = "unat (sb_addr it)" and ?s = "unat (sb_size it)"
  have s: "?s \<in> {1, 2, 4}" "?b + ?s < 2 ^ 32" using it by (auto simp: store_ok_def)
  have an: "unat (addr + n) = ?a + ?n" using n by (simp add: unat_word_ariths)
  have bs: "unat (sb_addr it + sb_size it) = ?b + ?s" using s by (simp add: unat_word_ariths)
  have n4: "?n \<le> 4" "?s \<le> 4" using n s by auto
  have mn: "unat (min x y) = min (unat x) (unat y)" for x y :: u32
    by (simp add: min_def word_le_nat_alt)
  consider (up) "?a \<le> ?b" "?b < ?a + ?n" | (down) "?b < ?a" "?a < ?b + ?s" | (off) "?b \<ge> ?a + ?n \<or> ?b + ?s \<le> ?a"
    by linarith
  then show ?thesis
  proof cases
    case up
    define d where "d = ?b - ?a"
    define l where "l = min ?s (?a + ?n - ?b)"
    have dl: "d + l \<le> 4" "l \<le> 4" using up n4 by (auto simp: d_def l_def)
    have "unat (sb_addr it - addr) = d" using up by (simp add: unat_sub32 d_def)
    then have off: "unat (push_bit 3 (sb_addr it - addr)) = 8 * d" using dl by (simp add: unat_shift3)
    have "unat (min (sb_size it) (addr + n - sb_addr it)) = l" using up an by (simp add: mn unat_sub32 l_def)
    then have "unat (push_bit 3 (min (sb_size it) (addr + n - sb_addr it))) = 8 * l" using dl by (simp add: unat_shift3)
    then have msk: "feedback_bit_mask (push_bit 3 (min (sb_size it) (addr + n - sb_addr it))) = mask (8 * l)"
      using dl by (intro feedback_bit_mask_bytes)
    have c: "sb_addr it \<ge> addr \<and> sb_addr it < addr + n" using up an by (simp add: word_le_nat_alt word_less_nat_alt)
    have "byte_of (feedback_merge addr n it r) k =
        (if d \<le> k \<and> k < d + l then byte_of (sb_data it) (k - d) else byte_of r k)"
      using c k n4 byte_of_merge_up [OF dl(1), of k r "sb_data it"] by (simp add: feedback_merge_def Let_def off msk)
    then show ?thesis using up k by (auto simp: d_def l_def add.commute)
  next
    case down
    define d where "d = ?a - ?b"
    define l where "l = min ?n (?b + ?s - ?a)"
    have dl: "d + l \<le> 4" "l \<le> 4" using down n4 by (auto simp: d_def l_def)
    have "unat (addr - sb_addr it) = d" using down by (simp add: unat_sub32 d_def)
    then have off: "unat (push_bit 3 (addr - sb_addr it)) = 8 * d" using dl by (simp add: unat_shift3)
    have "unat (min n (sb_addr it + sb_size it - addr)) = l" using down bs by (simp add: mn unat_sub32 l_def)
    then have "unat (push_bit 3 (min n (sb_addr it + sb_size it - addr))) = 8 * l" using dl by (simp add: unat_shift3)
    then have msk: "feedback_bit_mask (push_bit 3 (min n (sb_addr it + sb_size it - addr))) = mask (8 * l)"
      using dl by (intro feedback_bit_mask_bytes)
    have c: "\<not> addr \<le> sb_addr it" "sb_addr it < addr \<and> sb_addr it + sb_size it > addr"
      using down bs by (simp_all add: word_le_nat_alt word_less_nat_alt)
    have "byte_of (feedback_merge addr n it r) k = (if k < l then byte_of (sb_data it) (k + d) else byte_of r k)"
      using c k n4 byte_of_merge_down [OF dl(2) _ dl(1), of k r "sb_data it"]
      by (simp add: feedback_merge_def Let_def off msk)
    then show ?thesis using down k by (auto simp: d_def l_def add.commute)
  next
    case off
    have c: "\<not> (sb_addr it \<ge> addr \<and> sb_addr it < addr + n)" "\<not> (sb_addr it < addr \<and> sb_addr it + sb_size it > addr)"
      using off an bs n s by (auto simp: word_le_nat_alt word_less_nat_alt)
    then have "feedback_merge addr n it r = r" by (simp only: feedback_merge_def if_False)
    with off k show ?thesis by auto
  qed
qed

lemma put_store_at:
  assumes "store_ok it" "unat addr + k < 2 ^ 32"
  shows "put_store it mem (addr + of_nat k) =
    (if unat (sb_addr it) \<le> unat addr + k \<and> unat addr + k < unat (sb_addr it) + unat (sb_size it)
     then byte_of (sb_data it) (unat addr + k - unat (sb_addr it)) else mem (addr + of_nat k))"
proof -
  have u: "unat (addr + of_nat k) = unat addr + k"
    using assms(2) by (simp add: unat_word_ariths unat_of_nat)
  show ?thesis using assms u by (auto simp: put_store_def put_bytes_def store_ok_def unat_sub32)
qed

text \<open>One store: if the value agrees with memory on the bytes of the load, it agrees after the store.\<close>

lemma feedback_fold_bytes:
  assumes "\<forall>it \<in> set items. store_ok it" and n: "unat n \<in> {1, 2, 4}" "unat addr + unat n < 2 ^ 32"
    and "\<forall>k < unat n. byte_of v k = mem (addr + of_nat k)"
  shows "\<forall>k < unat n. byte_of (fold (feedback_merge addr n) items v) k = fold put_store items mem (addr + of_nat k)"
  using assms(1,4)
proof (induction items arbitrary: v mem)
  case (Cons it items)
  have "byte_of (feedback_merge addr n it v) k = put_store it mem (addr + of_nat k)" if "k < unat n" for k
    using that Cons.prems n feedback_merge_byte [of it n addr k v] put_store_at [of it addr k mem] by auto
  with Cons.IH [of "feedback_merge addr n it v" "put_store it mem"] Cons.prems show ?case by simp
qed simp

text \<open>The bytes above the size of the load stay as they were.\<close>

lemma feedback_fold_high:
  assumes "\<forall>it \<in> set items. store_ok it" and n: "unat n \<in> {1, 2, 4}" "unat addr + unat n < 2 ^ 32"
    and "unat n \<le> k" "k < 4"
  shows "byte_of (fold (feedback_merge addr n) items v) k = byte_of v k"
  using assms(1)
proof (induction items arbitrary: v)
  case (Cons it items)
  then show ?case using feedback_merge_byte [of it n addr k v] n assms(4,5) by simp
qed simp

subsection \<open>The parts of \<open>run\<close>\<close>

lemma sync_queue_update [simp]:
  "fifo_ring (q \<lparr> sb_sync_request_q := r \<rparr>) = fifo_ring q" "fifo_inv (q \<lparr> sb_sync_request_q := r \<rparr>) = fifo_inv q"
  "fifo_contents (q \<lparr> sb_sync_request_q := r \<rparr>) = fifo_contents q"
  by (simp_all add: ring_simps fifo_contents_def fifo_ids_def)

text \<open>Rewriting every live slot rewrites the contents.\<close>

lemma fold_slots_buffer:
  "fold (\<lambda>x s. s \<lparr> buffer := (buffer s)[x := g (buffer s ! x)] \<rparr>) xs (q :: ('a, 'b) fifo_scheme) =
    q \<lparr> buffer := fold (\<lambda>x b. b[x := g (b ! x)]) xs (buffer q) \<rparr>"
  by (induction xs arbitrary: q) simp_all

lemma fold_slots_nth:
  "distinct xs \<Longrightarrow> (\<And>x. x \<in> set xs \<Longrightarrow> x < length b) \<Longrightarrow>
    length (fold (\<lambda>x b. b[x := g (b ! x)]) xs b) = length b \<and>
    fold (\<lambda>x b. b[x := g (b ! x)]) xs b ! i = (if i \<in> set xs then g (b ! i) else b ! i)"
proof (induction xs arbitrary: b)
  case (Cons x xs)
  from Cons.IH [of "b[x := g (b ! x)]"] Cons.prems show ?case by (auto simp: nth_list_update)
qed simp

lemma feedback_contents:
  assumes ring: "fifo_ring q"
  shows "\<exists>q1. sb_feedback cf q = Some q1 \<and> fifo_ring q1 \<and> fifo_inv q1 = fifo_inv q \<and>
    sb_sync_request_q q1 = sb_sync_request_q q \<and>
    fifo_contents q1 = (if cf_enable cf then map (mark_item cf) (fifo_contents q) else fifo_contents q)"
proof (cases "cf_enable cf \<and> fifo_ids q \<noteq> []")
  case False
  with ring show ?thesis by (auto simp: sb_feedback_def sb_slots.front_id_hd fifo_contents_def)
next
  case True
  let ?f = "\<lambda>i s. (False, s \<lparr> buffer := (buffer s)[i := mark_item cf (buffer s ! i)] \<rparr>)"
  let ?b = "fold (\<lambda>x b. b[x := mark_item cf (b ! x)]) (fifo_ids q) (buffer q)"
  have "do_while (\<lambda>cur_id q. do {
                cur_item \<leftarrow> sb_get_item q cur_id;
                q1 \<leftarrow> sb_set_item cur_id (mark_item cf cur_item) q;
                Some (False, q1) })
              sb_get_next_id (\<lambda>cur_id. cur_id = hd (fifo_ids q)) (hd (fifo_ids q)) q =
      Some (fold_break ?f (fifo_ids q) q)"
    by (rule sb_slots.walk [where I = "\<lambda>s. fifo_ring s \<and> fifo_ids s = fifo_ids q" and queue = "\<lambda>s. s"])
      (use True ring in \<open>simp_all add: sb_get_item_def sb_set_item_def sb_slots.valid_iff\<close>)
  also have "fold_break ?f (fifo_ids q) q = q \<lparr> buffer := ?b \<rparr>"
    by (subst fold_break_no_break, rule refl) (rule fold_slots_buffer)
  finally have run: "sb_feedback cf q = Some (q \<lparr> buffer := ?b \<rparr>)"
    using True ring by (simp add: sb_feedback_def sb_slots.front_id_hd)
  note sl = fold_slots_nth [OF ids_distinct [OF ring], of "buffer q" "mark_item cf"]
  have lt: "x < length (buffer q)" if "x \<in> set (fifo_ids q)" for x
    using that ids_less [OF ring that] fifo_ring_size [OF ring] by simp
  have "length ?b = length (buffer q)" using sl lt by blast
  moreover have "fifo_contents (q \<lparr> buffer := ?b \<rparr>) = map (mark_item cf) (fifo_contents q)"
    using sl lt by (simp add: fifo_contents_def)
  ultimately show ?thesis using run True ring by (simp add: ring_simps)
qed

lemma fold_break_search:
  "fold_break (\<lambda>x s. if P x then (False, s) else (True, Some x)) xs None =
    (case dropWhile P xs of [] \<Rightarrow> None | y # ys \<Rightarrow> Some y)"
  by (induction xs) auto

lemma ring_pos_live: "k < fifo_fill q \<Longrightarrow> fst (ring_pos q k) \<in> set (fifo_ids q)"
  by (auto simp: ring_pos_def fifo_ids_def intro!: image_eqI [where x = k])

lemma sb_next_position:
  assumes "fifo_ring q" "k < fifo_fill q"
  shows "sb_get_next_id_stage q (ring_pos q k) =
    Some (sb_check_id_valid q (fst (ring_pos q (Suc k))), ring_pos q (Suc k))"
proof -
  have "fst (ring_pos q k) \<in> set (fifo_ids q)" using assms(2) by (rule ring_pos_live)
  with assms ring_pos_Suc [OF assms] show ?thesis
    by (simp add: sb_get_next_id_stage_def case_prod_unfold Let_def sb_slots.valid_iff)
qed

lemma sb_positions_walk:
  assumes ring: "fifo_ring q" and ne: "\<not> fifo_is_empty q"
    and body: "\<And>x s. x \<in> set (fifo_positions q) \<Longrightarrow> body x s = Some (f x s)"
  shows "do_while body (\<lambda>s cur. sb_get_next_id_stage q cur) (\<lambda>(i, st). i = rptr q) (rptr q, rstage q) s =
    Some (fold_break f (fifo_positions q) s)"
proof -
  have fill: "0 < fifo_fill q" using ring ne by (simp add: is_empty_fill)
  have pne: "fifo_positions q \<noteq> []" using fill by (metis length_greater_0_conv positions_length)
  have hd: "hd (fifo_positions q) = (rptr q, rstage q)"
    using fill fifo_ring_size [OF ring] by (subst hd_conv_nth [OF pne]) (simp add: fifo_positions_def ring_pos_def)
  have nth: "fifo_positions q ! k = ring_pos q k" if "k < fifo_fill q" for k
    using that by (simp add: fifo_positions_def)
  have "do_while body (\<lambda>s cur. sb_get_next_id_stage q cur) (\<lambda>(i, st). i = rptr q) (hd (fifo_positions q)) s =
      Some (fold_break f (fifo_positions q) s)"
  proof (rule do_while_fold_break [OF pne, where I = "\<lambda>_. True"])
    fix i s assume "Suc i < length (fifo_positions q)"
    then have i: "Suc i < fifo_fill q" by simp
    have live: "fst (ring_pos q (Suc i)) \<in> set (fifo_ids q)" using i by (rule ring_pos_live)
    have "fifo_ids q ! Suc i \<noteq> fifo_ids q ! 0"
      using i ids_distinct [OF ring] by (subst nth_eq_iff_index_eq) auto
    then have "fst (ring_pos q (Suc i)) \<noteq> rptr q"
      using i fill fifo_ring_size [OF ring] by (simp add: ids_nth ring_pos_def)
    with sb_next_position [OF ring, of i] i live ring
    show "sb_get_next_id_stage q (fifo_positions q ! i) = Some (True, fifo_positions q ! Suc i) \<and>
        \<not> (case fifo_positions q ! Suc i of (i, st) \<Rightarrow> i = rptr q)"
      by (simp add: nth case_prod_unfold sb_slots.valid_iff)
  next
    fix s
    obtain m where m: "fifo_fill q = Suc m" using fill gr0_conv_Suc by blast
    then have "last (fifo_positions q) = ring_pos q m" using pne by (simp add: last_conv_nth nth)
    moreover have "fst (ring_pos q (Suc m)) = wptr q" using rptr_plus_fill [OF ring] m by (simp add: ring_pos_def)
    ultimately show "\<exists>ok y. sb_get_next_id_stage q (last (fifo_positions q)) = Some (ok, y) \<and>
        (ok \<longrightarrow> (case y of (i, st) \<Rightarrow> i = rptr q))"
      using sb_next_position [OF ring, of m] m wptr_live_full [OF ring] ring
      by (auto simp: case_prod_unfold sb_slots.valid_iff)
  qed (use body in auto)
  then show ?thesis by (simp add: hd)
qed

text \<open>The stores a flush keeps: the longest prefix of stores that are committed or commit in this cycle.\<close>

definition store_survives :: "commit_feedback_pack_t \<Rightarrow> store_buffer_item_t \<Rightarrow> bool" where
  "store_survives cf it \<longleftrightarrow> sb_committed it \<or> cf_enable cf \<and> cf_commits cf (sb_rob_id it)"

lemma flush_contents:
  assumes ring: "fifo_ring q"
  shows "\<exists>q1. sb_flush cf q = Some q1 \<and> fifo_ring q1 \<and> sb_sync_request_q q1 = [] \<and>
    fifo_contents q1 = takeWhile (store_survives cf) (fifo_contents q) \<and>
    pop_status_save q1 = pop_status_save q"
proof (cases "fifo_is_empty q")
  case True
  then have "fifo_contents q = []" using ring by (simp add: contents_Nil)
  with True ring show ?thesis by (simp add: sb_flush_def sb_get_front_id_stage_def)
next
  case False
  let ?P = "\<lambda>p. store_survives cf (buffer q ! fst p)"
  let ?f = "\<lambda>x s. if ?P x then (False, s) else (True, Some x)"
  let ?j = "length (takeWhile (store_survives cf) (fifo_contents q))"
  have con: "fifo_contents q = map (\<lambda>p. buffer q ! fst p) (fifo_positions q)"
    by (simp add: fifo_contents_def fifo_ids_def fifo_positions_def ring_pos_def)
  have body: "flush_search_body cf q x s = Some (?f x s)" if "x \<in> set (fifo_positions q)" for x s
  proof -
    have "fst x \<in> set (fifo_ids q)" using that by (auto simp: fifo_positions_def ring_pos_def fifo_ids_def)
    then show ?thesis using ring
      by (simp add: flush_search_body_def case_prod_unfold sb_get_item_def sb_slots.valid_iff store_survives_def)
  qed
  have j: "?j = length (takeWhile ?P (fifo_positions q))" by (simp add: con takeWhile_map comp_def)
  have jl: "?j \<le> fifo_fill q" by (metis contents_length length_takeWhile_le)
  have search: "fold_break ?f (fifo_positions q) None = (if ?j < fifo_fill q then Some (ring_pos q ?j) else None)"
  proof -
    have "dropWhile ?P (fifo_positions q) = drop ?j (fifo_positions q)" unfolding j by (rule dropWhile_eq_drop)
    also have "\<dots> = (if ?j < fifo_fill q then ring_pos q ?j # drop (Suc ?j) (fifo_positions q) else [])"
      by (auto simp: fifo_positions_def Cons_nth_drop_Suc [symmetric])
    finally show ?thesis by (simp add: fold_break_search)
  qed
  define q1 where "q1 = (if ?j < fifo_fill q
      then q \<lparr> wptr := fst (ring_pos q ?j), wstage := snd (ring_pos q ?j) \<rparr> else q)"
  have run: "sb_flush cf q = Some (q1 \<lparr> sb_sync_request_q := [] \<rparr>)"
    using False sb_positions_walk [where s = None, OF ring False body] search
    by (simp add: sb_flush_def sb_get_front_id_stage_def q1_def case_prod_unfold)
  have c: "fifo_ring q1 \<and> fifo_contents q1 = take ?j (fifo_contents q)"
  proof (cases "?j < fifo_fill q")
    case True
    with cut_at_position [OF ring jl] show ?thesis by (simp add: q1_def fifo_contents_def take_map)
  next
    case False
    with ring show ?thesis by (simp add: q1_def)
  qed
  have "take ?j (fifo_contents q) = takeWhile (store_survives cf) (fifo_contents q)"
    by (rule takeWhile_eq_take [symmetric])
  with run c show ?thesis by (simp add: q1_def)
qed

text \<open>The request with which a store goes to the bus, and that it means the same there.\<close>

definition store_request :: "store_buffer_item_t \<Rightarrow> bus_request" where
  "store_request it =
     (if sb_size it = 1 then Bus_write8 (sb_addr it) (ucast (sb_data it))
      else if sb_size it = 2 then Bus_write16 (sb_addr it) (ucast (sb_data it))
      else Bus_write32 (sb_addr it) (sb_data it))"

lemma byte_of_ucast: "8 * k + 8 \<le> LENGTH('b) \<Longrightarrow> byte_of (ucast (w :: u32) :: 'b :: len word) k = byte_of w k"
  by (rule bit_word_eqI) (auto simp: byte_of_bit bit_simps)

lemma put_bytes_cong: "(\<And>k. k < n \<Longrightarrow> byte_of v k = byte_of w k) \<Longrightarrow> put_bytes n a v = put_bytes n a w"
  by (auto simp: put_bytes_def fun_eq_iff)

lemma store_ok_size: "store_ok it \<Longrightarrow> sb_size it = 1 \<or> sb_size it = 2 \<or> sb_size it = 4"
proof -
  assume "store_ok it"
  then have "unat (sb_size it) = unat (1 :: u32) \<or> unat (sb_size it) = unat (2 :: u32) \<or> unat (sb_size it) = unat (4 :: u32)"
    by (auto simp: store_ok_def)
  then show ?thesis by (auto simp only: unsigned_word_eqI)
qed

lemma put_store_request: "store_ok it \<Longrightarrow> put_request (store_request it) = put_store it"
  using store_ok_size [of it]
  by (auto simp: store_request_def put_store_def byte_of_ucast intro!: put_bytes_cong)

lemma write_back_contents:
  assumes "fifo_ring q" "\<forall>it \<in> set (fifo_contents q). store_ok it"
  shows "\<exists>q1. sb_write_back q b = Some (q1, b \<lparr> bus_sync_request_q := bus_sync_request_q b @
      (case fifo_contents q of [] \<Rightarrow> [] | it # rest \<Rightarrow> if sb_committed it then [store_request it] else []) \<rparr>) \<and>
    fifo_ring q1 \<and> sb_sync_request_q q1 = sb_sync_request_q q \<and>
    fifo_contents q1 = (case fifo_contents q of [] \<Rightarrow> [] | it # rest \<Rightarrow> if sb_committed it then rest else it # rest)"
proof (cases "fifo_contents q")
  case Nil
  with assms(1) show ?thesis by (simp add: sb_write_back_def get_front_contents)
next
  case (Cons it rest)
  have sz: "sb_size it = 1 \<or> sb_size it = 2 \<or> sb_size it = 4" using store_ok_size assms(2) Cons by simp
  have front: "fifo_get_front q = Some it" using assms(1) Cons by (simp add: get_front_contents)
  have sq: "sb_sync_request_q (snd (fifo_pop q)) = sb_sync_request_q q" by (simp add: fifo_pop_def Let_def)
  show ?thesis
  proof (cases "sb_committed it")
    case True
    then have "sb_write_back q b = Some (snd (fifo_pop q),
        b \<lparr> bus_sync_request_q := bus_sync_request_q b @ [store_request it] \<rparr>)"
      using sz front by (auto simp: sb_write_back_def store_request_def bus_write8_sync_def bus_write16_sync_def
        bus_write32_sync_def)
    with True Cons assms(1) sq show ?thesis by (auto simp: pop_ring pop_contents)
  next
    case False
    with front assms(1) Cons show ?thesis by (simp add: sb_write_back_def)
  qed
qed

subsection \<open>Properties\<close>

lemma mark_item_same [simp]: "put_store (mark_item cf it) = put_store it" "store_ok (mark_item cf it) = store_ok it"
    "store_request (mark_item cf it) = store_request it"
  by (simp_all add: mark_item_def put_store_def store_ok_def store_request_def)

lemma mark_committed: "cf_enable cf \<Longrightarrow> sb_committed (mark_item cf it) = store_survives cf it"
  by (simp add: mark_item_def store_survives_def)

lemma fold_put_mark: "fold put_store (map (mark_item cf) its) = fold put_store its"
  by (simp add: fold_map comp_def)

definition sample_store :: "bool \<Rightarrow> nat \<Rightarrow> u32 \<Rightarrow> u32 \<Rightarrow> u32 \<Rightarrow> store_buffer_item_t" where
  "sample_store committed rid a d n = \<lparr> sb_enable = True, sb_committed = committed, sb_rob_id = rid, sb_pc = 0,
     sb_addr = a, sb_data = d, sb_size = n \<rparr>"

definition sample_stores :: store_buffer where
  "sample_stores = snd (fifo_push (sample_store False 7 0x80000005 0xAB 1)
     (snd (fifo_push (sample_store True 6 0x80000004 0x11223344 4)
        (sb_new 4 (replicate 4 (sample_store False 0 0 0 1)) 0 False))))"

lemma sample_stores_ok:
  "fifo_ring sample_stores"
  "fifo_contents sample_stores = [sample_store True 6 0x80000004 0x11223344 4, sample_store False 7 0x80000005 0xAB 1]"
  by code_simp+

text \<open>C2: A load sees the older stores: laying the waiting stores over the value read from the bus gives, for
  every byte of the load, the byte memory would hold had all waiting stores been written to it in order.\<close>

theorem load_sees_waiting_stores:
  assumes "fifo_ring q" "\<forall>it \<in> set (fifo_contents q). store_ok it"
    and "unat n \<in> {1, 2, 4}" "unat addr + unat n < 2 ^ 32"
    and "\<forall>k < unat n. byte_of bus_value k = mem (addr + of_nat k)"
  shows "\<exists>v. sb_get_feedback_value addr n bus_value q = Some v \<and>
    (\<forall>k < unat n. byte_of v k = fold put_store (fifo_contents q) mem (addr + of_nat k))"
  using feedback_value_fold [OF assms(1)] feedback_fold_bytes [OF assms(2-5)] by simp

theorem load_sees_waiting_stores_witness:
  "\<exists>v. sb_get_feedback_value 0x80000004 4 0 sample_stores = Some v \<and>
    byte_of v 0 = 0x44 \<and> byte_of v 1 = 0xAB \<and> byte_of v 2 = 0x22 \<and> byte_of v 3 = 0x11"
proof -
  have ok: "\<forall>it \<in> set (fifo_contents sample_stores). store_ok it"
    by (simp add: sample_stores_ok store_ok_def sample_store_def)
  obtain v where v: "sb_get_feedback_value 0x80000004 4 0 sample_stores = Some v"
    "\<And>k. k < 4 \<Longrightarrow> byte_of v k = fold put_store (fifo_contents sample_stores) (\<lambda>_. 0) (0x80000004 + of_nat k)"
    using load_sees_waiting_stores [OF sample_stores_ok(1) ok, of 4 "0x80000004" 0 "\<lambda>_. 0"]
    by (auto simp: byte_of_def)
  have "byte_of v 0 = 0x44" "byte_of v 1 = 0xAB" "byte_of v 2 = 0x22" "byte_of v 3 = 0x11"
    by (simp_all add: v(2))
      (simp_all add: sample_stores_ok sample_store_def put_store_def put_bytes_def byte_of_def unat_gt_0)
  with v(1) show ?thesis by blast
qed

text \<open>The specification of a cycle on the list of waiting stores: those that go to the bus and those that stay.\<close>

definition stores_sent :: "commit_feedback_pack_t \<Rightarrow> store_buffer_item_t list \<Rightarrow> store_buffer_item_t list" where
  "stores_sent cf its = (if cf_flushing cf then [] else
     case its of [] \<Rightarrow> [] | it # rest \<Rightarrow> if sb_committed it then [it] else [])"

definition stores_kept :: "commit_feedback_pack_t \<Rightarrow> store_buffer_item_t list \<Rightarrow> store_buffer_item_t list" where
  "stores_kept cf its =
     (if cf_flushing cf then takeWhile (store_survives cf) its else drop (length (stores_sent cf its)) its)"

lemma run_contents:
  assumes "fifo_ring q" "\<forall>it \<in> set (fifo_contents q). store_ok it"
  shows "\<exists>q1. sb_run cf q b = Some (q1, b \<lparr> bus_sync_request_q :=
      bus_sync_request_q b @ map store_request (stores_sent cf (fifo_contents q)) \<rparr>) \<and>
    fifo_ring q1 \<and>
    fifo_contents q1 = (if cf_enable cf then map (mark_item cf) (stores_kept cf (fifo_contents q))
      else stores_kept cf (fifo_contents q)) \<and>
    sb_sync_request_q q1 = (if cf_flushing cf then [] else sb_sync_request_q q)"
proof (cases "cf_flushing cf")
  case True
  obtain q1 where q1: "sb_flush cf q = Some q1" "fifo_ring q1" "sb_sync_request_q q1 = []"
    "fifo_contents q1 = takeWhile (store_survives cf) (fifo_contents q)"
    using flush_contents [OF assms(1)] by blast
  with feedback_contents [OF q1(2), of cf] True show ?thesis
    by (auto simp: sb_run_def cf_flushing_def stores_sent_def stores_kept_def)
next
  case False
  let ?sent = "stores_sent cf (fifo_contents q)"
  have "drop (length ?sent) (fifo_contents q) =
      (case fifo_contents q of [] \<Rightarrow> [] | it # rest \<Rightarrow> if sb_committed it then rest else it # rest)"
    using False by (auto simp: stores_sent_def split: list.splits)
  moreover have "map store_request ?sent =
      (case fifo_contents q of [] \<Rightarrow> [] | it # rest \<Rightarrow> if sb_committed it then [store_request it] else [])"
    using False by (auto simp: stores_sent_def split: list.splits)
  ultimately obtain q1 where q1: "sb_write_back q b =
      Some (q1, b \<lparr> bus_sync_request_q := bus_sync_request_q b @ map store_request ?sent \<rparr>)"
    "fifo_ring q1" "sb_sync_request_q q1 = sb_sync_request_q q" "fifo_contents q1 = stores_kept cf (fifo_contents q)"
    using write_back_contents [OF assms(1,2), of b] False by (auto simp: stores_kept_def)
  with feedback_contents [OF q1(2), of cf] False show ?thesis
    by (auto simp: sb_run_def cf_flushing_def)
qed

text \<open>C18: What a cycle does to the buffer. In a flush the longest prefix of stores that are committed, or
  commit in this very cycle, stays, pending requests are dropped and nothing goes to the bus. Otherwise the
  oldest store goes to the bus exactly if it is committed. Then the stores that commit are marked; order
  and content of the others do not change.\<close>

theorem sb_run_contents:
  assumes "fifo_ring q" "\<forall>it \<in> set (fifo_contents q). store_ok it"
  shows "\<exists>q1. sb_run cf q b = Some (q1, b \<lparr> bus_sync_request_q :=
      bus_sync_request_q b @ map store_request (stores_sent cf (fifo_contents q)) \<rparr>) \<and>
    fifo_ring q1 \<and>
    fifo_contents q1 = (if cf_enable cf then map (mark_item cf) (stores_kept cf (fifo_contents q))
      else stores_kept cf (fifo_contents q)) \<and>
    sb_sync_request_q q1 = (if cf_flushing cf then [] else sb_sync_request_q q)"
  using assms by (rule run_contents)

lemma sample_commits [simp]: "cf_commits (sample_commit_feedback fl) i = False"
  by (auto simp: cf_commits_def sample_commit_feedback_def list_ex_iff)

theorem sb_run_contents_witness:
  "\<exists>q1. sb_run (sample_commit_feedback True) sample_stores bus_new = Some (q1, bus_new) \<and>
    fifo_contents q1 = [sample_store True 6 0x80000004 0x11223344 4]"
proof -
  have ok: "\<forall>it \<in> set (fifo_contents sample_stores). store_ok it"
    by (simp add: sample_stores_ok store_ok_def sample_store_def)
  from sb_run_contents [OF sample_stores_ok(1) ok, of "sample_commit_feedback True" bus_new]
  show ?thesis
    by (auto simp: sample_stores_ok cf_flushing_def stores_sent_def stores_kept_def store_survives_def mark_item_def sample_store_def bus_new_def)
      (auto simp: sample_commit_feedback_def)
qed

lemma sent_kept:
  "stores_sent cf its @ takeWhile (store_survives cf) (stores_kept cf its) = takeWhile (store_survives cf) its"
proof (cases "cf_flushing cf")
  case True
  then show ?thesis by (simp add: stores_sent_def stores_kept_def takeWhile_takeWhile)
next
  case False
  then show ?thesis by (cases its) (simp_all add: stores_sent_def stores_kept_def, simp add: store_survives_def)
qed

lemma takeWhile_marked:
  fixes cf kept
  defines "its \<equiv> (if cf_enable cf then map (mark_item cf) kept else kept)"
  shows "map store_request (takeWhile sb_committed its) = map store_request (takeWhile (store_survives cf) kept)"
    and "fold put_store (takeWhile sb_committed its) = fold put_store (takeWhile (store_survives cf) kept)"
proof -
  have "takeWhile sb_committed its = (if cf_enable cf then map (mark_item cf) (takeWhile (store_survives cf) kept)
      else takeWhile (store_survives cf) kept)"
  proof (cases "cf_enable cf")
    case False
    then have "store_survives cf = sb_committed" by (simp add: store_survives_def fun_eq_iff)
    with False show ?thesis by (simp add: its_def)
  qed (simp add: its_def takeWhile_map comp_def mark_committed)
  then show "map store_request (takeWhile sb_committed its) = map store_request (takeWhile (store_survives cf) kept)"
    "fold put_store (takeWhile sb_committed its) = fold put_store (takeWhile (store_survives cf) kept)"
    by (simp_all add: fold_put_mark)
qed

lemma fold_put_requests: "\<forall>it \<in> set its. store_ok it \<Longrightarrow> fold put_request (map store_request its) f = fold put_store its f"
  by (induction its arbitrary: f) (simp_all add: put_store_request)

text \<open>The memory of the committed stores: those on their way to the bus, then the committed prefix of the
  buffer, over what the bus already holds.\<close>

definition committed_memory :: "store_buffer \<Rightarrow> bus \<Rightarrow> u32 \<Rightarrow> u8" where
  "committed_memory q b =
     fold put_store (takeWhile sb_committed (fifo_contents q)) (fold put_request (bus_sync_request_q b) (bus_view b))"

text \<open>C1: No committed store is lost, repeated or reordered. The writes that wait on the bus followed by those of the committed
  prefix of the buffer are, as a list, the same after a cycle as before it, with the stores that commit in this cycle added at the
  end: a write back moves one store from the buffer to the bus, a flush drops none of them. So the memory of the committed stores
  is the earlier one with these stores applied in order.\<close>

theorem committed_memory_advances:
  assumes "fifo_ring q" "\<forall>it \<in> set (fifo_contents q). store_ok it"
  shows "\<exists>q1 b1. sb_run cf q b = Some (q1, b1) \<and>
    bus_sync_request_q b1 @ map store_request (takeWhile sb_committed (fifo_contents q1)) =
      bus_sync_request_q b @ map store_request (takeWhile (store_survives cf) (fifo_contents q)) \<and>
    committed_memory q1 b1 = fold put_store (takeWhile (store_survives cf) (fifo_contents q))
      (fold put_request (bus_sync_request_q b) (bus_view b))"
proof -
  define sent where "sent = stores_sent cf (fifo_contents q)"
  define kept where "kept = stores_kept cf (fifo_contents q)"
  obtain q1 where q1: "sb_run cf q b =
      Some (q1, b \<lparr> bus_sync_request_q := bus_sync_request_q b @ map store_request sent \<rparr>)"
    "fifo_contents q1 = (if cf_enable cf then map (mark_item cf) kept else kept)"
    using run_contents [OF assms, of cf b] by (auto simp: sent_def kept_def)
  have split: "sent @ takeWhile (store_survives cf) kept = takeWhile (store_survives cf) (fifo_contents q)"
    unfolding sent_def kept_def by (rule sent_kept)
  note marks = takeWhile_marked [of cf kept, folded q1(2)]
  have ok: "\<forall>it \<in> set (sent @ takeWhile (store_survives cf) kept). store_ok it"
    unfolding split using assms(2) by (auto dest: set_takeWhileD)
  then have "fold put_store (takeWhile (store_survives cf) kept) (fold put_request (map store_request sent) f) =
      fold put_store (takeWhile (store_survives cf) (fifo_contents q)) f" for f
    unfolding split [symmetric] by (simp add: fold_put_requests)
  moreover have "map store_request sent @ map store_request (takeWhile (store_survives cf) kept) =
      map store_request (takeWhile (store_survives cf) (fifo_contents q))" unfolding split [symmetric] by simp
  ultimately show ?thesis using q1(1) marks by (simp add: committed_memory_def)
qed

theorem committed_memory_advances_witness:
  "\<exists>q1 b1. sb_run (sample_commit_feedback True) sample_stores sample_bus = Some (q1, b1) \<and>
    committed_memory q1 b1 0x80000005 = 0x33"
proof -
  have ok: "\<forall>it \<in> set (fifo_contents sample_stores). store_ok it"
    by (simp add: sample_stores_ok store_ok_def sample_store_def)
  have st: "store_survives (sample_commit_feedback True) (sample_store c r a d n) = c" for c r a d n
    by (simp add: store_survives_def sample_store_def)
  obtain q1 b1 where r: "sb_run (sample_commit_feedback True) sample_stores sample_bus = Some (q1, b1)"
    "committed_memory q1 b1 = put_store (sample_store True 6 0x80000004 0x11223344 4)
      (fold put_request (bus_sync_request_q sample_bus) (bus_view sample_bus))"
    using committed_memory_advances [OF sample_stores_ok(1) ok, of "sample_commit_feedback True" sample_bus]
    by (auto simp: sample_stores_ok st)
  have "committed_memory q1 b1 0x80000005 = 0x33"
    by (simp add: r(2) put_store_def put_bytes_def sample_store_def byte_of_def)
  with r(1) show ?thesis by blast
qed

end
