(* ===== verification/Decode.thy ===== *)
theory Decode
  imports Pipeline_Types Perf
begin

text \<open>
  \<open>pipeline/decode.cpp\<close>: the decode stage takes up to \<open>DECODE_WIDTH\<close> fetched words from its input queue,
  decodes each into a \<open>decode_rename_pack_t\<close> and puts it into its output queue.
\<close>

subsection \<open>The decoder\<close>

text \<open>The fields of an instruction word, lines 180 to 191.\<close>

record inst_fields =
  opcode :: u32
  rd_f :: u32
  funct3 :: u32
  rs1_f :: u32
  rs2_f :: u32
  funct7 :: u32
  imm_i :: u32
  imm_s :: u32
  imm_b :: u32
  imm_u :: u32
  imm_j :: u32
  fm_f :: u32

definition decode_fields :: "u32 \<Rightarrow> inst_fields" where
  "decode_fields op_data =
     \<lparr> opcode = op_data AND 0x7f,
       rd_f = drop_bit 7 op_data AND 0x1f,
       funct3 = drop_bit 12 op_data AND 0x07,
       rs1_f = drop_bit 15 op_data AND 0x1f,
       rs2_f = drop_bit 20 op_data AND 0x1f,
       funct7 = drop_bit 25 op_data AND 0x7f,
       imm_i = drop_bit 20 op_data AND 0xfff,
       imm_s = (drop_bit 7 op_data AND 0x1f) OR push_bit 5 (drop_bit 25 op_data AND 0x7f),
       imm_b = push_bit 1 (drop_bit 8 op_data AND 0x0f) OR push_bit 5 (drop_bit 25 op_data AND 0x3f) OR
         push_bit 11 (drop_bit 7 op_data AND 0x01) OR push_bit 12 (drop_bit 31 op_data AND 0x01),
       imm_u = op_data AND NOT 0xfff,
       imm_j = push_bit 12 (drop_bit 12 op_data AND 0xff) OR push_bit 11 (drop_bit 20 op_data AND 0x01) OR
         push_bit 1 (drop_bit 21 op_data AND 0x3ff) OR push_bit 20 (drop_bit 31 op_data AND 0x01),
       fm_f = drop_bit 28 op_data AND 0x0f \<rparr>"

text \<open>What the branches set together: the operation and the union member.\<close>

definition set_op :: "op_t \<Rightarrow> sub_op_t \<Rightarrow> decode_rename_pack_t \<Rightarrow> decode_rename_pack_t" where
  "set_op x y d = d \<lparr> o_op := x, o_sub_op := y \<rparr>"

definition set_unit_op :: "op_t \<Rightarrow> op_unit_t \<Rightarrow> sub_op_t \<Rightarrow> decode_rename_pack_t \<Rightarrow> decode_rename_pack_t" where
  "set_unit_op x u y d = d \<lparr> o_op := x, o_op_unit := u, o_sub_op := y \<rparr>"

definition set_invalid :: "decode_rename_pack_t \<Rightarrow> decode_rename_pack_t" where
  "set_invalid d = d \<lparr> o_valid := False \<rparr>"

definition decode_upper :: "inst_fields \<Rightarrow> op_t \<Rightarrow> op_unit_t \<Rightarrow> sub_op_t \<Rightarrow> u32 \<Rightarrow> decode_rename_pack_t \<Rightarrow> decode_rename_pack_t" where
  "decode_upper f x u y im d = (set_unit_op x u y d) \<lparr> o_arg1_src := Src_disable, o_arg2_src := Src_disable,
     o_imm := im, o_rd := unat (rd_f f), o_rd_enable := True \<rparr>"

definition decode_jalr :: "inst_fields \<Rightarrow> u32 \<Rightarrow> decode_rename_pack_t \<Rightarrow> decode_rename_pack_t" where
  "decode_jalr f im d = (set_unit_op Op_jalr Unit_bru (Sub_bru Bru_jalr) d) \<lparr> o_arg1_src := Src_reg,
     o_rs1 := unat (rs1_f f), o_arg2_src := Src_disable, o_imm := im,
     o_rd := unat (rd_f f), o_rd_enable := True \<rparr>"

definition decode_branch :: "inst_fields \<Rightarrow> u32 \<Rightarrow> decode_rename_pack_t \<Rightarrow> decode_rename_pack_t" where
  "decode_branch f im d0 =
     (let d = d0 \<lparr> o_op_unit := Unit_bru, o_arg1_src := Src_reg, o_rs1 := unat (rs1_f f), o_arg2_src := Src_reg,
            o_rs2 := unat (rs2_f f), o_imm := im \<rparr>
      in if funct3 f = 0 then set_op Op_beq (Sub_bru Bru_beq) d
      else if funct3 f = 1 then set_op Op_bne (Sub_bru Bru_bne) d
      else if funct3 f = 4 then set_op Op_blt (Sub_bru Bru_blt) d
      else if funct3 f = 5 then set_op Op_bge (Sub_bru Bru_bge) d
      else if funct3 f = 6 then set_op Op_bltu (Sub_bru Bru_bltu) d
      else if funct3 f = 7 then set_op Op_bgeu (Sub_bru Bru_bgeu) d
      else set_invalid d)"

definition decode_load :: "inst_fields \<Rightarrow> u32 \<Rightarrow> decode_rename_pack_t \<Rightarrow> decode_rename_pack_t" where
  "decode_load f im d0 =
     (let d = d0 \<lparr> o_op_unit := Unit_lsu, o_arg1_src := Src_reg, o_rs1 := unat (rs1_f f), o_arg2_src := Src_disable,
            o_imm := im, o_rd := unat (rd_f f), o_rd_enable := True \<rparr>
      in if funct3 f = 0 then set_op Op_lb (Sub_lsu Lsu_lb) d
      else if funct3 f = 1 then set_op Op_lh (Sub_lsu Lsu_lh) d
      else if funct3 f = 2 then set_op Op_lw (Sub_lsu Lsu_lw) d
      else if funct3 f = 4 then set_op Op_lbu (Sub_lsu Lsu_lbu) d
      else if funct3 f = 5 then set_op Op_lhu (Sub_lsu Lsu_lhu) d
      else set_invalid d)"

definition decode_store :: "inst_fields \<Rightarrow> u32 \<Rightarrow> decode_rename_pack_t \<Rightarrow> decode_rename_pack_t" where
  "decode_store f im d0 =
     (let d = d0 \<lparr> o_op_unit := Unit_lsu, o_arg1_src := Src_reg, o_rs1 := unat (rs1_f f), o_arg2_src := Src_reg,
            o_rs2 := unat (rs2_f f), o_imm := im \<rparr>
      in if funct3 f = 0 then set_op Op_sb (Sub_lsu Lsu_sb) d
      else if funct3 f = 1 then set_op Op_sh (Sub_lsu Lsu_sh) d
      else if funct3 f = 2 then set_op Op_sw (Sub_lsu Lsu_sw) d
      else set_invalid d)"

definition decode_op_imm :: "inst_fields \<Rightarrow> u32 \<Rightarrow> decode_rename_pack_t \<Rightarrow> decode_rename_pack_t" where
  "decode_op_imm f im d0 =
     (let d = d0 \<lparr> o_op_unit := Unit_alu, o_arg1_src := Src_reg, o_rs1 := unat (rs1_f f), o_arg2_src := Src_imm,
            o_imm := im, o_rd := unat (rd_f f), o_rd_enable := True \<rparr>
      in if funct3 f = 0 then set_op Op_addi (Sub_alu Alu_add) d
      else if funct3 f = 2 then set_op Op_slti (Sub_alu Alu_slt) d
      else if funct3 f = 3 then set_op Op_sltiu (Sub_alu Alu_sltu) d
      else if funct3 f = 4 then set_op Op_xori (Sub_alu Alu_xor) d
      else if funct3 f = 6 then set_op Op_ori (Sub_alu Alu_or) d
      else if funct3 f = 7 then set_op Op_andi (Sub_alu Alu_and) d
      else if funct3 f = 1 then
        if funct7 f = 0 then set_op Op_slli (Sub_alu Alu_sll) d else set_invalid d
      else if funct3 f = 5 then
        if funct7 f = 0 then set_op Op_srli (Sub_alu Alu_srl) d
        else if funct7 f = 0x20 then set_op Op_srai (Sub_alu Alu_sra) d
        else set_invalid d
      else set_invalid d)"

definition decode_op_reg :: "inst_fields \<Rightarrow> decode_rename_pack_t \<Rightarrow> decode_rename_pack_t" where
  "decode_op_reg f d0 =
     (let d = d0 \<lparr> o_op_unit := Unit_alu, o_arg1_src := Src_reg, o_rs1 := unat (rs1_f f), o_arg2_src := Src_reg,
            o_rs2 := unat (rs2_f f), o_rd := unat (rd_f f), o_rd_enable := True \<rparr>
      in if funct3 f = 0 then
        if funct7 f = 0 then set_op Op_add (Sub_alu Alu_add) d
        else if funct7 f = 0x20 then set_op Op_sub (Sub_alu Alu_sub) d
        else if funct7 f = 1 then set_unit_op Op_mul Unit_mul (Sub_mul Mul_mul) d
        else set_invalid d
      else if funct3 f = 1 then
        if funct7 f = 0 then set_op Op_sll (Sub_alu Alu_sll) d
        else if funct7 f = 1 then set_unit_op Op_mulh Unit_mul (Sub_mul Mul_mulh) d
        else set_invalid d
      else if funct3 f = 2 then
        if funct7 f = 0 then set_op Op_slt (Sub_alu Alu_slt) d
        else if funct7 f = 1 then set_unit_op Op_mulhsu Unit_mul (Sub_mul Mul_mulhsu) d
        else set_invalid d
      else if funct3 f = 3 then
        if funct7 f = 0 then set_op Op_sltu (Sub_alu Alu_sltu) d
        else if funct7 f = 1 then set_unit_op Op_mulhu Unit_mul (Sub_mul Mul_mulhu) d
        else set_invalid d
      else if funct3 f = 4 then
        if funct7 f = 0 then set_op Op_xor (Sub_alu Alu_xor) d
        else if funct7 f = 1 then set_unit_op Op_div Unit_div (Sub_div Div_div) d
        else set_invalid d
      else if funct3 f = 5 then
        if funct7 f = 0 then set_op Op_srl (Sub_alu Alu_srl) d
        else if funct7 f = 0x20 then set_op Op_sra (Sub_alu Alu_sra) d
        else if funct7 f = 1 then set_unit_op Op_divu Unit_div (Sub_div Div_divu) d
        else set_invalid d
      else if funct3 f = 6 then
        if funct7 f = 0 then set_op Op_or (Sub_alu Alu_or) d
        else if funct7 f = 1 then set_unit_op Op_rem Unit_div (Sub_div Div_rem) d
        else set_invalid d
      else if funct3 f = 7 then
        if funct7 f = 0 then set_op Op_and (Sub_alu Alu_and) d
        else if funct7 f = 1 then set_unit_op Op_remu Unit_div (Sub_div Div_remu) d
        else set_invalid d
      else set_invalid d)"

definition decode_fence :: "inst_fields \<Rightarrow> decode_rename_pack_t \<Rightarrow> decode_rename_pack_t" where
  "decode_fence f d =
     (if funct3 f = 0 then
        if rd_f f = 0 \<and> rs1_f f = 0 \<and> fm_f f = 0 then
          (set_unit_op Op_fence Unit_alu (Sub_alu Alu_fence) d)
            \<lparr> o_arg1_src := Src_disable, o_arg2_src := Src_disable, o_imm := imm_i f \<rparr>
        else set_invalid d
      else if funct3 f = 1 then
        if rd_f f = 0 \<and> rs1_f f = 0 \<and> imm_i f = 0 then
          (set_unit_op Op_fence_i Unit_alu (Sub_alu Alu_fence_i) d)
            \<lparr> o_arg1_src := Src_disable, o_arg2_src := Src_disable \<rparr>
        else set_invalid d
      else set_invalid d)"

definition decode_csr_reg :: "inst_fields \<Rightarrow> op_t \<Rightarrow> csr_op_t \<Rightarrow> decode_rename_pack_t \<Rightarrow> decode_rename_pack_t" where
  "decode_csr_reg f x y d = (set_unit_op x Unit_csr (Sub_csr y) d) \<lparr> o_arg1_src := Src_reg, o_rs1 := unat (rs1_f f),
     o_arg2_src := Src_disable, o_csr := imm_i f, o_rd := unat (rd_f f), o_rd_enable := True \<rparr>"

definition decode_csr_imm :: "inst_fields \<Rightarrow> op_t \<Rightarrow> csr_op_t \<Rightarrow> decode_rename_pack_t \<Rightarrow> decode_rename_pack_t" where
  "decode_csr_imm f x y d = (set_unit_op x Unit_csr (Sub_csr y) d) \<lparr> o_arg1_src := Src_imm, o_imm := rs1_f f,
     o_arg2_src := Src_disable, o_csr := imm_i f, o_rd := unat (rd_f f), o_rd_enable := True \<rparr>"

definition decode_system :: "inst_fields \<Rightarrow> decode_rename_pack_t \<Rightarrow> decode_rename_pack_t" where
  "decode_system f d =
     (let no_args = (\<lambda>d. d \<lparr> o_arg1_src := Src_disable, o_arg2_src := Src_disable \<rparr>)
      in if funct3 f = 0 then
        if rd_f f = 0 \<and> rs1_f f = 0 then
          if funct7 f = 0 then
            if rs2_f f = 0 then no_args (set_unit_op Op_ecall Unit_alu (Sub_alu Alu_ecall) d)
            else if rs2_f f = 1 then no_args (set_unit_op Op_ebreak Unit_alu (Sub_alu Alu_ebreak) d)
            else set_invalid d
          else if funct7 f = 0x18 then
            if rs2_f f = 2 then no_args (set_unit_op Op_mret Unit_bru (Sub_bru Bru_mret) d)
            else set_invalid d
          else set_invalid d
        else set_invalid d
      else if funct3 f = 1 then decode_csr_reg f Op_csrrw Csr_csrrw d
      else if funct3 f = 2 then decode_csr_reg f Op_csrrs Csr_csrrs d
      else if funct3 f = 3 then decode_csr_reg f Op_csrrc Csr_csrrc d
      else if funct3 f = 5 then decode_csr_imm f Op_csrrwi Csr_csrrw d
      else if funct3 f = 6 then decode_csr_imm f Op_csrrsi Csr_csrrs d
      else if funct3 f = 7 then decode_csr_imm f Op_csrrci Csr_csrrc d
      else set_invalid d)"

definition decode_switch :: "inst_fields \<Rightarrow> decode_rename_pack_t \<Rightarrow> decode_rename_pack_t option" where
  "decode_switch f d =
     (if opcode f = 0x37 then Some (decode_upper f Op_lui Unit_alu (Sub_alu Alu_lui) (imm_u f) d)
      else if opcode f = 0x17 then Some (decode_upper f Op_auipc Unit_alu (Sub_alu Alu_auipc) (imm_u f) d)
      else if opcode f = 0x6f then do {
        im \<leftarrow> sign_extend (imm_j f) 21; Some (decode_upper f Op_jal Unit_bru (Sub_bru Bru_jal) im d) }
      else if opcode f = 0x67 then do { im \<leftarrow> sign_extend (imm_i f) 12; Some (decode_jalr f im d) }
      else if opcode f = 0x63 then do { im \<leftarrow> sign_extend (imm_b f) 13; Some (decode_branch f im d) }
      else if opcode f = 0x03 then do { im \<leftarrow> sign_extend (imm_i f) 12; Some (decode_load f im d) }
      else if opcode f = 0x23 then do { im \<leftarrow> sign_extend (imm_s f) 12; Some (decode_store f im d) }
      else if opcode f = 0x13 then do { im \<leftarrow> sign_extend (imm_i f) 12; Some (decode_op_imm f im d) }
      else if opcode f = 0x33 then Some (decode_op_reg f d)
      else if opcode f = 0x0f then Some (decode_fence f d)
      else if opcode f = 0x73 then Some (decode_system f d)
      else Some (set_invalid d))"

text \<open>The lines after the switch.\<close>

definition decode_finish :: "fetch_decode_pack_t \<Rightarrow> decode_rename_pack_t \<Rightarrow> decode_rename_pack_t" where
  "decode_finish rev_pack d =
     d \<lparr> o_rs1_need_map := o_arg1_src d = Src_reg \<and> o_rs1 d > 0,
         o_rs2_need_map := o_arg2_src d = Src_reg \<and> o_rs2 d > 0,
         o_need_rename := o_rd_enable d \<and> o_rd d > 0,
         o_value := fd_value rev_pack,
         o_has_exception := fd_has_exception rev_pack,
         o_exception_id := fd_exception_id rev_pack,
         o_exception_value := fd_exception_value rev_pack,
         o_predicted := fd_predicted rev_pack,
         o_predicted_jump := fd_predicted_jump rev_pack,
         o_predicted_next_pc := fd_predicted_next_pc rev_pack,
         o_checkpoint_id_valid := fd_checkpoint_id_valid rev_pack,
         o_checkpoint_id := fd_checkpoint_id rev_pack \<rparr>"

definition decode_item :: "fetch_decode_pack_t \<Rightarrow> decode_rename_pack_t option" where
  "decode_item rev_pack =
     (if fd_enable rev_pack then do {
        d \<leftarrow> decode_switch (decode_fields (fd_value rev_pack))
               (zero_decode_rename_pack \<lparr> o_enable := True, o_valid := \<not> fd_has_exception rev_pack,
                  o_pc := fd_pc rev_pack \<rparr>);
        Some (decode_finish rev_pack d) }
      else Some zero_decode_rename_pack)"

subsection \<open>The stage\<close>

record decode_state =
  ds_fetch_decode_fifo :: "fetch_decode_pack_t fifo"
  ds_decode_rename_fifo :: "decode_rename_pack_t fifo"
  ds_perf :: perf

definition decode_step :: "nat \<Rightarrow> decode_state \<Rightarrow> decode_state option" where
  "decode_step i s =
     (if \<not> fifo_is_empty (ds_fetch_decode_fifo s) \<and> \<not> fifo_is_full (ds_decode_rename_fifo s) then
        case fifo_pop (ds_fetch_decode_fifo s) of
          (None, q) \<Rightarrow> None
        | (Some rev_pack, q) \<Rightarrow> do {
            send_pack \<leftarrow> decode_item rev_pack;
            Some (s \<lparr> ds_fetch_decode_fifo := q,
                ds_decode_rename_fifo := snd (fifo_push send_pack (ds_decode_rename_fifo s)) \<rparr>) }
      else if \<not> fifo_is_empty (ds_fetch_decode_fifo s) \<and> fifo_is_full (ds_decode_rename_fifo s) then
        Some (s \<lparr> ds_perf := decode_rename_fifo_full_add (ds_perf s) \<rparr>)
      else Some s)"

definition decode_run ::
  "commit_feedback_pack_t \<Rightarrow> decode_state \<Rightarrow> (decode_feedback_pack_t \<times> decode_state) option" where
  "decode_run cf s = do {
     let feedback_pack = \<lparr> df_idle = fifo_is_empty (ds_fetch_decode_fifo s) \<rparr>;
     s1 \<leftarrow> (if \<not> (cf_enable cf \<and> cf_flush cf) then drain decode_step [0..<DECODE_WIDTH] s
       else Some (s \<lparr> ds_decode_rename_fifo := fifo_flush (ds_decode_rename_fifo s) \<rparr>));
     Some (feedback_pack, s1) }"

end
