(* ===== verification/Decode_Isa.thy ===== *)
theory Decode_Isa
  imports Decode
begin

text \<open>
  The decoder against the instruction table of the RISC-V manual: a mask and a match value for every
  instruction. One lemma per opcode, each by the cases of the field \<open>funct3\<close>.
\<close>

subsection \<open>The instruction table\<close>

text \<open>
  The reference: the operations with the mask and the match value of their encodings in the RISC-V manual, RV32I with Zifencei,
  Zicsr and M, and \<open>mret\<close>. The fields \<open>rd\<close>, \<open>rs1\<close> and \<open>fm\<close> of \<open>fence\<close> and those and the immediate of \<open>fence.i\<close> are reserved and to
  be ignored, so they are not in the masks.
\<close>

definition isa_table :: "(op_t \<times> u32 \<times> u32) list" where
  "isa_table =
     [(Op_lui, 0x7f, 0x37), (Op_auipc, 0x7f, 0x17), (Op_jal, 0x7f, 0x6f), (Op_jalr, 0x707f, 0x67),
      (Op_beq, 0x707f, 0x63), (Op_bne, 0x707f, 0x1063), (Op_blt, 0x707f, 0x4063), (Op_bge, 0x707f, 0x5063),
      (Op_bltu, 0x707f, 0x6063), (Op_bgeu, 0x707f, 0x7063), (Op_lb, 0x707f, 0x3), (Op_lh, 0x707f, 0x1003),
      (Op_lw, 0x707f, 0x2003), (Op_lbu, 0x707f, 0x4003), (Op_lhu, 0x707f, 0x5003), (Op_sb, 0x707f, 0x23),
      (Op_sh, 0x707f, 0x1023), (Op_sw, 0x707f, 0x2023), (Op_addi, 0x707f, 0x13), (Op_slti, 0x707f, 0x2013),
      (Op_sltiu, 0x707f, 0x3013), (Op_xori, 0x707f, 0x4013), (Op_ori, 0x707f, 0x6013),
      (Op_andi, 0x707f, 0x7013), (Op_slli, 0xfe00707f, 0x1013), (Op_srli, 0xfe00707f, 0x5013),
      (Op_srai, 0xfe00707f, 0x40005013), (Op_add, 0xfe00707f, 0x33), (Op_sub, 0xfe00707f, 0x40000033),
      (Op_sll, 0xfe00707f, 0x1033), (Op_slt, 0xfe00707f, 0x2033), (Op_sltu, 0xfe00707f, 0x3033),
      (Op_xor, 0xfe00707f, 0x4033), (Op_srl, 0xfe00707f, 0x5033), (Op_sra, 0xfe00707f, 0x40005033),
      (Op_or, 0xfe00707f, 0x6033), (Op_and, 0xfe00707f, 0x7033), (Op_mul, 0xfe00707f, 0x2000033),
      (Op_mulh, 0xfe00707f, 0x2001033), (Op_mulhsu, 0xfe00707f, 0x2002033),
      (Op_mulhu, 0xfe00707f, 0x2003033), (Op_div, 0xfe00707f, 0x2004033), (Op_divu, 0xfe00707f, 0x2005033),
      (Op_rem, 0xfe00707f, 0x2006033), (Op_remu, 0xfe00707f, 0x2007033), (Op_fence, 0x707f, 0xf),
      (Op_fence_i, 0x707f, 0x100f), (Op_ecall, 0xffffffff, 0x73), (Op_ebreak, 0xffffffff, 0x100073),
      (Op_mret, 0xffffffff, 0x30200073), (Op_csrrw, 0x707f, 0x1073), (Op_csrrs, 0x707f, 0x2073),
      (Op_csrrc, 0x707f, 0x3073), (Op_csrrwi, 0x707f, 0x5073), (Op_csrrsi, 0x707f, 0x6073),
      (Op_csrrci, 0x707f, 0x7073)]"

definition isa_find :: "u32 \<Rightarrow> op_t option" where
  "isa_find w = map_option fst (find (\<lambda>(x, m, c). w AND m = c) isa_table)"

text \<open>The two places where the decoder differs from the table: it takes the opcode of \<open>jalr\<close> with every \<open>funct3\<close>, and it refuses
  fences in which a reserved field is not zero.\<close>

definition reserved_jalr :: "u32 \<Rightarrow> bool" where
  "reserved_jalr w \<longleftrightarrow> w AND 0x7f = 0x67 \<and> w AND 0x707f \<noteq> 0x67"

definition reserved_fence :: "u32 \<Rightarrow> bool" where
  "reserved_fence w \<longleftrightarrow> w AND 0x707f = 0x0f \<and> w AND 0xf00fffff \<noteq> 0x0f \<or> w AND 0x707f = 0x100f \<and> w AND 0xffffffff \<noteq> 0x100f"

definition decoded_op :: "u32 \<Rightarrow> op_t option" where
  "decoded_op w = (if reserved_jalr w then Some Op_jalr else if reserved_fence w then None else isa_find w)"

text \<open>What the decoder made of a word.\<close>

definition accepted :: "decode_rename_pack_t \<Rightarrow> op_t option" where
  "accepted d = (if o_valid d then Some (o_op d) else None)"

lemma and_eq_split:
  fixes w :: "'a :: len word"
  assumes "c AND (m1 OR m2) = c"
  shows "w AND (m1 OR m2) = c \<longleftrightarrow> w AND m1 = c AND m1 \<and> w AND m2 = c AND m2"
proof
  assume a: "w AND (m1 OR m2) = c"
  show "w AND m1 = c AND m1 \<and> w AND m2 = c AND m2"
    unfolding a [symmetric] by (auto intro!: bit_word_eqI simp: bit_simps)
next
  assume a: "w AND m1 = c AND m1 \<and> w AND m2 = c AND m2"
  have "w AND (m1 OR m2) = (w AND m1) OR (w AND m2)" by (simp add: and.left_commute bit.conj_disj_distrib)
  also have "\<dots> = c AND (m1 OR m2)" using a by (simp add: bit.conj_disj_distrib)
  finally show "w AND (m1 OR m2) = c" using assms by simp
qed

lemma and_shifted:
  fixes w :: "'a :: len word"
  assumes "drop_bit k (push_bit k m) = m"
  shows "w AND push_bit k m = c AND push_bit k m \<longleftrightarrow> drop_bit k w AND m = drop_bit k c AND m"
proof
  assume "w AND push_bit k m = c AND push_bit k m"
  then have "drop_bit k (w AND push_bit k m) = drop_bit k (c AND push_bit k m)" by simp
  then show "drop_bit k w AND m = drop_bit k c AND m" by (simp add: assms)
next
  assume "drop_bit k w AND m = drop_bit k c AND m"
  then have "push_bit k (drop_bit k w AND m) = push_bit k (drop_bit k c AND m)" by simp
  then show "w AND push_bit k m = c AND push_bit k m"
    by (auto simp: bit_eq_iff bit_simps)
qed

lemma mask_funct3:
  "(c :: u32) AND 0x707f = c \<Longrightarrow> w AND 0x707f = c \<longleftrightarrow>
    w AND 0x7f = c AND 0x7f \<and> drop_bit 12 w AND 7 = drop_bit 12 c AND 7"
  using and_eq_split [of c "0x7f" "push_bit 12 7" w] and_shifted [of 12 7 w c] by simp

lemma mask_funct7:
  "(c :: u32) AND 0xfe00707f = c \<Longrightarrow> w AND 0xfe00707f = c \<longleftrightarrow>
    w AND 0x7f = c AND 0x7f \<and> drop_bit 12 w AND 7 = drop_bit 12 c AND 7 \<and>
    drop_bit 25 w AND 0x7f = drop_bit 25 c AND 0x7f"
  using and_eq_split [of c "0x707f" "push_bit 25 0x7f" w] and_shifted [of 25 "0x7f" w c] 
    and_eq_split [of "c AND 0x707f" "0x7f" "push_bit 12 7" w] and_shifted [of 12 7 w "c AND 0x707f"]
  by (simp add: and.assoc)

lemma mask_system:
  "(c :: u32) AND 0xffffffff = c \<Longrightarrow> w AND 0xffffffff = c \<longleftrightarrow>
    w AND 0x7f = c AND 0x7f \<and> drop_bit 7 w AND 0x1f = drop_bit 7 c AND 0x1f \<and>
    drop_bit 12 w AND 7 = drop_bit 12 c AND 7 \<and> drop_bit 15 w AND 0x1f = drop_bit 15 c AND 0x1f \<and>
    drop_bit 20 w AND 0xfff = drop_bit 20 c AND 0xfff"
  using and_eq_split [of c "0xfffff" "push_bit 20 0xfff" w] and_shifted [of 20 "0xfff" w c]
    and_eq_split [of "c AND 0xfffff" "0x7fff" "push_bit 15 0x1f" w] and_shifted [of 15 "0x1f" w "c AND 0xfffff"]
    and_eq_split [of "c AND 0x7fff" "0xfff" "push_bit 12 7" w] and_shifted [of 12 7 w "c AND 0x7fff"]
    and_eq_split [of "c AND 0xfff" "0x7f" "push_bit 7 0x1f" w] and_shifted [of 7 "0x1f" w "c AND 0xfff"]
  by (simp add: and.assoc)

lemma mask_fence:
  "(c :: u32) AND 0xf00fffff = c \<Longrightarrow> w AND 0xf00fffff = c \<longleftrightarrow>
    w AND 0x7f = c AND 0x7f \<and> drop_bit 7 w AND 0x1f = drop_bit 7 c AND 0x1f \<and>
    drop_bit 12 w AND 7 = drop_bit 12 c AND 7 \<and> drop_bit 15 w AND 0x1f = drop_bit 15 c AND 0x1f \<and>
    drop_bit 28 w AND 0xf = drop_bit 28 c AND 0xf"
  using and_eq_split [of c "0xfffff" "push_bit 28 0xf" w] and_shifted [of 28 "0xf" w c]
    and_eq_split [of "c AND 0xfffff" "0x7fff" "push_bit 15 0x1f" w] and_shifted [of 15 "0x1f" w "c AND 0xfffff"]
    and_eq_split [of "c AND 0x7fff" "0xfff" "push_bit 12 7" w] and_shifted [of 12 7 w "c AND 0x7fff"]
    and_eq_split [of "c AND 0xfff" "0x7f" "push_bit 7 0x1f" w] and_shifted [of 7 "0x1f" w "c AND 0xfff"]
  by (simp add: and.assoc)

lemma rs2_funct7:
  "(c :: u32) AND 0xfff = c \<Longrightarrow> drop_bit 20 w AND 0xfff = c \<longleftrightarrow>
    drop_bit 20 w AND 0x1f = c AND 0x1f \<and> drop_bit 25 w AND 0x7f = drop_bit 5 c AND 0x7f"
  using and_eq_split [of c "0x1f" "push_bit 5 0x7f" "drop_bit 20 w"] and_shifted [of 5 "0x7f" "drop_bit 20 w" c]
  by (simp add: drop_bit_drop_bit)

lemma small_cases: "(w :: u32) AND 7 \<in> {0, 1, 2, 3, 4, 5, 6, 7}"
proof -
  have "w AND 7 = take_bit 3 w" by (simp add: take_bit_eq_mask mask_eq_exp_minus_1)
  then have "unat (w AND 7) < 2 ^ 3" by (simp only: unsigned_take_bit_eq take_bit_nat_less_exp)
  then have "unat (w AND 7) \<in> {unat (0 :: u32), unat (1 :: u32), unat (2 :: u32), unat (3 :: u32), unat (4 :: u32),
      unat (5 :: u32), unat (6 :: u32), unat (7 :: u32)}" by simp linarith
  then show ?thesis by (auto simp only: insert_iff empty_iff unsigned_word_eqI)
qed

text \<open>Only the rows with the opcode of the word matter.\<close>

lemma find_filter: "(\<And>x. x \<in> set xs \<Longrightarrow> P x \<Longrightarrow> Q x) \<Longrightarrow> find P xs = find P (filter Q xs)"
  by (induction xs) auto

lemma isa_find_opcode:
  "isa_find w = map_option fst (find (\<lambda>(x, m, c). w AND m = c) (filter (\<lambda>(x, m, c). c AND 0x7f = w AND 0x7f) isa_table))"
proof -
  have m: "m AND 0x7f = 0x7f" if "(x, m, c) \<in> set isa_table" for x m c
    using that by (auto simp: isa_table_def)
  have "w AND 0x7f = c AND 0x7f" if "(x, m, c) \<in> set isa_table" "w AND m = c" for x m c
    using m [OF that(1)] that(2) by (metis and.assoc)
  then show ?thesis unfolding isa_find_def by (subst find_filter) auto
qed

lemmas decode_simps = decode_fields_def accepted_def set_op_def set_unit_op_def set_invalid_def Let_def
lemmas mask_simps = mask_funct3 mask_funct7 mask_system mask_fence rs2_funct7

lemma isa_branch:
  "w AND 0x7f = 0x63 \<Longrightarrow> o_valid d \<Longrightarrow> isa_find w = accepted (decode_branch (decode_fields w) im d)"
  using small_cases [of "drop_bit 12 w"]
  by (auto simp: isa_find_opcode isa_table_def decode_branch_def decode_simps mask_simps)

lemma isa_load:
  "w AND 0x7f = 0x03 \<Longrightarrow> o_valid d \<Longrightarrow> isa_find w = accepted (decode_load (decode_fields w) im d)"
  using small_cases [of "drop_bit 12 w"]
  by (auto simp: isa_find_opcode isa_table_def decode_load_def decode_simps mask_simps)

lemma isa_store:
  "w AND 0x7f = 0x23 \<Longrightarrow> o_valid d \<Longrightarrow> isa_find w = accepted (decode_store (decode_fields w) im d)"
  using small_cases [of "drop_bit 12 w"]
  by (auto simp: isa_find_opcode isa_table_def decode_store_def decode_simps mask_simps)

lemma isa_op_imm:
  "w AND 0x7f = 0x13 \<Longrightarrow> o_valid d \<Longrightarrow> isa_find w = accepted (decode_op_imm (decode_fields w) im d)"
  using small_cases [of "drop_bit 12 w"]
  by (auto simp: isa_find_opcode isa_table_def decode_op_imm_def decode_simps mask_simps)

lemma isa_op_reg:
  "w AND 0x7f = 0x33 \<Longrightarrow> o_valid d \<Longrightarrow> isa_find w = accepted (decode_op_reg (decode_fields w) d)"
  using small_cases [of "drop_bit 12 w"]
  by (auto simp: isa_find_opcode isa_table_def decode_op_reg_def decode_simps mask_simps)

lemma isa_fence:
  "w AND 0x7f = 0x0f \<Longrightarrow> o_valid d \<Longrightarrow> (if reserved_fence w then None else isa_find w) = accepted (decode_fence (decode_fields w) d)"
  using small_cases [of "drop_bit 12 w"]
  by (auto simp: isa_find_opcode isa_table_def reserved_fence_def decode_fence_def decode_simps mask_funct3 mask_funct7 mask_system mask_fence)

lemma isa_jalr: "w AND 0x7f = 0x67 \<Longrightarrow> decoded_op w = Some Op_jalr"
  by (auto simp: decoded_op_def reserved_jalr_def reserved_fence_def mask_funct3 isa_find_opcode isa_table_def)

lemma decoded_op_table:
  "w AND 0x7f \<noteq> 0x67 \<Longrightarrow> w AND 0x7f \<noteq> 0x0f \<Longrightarrow> decoded_op w = isa_find w"
  "w AND 0x7f = 0x0f \<Longrightarrow> decoded_op w = (if reserved_fence w then None else isa_find w)"
  by (auto simp: decoded_op_def reserved_jalr_def reserved_fence_def mask_funct3)

lemma isa_system:
  "w AND 0x7f = 0x73 \<Longrightarrow> o_valid d \<Longrightarrow> isa_find w = accepted (decode_system (decode_fields w) d)"
  using small_cases [of "drop_bit 12 w"]
  by (auto simp: isa_find_opcode isa_table_def decode_system_def decode_csr_reg_def decode_csr_imm_def decode_simps mask_simps)

end
