(* ===== verification/Decode_Props.thy ===== *)
theory Decode_Props
  imports Decode_Isa
begin

text \<open>
  The properties of the decode stage: it decodes what the instruction table says, with the immediates of the
  manual, it leaves in the union \<open>sub_op\<close> the member the execution unit reads, and it moves instructions
  from its input queue to its output queue in order.
\<close>

subsection \<open>The switch\<close>

text \<open>Every sign extension of the decoder has a constant width below 32, so it does not abort.\<close>

lemma sign_extend_cases:
  assumes "0 < n" "n < 32"
  obtains r where "sign_extend x n = Some r"
  using sign_extend_total [OF assms] by blast

lemma decode_switch_isa:
  assumes "o_valid d"
  shows "\<exists>d1. decode_switch (decode_fields w) d = Some d1 \<and> accepted d1 = decoded_op w"
proof -
  have oc: "opcode (decode_fields w) = w AND 0x7f" by (simp add: decode_fields_def)
  obtain im12 im13 im21 im12s where
    "sign_extend (imm_i (decode_fields w)) 12 = Some im12" "sign_extend (imm_b (decode_fields w)) 13 = Some im13"
    "sign_extend (imm_j (decode_fields w)) 21 = Some im21" "sign_extend (imm_s (decode_fields w)) 12 = Some im12s"
    using sign_extend_total [of 12 "imm_i (decode_fields w)"] sign_extend_total [of 13 "imm_b (decode_fields w)"]
      sign_extend_total [of 21 "imm_j (decode_fields w)"] sign_extend_total [of 12 "imm_s (decode_fields w)"] by auto
  note im = this
  consider "w AND 0x7f = 0x37" | "w AND 0x7f = 0x17" | "w AND 0x7f = 0x6f" | "w AND 0x7f = 0x67"
    | "w AND 0x7f = 0x63" | "w AND 0x7f = 0x03" | "w AND 0x7f = 0x23" | "w AND 0x7f = 0x13"
    | "w AND 0x7f = 0x33" | "w AND 0x7f = 0x0f" | "w AND 0x7f = 0x73"
    | "w AND 0x7f \<notin> {0x37, 0x17, 0x6f, 0x67, 0x63, 0x03, 0x23, 0x13, 0x33, 0x0f, 0x73}" by blast
  then show ?thesis
  proof cases
    case 4 then show ?thesis using isa_jalr [OF 4] assms im
      by (simp add: decode_switch_def oc decode_jalr_def accepted_def set_unit_op_def)
  next
    case 5 then show ?thesis using isa_branch [OF 5 assms] im by (simp add: decode_switch_def oc decoded_op_table)
  next
    case 6 then show ?thesis using isa_load [OF 6 assms] im by (simp add: decode_switch_def oc decoded_op_table)
  next
    case 7 then show ?thesis using isa_store [OF 7 assms] im by (simp add: decode_switch_def oc decoded_op_table)
  next
    case 8 then show ?thesis using isa_op_imm [OF 8 assms] im by (simp add: decode_switch_def oc decoded_op_table)
  next
    case 9 then show ?thesis using isa_op_reg [OF 9 assms] by (simp add: decode_switch_def oc decoded_op_table)
  next
    case 10 then show ?thesis using isa_fence [OF 10 assms] by (simp add: decode_switch_def oc decoded_op_table)
  next
    case 11 then show ?thesis using isa_system [OF 11 assms] by (simp add: decode_switch_def oc decoded_op_table)
  qed (use assms im in \<open>simp_all add: decode_switch_def oc decode_upper_def accepted_def set_unit_op_def
      set_invalid_def decoded_op_table isa_find_opcode isa_table_def\<close>)
qed

subsection \<open>What the switch keeps and sets\<close>

lemmas decode_branch_defs = decode_upper_def decode_jalr_def decode_branch_def decode_load_def decode_store_def
  decode_op_imm_def decode_op_reg_def decode_fence_def decode_system_def decode_csr_reg_def decode_csr_imm_def
  set_op_def set_unit_op_def set_invalid_def Let_def

text \<open>The shape of an outcome: the flags it starts from, the registers it may name and the union member that
  goes with the unit.\<close>

fun unit_reads :: "op_unit_t \<Rightarrow> sub_op_t \<Rightarrow> bool" where
  "unit_reads Unit_alu y = (sub_alu_op y \<noteq> None)"
| "unit_reads Unit_mul y = (sub_mul_op y \<noteq> None)"
| "unit_reads Unit_div y = (sub_div_op y \<noteq> None)"
| "unit_reads Unit_lsu y = (sub_lsu_op y \<noteq> None)"
| "unit_reads Unit_bru y = (sub_bru_op y \<noteq> None)"
| "unit_reads Unit_csr y = (sub_csr_op y \<noteq> None)"

lemma unit_reads_zero [simp]: "unit_reads u Sub_zero"
  by (cases u) simp_all

definition decode_ok :: "decode_rename_pack_t \<Rightarrow> bool" where
  "decode_ok d \<longleftrightarrow> unit_reads (o_op_unit d) (o_sub_op d) \<and> o_rs1 d < 32 \<and> o_rs2 d < 32 \<and> o_rd d < 32"

lemma field5: "unat (drop_bit k (w :: u32) AND 0x1f) < 32"
proof -
  have "drop_bit k w AND 0x1f = take_bit 5 (drop_bit k w)" by (simp add: take_bit_eq_mask mask_eq_exp_minus_1)
  then have "unat (drop_bit k w AND 0x1f) < 2 ^ 5" by (simp only: unsigned_take_bit_eq take_bit_nat_less_exp)
  then show ?thesis by simp
qed

lemma field5s: "unat (rd_f (decode_fields w)) < 32" "unat (rs1_f (decode_fields w)) < 32" "unat (rs2_f (decode_fields w)) < 32"
  by (simp_all add: decode_fields_def field5)

lemma decode_parts_ok:
  assumes "decode_ok d" "o_sub_op d = Sub_zero"
  shows "decode_ok (decode_branch (decode_fields w) im d)" "decode_ok (decode_load (decode_fields w) im d)"
    "decode_ok (decode_store (decode_fields w) im d)" "decode_ok (decode_op_imm (decode_fields w) im d)"
    "decode_ok (decode_op_reg (decode_fields w) d)" "decode_ok (decode_fence (decode_fields w) d)"
    "decode_ok (decode_system (decode_fields w) d)" "decode_ok (decode_jalr (decode_fields w) im d)"
    "decode_ok (set_invalid d)"
  using assms field5s [of w] by (simp_all add: decode_ok_def decode_branch_defs)

lemma decode_switch_ok:
  assumes "decode_ok d" "o_sub_op d = Sub_zero" "decode_switch (decode_fields w) d = Some d1"
  shows "decode_ok d1"
proof -
  have up: "decode_ok (decode_upper (decode_fields w) Op_lui Unit_alu (Sub_alu Alu_lui) im d)"
    "decode_ok (decode_upper (decode_fields w) Op_auipc Unit_alu (Sub_alu Alu_auipc) im d)"
    "decode_ok (decode_upper (decode_fields w) Op_jal Unit_bru (Sub_bru Bru_jal) im d)" for im
    using assms(1,2) field5s [of w] by (simp_all add: decode_ok_def decode_branch_defs)
  show ?thesis using assms(3) decode_parts_ok [OF assms(1,2)] up
    by (auto simp: decode_switch_def bind_eq_Some_conv split: if_splits)
qed

lemma decode_parts_valid:
  "o_valid (decode_branch f im d) \<Longrightarrow> o_valid d" "o_valid (decode_load f im d) \<Longrightarrow> o_valid d"
  "o_valid (decode_store f im d) \<Longrightarrow> o_valid d" "o_valid (decode_op_imm f im d) \<Longrightarrow> o_valid d"
  "o_valid (decode_op_reg f d) \<Longrightarrow> o_valid d" "o_valid (decode_fence f d) \<Longrightarrow> o_valid d"
  "o_valid (decode_system f d) \<Longrightarrow> o_valid d" "o_valid (decode_jalr f im d) \<Longrightarrow> o_valid d"
  "o_valid (decode_upper f x u y im d) \<Longrightarrow> o_valid d" "o_valid (set_invalid d) \<Longrightarrow> o_valid d"
  by (auto simp: decode_branch_defs split: if_splits)

lemma decode_switch_valid: "decode_switch f d = Some d1 \<Longrightarrow> o_valid d1 \<Longrightarrow> o_valid d"
  by (auto simp: decode_switch_def bind_eq_Some_conv split: if_splits dest: decode_parts_valid)

lemma decode_switch_total: "\<exists>d1. decode_switch f d = Some d1"
  using sign_extend_total [of 12] sign_extend_total [of 13] sign_extend_total [of 21]
  by (auto simp: decode_switch_def bind_eq_Some_conv)

subsection \<open>Immediates\<close>

text \<open>The five immediate formats of the manual: where bit \<open>n\<close> of the immediate is in the instruction.\<close>

datatype imm_format = Fmt_I | Fmt_S | Fmt_B | Fmt_U | Fmt_J

fun imm_bit :: "imm_format \<Rightarrow> u32 \<Rightarrow> nat \<Rightarrow> bool" where
  "imm_bit Fmt_I w n = bit w (if n < 11 then n + 20 else 31)"
| "imm_bit Fmt_S w n = bit w (if n < 5 then n + 7 else if n < 11 then n + 20 else 31)"
| "imm_bit Fmt_B w n = (0 < n \<and> bit w (if n < 5 then n + 7 else if n < 11 then n + 20 else if n = 11 then 7 else 31))"
| "imm_bit Fmt_U w n = (12 \<le> n \<and> bit w n)"
| "imm_bit Fmt_J w n = (0 < n \<and> bit w (if n < 11 then n + 20 else if n = 11 then 20 else if n < 20 then n else 31))"

definition imm_format :: "op_t \<Rightarrow> imm_format option" where
  "imm_format x =
     (if x \<in> {Op_lui, Op_auipc} then Some Fmt_U
      else if x = Op_jal then Some Fmt_J
      else if x \<in> {Op_beq, Op_bne, Op_blt, Op_bge, Op_bltu, Op_bgeu} then Some Fmt_B
      else if x \<in> {Op_sb, Op_sh, Op_sw} then Some Fmt_S
      else if x \<in> {Op_jalr, Op_lb, Op_lh, Op_lw, Op_lbu, Op_lhu, Op_addi, Op_slti, Op_sltiu, Op_xori, Op_ori, Op_andi,
        Op_slli, Op_srli, Op_srai} then Some Fmt_I
      else None)"

lemma low_masks:
  "(x :: u32) AND 1 = take_bit 1 x" "x AND 0xf = take_bit 4 x" "x AND 0x1f = take_bit 5 x" "x AND 0x3f = take_bit 6 x"
  "x AND 0x7f = take_bit 7 x" "x AND 0xff = take_bit 8 x" "x AND 0x3ff = take_bit 10 x" "x AND 0xfff = take_bit 12 x"
  by (simp_all add: take_bit_eq_mask mask_eq_exp_minus_1)

lemma bit_field:
  "a + l \<le> 32 \<Longrightarrow> bit (push_bit a (take_bit l (drop_bit k (w :: u32)))) n \<longleftrightarrow> a \<le> n \<and> n < a + l \<and> bit w (n + k - a)"
  by (auto simp: bit_simps add.commute)

lemma imm_i_bit: "bit (imm_i (decode_fields w)) n \<longleftrightarrow> n < 12 \<and> bit w (n + 20)"
  using bit_field [of 0 12 20 w n] by (simp add: decode_fields_def low_masks)

lemma imm_s_bit:
  "bit (imm_s (decode_fields w)) n \<longleftrightarrow> n < 5 \<and> bit w (n + 7) \<or> 5 \<le> n \<and> n < 12 \<and> bit w (n + 20)"
  using bit_field [of 0 5 7 w n] bit_field [of 5 7 25 w n] by (simp add: decode_fields_def low_masks bit_or_iff add.commute)

lemma imm_b_bit:
  "bit (imm_b (decode_fields w)) n \<longleftrightarrow> 1 \<le> n \<and> n < 5 \<and> bit w (n + 7) \<or> 5 \<le> n \<and> n < 11 \<and> bit w (n + 20) \<or>
     11 \<le> n \<and> n < 12 \<and> bit w (n + 7 - 11) \<or> 12 \<le> n \<and> n < 13 \<and> bit w (n + 31 - 12)"
  using bit_field [of 1 4 8 w n] bit_field [of 5 6 25 w n] bit_field [of 11 1 7 w n] bit_field [of 12 1 31 w n]
  by (simp add: decode_fields_def low_masks bit_or_iff add.commute)

lemma imm_j_bit:
  "bit (imm_j (decode_fields w)) n \<longleftrightarrow> 12 \<le> n \<and> n < 20 \<and> bit w n \<or> 11 \<le> n \<and> n < 12 \<and> bit w (n + 20 - 11) \<or>
     1 \<le> n \<and> n < 11 \<and> bit w (n + 20) \<or> 20 \<le> n \<and> n < 21 \<and> bit w (n + 31 - 20)"
  using bit_field [of 12 8 12 w n] bit_field [of 11 1 20 w n] bit_field [of 1 10 21 w n] bit_field [of 20 1 31 w n]
  by (simp add: decode_fields_def low_masks bit_or_iff add.commute)

lemma one_less: "n \<le> m \<and> m < Suc n \<longleftrightarrow> m = n"
  by linarith

text \<open>The sign extensions give the formats.\<close>

lemma sign_extended:
  assumes "sign_extend x k = Some r" "0 < k" "k < 32" "\<And>n. bit x n \<Longrightarrow> n < k" "n < 32"
  shows "bit r n = bit x (min n (k - 1))"
proof -
  have "take_bit k x = x" using assms(4) by (auto simp: bit_eq_iff bit_simps)
  from sign_extend_bit [OF assms(2,3) this assms(5)] assms(1) show ?thesis by simp
qed

lemma imm_formats:
  assumes "n < 32"
  shows "sign_extend (imm_i (decode_fields w)) 12 = Some r \<Longrightarrow> bit r n = imm_bit Fmt_I w n"
    and "sign_extend (imm_s (decode_fields w)) 12 = Some r \<Longrightarrow> bit r n = imm_bit Fmt_S w n"
    and "sign_extend (imm_b (decode_fields w)) 13 = Some r \<Longrightarrow> bit r n = imm_bit Fmt_B w n"
    and "sign_extend (imm_j (decode_fields w)) 21 = Some r \<Longrightarrow> bit r n = imm_bit Fmt_J w n"
    and "bit (imm_u (decode_fields w)) n = imm_bit Fmt_U w n"
proof -
  show "bit r n = imm_bit Fmt_I w n" if ext: "sign_extend (imm_i (decode_fields w)) 12 = Some r"
  proof -
    have "\<And>n. bit (imm_i (decode_fields w)) n \<Longrightarrow> n < Suc 11" by (auto simp: imm_i_bit)
    then have e: "bit r n = bit (imm_i (decode_fields w)) (min n 11)"
      using sign_extended [OF ext _ _ _ assms] by simp
    then show ?thesis by (auto simp: imm_i_bit min_def)
  qed
  show "bit r n = imm_bit Fmt_S w n" if ext: "sign_extend (imm_s (decode_fields w)) 12 = Some r"
  proof -
    have "\<And>n. bit (imm_s (decode_fields w)) n \<Longrightarrow> n < Suc 11" by (auto simp: imm_s_bit)
    then have e: "bit r n = bit (imm_s (decode_fields w)) (min n 11)"
      using sign_extended [OF ext _ _ _ assms] by simp
    then show ?thesis by (auto simp: imm_s_bit min_def)
  qed
  show "bit r n = imm_bit Fmt_B w n" if ext: "sign_extend (imm_b (decode_fields w)) 13 = Some r"
  proof -
    have "\<And>n. bit (imm_b (decode_fields w)) n \<Longrightarrow> n < Suc 12" by (auto simp: imm_b_bit)
    then have e: "bit r n = bit (imm_b (decode_fields w)) (min n 12)"
      using sign_extended [OF ext _ _ _ assms] by simp
    consider "n = 0" | "1 \<le> n" "n < 5" | "5 \<le> n" "n < 11" | "n = 11" | "12 \<le> n" by linarith
    then show ?thesis unfolding e by cases (simp_all add: imm_b_bit min_def)
  qed
  show "bit r n = imm_bit Fmt_J w n" if ext: "sign_extend (imm_j (decode_fields w)) 21 = Some r"
  proof -
    have "\<And>n. bit (imm_j (decode_fields w)) n \<Longrightarrow> n < Suc 20" by (auto simp: imm_j_bit)
    then have e: "bit r n = bit (imm_j (decode_fields w)) (min n 20)"
      using sign_extended [OF ext _ _ _ assms] by simp
    consider "n = 0" | "1 \<le> n" "n < 11" | "n = 11" | "12 \<le> n" "n < 20" | "20 \<le> n" by linarith
    then show ?thesis unfolding e by cases (simp_all add: imm_j_bit min_def)
  qed
  have "imm_u (decode_fields w) = w AND NOT (mask 12)" by (simp add: decode_fields_def mask_eq_exp_minus_1)
  then show "bit (imm_u (decode_fields w)) n = imm_bit Fmt_U w n"
    using assms by (auto simp: bit_simps)
qed

lemma decode_parts_imm:
  "o_imm (decode_branch f im d) = im" "o_imm (decode_load f im d) = im" "o_imm (decode_store f im d) = im"
  "o_imm (decode_op_imm f im d) = im" "o_imm (decode_jalr f im d) = im" "o_imm (decode_upper f x u y im d) = im"
  by (simp_all add: decode_branch_defs)

lemma decode_parts_format:
  "accepted (decode_branch f im d) = Some x \<Longrightarrow> imm_format x = Some Fmt_B"
  "accepted (decode_load f im d) = Some x \<Longrightarrow> imm_format x = Some Fmt_I"
  "accepted (decode_store f im d) = Some x \<Longrightarrow> imm_format x = Some Fmt_S"
  "accepted (decode_op_imm f im d) = Some x \<Longrightarrow> imm_format x = Some Fmt_I"
  "accepted (decode_op_reg f d) = Some x \<Longrightarrow> imm_format x = None"
  "o_op d = Op_add \<Longrightarrow> accepted (decode_fence f d) = Some x \<Longrightarrow> imm_format x = None"
  "o_op d = Op_add \<Longrightarrow> accepted (decode_system f d) = Some x \<Longrightarrow> imm_format x = None"
  by (auto simp: decode_branch_defs accepted_def imm_format_def split: if_splits)

lemma decode_switch_cases:
  assumes "decode_switch f d = Some d1"
  obtains (u_type) x u y where "d1 = decode_upper f x u y (imm_u f) d" "imm_format x = Some Fmt_U"
  | (j_type) im where "sign_extend (imm_j f) 21 = Some im" "d1 = decode_upper f Op_jal Unit_bru (Sub_bru Bru_jal) im d"
  | (i_type) im where "sign_extend (imm_i f) 12 = Some im"
      "d1 = decode_jalr f im d \<or> d1 = decode_load f im d \<or> d1 = decode_op_imm f im d"
  | (b_type) im where "sign_extend (imm_b f) 13 = Some im" "d1 = decode_branch f im d"
  | (s_type) im where "sign_extend (imm_s f) 12 = Some im" "d1 = decode_store f im d"
  | (no_imm) "d1 = decode_op_reg f d \<or> d1 = decode_fence f d \<or> d1 = decode_system f d"
  | (invalid) "d1 = set_invalid d"
  using assms by (auto simp: decode_switch_def bind_eq_Some_conv imm_format_def split: if_splits)

lemma accepted_upper: "accepted (decode_upper f y u z im d) = Some x \<Longrightarrow> x = y"
  and accepted_jalr: "accepted (decode_jalr f im d) = Some x \<Longrightarrow> imm_format x = Some Fmt_I"
  and accepted_invalid: "accepted (set_invalid d) = None"
  by (auto simp: accepted_def decode_branch_defs imm_format_def split: if_splits)

lemma decode_switch_imm:
  assumes "decode_switch (decode_fields w) d = Some d1" "accepted d1 = Some x" "imm_format x = Some fmt"
    "o_op d = Op_add" "n < 32"
  shows "bit (o_imm d1) n = imm_bit fmt w n"
  using assms(1)
proof (cases rule: decode_switch_cases)
  case (u_type y u z)
  then have "x = y" using assms(2) accepted_upper by blast
  with u_type(2) assms(3) have "fmt = Fmt_U" by simp
  with u_type imm_formats(5) [OF assms(5), of w] show ?thesis by (simp add: decode_parts_imm)
next
  case (j_type im)
  then have "x = Op_jal" using assms(2) accepted_upper by blast
  with assms(3) have "fmt = Fmt_J" by (simp add: imm_format_def)
  with j_type imm_formats(4) [OF assms(5)] show ?thesis by (simp add: decode_parts_imm)
next
  case (i_type im)
  then have "imm_format x = Some Fmt_I"
    using assms(2) accepted_jalr decode_parts_format(2,4) by blast
  with assms(3) have "fmt = Fmt_I" by simp
  with i_type imm_formats(1) [OF assms(5)] show ?thesis by (auto simp: decode_parts_imm)
next
  case (b_type im)
  then have "fmt = Fmt_B" using assms(2,3) decode_parts_format(1) by fastforce
  with b_type imm_formats(3) [OF assms(5)] show ?thesis by (simp add: decode_parts_imm)
next
  case (s_type im)
  then have "fmt = Fmt_S" using assms(2,3) decode_parts_format(3) by fastforce
  with s_type imm_formats(2) [OF assms(5)] show ?thesis by (simp add: decode_parts_imm)
next
  case no_imm
  then have "imm_format x = None" using assms(2,4) decode_parts_format(5-7) by blast
  with assms(3) show ?thesis by simp
next
  case invalid
  with assms(2) show ?thesis by (simp add: accepted_invalid)
qed

subsection \<open>The stage\<close>

lemma decode_parts_keep:
  "o_enable (decode_branch f im d) = o_enable d" "o_pc (decode_branch f im d) = o_pc d"
  "o_enable (decode_load f im d) = o_enable d" "o_pc (decode_load f im d) = o_pc d"
  "o_enable (decode_store f im d) = o_enable d" "o_pc (decode_store f im d) = o_pc d"
  "o_enable (decode_op_imm f im d) = o_enable d" "o_pc (decode_op_imm f im d) = o_pc d"
  "o_enable (decode_op_reg f d) = o_enable d" "o_pc (decode_op_reg f d) = o_pc d"
  "o_enable (decode_fence f d) = o_enable d" "o_pc (decode_fence f d) = o_pc d"
  "o_enable (decode_system f d) = o_enable d" "o_pc (decode_system f d) = o_pc d"
  "o_enable (decode_jalr f im d) = o_enable d" "o_pc (decode_jalr f im d) = o_pc d"
  "o_enable (decode_upper f x u y im d) = o_enable d" "o_pc (decode_upper f x u y im d) = o_pc d"
  "o_enable (set_invalid d) = o_enable d" "o_pc (set_invalid d) = o_pc d"
  by (simp_all add: decode_branch_defs)

lemma decode_item_total: "\<exists>d. decode_item r = Some d"
  using decode_switch_total by (auto simp: decode_item_def bind_eq_Some_conv)

lemma decode_step_moves:
  assumes "fifo_inv (ds_fetch_decode_fifo s)" "fifo_inv (ds_decode_rename_fifo s)"
  shows "\<exists>s1. decode_step i s = Some s1 \<and> fifo_inv (ds_fetch_decode_fifo s1) \<and> fifo_inv (ds_decode_rename_fifo s1) \<and>
    (case fifo_contents (ds_fetch_decode_fifo s) of
       [] \<Rightarrow> fifo_contents (ds_fetch_decode_fifo s1) = [] \<and>
         fifo_contents (ds_decode_rename_fifo s1) = fifo_contents (ds_decode_rename_fifo s)
     | r # rs \<Rightarrow>
         if fifo_is_full (ds_decode_rename_fifo s)
         then fifo_contents (ds_fetch_decode_fifo s1) = r # rs \<and> ds_decode_rename_fifo s1 = ds_decode_rename_fifo s
         else fifo_contents (ds_fetch_decode_fifo s1) = rs \<and>
           fifo_contents (ds_decode_rename_fifo s1) = fifo_contents (ds_decode_rename_fifo s) @ [the (decode_item r)] \<and>
           fifo_get_remain_space (ds_decode_rename_fifo s) = Suc (fifo_get_remain_space (ds_decode_rename_fifo s1)))"
proof (cases "fifo_contents (ds_fetch_decode_fifo s)")
  case Nil
  then have "fifo_is_empty (ds_fetch_decode_fifo s)" using assms(1) contents_Nil [of "ds_fetch_decode_fifo s"] by simp
  with Nil assms show ?thesis by (simp add: decode_step_def)
next
  case (Cons r rs)
  then have ne: "\<not> fifo_is_empty (ds_fetch_decode_fifo s)" using assms(1) contents_Nil [of "ds_fetch_decode_fifo s"] by simp
  show ?thesis
  proof (cases "fifo_is_full (ds_decode_rename_fifo s)")
    case True
    with ne Cons assms show ?thesis by (simp add: decode_step_def)
  next
    case False
    obtain d where d: "decode_item r = Some d" using decode_item_total by blast
    have pop: "fifo_pop (ds_fetch_decode_fifo s) = (Some r, snd (fifo_pop (ds_fetch_decode_fifo s)))"
      using pop_value [of "ds_fetch_decode_fifo s"] assms(1) Cons by (simp add: prod_eq_iff)
    have run: "decode_step i s = Some (s \<lparr> ds_fetch_decode_fifo := snd (fifo_pop (ds_fetch_decode_fifo s)),
        ds_decode_rename_fifo := snd (fifo_push d (ds_decode_rename_fifo s)) \<rparr>)"
      unfolding decode_step_def using ne False d by (subst pop) simp
    have room: "fifo_get_remain_space (ds_decode_rename_fifo s) =
        Suc (fifo_get_remain_space (snd (fifo_push d (ds_decode_rename_fifo s))))"
      using not_full_fill [OF assms(2) False]
      by (simp add: get_remain_space_occupied assms(2) push_inv push_fill False push_fields)
    from run room False Cons d assms show ?thesis
      by (simp add: pop_inv push_inv pop_contents push_contents)
  qed
qed

text \<open>How many instructions move: as many as there are, fit, and the width allows.\<close>

definition decode_count :: "nat \<Rightarrow> decode_state \<Rightarrow> nat" where
  "decode_count width s = min width (min (length (fifo_contents (ds_fetch_decode_fifo s)))
     (fifo_get_remain_space (ds_decode_rename_fifo s)))"

lemma decode_steps_move:
  assumes "fifo_inv (ds_fetch_decode_fifo s)" "fifo_inv (ds_decode_rename_fifo s)"
  shows "\<exists>s1. drain decode_step is s = Some s1 \<and> fifo_inv (ds_fetch_decode_fifo s1) \<and> fifo_inv (ds_decode_rename_fifo s1) \<and>
    fifo_contents (ds_fetch_decode_fifo s1) = drop (decode_count (length is) s) (fifo_contents (ds_fetch_decode_fifo s)) \<and>
    fifo_contents (ds_decode_rename_fifo s1) =
      fifo_contents (ds_decode_rename_fifo s) @ map (the \<circ> decode_item) (take (decode_count (length is) s) (fifo_contents (ds_fetch_decode_fifo s)))"
  using assms
proof (induction "is" arbitrary: s)
  case (Cons i "is")
  obtain s1 where s1: "decode_step i s = Some s1" "fifo_inv (ds_fetch_decode_fifo s1)" "fifo_inv (ds_decode_rename_fifo s1)"
    "case fifo_contents (ds_fetch_decode_fifo s) of
       [] \<Rightarrow> fifo_contents (ds_fetch_decode_fifo s1) = [] \<and>
         fifo_contents (ds_decode_rename_fifo s1) = fifo_contents (ds_decode_rename_fifo s)
     | r # rs \<Rightarrow>
         if fifo_is_full (ds_decode_rename_fifo s)
         then fifo_contents (ds_fetch_decode_fifo s1) = r # rs \<and> ds_decode_rename_fifo s1 = ds_decode_rename_fifo s
         else fifo_contents (ds_fetch_decode_fifo s1) = rs \<and>
           fifo_contents (ds_decode_rename_fifo s1) = fifo_contents (ds_decode_rename_fifo s) @ [the (decode_item r)] \<and>
           fifo_get_remain_space (ds_decode_rename_fifo s) = Suc (fifo_get_remain_space (ds_decode_rename_fifo s1))"
    using decode_step_moves [OF Cons.prems, of i] by blast
  have full: "fifo_get_remain_space (ds_decode_rename_fifo s) = 0" if "fifo_is_full (ds_decode_rename_fifo s)"
    using that Cons.prems(2) by (simp add: get_remain_space_occupied is_full_occupied)
  note IH = Cons.IH [OF s1(2,3)]
  show ?case
  proof (cases "fifo_contents (ds_fetch_decode_fifo s)")
    case Nil
    with s1 IH show ?thesis by (simp add: decode_count_def)
  next
    case (Cons r rs)
    with s1 IH full show ?thesis
      by (cases "fifo_is_full (ds_decode_rename_fifo s)") (auto simp: decode_count_def)
  qed
qed (simp add: decode_count_def)

subsection \<open>Properties\<close>

definition sample_fetch :: "u32 \<Rightarrow> fetch_decode_pack_t" where
  "sample_fetch w = \<lparr> fd_pc = 0x80000000, fd_value = w, fd_enable = True, fd_has_exception = False,
     fd_exception_id = illegal_instruction, fd_exception_value = 0, fd_predicted = False, fd_predicted_jump = False,
     fd_predicted_next_pc = 0, fd_checkpoint_id_valid = False, fd_checkpoint_id = 0 \<rparr>"

lemma decode_item_switch:
  assumes "fd_enable r" "decode_item r = Some d"
  obtains d1 where "decode_switch (decode_fields (fd_value r)) (zero_decode_rename_pack \<lparr> o_enable := True,
      o_valid := \<not> fd_has_exception r, o_pc := fd_pc r \<rparr>) = Some d1" "d = decode_finish r d1"
  using assms by (auto simp: decode_item_def bind_eq_Some_conv)

lemma decode_finish_keeps [simp]:
  "accepted (decode_finish r d) = accepted d" "o_imm (decode_finish r d) = o_imm d"
  by (cases "o_valid d") (simp_all add: accepted_def decode_finish_def)

lemma decode_accepts:
  assumes "fd_enable r" "\<not> fd_has_exception r"
  shows "\<exists>d. decode_item r = Some d \<and> accepted d = decoded_op (fd_value r)"
  using decode_switch_isa [of "zero_decode_rename_pack \<lparr> o_enable := True, o_valid := True, o_pc := fd_pc r \<rparr>" "fd_value r"] assms
  by (auto simp: decode_item_def)

text \<open>C16: The decoder returns for every word. Except for the encodings the manual reserves for \<open>jalr\<close> and the fences, it accepts exactly
  the words of the manual's instruction table: the pack is valid if and only if the word matches a row and was fetched without an
  exception, and then its operation is that of the row. In the exceptions it differs from the manual: the opcode of \<open>jalr\<close> is
  accepted with every \<open>funct3\<close>, and a fence with a nonzero reserved field, \<open>fence.tso\<close> among them, is refused.\<close>

theorem decode_item_isa:
  assumes "fd_enable r"
  shows "\<exists>d. decode_item r = Some d \<and> o_enable d \<and> o_pc d = fd_pc r \<and> o_value d = fd_value r \<and>
    accepted d = (if fd_has_exception r then None else if reserved_jalr (fd_value r) then Some Op_jalr
      else if reserved_fence (fd_value r) then None else isa_find (fd_value r))"
proof -
  obtain d where d: "decode_item r = Some d" using decode_item_total by blast
  obtain d1 where d1: "decode_switch (decode_fields (fd_value r)) (zero_decode_rename_pack \<lparr> o_enable := True,
      o_valid := \<not> fd_has_exception r, o_pc := fd_pc r \<rparr>) = Some d1" "d = decode_finish r d1"
    using decode_item_switch [OF assms d] by blast
  have acc: "accepted d = accepted d1" using d1(2) by simp
  have keep: "o_enable d1 \<and> o_pc d1 = fd_pc r"
    using d1(1) by (cases rule: decode_switch_cases) (auto simp: decode_parts_keep)
  have "accepted d1 = (if fd_has_exception r then None else decoded_op (fd_value r))"
  proof (cases "fd_has_exception r")
    case True
    with decode_switch_valid [OF d1(1)] show ?thesis by (auto simp: accepted_def)
  next
    case False
    with decode_switch_isa [of "zero_decode_rename_pack \<lparr> o_enable := True, o_valid := \<not> fd_has_exception r,
        o_pc := fd_pc r \<rparr>" "fd_value r"] d1(1) show ?thesis by auto
  qed
  with d acc keep d1(2) show ?thesis by (simp add: decode_finish_def decoded_op_def)
qed

theorem decode_item_isa_witness:
  "\<exists>d e. decode_item (sample_fetch 0x02C5D533) = Some d \<and> accepted d = Some Op_divu \<and>
     decode_item (sample_fetch 0x8330000F) = Some e \<and> accepted e = None \<and> isa_find 0x8330000F = Some Op_fence"
proof -
  have "isa_find 0x02C5D533 = Some Op_divu" "isa_find 0x8330000F = Some Op_fence" "\<not> reserved_jalr 0x02C5D533" "\<not> reserved_fence 0x02C5D533"
    "\<not> reserved_jalr 0x8330000F" "reserved_fence 0x8330000F"
    by (simp_all add: isa_find_def isa_table_def reserved_jalr_def reserved_fence_def)
  with decode_item_isa [of "sample_fetch 0x02C5D533"] decode_item_isa [of "sample_fetch 0x8330000F"] show ?thesis by (auto simp: sample_fetch_def)
qed

text \<open>C17: The immediate of a decoded instruction is that of its format: every bit of it is the bit of the
  instruction word the manual names, the sign bit filling the upper part.\<close>

theorem decode_immediate:
  assumes "fd_enable r" "decode_item r = Some d" "accepted d = Some x" "imm_format x = Some fmt" "n < 32"
  shows "bit (o_imm d) n = imm_bit fmt (fd_value r) n"
proof -
  obtain d1 where d1: "decode_switch (decode_fields (fd_value r)) (zero_decode_rename_pack \<lparr> o_enable := True,
      o_valid := \<not> fd_has_exception r, o_pc := fd_pc r \<rparr>) = Some d1" "d = decode_finish r d1"
    using decode_item_switch [OF assms(1,2)] by blast
  then have "accepted d1 = Some x" "o_imm d = o_imm d1"
    using assms(3) by simp_all
  with decode_switch_imm [OF d1(1) _ assms(4) _ assms(5)] show ?thesis by (simp add: zero_decode_rename_pack_def)
qed

theorem decode_immediate_witness:
  "\<exists>d. decode_item (sample_fetch 0xFE208EE3) = Some d \<and> accepted d = Some Op_beq \<and> \<not> bit (o_imm d) 1 \<and> bit (o_imm d) 31"
proof -
  obtain d where d: "decode_item (sample_fetch 0xFE208EE3) = Some d" using decode_item_total by blast
  have "decoded_op 0xFE208EE3 = Some Op_beq" by (simp add: decoded_op_table isa_find_def isa_table_def)
  then have acc: "accepted d = Some Op_beq"
    using d decode_accepts [of "sample_fetch 0xFE208EE3"] by (auto simp: sample_fetch_def)
  have en: "fd_enable (sample_fetch 0xFE208EE3)" by (simp add: sample_fetch_def)
  have "bit (o_imm d) 1 = imm_bit Fmt_B (0xFE208EE3) 1" "bit (o_imm d) 31 = imm_bit Fmt_B (0xFE208EE3) 31"
    using decode_immediate [OF en d acc, of Fmt_B] by (simp_all add: imm_format_def sample_fetch_def)
  with d acc show ?thesis by (simp add: bit_numeral_rec)
qed

text \<open>C34: Every pack the decoder sends on is well-typed: the union \<open>sub_op\<close> holds the member that the unit
  in \<open>op_unit\<close> reads (also when the instruction is invalid), and the register numbers are below 32.\<close>

theorem decode_item_well_typed:
  assumes "decode_item r = Some d"
  shows "unit_reads (o_op_unit d) (o_sub_op d) \<and> o_rs1 d < 32 \<and> o_rs2 d < 32 \<and> o_rd d < 32 \<and>
    (o_need_rename d \<longrightarrow> 0 < o_rd d)"
proof (cases "fd_enable r")
  case True
  then obtain d1 where d1: "decode_switch (decode_fields (fd_value r)) (zero_decode_rename_pack \<lparr> o_enable := True,
      o_valid := \<not> fd_has_exception r, o_pc := fd_pc r \<rparr>) = Some d1" "d = decode_finish r d1"
    using decode_item_switch assms by blast
  have "decode_ok d1"
    by (rule decode_switch_ok [OF _ _ d1(1)]) (simp_all add: decode_ok_def zero_decode_rename_pack_def)
  with d1(2) show ?thesis by (simp add: decode_ok_def decode_finish_def)
next
  case False
  with assms show ?thesis by (auto simp: decode_item_def zero_decode_rename_pack_def)
qed

theorem decode_item_well_typed_witness:
  "\<exists>d. decode_item (sample_fetch 0x02C5D533) = Some d \<and> unit_reads (o_op_unit d) (o_sub_op d)"
  using decode_item_well_typed [of "sample_fetch 0x02C5D533"] decode_item_total [of "sample_fetch 0x02C5D533"] by auto

text \<open>C35: A cycle of the decode stage without a flush returns and moves, in order, as many instructions from its input
  queue to its output queue as there are, as fit, and as the width allows, each decoded.\<close>

theorem decode_run_moves:
  assumes "fifo_inv (ds_fetch_decode_fifo s)" "fifo_inv (ds_decode_rename_fifo s)" "\<not> cf_flushing cf"
  shows "\<exists>fb s1. decode_run cf s = Some (fb, s1) \<and>
    fifo_inv (ds_fetch_decode_fifo s1) \<and> fifo_inv (ds_decode_rename_fifo s1) \<and>
    fifo_contents (ds_fetch_decode_fifo s1) = drop (decode_count DECODE_WIDTH s) (fifo_contents (ds_fetch_decode_fifo s)) \<and>
    fifo_contents (ds_decode_rename_fifo s1) =
      fifo_contents (ds_decode_rename_fifo s) @ map (the \<circ> decode_item) (take (decode_count DECODE_WIDTH s) (fifo_contents (ds_fetch_decode_fifo s)))"
proof -
  have "\<not> (cf_enable cf \<and> cf_flush cf)" using assms(3) by (simp add: cf_flushing_def)
  then show ?thesis using decode_steps_move [OF assms(1,2), of "[0..<DECODE_WIDTH]"]
    by (auto simp: decode_run_def Let_def)
qed

definition sample_decode_state :: decode_state where
  "sample_decode_state =
     \<lparr> ds_fetch_decode_fifo = snd (fifo_push (sample_fetch 0x02C5D533) (fifo_new 4 (replicate 4 (sample_fetch 0)) 0 False)),
       ds_decode_rename_fifo = fifo_new 4 (replicate 4 zero_decode_rename_pack) 0 False, ds_perf = perf_zero \<rparr>"

lemma sample_decode_state_ok:
  "fifo_inv (ds_fetch_decode_fifo sample_decode_state)" "fifo_inv (ds_decode_rename_fifo sample_decode_state)"
  "fifo_contents (ds_fetch_decode_fifo sample_decode_state) = [sample_fetch 0x02C5D533]"
  "fifo_contents (ds_decode_rename_fifo sample_decode_state) = []"
  "fifo_get_remain_space (ds_decode_rename_fifo sample_decode_state) = 4"
  by code_simp+

theorem decode_run_moves_witness:
  "\<exists>fb s1. decode_run (sample_commit_feedback False) sample_decode_state = Some (fb, s1) \<and>
    fifo_contents (ds_fetch_decode_fifo s1) = [] \<and>
    fifo_contents (ds_decode_rename_fifo s1) = [the (decode_item (sample_fetch 0x02C5D533))]"
proof -
  have "\<not> cf_flushing (sample_commit_feedback False)" by (simp add: cf_flushing_def sample_commit_feedback_def)
  from decode_run_moves [OF sample_decode_state_ok(1,2) this] show ?thesis
    by (auto simp: sample_decode_state_ok(3-5) decode_count_def DECODE_WIDTH_def)
qed

end
