(* ===== verification/Branch_Predictor.thy ===== *)
theory Branch_Predictor
  imports Ras Checkpoint_Buffer Decode
begin

text \<open>
  \<open>component/branch_predictor.h\<close>: the tournament predictor (global and local two-bit counters and the
  counters that choose between them), the target caches for indirect calls and jumps, and the return
  address stack.

  A table is a C array; an index outside it is undefined behaviour of the source and \<open>None\<close> here. The
  invariant \<open>bp_inv\<close> says that histories and history table entries fit the index width and that counters are
  at most 3; every operation keeps it and stays inside the tables.
\<close>

subsection \<open>State\<close>

datatype bp_request = Bp_update_prediction u32 u32 bool u32 bool

record branch_predictor =
  gshare_global_history :: u32
  gshare_global_history_retired :: u32
  gshare_pht :: "u32 list"
  local_bht :: "u32 list"
  local_bht_retired :: "u32 list"
  local_pht :: "u32 list"
  cpht :: "u32 list"
  main_ras :: ras
  call_global_history :: u32
  call_target_cache :: "u32 list"
  normal_global_history :: u32
  normal_target_cache :: "u32 list"
  bp_sync_request_q :: "bp_request list"
  s_state :: u32

text \<open>\<open>table[addr]\<close> of a C array; the part of the pc that selects an entry; a history shifted by one outcome;
  one step of a two-bit counter.\<close>

definition table_at :: "u32 list \<Rightarrow> u32 \<Rightarrow> u32 option" where
  "table_at t addr = (if unat addr < length t then Some (t ! unat addr) else None)"

definition table_set :: "u32 \<Rightarrow> u32 \<Rightarrow> u32 list \<Rightarrow> u32 list option" where
  "table_set addr v t = (if unat addr < length t then Some (t[unat addr := v]) else None)"

definition pc_part1 :: "nat \<Rightarrow> u32 \<Rightarrow> u32 \<Rightarrow> u32" where
  "pc_part1 p2_width p1_mask pc = drop_bit (2 + p2_width) pc AND p1_mask"

definition history_shift :: "u32 \<Rightarrow> u32 \<Rightarrow> bool \<Rightarrow> u32" where
  "history_shift m h jump = (push_bit 1 h AND m) OR (if jump then 1 else 0)"

definition count_step :: "bool \<Rightarrow> u32 \<Rightarrow> u32" where
  "count_step up v = (if up then if v < 3 then v + 1 else v else if v > 0 then v - 1 else v)"

subsection \<open>The global predictor\<close>

definition bp_gshare_global_history_update :: "bool \<Rightarrow> bool \<Rightarrow> branch_predictor \<Rightarrow> branch_predictor" where
  "bp_gshare_global_history_update jump hit bp =
     (let bp1 = bp \<lparr> gshare_global_history_retired :=
            history_shift GSHARE_GLOBAL_HISTORY_MASK (gshare_global_history_retired bp) jump \<rparr>
      in if \<not> hit then bp1 \<lparr> gshare_global_history := gshare_global_history_retired bp1 \<rparr> else bp1)"

definition gshare_global_history_update_bru_fix ::
  "checkpoint_t \<Rightarrow> bool \<Rightarrow> bool \<Rightarrow> branch_predictor \<Rightarrow> branch_predictor" where
  "gshare_global_history_update_bru_fix cp jump hit bp =
     (let gshare_global_history_bru = history_shift GSHARE_GLOBAL_HISTORY_MASK (global_history cp) jump
      in if \<not> hit then bp \<lparr> gshare_global_history := gshare_global_history_bru \<rparr> else bp)"

definition gshare_global_history_update_guess :: "bool \<Rightarrow> branch_predictor \<Rightarrow> branch_predictor" where
  "gshare_global_history_update_guess jump bp =
     bp \<lparr> gshare_global_history := history_shift GSHARE_GLOBAL_HISTORY_MASK (gshare_global_history bp) jump \<rparr>"

definition gshare_get_prediction :: "u32 \<Rightarrow> branch_predictor \<Rightarrow> bool option" where
  "gshare_get_prediction pc bp = do {
     let pc_p1 = pc_part1 GSHARE_PC_P2_ADDR_WIDTH GSHARE_PC_P1_ADDR_MASK pc;
     v \<leftarrow> table_at (gshare_pht bp) (gshare_global_history bp XOR pc_p1);
     Some (v \<ge> 2) }"

definition gshare_update_prediction :: "u32 \<Rightarrow> bool \<Rightarrow> bool \<Rightarrow> branch_predictor \<Rightarrow> branch_predictor option" where
  "gshare_update_prediction pc jump hit bp = do {
     let pc_p1 = pc_part1 GSHARE_PC_P2_ADDR_WIDTH GSHARE_PC_P1_ADDR_MASK pc;
     let pht_addr = gshare_global_history_retired bp XOR pc_p1;
     v \<leftarrow> table_at (gshare_pht bp) pht_addr;
     t \<leftarrow> table_set pht_addr (count_step jump v) (gshare_pht bp);
     Some (bp_gshare_global_history_update jump hit (bp \<lparr> gshare_pht := t \<rparr>)) }"

subsection \<open>The local predictor\<close>

definition local_update_prediction :: "u32 \<Rightarrow> bool \<Rightarrow> bool \<Rightarrow> branch_predictor \<Rightarrow> branch_predictor option" where
  "local_update_prediction pc jump hit bp = do {
     let pc_p1 = pc_part1 LOCAL_PC_P2_ADDR_WIDTH LOCAL_PC_P1_ADDR_MASK pc;
     bht_value \<leftarrow> table_at (local_bht_retired bp) pc_p1;
     let pht_addr = bht_value XOR pc_p1;
     let retired = history_shift LOCAL_BHT_WIDTH_MASK bht_value jump;
     t1 \<leftarrow> table_set pc_p1 retired (local_bht_retired bp);
     v \<leftarrow> table_at (local_pht bp) pht_addr;
     t2 \<leftarrow> table_set pht_addr (count_step jump v) (local_pht bp);
     t3 \<leftarrow> (if \<not> hit then table_set pc_p1 retired (local_bht bp) else Some (local_bht bp));
     Some (bp \<lparr> local_bht_retired := t1, local_pht := t2, local_bht := t3 \<rparr>) }"

definition local_get_bht_value :: "u32 \<Rightarrow> branch_predictor \<Rightarrow> u32 option" where
  "local_get_bht_value pc bp = table_at (local_bht bp) (pc_part1 LOCAL_PC_P2_ADDR_WIDTH LOCAL_PC_P1_ADDR_MASK pc)"

definition local_update_prediction_bru_fix ::
  "checkpoint_t \<Rightarrow> u32 \<Rightarrow> bool \<Rightarrow> bool \<Rightarrow> branch_predictor \<Rightarrow> branch_predictor option" where
  "local_update_prediction_bru_fix cp pc jump hit bp = do {
     let pc_p1 = pc_part1 LOCAL_PC_P2_ADDR_WIDTH LOCAL_PC_P1_ADDR_MASK pc;
     let local_history_bru = history_shift LOCAL_BHT_WIDTH_MASK (local_history cp) jump;
     t \<leftarrow> (if \<not> hit then table_set pc_p1 local_history_bru (local_bht bp) else Some (local_bht bp));
     Some (bp \<lparr> local_bht := t \<rparr>) }"

definition local_update_prediction_guess :: "u32 \<Rightarrow> bool \<Rightarrow> branch_predictor \<Rightarrow> branch_predictor option" where
  "local_update_prediction_guess pc jump bp = do {
     let pc_p1 = pc_part1 LOCAL_PC_P2_ADDR_WIDTH LOCAL_PC_P1_ADDR_MASK pc;
     v \<leftarrow> table_at (local_bht bp) pc_p1;
     t \<leftarrow> table_set pc_p1 (history_shift LOCAL_BHT_WIDTH_MASK v jump) (local_bht bp);
     Some (bp \<lparr> local_bht := t \<rparr>) }"

definition local_get_prediction :: "u32 \<Rightarrow> branch_predictor \<Rightarrow> bool option" where
  "local_get_prediction pc bp = do {
     let pc_p1 = pc_part1 LOCAL_PC_P2_ADDR_WIDTH LOCAL_PC_P1_ADDR_MASK pc;
     bht_value \<leftarrow> table_at (local_bht bp) pc_p1;
     v \<leftarrow> table_at (local_pht bp) (bht_value XOR pc_p1);
     Some (v \<ge> 2) }"

subsection \<open>The chooser\<close>

definition cpht_step :: "bool \<Rightarrow> u32 \<Rightarrow> u32" where
  "cpht_step hit v =
     (if v \<le> 1 then if hit \<and> v > 0 then v - 1 else if \<not> hit then v + 1 else v
      else if hit \<and> v < 3 then v + 1 else if \<not> hit then v - 1 else v)"

definition cpht_update_prediction :: "u32 \<Rightarrow> bool \<Rightarrow> branch_predictor \<Rightarrow> branch_predictor option" where
  "cpht_update_prediction pc hit bp = do {
     let pc_p1 = pc_part1 GSHARE_PC_P2_ADDR_WIDTH GSHARE_PC_P1_ADDR_MASK pc;
     let cpht_addr = gshare_global_history bp XOR pc_p1;
     v \<leftarrow> table_at (cpht bp) cpht_addr;
     t \<leftarrow> table_set cpht_addr (cpht_step hit v) (cpht bp);
     Some (bp \<lparr> cpht := t \<rparr>) }"

definition cpht_get_prediction :: "u32 \<Rightarrow> branch_predictor \<Rightarrow> bool option" where
  "cpht_get_prediction pc bp = do {
     let pc_p1 = pc_part1 GSHARE_PC_P2_ADDR_WIDTH GSHARE_PC_P1_ADDR_MASK pc;
     v \<leftarrow> table_at (cpht bp) (gshare_global_history bp XOR pc_p1);
     Some (v \<le> 1) }"

subsection \<open>The target caches\<close>

definition bp_call_global_history_update :: "bool \<Rightarrow> branch_predictor \<Rightarrow> branch_predictor" where
  "bp_call_global_history_update jump bp =
     bp \<lparr> call_global_history := history_shift CALL_GLOBAL_HISTORY_MASK (call_global_history bp) jump \<rparr>"

definition call_update_prediction :: "u32 \<Rightarrow> bool \<Rightarrow> u32 \<Rightarrow> branch_predictor \<Rightarrow> branch_predictor option" where
  "call_update_prediction pc jump target bp = do {
     let pc_p1 = pc_part1 CALL_PC_P2_ADDR_WIDTH CALL_PC_P1_ADDR_MASK pc;
     t \<leftarrow> table_set (call_global_history bp XOR pc_p1) target (call_target_cache bp);
     Some (bp_call_global_history_update jump (bp \<lparr> call_target_cache := t \<rparr>)) }"

definition call_get_prediction :: "u32 \<Rightarrow> branch_predictor \<Rightarrow> u32 option" where
  "call_get_prediction pc bp =
     table_at (call_target_cache bp) (call_global_history bp XOR pc_part1 CALL_PC_P2_ADDR_WIDTH CALL_PC_P1_ADDR_MASK pc)"

definition bp_normal_global_history_update :: "bool \<Rightarrow> branch_predictor \<Rightarrow> branch_predictor" where
  "bp_normal_global_history_update jump bp =
     bp \<lparr> normal_global_history := history_shift NORMAL_GLOBAL_HISTORY_MASK (normal_global_history bp) jump \<rparr>"

definition normal_update_prediction :: "u32 \<Rightarrow> bool \<Rightarrow> u32 \<Rightarrow> branch_predictor \<Rightarrow> branch_predictor option" where
  "normal_update_prediction pc jump target bp = do {
     let pc_p1 = pc_part1 NORMAL_PC_P2_ADDR_WIDTH NORMAL_PC_P1_ADDR_MASK pc;
     t \<leftarrow> table_set (normal_global_history bp XOR pc_p1) target (normal_target_cache bp);
     Some (bp_normal_global_history_update jump (bp \<lparr> normal_target_cache := t \<rparr>)) }"

definition normal_get_prediction :: "u32 \<Rightarrow> branch_predictor \<Rightarrow> u32 option" where
  "normal_get_prediction pc bp =
     table_at (normal_target_cache bp)
       (normal_global_history bp XOR pc_part1 NORMAL_PC_P2_ADDR_WIDTH NORMAL_PC_P1_ADDR_MASK pc)"

subsection \<open>Construction and reset\<close>

text \<open>The constructor leaves \<open>local_bht_retired\<close> and the slots of the return address stack as the memory was.\<close>

definition bp_new :: "u32 list \<Rightarrow> ras_item_t list \<Rightarrow> branch_predictor" where
  "bp_new retired_mem ras_mem =
     \<lparr> gshare_global_history = 0, gshare_global_history_retired = 0,
       gshare_pht = replicate GSHARE_PHT_SIZE 0, local_bht = replicate LOCAL_BHT_SIZE 0,
       local_bht_retired = retired_mem, local_pht = replicate LOCAL_PHT_SIZE 0, cpht = replicate GSHARE_PHT_SIZE 0,
       main_ras = ras_new RAS_SIZE ras_mem, call_global_history = 0,
       call_target_cache = replicate CALL_TARGET_CACHE_SIZE 0, normal_global_history = 0,
       normal_target_cache = replicate NORMAL_TARGET_CACHE_SIZE 0, bp_sync_request_q = [], s_state = 0 \<rparr>"

definition bp_reset :: "branch_predictor \<Rightarrow> branch_predictor" where
  "bp_reset bp =
     bp \<lparr> gshare_global_history := 0, gshare_global_history_retired := 0,
          gshare_pht := replicate GSHARE_PHT_SIZE 0, local_bht := replicate LOCAL_BHT_SIZE 0,
          local_pht := replicate LOCAL_PHT_SIZE 0, cpht := replicate GSHARE_PHT_SIZE 0, call_global_history := 0,
          call_target_cache := replicate CALL_TARGET_CACHE_SIZE 0, normal_global_history := 0,
          normal_target_cache := replicate NORMAL_TARGET_CACHE_SIZE 0, bp_sync_request_q := [],
          main_ras := ras_reset (main_ras bp) \<rparr>"

definition bp_save :: "checkpoint_t \<Rightarrow> u32 \<Rightarrow> branch_predictor \<Rightarrow> checkpoint_t option" where
  "bp_save cp pc bp = do {
     h \<leftarrow> local_get_bht_value pc bp;
     Some (cp \<lparr> global_history := gshare_global_history bp, local_history := h \<rparr>) }"

text \<open>The saturating counter kept for experiments.\<close>

definition s_update_prediction :: "u32 \<Rightarrow> bool \<Rightarrow> branch_predictor \<Rightarrow> branch_predictor" where
  "s_update_prediction pc jump bp = bp \<lparr> s_state := count_step jump (s_state bp) \<rparr>"

definition s_get_prediction :: "u32 \<Rightarrow> branch_predictor \<Rightarrow> bool" where
  "s_get_prediction pc bp = True"

subsection \<open>Prediction\<close>

definition is_link :: "u32 \<Rightarrow> bool" where
  "is_link r \<longleftrightarrow> r = 1 \<or> r = 5"

definition bp_push_return :: "u32 \<Rightarrow> branch_predictor \<times> perf \<Rightarrow> (branch_predictor \<times> perf) option" where
  "bp_push_return pc = (\<lambda>(bp, pf). do {
     (r, pf1) \<leftarrow> ras_push_addr (pc + 4) (main_ras bp, pf);
     Some (bp \<lparr> main_ras := r \<rparr>, pf1) })"

definition bp_pop_return :: "branch_predictor \<times> perf \<Rightarrow> (u32 \<times> branch_predictor \<times> perf) option" where
  "bp_pop_return = (\<lambda>(bp, pf). do {
     (a, r) \<leftarrow> ras_pop_addr (main_ras bp);
     Some (a, bp \<lparr> main_ras := r \<rparr>, pf) })"

text \<open>The target of a \<open>jalr\<close>, by the link registers it names.\<close>

definition bp_jalr_target ::
  "u32 \<Rightarrow> u32 \<Rightarrow> u32 \<Rightarrow> branch_predictor \<times> perf \<Rightarrow> (u32 \<times> branch_predictor \<times> perf) option" where
  "bp_jalr_target pc rd rs1 st =
     (let call = do {
        next_pc \<leftarrow> call_get_prediction pc (fst st);
        st1 \<leftarrow> bp_push_return pc st;
        Some (next_pc, st1) }
      in if is_link rd then
        if is_link rs1 then
          if rs1 = rd then call
          else do {
            (next_pc, st1) \<leftarrow> bp_pop_return st;
            st2 \<leftarrow> bp_push_return pc st1;
            Some (next_pc, st2) }
        else call
      else if is_link rs1 then bp_pop_return st
      else do {
        next_pc \<leftarrow> normal_get_prediction pc (fst st);
        Some (next_pc, st) })"

definition bp_branch_taken :: "u32 \<Rightarrow> branch_predictor \<Rightarrow> bool option" where
  "bp_branch_taken pc bp = do {
     global \<leftarrow> cpht_get_prediction pc bp;
     if \<not> global then local_get_prediction pc bp else gshare_get_prediction pc bp }"

text \<open>The result is the return value with \<open>*jump\<close> and \<open>*next_pc\<close> (\<open>None\<close> for \<open>false\<close>, when they are not used),
  and the state.\<close>

definition bp_get_prediction ::
  "u32 \<Rightarrow> u32 \<Rightarrow> branch_predictor \<times> perf \<Rightarrow> ((bool \<times> u32) option \<times> branch_predictor \<times> perf) option" where
  "bp_get_prediction pc instruction st =
     (let f = decode_fields instruction
      in if opcode f = 0x6f then do {
        im \<leftarrow> sign_extend (imm_j f) 21;
        st1 \<leftarrow> (if is_link (rd_f f) then bp_push_return pc st else Some st);
        Some (Some (True, pc + im), st1) }
      else if opcode f = 0x67 then do {
        (next_pc, st1) \<leftarrow> bp_jalr_target pc (rd_f f) (rs1_f f) st;
        Some (Some (True, next_pc), st1) }
      else if opcode f = 0x63 then do {
        taken \<leftarrow> bp_branch_taken pc (fst st);
        im \<leftarrow> sign_extend (imm_b f) 13;
        let next_pc = (if taken then pc + im else pc + 4);
        Some (if funct3 f \<in> {0, 1, 4, 5, 6, 7} then Some (taken, next_pc) else None, st) }
      else Some (None, st))"

subsection \<open>Update\<close>

definition bp_update_prediction_guess :: "u32 \<Rightarrow> u32 \<Rightarrow> bool \<Rightarrow> u32 \<Rightarrow> branch_predictor \<Rightarrow> branch_predictor option" where
  "bp_update_prediction_guess pc instruction jump next_pc bp =
     (if opcode (decode_fields instruction) = 0x63
      then local_update_prediction_guess pc jump (gshare_global_history_update_guess jump bp)
      else Some bp)"

definition bp_update_prediction_bru_guess ::
  "checkpoint_t \<Rightarrow> u32 \<Rightarrow> u32 \<Rightarrow> bool \<Rightarrow> u32 \<Rightarrow> bool \<Rightarrow> branch_predictor \<Rightarrow> branch_predictor option" where
  "bp_update_prediction_bru_guess cp pc instruction jump next_pc hit bp =
     (if opcode (decode_fields instruction) = 0x63
      then local_update_prediction_bru_fix cp pc jump hit (gshare_global_history_update_bru_fix cp jump hit bp)
      else Some bp)"

definition bp_update_prediction ::
  "u32 \<Rightarrow> u32 \<Rightarrow> bool \<Rightarrow> u32 \<Rightarrow> bool \<Rightarrow> branch_predictor \<Rightarrow> branch_predictor option" where
  "bp_update_prediction pc instruction jump next_pc hit bp =
     (let f = decode_fields instruction
      in if opcode f = 0x63 then do {
        bp1 \<leftarrow> gshare_update_prediction pc jump hit bp;
        bp2 \<leftarrow> local_update_prediction pc jump hit bp1;
        cpht_update_prediction pc hit bp2 }
      else if opcode f = 0x67 then
        if is_link (rd_f f) then
          if is_link (rs1_f f) then
            if rs1_f f = rd_f f then call_update_prediction pc jump next_pc bp else Some bp
          else call_update_prediction pc jump next_pc bp
        else if is_link (rs1_f f) then Some bp
        else normal_update_prediction pc jump next_pc bp
      else Some bp)"

definition bp_update_prediction_sync ::
  "u32 \<Rightarrow> u32 \<Rightarrow> bool \<Rightarrow> u32 \<Rightarrow> bool \<Rightarrow> branch_predictor \<Rightarrow> branch_predictor" where
  "bp_update_prediction_sync pc instruction jump next_pc hit bp =
     bp \<lparr> bp_sync_request_q := bp_sync_request_q bp @ [Bp_update_prediction pc instruction jump next_pc hit] \<rparr>"

fun bp_handle :: "bp_request \<Rightarrow> branch_predictor \<Rightarrow> branch_predictor option" where
  "bp_handle (Bp_update_prediction pc instruction jump next_pc hit) bp =
     bp_update_prediction pc instruction jump next_pc hit bp"

definition bp_sync :: "branch_predictor \<Rightarrow> branch_predictor option" where
  "bp_sync bp = drain bp_handle (bp_sync_request_q bp) (bp \<lparr> bp_sync_request_q := [] \<rparr>)"

end
