(* ===== verification/Bp_Props.thy ===== *)
theory Bp_Props
  imports Branch_Predictor
begin

text \<open>
  The properties of the branch predictor: its invariant and the safety of every table access, the repair of the
  speculative histories after a misprediction, the prediction of returns.
\<close>

subsection \<open>Indices and counters\<close>

definition small :: "u32 \<Rightarrow> bool" where
  "small w \<longleftrightarrow> unat w < 4096"

definition counters :: "u32 list \<Rightarrow> bool" where
  "counters t \<longleftrightarrow> length t = 4096 \<and> (\<forall>v \<in> set t. v \<le> 3)"

definition histories :: "u32 list \<Rightarrow> bool" where
  "histories t \<longleftrightarrow> length t = 4096 \<and> (\<forall>v \<in> set t. small v)"

lemma small_iff: "small w \<longleftrightarrow> (\<forall>n \<ge> 12. \<not> bit w n)"
proof -
  have "small w \<longleftrightarrow> take_bit 12 w = w"
    unfolding small_def word_unat_eq_iff unsigned_take_bit_eq by (simp add: take_bit_nat_eq_self_iff)
  also have "\<dots> \<longleftrightarrow> (\<forall>n \<ge> 12. \<not> bit w n)"
    using bit_imp_le_length [of w] by (auto simp: bit_eq_iff bit_simps not_less [symmetric])
  finally show ?thesis .
qed

lemma masks:
  "GSHARE_GLOBAL_HISTORY_MASK = mask 12" "LOCAL_BHT_WIDTH_MASK = mask 12" "CALL_GLOBAL_HISTORY_MASK = mask 12"
  "NORMAL_GLOBAL_HISTORY_MASK = mask 12" "GSHARE_PC_P1_ADDR_MASK = mask 12" "LOCAL_PC_P1_ADDR_MASK = mask 12"
  "CALL_PC_P1_ADDR_MASK = mask 12" "NORMAL_PC_P1_ADDR_MASK = mask 12"
  by (simp_all add: table_defs mask_eq_exp_minus_1)

lemma small_and_mask: "small (w AND mask 12)"
  by (simp add: small_iff bit_simps)

lemma small_shift: "small (history_shift (mask 12) h jump)"
  by (auto simp: small_iff history_shift_def bit_simps)

lemma small_index: "small h \<Longrightarrow> small (h XOR pc_part1 w (mask 12) pc)" "small (pc_part1 w (mask 12) pc)"
  by (auto simp: small_iff pc_part1_def bit_simps)

lemma count_step_le: "v \<le> 3 \<Longrightarrow> count_step up v \<le> 3"
  by (cases up) (auto simp: count_step_def elim: order_trans, uint_arith+)

lemma cpht_step_le: "v \<le> 3 \<Longrightarrow> cpht_step hit v \<le> 3"
  by (cases hit) (auto simp: cpht_step_def, uint_arith+)

subsection \<open>The tables\<close>

lemma table_at_in: "unat a < length t \<Longrightarrow> table_at t a = Some (t ! unat a)"
  by (simp add: table_at_def)

lemma counters_at: "counters t \<Longrightarrow> small a \<Longrightarrow> table_at t a = Some (t ! unat a) \<and> t ! unat a \<le> 3"
  by (simp add: counters_def small_def table_at_def)

lemma counters_set: "counters t \<Longrightarrow> small a \<Longrightarrow> v \<le> 3 \<Longrightarrow> \<exists>t1. table_set a v t = Some t1 \<and> counters t1"
  by (auto simp: counters_def small_def table_set_def dest!: set_update_subset_insert [THEN subsetD])

lemma histories_at: "histories t \<Longrightarrow> small a \<Longrightarrow> table_at t a = Some (t ! unat a) \<and> small (t ! unat a)"
  by (simp add: histories_def small_def table_at_def)

lemma histories_set: "histories t \<Longrightarrow> small a \<Longrightarrow> small v \<Longrightarrow> \<exists>t1. table_set a v t = Some t1 \<and> histories t1"
  by (auto simp: histories_def small_def table_set_def dest!: set_update_subset_insert [THEN subsetD])

definition bp_inv :: "branch_predictor \<Rightarrow> bool" where
  "bp_inv bp \<longleftrightarrow>
     small (gshare_global_history bp) \<and> small (gshare_global_history_retired bp) \<and>
     small (call_global_history bp) \<and> small (normal_global_history bp) \<and>
     counters (gshare_pht bp) \<and> counters (local_pht bp) \<and> counters (cpht bp) \<and>
     histories (local_bht bp) \<and> histories (local_bht_retired bp) \<and>
     length (call_target_cache bp) = 4096 \<and> length (normal_target_cache bp) = 4096 \<and>
     ras_inv (main_ras bp) \<and> stack_size (main_ras bp) = RAS_SIZE"

lemma gshare_update_ok:
  assumes "bp_inv bp"
  shows "\<exists>bp1. gshare_update_prediction pc jump hit bp = Some bp1 \<and> bp_inv bp1"
proof -
  let ?a = "gshare_global_history_retired bp XOR pc_part1 GSHARE_PC_P2_ADDR_WIDTH (mask 12) pc"
  have a: "small ?a" using assms small_index(1) by (simp add: bp_inv_def)
  have c: "counters (gshare_pht bp)" using assms by (simp add: bp_inv_def)
  note v = counters_at [OF c a]
  obtain t where "table_set ?a (count_step jump (gshare_pht bp ! unat ?a)) (gshare_pht bp) = Some t" "counters t"
    using counters_set [OF c a] count_step_le v by blast
  with v assms show ?thesis
    by (simp add: gshare_update_prediction_def bp_gshare_global_history_update_def masks Let_def bp_inv_def small_shift)
qed

lemma local_update_ok:
  assumes "bp_inv bp"
  shows "\<exists>bp1. local_update_prediction pc jump hit bp = Some bp1 \<and> bp_inv bp1"
proof -
  let ?p = "pc_part1 LOCAL_PC_P2_ADDR_WIDTH (mask 12) pc"
  have p: "small ?p" by (rule small_index(2))
  have h: "histories (local_bht_retired bp)" "histories (local_bht bp)" and c: "counters (local_pht bp)"
    using assms by (simp_all add: bp_inv_def)
  let ?b = "local_bht_retired bp ! unat ?p"
  note b = histories_at [OF h(1) p]
  have a: "small (?b XOR ?p)" using b small_index(1) by simp
  note v = counters_at [OF c a]
  obtain t1 where t1: "table_set ?p (history_shift (mask 12) ?b jump) (local_bht_retired bp) = Some t1" "histories t1"
    using histories_set [OF h(1) p small_shift] by blast
  obtain t2 where t2: "table_set (?b XOR ?p) (count_step jump (local_pht bp ! unat (?b XOR ?p))) (local_pht bp) = Some t2"
      "counters t2"
    using counters_set [OF c a] count_step_le v by blast
  obtain t3 where t3: "table_set ?p (history_shift (mask 12) ?b jump) (local_bht bp) = Some t3" "histories t3"
    using histories_set [OF h(2) p small_shift] by blast
  show ?thesis using assms b v t1 t2 t3
    by (cases hit) (simp_all add: local_update_prediction_def masks bp_inv_def)
qed

lemma cpht_update_ok:
  assumes "bp_inv bp"
  shows "\<exists>bp1. cpht_update_prediction pc hit bp = Some bp1 \<and> bp_inv bp1"
proof -
  let ?a = "gshare_global_history bp XOR pc_part1 GSHARE_PC_P2_ADDR_WIDTH (mask 12) pc"
  have a: "small ?a" using assms small_index(1) by (simp add: bp_inv_def)
  have c: "counters (cpht bp)" using assms by (simp add: bp_inv_def)
  note v = counters_at [OF c a]
  obtain t where "table_set ?a (cpht_step hit (cpht bp ! unat ?a)) (cpht bp) = Some t" "counters t"
    using counters_set [OF c a] cpht_step_le v by blast
  with v assms show ?thesis by (simp add: cpht_update_prediction_def masks bp_inv_def)
qed

lemma target_update_ok:
  assumes "bp_inv bp"
  shows "\<exists>bp1. call_update_prediction pc jump target bp = Some bp1 \<and> bp_inv bp1"
    "\<exists>bp1. normal_update_prediction pc jump target bp = Some bp1 \<and> bp_inv bp1"
  using assms small_index(1) [of "call_global_history bp"] small_index(1) [of "normal_global_history bp"]
  by (auto simp: call_update_prediction_def normal_update_prediction_def bp_call_global_history_update_def
      bp_normal_global_history_update_def masks bp_inv_def small_shift table_set_def small_def [of "_ XOR _"])

lemma bp_update_prediction_ok:
  assumes "bp_inv bp"
  shows "\<exists>bp1. bp_update_prediction pc instruction jump next_pc hit bp = Some bp1 \<and> bp_inv bp1"
proof -
  obtain b1 where b1: "gshare_update_prediction pc jump hit bp = Some b1" "bp_inv b1"
    using gshare_update_ok [OF assms] by blast
  obtain b2 where b2: "local_update_prediction pc jump hit b1 = Some b2" "bp_inv b2"
    using local_update_ok [OF b1(2)] by blast
  show ?thesis
    using b1(1) b2(1) cpht_update_ok [OF b2(2)] target_update_ok [OF assms] assms
    by (simp add: bp_update_prediction_def Let_def)
qed

lemma bp_guess_ok:
  assumes "bp_inv bp"
  shows "\<exists>bp1. bp_update_prediction_guess pc instruction jump next_pc bp = Some bp1 \<and> bp_inv bp1"
proof -
  let ?p = "pc_part1 LOCAL_PC_P2_ADDR_WIDTH (mask 12) pc"
  have p: "small ?p" by (rule small_index(2))
  have h: "histories (local_bht bp)" using assms by (simp add: bp_inv_def)
  obtain t where "table_set ?p (history_shift (mask 12) (local_bht bp ! unat ?p) jump) (local_bht bp) = Some t" "histories t"
    using histories_set [OF h p small_shift] by blast
  with assms histories_at [OF h p] show ?thesis
    by (simp add: bp_update_prediction_guess_def local_update_prediction_guess_def
        gshare_global_history_update_guess_def masks bp_inv_def small_shift)
qed

lemma bp_bru_guess_ok:
  assumes "bp_inv bp"
  shows "\<exists>bp1. bp_update_prediction_bru_guess cp pc instruction jump next_pc hit bp = Some bp1 \<and> bp_inv bp1"
proof -
  let ?p = "pc_part1 LOCAL_PC_P2_ADDR_WIDTH (mask 12) pc"
  have p: "small ?p" by (rule small_index(2))
  have h: "histories (local_bht bp)" using assms by (simp add: bp_inv_def)
  obtain t where "table_set ?p (history_shift (mask 12) (local_history cp) jump) (local_bht bp) = Some t" "histories t"
    using histories_set [OF h p small_shift] by blast
  with assms show ?thesis
    by (cases hit) (simp_all add: bp_update_prediction_bru_guess_def local_update_prediction_bru_fix_def
        gshare_global_history_update_bru_fix_def masks bp_inv_def small_shift Let_def)
qed

lemma bp_save_ok:
  assumes "bp_inv bp"
  shows "bp_save cp pc bp = Some (cp \<lparr> global_history := gshare_global_history bp,
    local_history := local_bht bp ! unat (pc_part1 LOCAL_PC_P2_ADDR_WIDTH (mask 12) pc) \<rparr>)"
  using assms histories_at [OF _ small_index(2)]
  by (simp add: bp_save_def local_get_bht_value_def masks bp_inv_def)

subsection \<open>Prediction\<close>

lemma bp_push_return_ok:
  assumes "bp_inv bp"
  shows "\<exists>bp1 pf1. bp_push_return pc (bp, pf) = Some (bp1, pf1) \<and> bp_inv bp1"
  using ras_push_addr_cases [of "main_ras bp" "pc + 4" pf] assms by (auto simp: bp_push_return_def bp_inv_def)

lemma bp_pop_return_ok:
  assumes "bp_inv bp"
  shows "\<exists>a bp1. bp_pop_return (bp, pf) = Some (a, bp1, pf) \<and> bp_inv bp1"
  using ras_pop_addr_cases [of "main_ras bp"] assms
  by (cases "ras_addrs (main_ras bp)") (auto simp: bp_pop_return_def bp_inv_def)

lemma target_get_ok:
  assumes "bp_inv bp"
  shows "\<exists>a. call_get_prediction pc bp = Some a" "\<exists>a. normal_get_prediction pc bp = Some a"
  using assms small_index(1) [of "call_global_history bp"] small_index(1) [of "normal_global_history bp"]
  by (auto simp: call_get_prediction_def normal_get_prediction_def masks bp_inv_def table_at_def small_def [of "_ XOR _"])

lemma bp_branch_taken_ok:
  assumes "bp_inv bp"
  shows "\<exists>t. bp_branch_taken pc bp = Some t"
proof -
  have g: "small (gshare_global_history bp XOR pc_part1 GSHARE_PC_P2_ADDR_WIDTH (mask 12) pc)"
    using assms small_index(1) by (simp add: bp_inv_def)
  have h: "histories (local_bht bp)" using assms by (simp add: bp_inv_def)
  note b = histories_at [OF h small_index(2), of LOCAL_PC_P2_ADDR_WIDTH pc]
  have l: "small (local_bht bp ! unat (pc_part1 LOCAL_PC_P2_ADDR_WIDTH (mask 12) pc) XOR
      pc_part1 LOCAL_PC_P2_ADDR_WIDTH (mask 12) pc)"
    using b small_index(1) by simp
  show ?thesis using assms b counters_at [OF _ g] counters_at [OF _ l]
    by (simp add: bp_branch_taken_def cpht_get_prediction_def gshare_get_prediction_def local_get_prediction_def masks
        bp_inv_def Let_def)
qed

lemma bp_jalr_target_ok:
  assumes "bp_inv bp"
  shows "\<exists>a bp1 pf1. bp_jalr_target pc rd rs1 (bp, pf) = Some (a, bp1, pf1) \<and> bp_inv bp1"
proof -
  obtain c n where c: "call_get_prediction pc bp = Some c" "normal_get_prediction pc bp = Some n"
    using target_get_ok [OF assms] by blast
  obtain a b1 where p: "bp_pop_return (bp, pf) = Some (a, b1, pf)" "bp_inv b1"
    using bp_pop_return_ok [OF assms] by blast
  from bp_push_return_ok [OF assms, of pc pf] bp_push_return_ok [OF p(2), of pc pf] c p assms show ?thesis
    by (auto simp: bp_jalr_target_def Let_def)
qed

lemma bp_get_prediction_ok:
  assumes "bp_inv bp"
  shows "\<exists>r bp1 pf1. bp_get_prediction pc instruction (bp, pf) = Some (r, bp1, pf1) \<and> bp_inv bp1"
proof -
  let ?f = "decode_fields instruction"
  obtain i1 i2 where i: "sign_extend (imm_j ?f) 21 = Some i1" "sign_extend (imm_b ?f) 13 = Some i2"
    using sign_extend_total [of 21 "imm_j ?f"] sign_extend_total [of 13 "imm_b ?f"] by auto
  obtain t where t: "bp_branch_taken pc bp = Some t" using bp_branch_taken_ok [OF assms] by blast
  from bp_push_return_ok [OF assms, of pc pf] bp_jalr_target_ok [OF assms, of pc "rd_f ?f" "rs1_f ?f" pf] i t assms
  show ?thesis by (auto simp: bp_get_prediction_def Let_def)
qed

lemma bp_sync_ok:
  assumes "bp_inv bp"
  shows "\<exists>bp1. bp_sync bp = Some bp1 \<and> bp_inv bp1"
  unfolding bp_sync_def
proof (rule drain_invariant)
  show "\<exists>s1. bp_handle r s = Some s1 \<and> bp_inv s1" if "bp_inv s" for r s
    using bp_update_prediction_ok [OF that] by (cases r) simp
qed (use assms in \<open>simp add: bp_inv_def\<close>)

lemma ras_new_inv: "0 < n \<Longrightarrow> length mem = n \<Longrightarrow> ras_inv (ras_new n mem) \<and> stack_size (ras_new n mem) = n"
  by (simp add: ras_inv_def ras_new_def stack_new_def stack.defs ras.defs)

lemma bp_new_inv:
  assumes "histories retired_mem" "length ras_mem = RAS_SIZE"
  shows "bp_inv (bp_new retired_mem ras_mem)"
  using assms ras_new_inv [of RAS_SIZE ras_mem]
  by (simp add: bp_inv_def bp_new_def small_def counters_def histories_def table_defs RAS_SIZE_def)

lemma bp_reset_inv: "bp_inv bp \<Longrightarrow> bp_inv (bp_reset bp)"
  by (simp add: bp_inv_def bp_reset_def small_def counters_def histories_def table_defs ras_inv_def ras_reset_def
      stack_reset_def)

subsection \<open>Sequences of operations\<close>

text \<open>What the core calls, in any order: prediction and guess at fetch, repair at execution, training at commit, and the
  end of the cycle.\<close>

datatype bp_call =
  Predict u32 u32 | Guess u32 u32 bool u32 | Bru_guess checkpoint_t u32 u32 bool u32 bool
  | Train u32 u32 bool u32 bool | Cycle_end | Reset_all

fun bp_do :: "bp_call \<Rightarrow> branch_predictor \<times> perf \<Rightarrow> (branch_predictor \<times> perf) option" where
  "bp_do (Predict pc i) st = map_option snd (bp_get_prediction pc i st)"
| "bp_do (Guess pc i j n) (bp, pf) = map_option (\<lambda>b. (b, pf)) (bp_update_prediction_guess pc i j n bp)"
| "bp_do (Bru_guess cp pc i j n h) (bp, pf) =
     map_option (\<lambda>b. (b, pf)) (bp_update_prediction_bru_guess cp pc i j n h bp)"
| "bp_do (Train pc i j n h) (bp, pf) = Some (bp_update_prediction_sync pc i j n h bp, pf)"
| "bp_do Cycle_end (bp, pf) = map_option (\<lambda>b. (b, pf)) (bp_sync bp)"
| "bp_do Reset_all (bp, pf) = Some (bp_reset bp, pf)"

lemma bp_do_ok:
  assumes "bp_inv (fst st)"
  shows "\<exists>st1. bp_do c st = Some st1 \<and> bp_inv (fst st1)"
proof -
  obtain bp pf where st: "st = (bp, pf)" by (cases st)
  with assms have inv: "bp_inv bp" by simp
  show ?thesis
  proof (cases c)
    case (Predict pc i)
    with bp_get_prediction_ok [OF inv, of pc i pf] st show ?thesis by auto
  next
    case (Guess pc i j n)
    with bp_guess_ok [OF inv, of pc i j n] st show ?thesis by auto
  next
    case (Bru_guess cp pc i j n h)
    with bp_bru_guess_ok [OF inv, of cp pc i j n h] st show ?thesis by auto
  next
    case (Train pc i j n h)
    with inv st show ?thesis by (simp add: bp_update_prediction_sync_def bp_inv_def)
  next
    case Cycle_end
    with bp_sync_ok [OF inv] st show ?thesis by auto
  next
    case Reset_all
    with bp_reset_inv [OF inv] st show ?thesis by simp
  qed
qed

text \<open>The predictions of a sequence of fetches.\<close>

fun bp_predict_all ::
  "(u32 \<times> u32) list \<Rightarrow> branch_predictor \<times> perf \<Rightarrow> ((bool \<times> u32) option list \<times> branch_predictor \<times> perf) option" where
  "bp_predict_all [] st = Some ([], st)"
| "bp_predict_all ((pc, i) # xs) st = do {
     (r, st1) \<leftarrow> bp_get_prediction pc i st;
     (rs, st2) \<leftarrow> bp_predict_all xs st1;
     Some (r # rs, st2) }"

text \<open>
  The reference: the call stack of the program. The hints of the RISC-V manual say what an unconditional jump does to it, by
  whether \<open>rd\<close> and \<open>rs1\<close> are link registers: a call pushes the address behind it, a return pops its target, and a coroutine
  switch does both.
\<close>

datatype control = Call | Return | Switch | Other

definition control_of :: "u32 \<Rightarrow> control" where
  "control_of i =
     (let f = decode_fields i; link_rd = is_link (rd_f f); link_rs1 = is_link (rs1_f f)
      in if opcode f = 0x6f then if link_rd then Call else Other
      else if opcode f = 0x67 then
        case (link_rd, link_rs1) of
          (False, False) \<Rightarrow> Other
        | (False, True) \<Rightarrow> Return
        | (True, False) \<Rightarrow> Call
        | (True, True) \<Rightarrow> if rd_f f = rs1_f f then Call else Switch
      else Other)"

text \<open>The target an instruction takes from the call stack, and the stack behind it.\<close>

definition call_step :: "u32 \<times> u32 \<Rightarrow> u32 list \<Rightarrow> u32 option \<times> u32 list" where
  "call_step x st =
     (let popped = (case st of [] \<Rightarrow> None | a # _ \<Rightarrow> Some a)
      in case control_of (snd x) of
        Call \<Rightarrow> (None, (fst x + 4) # st)
      | Return \<Rightarrow> (popped, tl st)
      | Switch \<Rightarrow> (popped, (fst x + 4) # tl st)
      | Other \<Rightarrow> (None, st))"

fun call_targets :: "(u32 \<times> u32) list \<Rightarrow> u32 list \<Rightarrow> u32 option list" where
  "call_targets [] st = []"
| "call_targets (x # xs) st = fst (call_step x st) # call_targets xs (snd (call_step x st))"

definition call_stack :: "(u32 \<times> u32) list \<Rightarrow> u32 list \<Rightarrow> u32 list" where
  "call_stack xs st = fold (\<lambda>x. snd \<circ> call_step x) xs st"

fun call_depth :: "(u32 \<times> u32) list \<Rightarrow> u32 list \<Rightarrow> nat" where
  "call_depth [] st = length st"
| "call_depth (x # xs) st = max (length st) (call_depth xs (snd (call_step x st)))"

lemma call_depth_ge: "length st \<le> call_depth xs st"
  by (cases xs) simp_all

lemma push_return_tracks:
  assumes "ras_inv (main_ras bp)" "length (ras_addrs (main_ras bp)) < stack_size (main_ras bp)"
  shows "\<exists>r. bp_push_return pc (bp, pf) = Some (bp \<lparr> main_ras := r \<rparr>, pf) \<and> stack_size r = stack_size (main_ras bp) \<and>
    ras_addrs r = (pc + 4) # ras_addrs (main_ras bp)"
proof -
  have "\<not> stack_is_full (main_ras bp)" using ras_depth [OF assms(1)] assms(2) by (simp add: stack_is_full_def)
  with ras_push_addr_cases [OF assms(1), of "pc + 4" pf] show ?thesis by (auto simp: bp_push_return_def)
qed

lemma pop_return_tracks:
  assumes "ras_inv (main_ras bp)"
  shows "\<exists>a r. bp_pop_return (bp, pf) = Some (a, bp \<lparr> main_ras := r \<rparr>, pf) \<and> ras_inv r \<and>
    stack_size r = stack_size (main_ras bp) \<and> ras_addrs r = tl (ras_addrs (main_ras bp)) \<and>
    (ras_addrs (main_ras bp) \<noteq> [] \<longrightarrow> a = hd (ras_addrs (main_ras bp)))"
proof (cases "ras_addrs (main_ras bp)")
  case Nil
  with ras_pop_addr_cases [OF assms] have "ras_pop_addr (main_ras bp) = Some (last_addr (main_ras bp), main_ras bp)" by simp
  with Nil assms show ?thesis by (intro exI [of _ "last_addr (main_ras bp)"] exI [of _ "main_ras bp"]) (simp add: bp_pop_return_def)
next
  case (Cons a as)
  with ras_pop_addr_cases [OF assms] show ?thesis by (auto simp: bp_pop_return_def)
qed

lemma bp_inv_ras: "bp_inv bp \<Longrightarrow> ras_inv (main_ras bp)"
  by (simp add: bp_inv_def)

lemma predict_tracks:
  assumes "bp_inv bp" "length (snd (call_step (pc, i) (ras_addrs (main_ras bp)))) \<le> stack_size (main_ras bp)"
  shows "\<exists>p bp1. bp_get_prediction pc i (bp, pf) = Some (p, bp1, pf) \<and> stack_size (main_ras bp1) = stack_size (main_ras bp) \<and>
    ras_addrs (main_ras bp1) = snd (call_step (pc, i) (ras_addrs (main_ras bp))) \<and>
    (\<forall>a. fst (call_step (pc, i) (ras_addrs (main_ras bp))) = Some a \<longrightarrow> p = Some (True, a))"
proof -
  let ?f = "decode_fields i" and ?st = "ras_addrs (main_ras bp)"
  obtain i1 i2 where im: "sign_extend (imm_j ?f) 21 = Some i1" "sign_extend (imm_b ?f) 13 = Some i2"
    using sign_extend_total [of 21 "imm_j ?f"] sign_extend_total [of 13 "imm_b ?f"] by auto
  obtain t where t: "bp_branch_taken pc bp = Some t" using bp_branch_taken_ok [OF assms(1)] by blast
  obtain c n where cn: "call_get_prediction pc bp = Some c" "normal_get_prediction pc bp = Some n"
    using target_get_ok [OF assms(1)] by blast
  note inv = bp_inv_ras [OF assms(1)]
  obtain a r where pop: "bp_pop_return (bp, pf) = Some (a, bp \<lparr> main_ras := r \<rparr>, pf)" "ras_inv r"
      "stack_size r = stack_size (main_ras bp)" "ras_addrs r = tl ?st" "?st \<noteq> [] \<longrightarrow> a = hd ?st"
    using pop_return_tracks [OF inv] by blast
  show ?thesis
  proof (cases "control_of i")
    case Call
    with assms(2) have "length ?st < stack_size (main_ras bp)" by (simp add: call_step_def)
    from push_return_tracks [OF inv this, of pc pf] Call im cn show ?thesis
      by (auto simp: bp_get_prediction_def bp_jalr_target_def control_of_def call_step_def Let_def split: if_splits bool.splits)
  next
    case Return
    with pop show ?thesis
      by (cases ?st) (auto simp: bp_get_prediction_def bp_jalr_target_def control_of_def call_step_def Let_def split: if_splits bool.splits)
  next
    case Switch
    with assms(2) have "length (ras_addrs (main_ras (bp \<lparr> main_ras := r \<rparr>))) < stack_size (main_ras (bp \<lparr> main_ras := r \<rparr>))"
      using pop(3,4) by (simp add: call_step_def)
    from push_return_tracks [OF _ this, of pc pf] Switch pop show ?thesis
      by (cases ?st) (auto simp: bp_get_prediction_def bp_jalr_target_def control_of_def call_step_def Let_def split: if_splits bool.splits)
  next
    case Other
    with im t cn show ?thesis
      by (auto simp: bp_get_prediction_def bp_jalr_target_def control_of_def call_step_def Let_def split: if_splits bool.splits)
  qed
qed

lemma predict_all_tracks:
  assumes "bp_inv bp" "call_depth insts (ras_addrs (main_ras bp)) \<le> stack_size (main_ras bp)"
  shows "\<exists>ps bp1. bp_predict_all insts (bp, pf) = Some (ps, bp1, pf) \<and>
    list_all2 (\<lambda>t p. \<forall>a. t = Some a \<longrightarrow> p = Some (True, a)) (call_targets insts (ras_addrs (main_ras bp))) ps \<and>
    ras_addrs (main_ras bp1) = call_stack insts (ras_addrs (main_ras bp))"
  using assms
proof (induction insts arbitrary: bp)
  case (Cons x insts)
  obtain pc i where x: "x = (pc, i)" by (cases x)
  let ?st = "snd (call_step (pc, i) (ras_addrs (main_ras bp)))"
  have "length ?st \<le> stack_size (main_ras bp)" using Cons.prems(2) call_depth_ge [of ?st insts] x by simp
  from predict_tracks [OF Cons.prems(1) this, of pf] obtain p b where
    b: "bp_get_prediction pc i (bp, pf) = Some (p, b, pf)" "stack_size (main_ras b) = stack_size (main_ras bp)"
      "ras_addrs (main_ras b) = ?st" "\<forall>a. fst (call_step (pc, i) (ras_addrs (main_ras bp))) = Some a \<longrightarrow> p = Some (True, a)"
    by blast
  have "bp_inv b" using bp_get_prediction_ok [OF Cons.prems(1), of pc i pf] b(1) by auto
  with Cons.IH [of b] Cons.prems(2) b x show ?case by (auto simp: call_stack_def)
qed (simp add: call_stack_def)

subsection \<open>Properties\<close>

text \<open>C36: Starting from the constructor, with history entries that fit the table index, no sequence of predictions, guesses,
  repairs, training and resets reads or writes outside a table or aborts; afterwards every history and history entry
  still fits the index, every counter is at most 3, and the return address stack is well formed.\<close>

theorem bp_calls_in_bounds:
  assumes "histories retired_mem" "length ras_mem = RAS_SIZE"
  shows "\<exists>bp1 pf1. drain bp_do cs (bp_new retired_mem ras_mem, pf) = Some (bp1, pf1) \<and> bp_inv bp1"
proof -
  have "\<exists>st1. drain bp_do cs (bp_new retired_mem ras_mem, pf) = Some st1 \<and> bp_inv (fst st1)"
    using bp_do_ok bp_new_inv [OF assms] by (intro drain_invariant) simp_all
  then show ?thesis by auto
qed

theorem bp_calls_in_bounds_witness:
  "\<exists>bp1 pf1. drain bp_do [Train 0x80000000 0xFE208EE3 True 0x7FFFFFFC False, Cycle_end, Predict 0x80000000 0xFE208EE3]
      (bp_new (replicate 4096 0) (replicate 256 \<lparr> ras_addr = 0, ras_cnt = 0 \<rparr>), perf_zero) = Some (bp1, pf1) \<and> bp_inv bp1"
proof (rule bp_calls_in_bounds)
  show "histories (replicate 4096 0)" by (simp add: histories_def small_def)
qed (simp add: RAS_SIZE_def)

text \<open>C37: Returns are predicted to go where the call stack says. Take any fetched instructions whose calls never nest deeper than
  the return address stack has slots, counting what it already holds. Then every return and every coroutine switch for which the
  call stack has an entry is predicted to jump to it, whichever \<open>jal\<close> or \<open>jalr\<close> made the call, nothing is counted as an overflow,
  and the return address stack ends up holding the call stack.\<close>

theorem bp_predicts_returns:
  assumes "bp_inv bp" "call_depth insts (ras_addrs (main_ras bp)) \<le> stack_size (main_ras bp)"
  shows "\<exists>ps bp1. bp_predict_all insts (bp, pf) = Some (ps, bp1, pf) \<and>
    list_all2 (\<lambda>t p. \<forall>a. t = Some a \<longrightarrow> p = Some (True, a)) (call_targets insts (ras_addrs (main_ras bp))) ps \<and>
    ras_addrs (main_ras bp1) = call_stack insts (ras_addrs (main_ras bp))"
  by (rule predict_all_tracks [OF assms])

text \<open>A \<open>jal\<close> calls a function that calls another one through \<open>a0\<close>, and both return.\<close>

definition sample_calls :: "(u32 \<times> u32) list" where
  "sample_calls = [(0x80000000, 0x008000EF), (0x80000008, 0x000500E7), (0x90000000, 0x00008067), (0x8000000C, 0x00008067)]"

theorem bp_predicts_returns_witness:
  "\<exists>p1 p2 bp1. bp_predict_all sample_calls
      (bp_new (replicate 4096 0) (replicate 256 \<lparr> ras_addr = 0, ras_cnt = 0 \<rparr>), perf_zero) =
        Some ([p1, p2, Some (True, 0x8000000C), Some (True, 0x80000004)], bp1, perf_zero) \<and> ras_addrs (main_ras bp1) = []"
proof -
  let ?b = "bp_new (replicate 4096 0) (replicate 256 \<lparr> ras_addr = 0, ras_cnt = 0 \<rparr>)"
  have inv: "bp_inv ?b" by (rule bp_new_inv) (simp_all add: histories_def small_def RAS_SIZE_def)
  have st: "ras_addrs (main_ras ?b) = []" "stack_size (main_ras ?b) = 256"
    by (simp_all add: bp_new_def ras_new_def stack_new_def stack.defs ras.defs ras_addrs_def ras_runs_def RAS_SIZE_def)
  have step: "control_of 0x008000EF = Call" "control_of 0x000500E7 = Call" "control_of 0x00008067 = Return"
    by (simp_all add: control_of_def is_link_def decode_fields_def Let_def)
  have c: "call_targets sample_calls [] = [None, None, Some 0x8000000C, Some 0x80000004]" "call_stack sample_calls [] = []"
      "call_depth sample_calls [] = 2"
    by (simp_all add: sample_calls_def call_stack_def call_step_def step Let_def)
  obtain ps bp1 where "bp_predict_all sample_calls (?b, perf_zero) = Some (ps, bp1, perf_zero)" "ras_addrs (main_ras bp1) = []"
      "list_all2 (\<lambda>t p. \<forall>a. t = Some a \<longrightarrow> p = Some (True, a)) [None, None, Some 0x8000000C, Some 0x80000004] ps"
    using bp_predicts_returns [OF inv, of sample_calls perf_zero] unfolding st c by fastforce
  then show ?thesis by (auto simp: list_all2_Cons1)
qed

text \<open>C38: Repair of a wrong guess. A conditional branch saves the histories in its checkpoint and shifts its guess in; younger
  branches shift their guesses in after it. When execution finds the guess wrong, the global history and the history
  entry of the branch become what a right guess would have made them, whatever the younger branches did.\<close>

theorem bp_repair_is_right_guess:
  assumes "bp_inv bp" "opcode (decode_fields i) = 0x63"
    and "bp_save cp0 pc bp = Some cp" "bp_update_prediction_guess pc i (\<not> jump) wrong_pc bp = Some bp1"
    and "drain (\<lambda>(pc, i, j, n). bp_update_prediction_guess pc i j n) younger bp1 = Some bp2"
  shows "\<exists>bp3 bpr. bp_update_prediction_bru_guess cp pc i jump next_pc False bp2 = Some bp3 \<and>
    bp_update_prediction_guess pc i jump next_pc bp = Some bpr \<and>
    gshare_global_history bp3 = gshare_global_history bpr \<and> local_get_bht_value pc bp3 = local_get_bht_value pc bpr"
proof -
  let ?p = "pc_part1 LOCAL_PC_P2_ADDR_WIDTH (mask 12) pc"
  have p: "unat ?p < 4096" using small_index(2) [of LOCAL_PC_P2_ADDR_WIDTH pc] by (simp add: small_def)
  have "bp_inv bp1" using bp_guess_ok [OF assms(1)] assms(4) by (metis option.inject)
  then have "\<exists>b. drain (\<lambda>(pc, i, j, n). bp_update_prediction_guess pc i j n) younger bp1 = Some b \<and> bp_inv b"
    using bp_guess_ok by (intro drain_invariant) (auto split: prod.splits)
  with assms(5) have "bp_inv bp2" by simp
  then have "length (local_bht bp2) = 4096" "length (local_bht bp) = 4096"
    using assms(1) by (simp_all add: bp_inv_def histories_def)
  with p assms(2) bp_save_ok [OF assms(1), of cp0 pc] assms(3) show ?thesis
    by (auto simp: bp_update_prediction_bru_guess_def bp_update_prediction_guess_def local_update_prediction_bru_fix_def
        gshare_global_history_update_bru_fix_def local_update_prediction_guess_def gshare_global_history_update_guess_def
        local_get_bht_value_def masks Let_def table_at_def table_set_def)
qed

definition sample_checkpoint :: checkpoint_t where
  "sample_checkpoint = \<lparr> rat_phy_map_table_valid = [], rat_phy_map_table_visible = [], phy_regfile_data_valid = [],
     rat_phy_map_table = [], global_history = 0, local_history = 0 \<rparr>"

theorem bp_repair_is_right_guess_witness:
  "\<exists>bp cp bp1 bp2 bp3 bpr. bp_inv bp \<and> bp_save sample_checkpoint 0x80000000 bp = Some cp \<and>
     bp_update_prediction_guess 0x80000000 0xFE208EE3 False 0x80000004 bp = Some bp1 \<and>
     bp_update_prediction_guess 0x80000004 0xFE208EE3 False 0x80000008 bp1 = Some bp2 \<and>
     bp_update_prediction_bru_guess cp 0x80000000 0xFE208EE3 True 0x7FFFFFFC False bp2 = Some bp3 \<and>
     bp_update_prediction_guess 0x80000000 0xFE208EE3 True 0x7FFFFFFC bp = Some bpr \<and>
     gshare_global_history bp3 = gshare_global_history bpr"
proof -
  have inv: "bp_inv (bp_new (replicate 4096 0) (replicate 256 \<lparr> ras_addr = 0, ras_cnt = 0 \<rparr>))"
    by (rule bp_new_inv) (simp_all add: histories_def small_def RAS_SIZE_def)
  then obtain bp where inv: "bp_inv bp" by blast
  obtain cp where cp: "bp_save sample_checkpoint 0x80000000 bp = Some cp" using bp_save_ok [OF inv] by blast
  obtain b1 where b1: "bp_update_prediction_guess 0x80000000 0xFE208EE3 (\<not> True) 0x80000004 bp = Some b1" "bp_inv b1"
    using bp_guess_ok [OF inv] by blast
  obtain b2 where b2: "bp_update_prediction_guess 0x80000004 0xFE208EE3 False 0x80000008 b1 = Some b2"
    using bp_guess_ok [OF b1(2)] by blast
  have op: "opcode (decode_fields 0xFE208EE3) = 0x63" by (simp add: decode_fields_def)
  have "drain (\<lambda>(pc, i, j, n). bp_update_prediction_guess pc i j n) [(0x80000004, 0xFE208EE3, False, 0x80000008)] b1 = Some b2"
    using b2 by simp
  from bp_repair_is_right_guess [where next_pc = "0x7FFFFFFC", OF inv op cp b1(1) this] inv cp b1(1) b2 show ?thesis by auto
qed

end
