(* ===== verification/Execute.thy ===== *)
theory Execute
  imports Pipeline_Types Csr Store_Buffer Branch_Predictor "HOL-Library.Signed_Division"
begin

text \<open>
  \<open>pipeline/execute\<close>: the six kinds of execution unit. Each takes at most one instruction per cycle from its issue
  queue, computes, puts the result on its port to the write-back stage and returns a feedback channel
  that forwards the result.

  \<open>int32_t\<close> arithmetic is on \<open>sint\<close>; the division of C truncates and is \<open>sdiv\<close>, its remainder \<open>smod\<close>. The 64-bit
  products are words of 64 bits.
\<close>

unbundle bit_operations_syntax

subsection \<open>What the units share\<close>

record exec_io =
  eu_fifo :: "issue_execute_pack_t fifo"
  eu_wb_port :: "execute_wb_pack_t port"

text \<open>The copy of the fields of \<open>rev_pack\<close> into the zeroed \<open>send_pack\<close>.\<close>

definition to_wb :: "issue_execute_pack_t \<Rightarrow> execute_wb_pack_t" where
  "to_wb rev_pack =
     readreg_issue_op_info_t.extend (readreg_issue_op_info_t.truncate rev_pack) (execute_wb_pack_t.fields False 0 0 0 False)"

definition exec_feedback :: "execute_wb_pack_t \<Rightarrow> execute_feedback_channel_t" where
  "exec_feedback send_pack =
     \<lparr> ch_enable = o_enable send_pack \<and> o_valid send_pack \<and> o_rd_enable send_pack \<and> o_need_rename send_pack \<and>
         \<not> o_has_exception send_pack,
       ch_phy_id = o_rd_phy send_pack, ch_value = o_rd_value send_pack \<rparr>"

text \<open>The front of the queue when there is one and no flush.\<close>

definition exec_take ::
  "commit_feedback_pack_t \<Rightarrow> exec_io \<Rightarrow> (issue_execute_pack_t option \<times> exec_io) option" where
  "exec_take cf s =
     (if \<not> fifo_is_empty (eu_fifo s) \<and> \<not> (cf_enable cf \<and> cf_flush cf) then
        case fifo_pop (eu_fifo s) of
          (Some rev_pack, q) \<Rightarrow> Some (Some rev_pack, s \<lparr> eu_fifo := q \<rparr>)
        | (None, q) \<Rightarrow> None
      else Some (None, s))"

definition exec_put :: "execute_wb_pack_t \<Rightarrow> exec_io \<Rightarrow> execute_feedback_channel_t \<times> exec_io" where
  "exec_put send_pack s = (exec_feedback send_pack, s \<lparr> eu_wb_port := port_set send_pack (eu_wb_port s) \<rparr>)"

text \<open>The cycle of a unit whose result depends on the instruction only.\<close>

definition exec_run :: "(issue_execute_pack_t \<Rightarrow> execute_wb_pack_t option) \<Rightarrow> commit_feedback_pack_t \<Rightarrow> exec_io \<Rightarrow>
    (execute_feedback_channel_t \<times> exec_io) option" where
  "exec_run f cf s = do {
     (rev, s1) \<leftarrow> exec_take cf s;
     send_pack \<leftarrow> (case rev of None \<Rightarrow> Some zero_execute_wb_pack | Some rev_pack \<Rightarrow> f rev_pack);
     Some (exec_put send_pack s1) }"

definition wb_exception :: "riscv_exception_t \<Rightarrow> u32 \<Rightarrow> execute_wb_pack_t \<Rightarrow> execute_wb_pack_t" where
  "wb_exception e v p = p \<lparr> o_has_exception := True, o_exception_id := e, o_exception_value := v \<rparr>"

subsection \<open>ALU\<close>

text \<open>The result register of the switch.\<close>

fun alu_value :: "alu_op_t \<Rightarrow> u32 \<Rightarrow> u32 \<Rightarrow> u32 \<Rightarrow> u32 \<Rightarrow> u32" where
  "alu_value Alu_add a b im pc = a + b"
| "alu_value Alu_and a b im pc = a AND b"
| "alu_value Alu_auipc a b im pc = im + pc"
| "alu_value Alu_ebreak a b im pc = 0"
| "alu_value Alu_ecall a b im pc = 0"
| "alu_value Alu_fence a b im pc = 0"
| "alu_value Alu_fence_i a b im pc = 0"
| "alu_value Alu_lui a b im pc = im"
| "alu_value Alu_or a b im pc = a OR b"
| "alu_value Alu_sll a b im pc = push_bit (unat (b AND 0x1f)) a"
| "alu_value Alu_slt a b im pc = (if sint a < sint b then 1 else 0)"
| "alu_value Alu_sltu a b im pc = (if a < b then 1 else 0)"
| "alu_value Alu_sra a b im pc = word_of_int (drop_bit (unat (b AND 0x1f)) (sint a))"
| "alu_value Alu_srl a b im pc = drop_bit (unat (b AND 0x1f)) a"
| "alu_value Alu_sub a b im pc = a - b"
| "alu_value Alu_xor a b im pc = a XOR b"

fun alu_trap :: "alu_op_t \<Rightarrow> execute_wb_pack_t \<Rightarrow> execute_wb_pack_t" where
  "alu_trap Alu_ebreak p = wb_exception breakpoint 0 p"
| "alu_trap Alu_ecall p = wb_exception environment_call_from_m_mode 0 p"
| "alu_trap _ p = p"

definition alu_exec :: "issue_execute_pack_t \<Rightarrow> execute_wb_pack_t option" where
  "alu_exec rev_pack =
     (let send_pack = to_wb rev_pack
      in if o_enable rev_pack \<and> \<not> o_has_exception rev_pack then
        if \<not> o_valid rev_pack then Some (wb_exception illegal_instruction 0 send_pack)
        else do {
          x \<leftarrow> sub_alu_op (o_sub_op rev_pack);
          Some (alu_trap x (send_pack \<lparr> o_rd_value :=
            alu_value x (o_src1_value rev_pack) (o_src2_value rev_pack) (o_imm rev_pack) (o_pc rev_pack) \<rparr>)) }
      else Some send_pack)"

definition alu_run :: "commit_feedback_pack_t \<Rightarrow> exec_io \<Rightarrow> (execute_feedback_channel_t \<times> exec_io) option" where
  "alu_run = exec_run alu_exec"

subsection \<open>MUL\<close>

fun mul_value :: "mul_op_t \<Rightarrow> u32 \<Rightarrow> u32 \<Rightarrow> u32" where
  "mul_value Mul_mul a b = ucast ((scast a * scast b :: u64) AND 0xffffffff)"
| "mul_value Mul_mulh a b = ucast (drop_bit 32 (scast a * scast b :: u64) AND 0xffffffff)"
| "mul_value Mul_mulhsu a b = ucast (drop_bit 32 (scast a * ucast b :: u64) AND 0xffffffff)"
| "mul_value Mul_mulhu a b = ucast (drop_bit 32 (ucast a * ucast b :: u64) AND 0xffffffff)"

definition mul_exec :: "issue_execute_pack_t \<Rightarrow> execute_wb_pack_t option" where
  "mul_exec rev_pack =
     (let send_pack = to_wb rev_pack
      in if o_enable rev_pack \<and> o_valid rev_pack then do {
        x \<leftarrow> sub_mul_op (o_sub_op rev_pack);
        Some (send_pack \<lparr> o_rd_value := mul_value x (o_src1_value rev_pack) (o_src2_value rev_pack) \<rparr>) }
      else Some send_pack)"

definition mul_run :: "commit_feedback_pack_t \<Rightarrow> exec_io \<Rightarrow> (execute_feedback_channel_t \<times> exec_io) option" where
  "mul_run = exec_run mul_exec"

subsection \<open>DIV\<close>

fun div_value :: "div_op_t \<Rightarrow> u32 \<Rightarrow> u32 \<Rightarrow> u32" where
  "div_value Div_div a b =
     (if b = 0 then 0xFFFFFFFF else if a = 0x80000000 \<and> b = 0xFFFFFFFF then 0x80000000
      else word_of_int (sint a sdiv sint b))"
| "div_value Div_divu a b = (if b = 0 then 0xFFFFFFFF else a div b)"
| "div_value Div_rem a b =
     (if b = 0 then a else if a = 0x80000000 \<and> b = 0xFFFFFFFF then 0 else word_of_int (sint a smod sint b))"
| "div_value Div_remu a b = (if b = 0 then a else a mod b)"

definition div_exec :: "issue_execute_pack_t \<Rightarrow> execute_wb_pack_t option" where
  "div_exec rev_pack =
     (let send_pack = to_wb rev_pack
      in if o_enable rev_pack \<and> o_valid rev_pack then do {
        x \<leftarrow> sub_div_op (o_sub_op rev_pack);
        Some (send_pack \<lparr> o_rd_value := div_value x (o_src1_value rev_pack) (o_src2_value rev_pack) \<rparr>) }
      else Some send_pack)"

definition div_run :: "commit_feedback_pack_t \<Rightarrow> exec_io \<Rightarrow> (execute_feedback_channel_t \<times> exec_io) option" where
  "div_run = exec_run div_exec"

subsection \<open>CSR\<close>

text \<open>The unit keeps the last instruction in a member. The copy for an enabled, valid instruction leaves out the
  prediction and checkpoint fields.\<close>

record csr_unit = exec_io +
  cu_rev_pack :: issue_execute_pack_t

definition csr_unit_reset :: "csr_unit \<Rightarrow> csr_unit" where
  "csr_unit_reset s = s \<lparr> cu_rev_pack := zero_issue_execute_pack \<rparr>"

definition to_wb_csr :: "issue_execute_pack_t \<Rightarrow> execute_wb_pack_t" where
  "to_wb_csr rev_pack = (to_wb rev_pack) \<lparr> o_predicted := False, o_predicted_jump := False, o_predicted_next_pc := 0,
     o_checkpoint_id_valid := False, o_checkpoint_id := 0 \<rparr>"

fun csr_value :: "csr_op_t \<Rightarrow> u32 \<Rightarrow> u32 \<Rightarrow> u32" where
  "csr_value Csr_csrrc old src = old AND NOT src"
| "csr_value Csr_csrrs old src = old OR src"
| "csr_value Csr_csrrw old src = src"

definition csr_exec :: "csrfile \<Rightarrow> issue_execute_pack_t \<Rightarrow> execute_wb_pack_t option" where
  "csr_exec f rev_pack =
     (let send_pack = to_wb_csr rev_pack
      in if o_enable rev_pack then
        if o_valid rev_pack then
          case csrfile_read f (o_csr rev_pack) of
            None \<Rightarrow> Some (wb_exception illegal_instruction 0 send_pack)
          | Some old \<Rightarrow>
              let send1 = send_pack \<lparr> o_rd_value := old, o_csr_newvalue_valid := False \<rparr>
              in if \<not> (o_arg1_src rev_pack = Src_reg \<and> \<not> o_rs1_need_map rev_pack) then do {
                x \<leftarrow> sub_csr_op (o_sub_op rev_pack);
                let new = csr_value x old (o_src1_value rev_pack);
                Some (if \<not> csrfile_write_check f (o_csr rev_pack) new
                      then wb_exception illegal_instruction (o_value rev_pack) send1
                      else send1 \<lparr> o_csr_newvalue := new, o_csr_newvalue_valid := True \<rparr>) }
              else Some send1
        else Some (to_wb rev_pack)
      else Some send_pack)"

text \<open>When the pipeline is flushed, only \<open>enable\<close> of the returned channel is set; the rest is as the stack was.\<close>

definition csr_run :: "execute_feedback_channel_t \<Rightarrow> csrfile \<Rightarrow> commit_feedback_pack_t \<Rightarrow> csr_unit \<Rightarrow>
    (execute_feedback_channel_t \<times> csr_unit) option" where
  "csr_run uninit f cf s =
     (if \<not> (cf_enable cf \<and> cf_flush cf) then do {
        (send_pack, s1) \<leftarrow>
          (if \<not> fifo_is_empty (eu_fifo s) then
             case fifo_pop (eu_fifo s) of
               (Some rev_pack, q) \<Rightarrow> do {
                 send_pack \<leftarrow> csr_exec f rev_pack;
                 Some (send_pack, s \<lparr> eu_fifo := q, cu_rev_pack := rev_pack \<rparr>) }
             | (None, q) \<Rightarrow> None
           else Some (zero_execute_wb_pack, s));
        Some (exec_feedback send_pack, s1 \<lparr> eu_wb_port := port_set send_pack (eu_wb_port s1) \<rparr>) }
      else Some (uninit \<lparr> ch_enable := False \<rparr>,
        s \<lparr> eu_wb_port := port_set zero_execute_wb_pack (eu_wb_port s) \<rparr>))"

subsection \<open>LSU\<close>

record lsu_unit = exec_io +
  lu_busy :: bool
  lu_hold_rev_pack :: issue_execute_pack_t

definition lsu_reset :: "lsu_unit \<Rightarrow> lsu_unit" where
  "lsu_reset s = s \<lparr> lu_busy := False \<rparr>"

text \<open>The components a memory access touches.\<close>

record lsu_mem =
  lm_bus :: bus
  lm_store_buffer :: store_buffer

definition lsu_load :: "lsu_op_t \<Rightarrow> u32 \<Rightarrow> lsu_mem \<Rightarrow> (u32 \<times> lsu_mem) option" where
  "lsu_load x addr m =
     (if x \<in> {Lsu_lb, Lsu_lbu} then do {
        (bus_value, b) \<leftarrow> bus_read8 addr (lm_bus m);
        feedback_value \<leftarrow> sb_get_feedback_value addr 1 (ucast bus_value) (lm_store_buffer m);
        v \<leftarrow> (if x = Lsu_lb then sign_extend feedback_value 8 else Some feedback_value);
        Some (v, m \<lparr> lm_bus := b \<rparr>) }
      else if x \<in> {Lsu_lh, Lsu_lhu} then do {
        (bus_value, b) \<leftarrow> bus_read16 addr (lm_bus m);
        feedback_value \<leftarrow> sb_get_feedback_value addr 2 (ucast bus_value) (lm_store_buffer m);
        v \<leftarrow> (if x = Lsu_lh then sign_extend feedback_value 16 else Some feedback_value);
        Some (v, m \<lparr> lm_bus := b \<rparr>) }
      else do {
        (bus_value, b) \<leftarrow> bus_read32 addr (lm_bus m);
        feedback_value \<leftarrow> sb_get_feedback_value addr 4 bus_value (lm_store_buffer m);
        Some (feedback_value, m \<lparr> lm_bus := b \<rparr>) })"

definition lsu_item :: "lsu_op_t \<Rightarrow> issue_execute_pack_t \<Rightarrow> store_buffer_item_t" where
  "lsu_item x rev_pack =
     \<lparr> sb_enable = True, sb_committed = False, sb_rob_id = o_rob_id rev_pack, sb_pc = o_pc rev_pack,
       sb_addr = o_lsu_addr rev_pack,
       sb_data = (if x = Lsu_sb then o_src2_value rev_pack AND 0xff
                  else if x = Lsu_sh then o_src2_value rev_pack AND 0xffff else o_src2_value rev_pack),
       sb_size = (if x = Lsu_sb then 1 else if x = Lsu_sh then 2 else 4) \<rparr>"

definition lsu_exec ::
  "issue_execute_pack_t \<Rightarrow> lsu_unit \<times> lsu_mem \<Rightarrow> (execute_wb_pack_t \<times> lsu_unit \<times> lsu_mem) option" where
  "lsu_exec rev_pack = (\<lambda>(s, m).
     let send_pack = to_wb rev_pack
     in if o_enable rev_pack \<and> o_valid rev_pack \<and> \<not> o_has_exception send_pack then do {
       x \<leftarrow> sub_lsu_op (o_sub_op rev_pack);
       if x \<in> {Lsu_lb, Lsu_lbu, Lsu_lh, Lsu_lhu, Lsu_lw} then do {
         (v, m1) \<leftarrow> lsu_load x (o_lsu_addr rev_pack) m;
         Some (send_pack \<lparr> o_rd_value := v \<rparr>, s, m1) }
       else if fifo_is_full (lm_store_buffer m) then
         Some (send_pack \<lparr> o_enable := False \<rparr>, s \<lparr> lu_busy := True, lu_hold_rev_pack := rev_pack \<rparr>, m)
       else Some (send_pack, s, m \<lparr> lm_store_buffer := sb_push_sync (lsu_item x rev_pack) (lm_store_buffer m) \<rparr>) }
     else Some (send_pack, s, m))"

text \<open>The instruction of the cycle: the one held back, or the front of the queue.\<close>

definition lsu_take :: "commit_feedback_pack_t \<Rightarrow> lsu_unit \<Rightarrow> (issue_execute_pack_t option \<times> lsu_unit) option" where
  "lsu_take cf s =
     (if (\<not> fifo_is_empty (eu_fifo s) \<or> lu_busy s) \<and> \<not> (cf_enable cf \<and> cf_flush cf) then
        if lu_busy s then Some (Some (lu_hold_rev_pack s), s \<lparr> lu_busy := False \<rparr>)
        else case fifo_pop (eu_fifo s) of
          (Some rev_pack, q) \<Rightarrow> Some (Some rev_pack, s \<lparr> eu_fifo := q \<rparr>)
        | (None, q) \<Rightarrow> None
      else if cf_enable cf \<and> cf_flush cf then Some (None, s \<lparr> lu_busy := False \<rparr>)
      else Some (None, s))"

definition lsu_run :: "commit_feedback_pack_t \<Rightarrow> lsu_unit \<times> lsu_mem \<Rightarrow>
    (execute_feedback_channel_t \<times> lsu_unit \<times> lsu_mem) option" where
  "lsu_run cf = (\<lambda>(s, m). do {
     (rev, s1) \<leftarrow> lsu_take cf s;
     (send_pack, s2, m1) \<leftarrow> (case rev of None \<Rightarrow> Some (zero_execute_wb_pack, s1, m)
        | Some rev_pack \<Rightarrow> lsu_exec rev_pack (s1, m));
     Some (exec_feedback send_pack, s2 \<lparr> eu_wb_port := port_set send_pack (eu_wb_port s2) \<rparr>, m1) })"

subsection \<open>BRU\<close>

fun bru_taken :: "bru_op_t \<Rightarrow> u32 \<Rightarrow> u32 \<Rightarrow> bool" where
  "bru_taken Bru_beq a b = (a = b)"
| "bru_taken Bru_bge a b = (sint a \<ge> sint b)"
| "bru_taken Bru_bgeu a b = (a \<ge> b)"
| "bru_taken Bru_blt a b = (sint a < sint b)"
| "bru_taken Bru_bltu a b = (a < b)"
| "bru_taken Bru_bne a b = (a \<noteq> b)"
| "bru_taken Bru_jal a b = True"
| "bru_taken Bru_jalr a b = True"
| "bru_taken Bru_mret a b = True"

definition bru_switch :: "csrfile \<Rightarrow> issue_execute_pack_t \<Rightarrow> execute_wb_pack_t \<Rightarrow> execute_wb_pack_t option" where
  "bru_switch f rev_pack send_pack = do {
     x \<leftarrow> sub_bru_op (o_sub_op rev_pack);
     let send1 = send_pack \<lparr> o_bru_jump := bru_taken x (o_src1_value rev_pack) (o_src2_value rev_pack) \<rparr>;
     if x = Bru_jal then Some (send1 \<lparr> o_rd_value := o_pc rev_pack + 4 \<rparr>)
     else if x = Bru_jalr then
       Some (send1 \<lparr> o_rd_value := o_pc rev_pack + 4,
         o_bru_next_pc := (o_imm rev_pack + o_src1_value rev_pack) AND NOT 1 \<rparr>)
     else if x = Bru_mret then do {
       mepc \<leftarrow> csrfile_read_sys f CSR_MEPC;
       Some (send1 \<lparr> o_bru_next_pc := mepc \<rparr>) }
     else Some send1 }"

definition bru_exec :: "csrfile \<Rightarrow> issue_execute_pack_t \<Rightarrow> execute_wb_pack_t option" where
  "bru_exec f rev_pack = do {
     let send0 = (to_wb rev_pack) \<lparr> o_bru_next_pc := o_pc rev_pack + o_imm rev_pack \<rparr>;
     send1 \<leftarrow> (if o_enable rev_pack \<and> o_valid rev_pack then bru_switch f rev_pack send0 else Some send0);
     Some (if \<not> o_bru_jump send1 then send1 \<lparr> o_bru_next_pc := o_pc rev_pack + 4 \<rparr> else send1) }"

definition bru_run :: "csrfile \<Rightarrow> checkpoint_buffer \<Rightarrow> commit_feedback_pack_t \<Rightarrow> exec_io \<times> branch_predictor \<Rightarrow>
    (execute_feedback_channel_t \<times> exec_io \<times> branch_predictor) option" where
  "bru_run f cpb cf = (\<lambda>(s, bp). do {
     (rev, s1) \<leftarrow> exec_take cf s;
     (send_pack, bp1) \<leftarrow>
       (case rev of
          None \<Rightarrow> Some (zero_execute_wb_pack, bp)
        | Some rev_pack \<Rightarrow> do {
            send \<leftarrow> bru_exec f rev_pack;
            bp1 \<leftarrow> (if o_valid send \<and> o_checkpoint_id_valid send then do {
               cp_item \<leftarrow> cpbuf_get_item cpb (o_checkpoint_id send);
               bp_update_prediction_bru_guess cp_item (o_pc send) (o_value send) (o_bru_jump send) (o_bru_next_pc send)
                 (o_predicted_jump send = o_bru_jump send) bp }
             else Some bp);
            Some (send, bp1) });
     let (fb, s2) = exec_put send_pack s1;
     Some (fb, s2, bp1) })"

end
