(* ===== verification/Execute_Isa.thy ===== *)
theory Execute_Isa
  imports Execute Decode_Props
begin

text \<open>
  The execution units against the RISC-V manual: the value of every computing instruction in integer arithmetic, and the
  unit and union member the decoder chooses for every operation.
\<close>

subsection \<open>Arithmetic of the manual\<close>

text \<open>The value of a computing instruction on integers. \<open>a\<close> and \<open>b\<close> are the operands (\<open>b\<close> is the immediate of the
  immediate forms). The signed quotient of the most negative number by -1 is not representable and wraps.\<close>

fun isa_value :: "op_t \<Rightarrow> u32 \<Rightarrow> u32 \<Rightarrow> u32 \<Rightarrow> u32 \<Rightarrow> int option" where
  "isa_value Op_lui a b im pc = Some (uint im)"
| "isa_value Op_auipc a b im pc = Some (uint pc + uint im)"
| "isa_value Op_add a b im pc = Some (uint a + uint b)"
| "isa_value Op_addi a b im pc = Some (uint a + uint b)"
| "isa_value Op_sub a b im pc = Some (uint a - uint b)"
| "isa_value Op_sll a b im pc = Some (uint a * 2 ^ (unat b mod 32))"
| "isa_value Op_slli a b im pc = Some (uint a * 2 ^ (unat b mod 32))"
| "isa_value Op_slt a b im pc = Some (of_bool (sint a < sint b))"
| "isa_value Op_slti a b im pc = Some (of_bool (sint a < sint b))"
| "isa_value Op_sltu a b im pc = Some (of_bool (uint a < uint b))"
| "isa_value Op_sltiu a b im pc = Some (of_bool (uint a < uint b))"
| "isa_value Op_xor a b im pc = Some (uint a XOR uint b)"
| "isa_value Op_xori a b im pc = Some (uint a XOR uint b)"
| "isa_value Op_srl a b im pc = Some (uint a div 2 ^ (unat b mod 32))"
| "isa_value Op_srli a b im pc = Some (uint a div 2 ^ (unat b mod 32))"
| "isa_value Op_sra a b im pc = Some (sint a div 2 ^ (unat b mod 32))"
| "isa_value Op_srai a b im pc = Some (sint a div 2 ^ (unat b mod 32))"
| "isa_value Op_or a b im pc = Some (uint a OR uint b)"
| "isa_value Op_ori a b im pc = Some (uint a OR uint b)"
| "isa_value Op_and a b im pc = Some (uint a AND uint b)"
| "isa_value Op_andi a b im pc = Some (uint a AND uint b)"
| "isa_value Op_mul a b im pc = Some (sint a * sint b)"
| "isa_value Op_mulh a b im pc = Some (sint a * sint b div 2 ^ 32)"
| "isa_value Op_mulhsu a b im pc = Some (sint a * uint b div 2 ^ 32)"
| "isa_value Op_mulhu a b im pc = Some (uint a * uint b div 2 ^ 32)"
| "isa_value Op_div a b im pc = Some (if b = 0 then -1 else sint a sdiv sint b)"
| "isa_value Op_divu a b im pc = Some (if b = 0 then -1 else uint a div uint b)"
| "isa_value Op_rem a b im pc = Some (if b = 0 then sint a else sint a smod sint b)"
| "isa_value Op_remu a b im pc = Some (if b = 0 then uint a else uint a mod uint b)"
| "isa_value _ a b im pc = None"

text \<open>The unit and the union member of each operation.\<close>

fun op_sub :: "op_t \<Rightarrow> op_unit_t \<times> sub_op_t" where
  "op_sub Op_lui = (Unit_alu, Sub_alu Alu_lui)"
| "op_sub Op_auipc = (Unit_alu, Sub_alu Alu_auipc)"
| "op_sub Op_add = (Unit_alu, Sub_alu Alu_add)"
| "op_sub Op_addi = (Unit_alu, Sub_alu Alu_add)"
| "op_sub Op_sub = (Unit_alu, Sub_alu Alu_sub)"
| "op_sub Op_sll = (Unit_alu, Sub_alu Alu_sll)"
| "op_sub Op_slli = (Unit_alu, Sub_alu Alu_sll)"
| "op_sub Op_slt = (Unit_alu, Sub_alu Alu_slt)"
| "op_sub Op_slti = (Unit_alu, Sub_alu Alu_slt)"
| "op_sub Op_sltu = (Unit_alu, Sub_alu Alu_sltu)"
| "op_sub Op_sltiu = (Unit_alu, Sub_alu Alu_sltu)"
| "op_sub Op_xor = (Unit_alu, Sub_alu Alu_xor)"
| "op_sub Op_xori = (Unit_alu, Sub_alu Alu_xor)"
| "op_sub Op_srl = (Unit_alu, Sub_alu Alu_srl)"
| "op_sub Op_srli = (Unit_alu, Sub_alu Alu_srl)"
| "op_sub Op_sra = (Unit_alu, Sub_alu Alu_sra)"
| "op_sub Op_srai = (Unit_alu, Sub_alu Alu_sra)"
| "op_sub Op_or = (Unit_alu, Sub_alu Alu_or)"
| "op_sub Op_ori = (Unit_alu, Sub_alu Alu_or)"
| "op_sub Op_and = (Unit_alu, Sub_alu Alu_and)"
| "op_sub Op_andi = (Unit_alu, Sub_alu Alu_and)"
| "op_sub Op_fence = (Unit_alu, Sub_alu Alu_fence)"
| "op_sub Op_fence_i = (Unit_alu, Sub_alu Alu_fence_i)"
| "op_sub Op_ecall = (Unit_alu, Sub_alu Alu_ecall)"
| "op_sub Op_ebreak = (Unit_alu, Sub_alu Alu_ebreak)"
| "op_sub Op_mul = (Unit_mul, Sub_mul Mul_mul)"
| "op_sub Op_mulh = (Unit_mul, Sub_mul Mul_mulh)"
| "op_sub Op_mulhsu = (Unit_mul, Sub_mul Mul_mulhsu)"
| "op_sub Op_mulhu = (Unit_mul, Sub_mul Mul_mulhu)"
| "op_sub Op_div = (Unit_div, Sub_div Div_div)"
| "op_sub Op_divu = (Unit_div, Sub_div Div_divu)"
| "op_sub Op_rem = (Unit_div, Sub_div Div_rem)"
| "op_sub Op_remu = (Unit_div, Sub_div Div_remu)"
| "op_sub Op_lb = (Unit_lsu, Sub_lsu Lsu_lb)"
| "op_sub Op_lbu = (Unit_lsu, Sub_lsu Lsu_lbu)"
| "op_sub Op_lh = (Unit_lsu, Sub_lsu Lsu_lh)"
| "op_sub Op_lhu = (Unit_lsu, Sub_lsu Lsu_lhu)"
| "op_sub Op_lw = (Unit_lsu, Sub_lsu Lsu_lw)"
| "op_sub Op_sb = (Unit_lsu, Sub_lsu Lsu_sb)"
| "op_sub Op_sh = (Unit_lsu, Sub_lsu Lsu_sh)"
| "op_sub Op_sw = (Unit_lsu, Sub_lsu Lsu_sw)"
| "op_sub Op_beq = (Unit_bru, Sub_bru Bru_beq)"
| "op_sub Op_bne = (Unit_bru, Sub_bru Bru_bne)"
| "op_sub Op_blt = (Unit_bru, Sub_bru Bru_blt)"
| "op_sub Op_bge = (Unit_bru, Sub_bru Bru_bge)"
| "op_sub Op_bltu = (Unit_bru, Sub_bru Bru_bltu)"
| "op_sub Op_bgeu = (Unit_bru, Sub_bru Bru_bgeu)"
| "op_sub Op_jal = (Unit_bru, Sub_bru Bru_jal)"
| "op_sub Op_jalr = (Unit_bru, Sub_bru Bru_jalr)"
| "op_sub Op_mret = (Unit_bru, Sub_bru Bru_mret)"
| "op_sub Op_csrrw = (Unit_csr, Sub_csr Csr_csrrw)"
| "op_sub Op_csrrwi = (Unit_csr, Sub_csr Csr_csrrw)"
| "op_sub Op_csrrs = (Unit_csr, Sub_csr Csr_csrrs)"
| "op_sub Op_csrrsi = (Unit_csr, Sub_csr Csr_csrrs)"
| "op_sub Op_csrrc = (Unit_csr, Sub_csr Csr_csrrc)"
| "op_sub Op_csrrci = (Unit_csr, Sub_csr Csr_csrrc)"

lemma shift_amount: "unat (b AND 0x1f :: u32) = unat b mod 32"
proof -
  have "b AND 0x1f = take_bit 5 b" by (simp add: take_bit_eq_mask mask_eq_exp_minus_1)
  then have "unat (b AND 0x1f) = take_bit 5 (unat b)" by (simp only: unsigned_take_bit_eq)
  then show ?thesis by (simp add: take_bit_eq_mod)
qed

lemma alu_shifts:
  "push_bit n a = (word_of_int (uint a * 2 ^ n) :: u32)" "drop_bit n a = (word_of_int (uint a div 2 ^ n) :: u32)"
  "word_of_int (drop_bit n (sint a)) = (word_of_int (sint a div 2 ^ n) :: u32)"
  by (auto intro!: bit_word_eqI simp: push_bit_eq_mult [symmetric] drop_bit_eq_div [symmetric] bit_simps)

lemma high_word: "(ucast (drop_bit 32 (word_of_int k :: u64) AND 0xffffffff) :: u32) = word_of_int (k div 2 ^ 32)"
proof (rule bit_word_eqI)
  fix n assume n: "n < LENGTH(32)"
  have m: "(0xffffffff :: u64) = mask 32" by (simp add: mask_eq_exp_minus_1)
  have "bit (ucast (drop_bit 32 (word_of_int k :: u64) AND 0xffffffff) :: u32) n = bit k (n + 32)"
    using n unfolding m by (simp add: bit_simps add.commute)
  also have "\<dots> = bit (word_of_int (k div 2 ^ 32) :: u32) n"
    using n by (simp only: drop_bit_eq_div [symmetric]) (simp add: bit_simps add.commute)
  finally show "bit (ucast (drop_bit 32 (word_of_int k :: u64) AND 0xffffffff) :: u32) n =
    bit (word_of_int (k div 2 ^ 32) :: u32) n" .
qed

lemma low_word: "(ucast ((word_of_int k :: u64) AND 0xffffffff) :: u32) = word_of_int k"
proof (rule bit_word_eqI)
  fix n assume n: "n < LENGTH(32)"
  have m: "(0xffffffff :: u64) = mask 32" by (simp add: mask_eq_exp_minus_1)
  show "bit (ucast ((word_of_int k :: u64) AND 0xffffffff) :: u32) n = bit (word_of_int k :: u32) n"
    using n unfolding m by (simp add: bit_simps)
qed

lemma products:
  "(scast a * scast b :: u64) = word_of_int (sint (a :: u32) * sint (b :: u32))"
  "(scast a * ucast b :: u64) = word_of_int (sint a * uint b)"
  "(ucast a * ucast b :: u64) = word_of_int (uint a * uint b)"
  by (simp_all)

lemma word_bitwise:
  "word_of_int (uint a AND uint b) = (a AND b :: u32)" "word_of_int (uint a OR uint b) = (a OR b :: u32)"
  "word_of_int (uint a XOR uint b) = (a XOR b :: u32)"
  by (auto intro!: bit_word_eqI simp: bit_simps)

lemma alu_value_isa:
  "isa_value x a b im pc = Some k \<Longrightarrow> op_sub x = (Unit_alu, Sub_alu y) \<Longrightarrow> alu_value y a b im pc = word_of_int k"
  by (cases x) (auto simp: alu_shifts shift_amount word_less_def word_bitwise add.commute simp flip: of_bool_def)

lemma mul_value_isa:
  "isa_value x a b im pc = Some k \<Longrightarrow> op_sub x = (Unit_mul, Sub_mul y) \<Longrightarrow> mul_value y a b = word_of_int k"
  by (cases x) (auto simp only: mul_value.simps isa_value.simps op_sub.simps products high_word low_word option.inject prod.inject
      sub_op_t.inject mul_op_t.simps op_unit_t.distinct)

lemma sint_extremes: "sint (0x80000000 :: u32) = - (2 ^ 31)" "sint (0xFFFFFFFF :: u32) = -1"
  by code_simp+

lemma div_value_isa:
  "isa_value x a b im pc = Some k \<Longrightarrow> op_sub x = (Unit_div, Sub_div y) \<Longrightarrow> div_value y a b = word_of_int k"
proof -
  assume "isa_value x a b im pc = Some k" "op_sub x = (Unit_div, Sub_div y)"
  moreover have "word_of_int (sint (0x80000000 :: u32) sdiv sint (0xFFFFFFFF :: u32)) = (0x80000000 :: u32)"
    "sint (0x80000000 :: u32) smod sint (0xFFFFFFFF :: u32) = 0"
    by (simp_all add: sint_extremes signed_divide_int_def signed_modulo_int_def)
  moreover have "word_of_int (uint a div uint b) = a div b" "word_of_int (uint a mod uint b) = a mod b"
    by (simp_all add: word_div_def word_mod_def)
  ultimately show ?thesis by (cases x) auto
qed

subsection \<open>From the decoder to the units\<close>

lemma decode_parts_sub:
  assumes "o_sub_op d = Sub_zero"
  shows "accepted (decode_branch f im d) = Some x \<Longrightarrow> (o_op_unit (decode_branch f im d), o_sub_op (decode_branch f im d)) = op_sub x"
    "accepted (decode_load f im d) = Some x \<Longrightarrow> (o_op_unit (decode_load f im d), o_sub_op (decode_load f im d)) = op_sub x"
    "accepted (decode_store f im d) = Some x \<Longrightarrow> (o_op_unit (decode_store f im d), o_sub_op (decode_store f im d)) = op_sub x"
    "accepted (decode_op_imm f im d) = Some x \<Longrightarrow> (o_op_unit (decode_op_imm f im d), o_sub_op (decode_op_imm f im d)) = op_sub x"
    "accepted (decode_op_reg f d) = Some x \<Longrightarrow> (o_op_unit (decode_op_reg f d), o_sub_op (decode_op_reg f d)) = op_sub x"
    "accepted (decode_fence f d) = Some x \<Longrightarrow> (o_op_unit (decode_fence f d), o_sub_op (decode_fence f d)) = op_sub x"
    "accepted (decode_system f d) = Some x \<Longrightarrow> (o_op_unit (decode_system f d), o_sub_op (decode_system f d)) = op_sub x"
    "accepted (decode_jalr f im d) = Some x \<Longrightarrow> (o_op_unit (decode_jalr f im d), o_sub_op (decode_jalr f im d)) = op_sub x"
    "accepted (set_invalid d) = Some x \<Longrightarrow> (o_op_unit (set_invalid d), o_sub_op (set_invalid d)) = op_sub x"
    "accepted (decode_upper f y u z im d) = Some x \<Longrightarrow> op_sub y = (u, z) \<Longrightarrow>
      (o_op_unit (decode_upper f y u z im d), o_sub_op (decode_upper f y u z im d)) = op_sub x"
  by (auto simp: accepted_def decode_branch_defs split: if_splits)

lemma decode_switch_sub:
  assumes "o_sub_op d = Sub_zero" "decode_switch f d = Some d1" "accepted d1 = Some x"
  shows "(o_op_unit d1, o_sub_op d1) = op_sub x"
  using assms(2,3)
  by (auto simp: decode_switch_def bind_eq_Some_conv split: if_splits dest!: decode_parts_sub [OF assms(1)])

lemma decode_switch_frame:
  "decode_switch f d = Some d1 \<Longrightarrow> o_enable d1 = o_enable d \<and> o_pc d1 = o_pc d"
  by (auto simp: decode_switch_def bind_eq_Some_conv decode_branch_defs split: if_splits)

lemma decoded_for_unit:
  assumes "fd_enable r" "decode_item r = Some d" "accepted d = Some x"
  shows "(o_op_unit d, o_sub_op d) = op_sub x" "o_enable d" "o_valid d" "\<not> o_has_exception d" "o_pc d = fd_pc r"
    "o_value d = fd_value r"
proof -
  obtain d1 where d1: "decode_switch (decode_fields (fd_value r)) (zero_decode_rename_pack \<lparr> o_enable := True,
      o_valid := \<not> fd_has_exception r, o_pc := fd_pc r \<rparr>) = Some d1" "d = decode_finish r d1"
    using decode_item_switch [OF assms(1,2)] by blast
  have acc: "accepted d1 = Some x" using assms(3) d1(2) by simp
  from decode_switch_sub [OF _ d1(1) acc] decode_switch_frame [OF d1(1)] decode_switch_valid [OF d1(1)] acc
  show "(o_op_unit d, o_sub_op d) = op_sub x" "o_enable d" "o_valid d" "\<not> o_has_exception d" "o_pc d = fd_pc r"
    "o_value d = fd_value r"
    by (auto simp: d1(2) decode_finish_def zero_decode_rename_pack_def accepted_def split: if_splits)
qed

end
