(* ===== verification/Execute_Props.thy ===== *)
theory Execute_Props
  imports Execute_Isa
begin

text \<open>
  The properties of the execution units: the value of every computing instruction is the one the RISC-V manual gives in
  integer arithmetic, from the instruction word through the decoder to the unit; branches go where the manual says;
  loads return the bytes of memory with the older stores in it; a unit's cycle takes instructions in order.
\<close>

subsection \<open>Packs\<close>

text \<open>A pack in the issue queue that carries a decoded instruction.\<close>

definition carries :: "issue_execute_pack_t \<Rightarrow> decode_rename_pack_t \<Rightarrow> bool" where
  "carries p d \<longleftrightarrow> decode_rename_pack_t.truncate p = d"

lemma carries_fields:
  assumes "carries p d"
  shows "o_enable p = o_enable d" "o_valid p = o_valid d" "o_has_exception p = o_has_exception d" "o_pc p = o_pc d"
    "o_imm p = o_imm d" "o_op_unit p = o_op_unit d" "o_sub_op p = o_sub_op d" "o_value p = o_value d" "o_csr p = o_csr d"
    "o_arg1_src p = o_arg1_src d" "o_rs1_need_map p = o_rs1_need_map d"
  using assms by (auto simp: carries_def decode_rename_pack_t.defs)

lemma to_wb_fields [simp]:
  "o_enable (to_wb p) = o_enable p" "o_valid (to_wb p) = o_valid p" "o_has_exception (to_wb p) = o_has_exception p"
  "o_pc (to_wb p) = o_pc p" "o_rob_id (to_wb p) = o_rob_id p" "o_rd_phy (to_wb p) = o_rd_phy p"
  "o_rd_enable (to_wb p) = o_rd_enable p" "o_need_rename (to_wb p) = o_need_rename p" "o_rd (to_wb p) = o_rd p"
  "o_value (to_wb p) = o_value p" "o_op_unit (to_wb p) = o_op_unit p" "o_sub_op (to_wb p) = o_sub_op p"
  "o_bru_jump (to_wb p) = False" "o_imm (to_wb p) = o_imm p" "o_checkpoint_id_valid (to_wb p) = o_checkpoint_id_valid p"
  by (simp_all add: to_wb_def readreg_issue_op_info_t.defs execute_wb_pack_t.defs)

text \<open>What every unit leaves of the instruction it executes.\<close>

definition same_inst :: "issue_execute_pack_t \<Rightarrow> execute_wb_pack_t \<Rightarrow> bool" where
  "same_inst p w \<longleftrightarrow> o_enable w = o_enable p \<and> o_valid w = o_valid p \<and> o_pc w = o_pc p \<and> o_value w = o_value p \<and>
     o_rob_id w = o_rob_id p \<and> o_rd w = o_rd p \<and> o_rd_phy w = o_rd_phy p \<and> o_rd_enable w = o_rd_enable p \<and>
     o_need_rename w = o_need_rename p"

definition unit_exec :: "op_unit_t \<Rightarrow> issue_execute_pack_t \<Rightarrow> execute_wb_pack_t option" where
  "unit_exec u = (if u = Unit_alu then alu_exec else if u = Unit_mul then mul_exec
     else if u = Unit_div then div_exec else (\<lambda>_. None))"

lemma unit_exec_computes:
  assumes "o_enable p" "o_valid p" "\<not> o_has_exception p" "(o_op_unit p, o_sub_op p) = op_sub x"
    and "isa_value x (o_src1_value p) (o_src2_value p) (o_imm p) (o_pc p) = Some k"
  shows "\<exists>w. unit_exec (o_op_unit p) p = Some w \<and> o_rd_value w = word_of_int k \<and> \<not> o_has_exception w \<and> same_inst p w"
proof -
  consider y where "op_sub x = (Unit_alu, Sub_alu y)" "y \<notin> {Alu_ebreak, Alu_ecall}"
    | y where "op_sub x = (Unit_mul, Sub_mul y)" | y where "op_sub x = (Unit_div, Sub_div y)"
    using assms(5) by (cases x) auto
  then show ?thesis
  proof cases
    case 1
    then have "alu_trap y q = q" for q by (cases y) auto
    with 1 alu_value_isa [OF assms(5) 1(1)] assms(1-4) show ?thesis
      by (simp add: unit_exec_def alu_exec_def same_inst_def)
  next
    case 2
    with mul_value_isa [OF assms(5) 2] assms(1-4) show ?thesis
      by (simp add: unit_exec_def mul_exec_def same_inst_def)
  next
    case 3
    with div_value_isa [OF assms(5) 3] assms(1-4) show ?thesis
      by (simp add: unit_exec_def div_exec_def same_inst_def)
  qed
qed

subsection \<open>Branches\<close>

text \<open>Where the manual sends an instruction of the branch unit, and whether that is a jump.\<close>

fun isa_next_pc :: "op_t \<Rightarrow> u32 \<Rightarrow> u32 \<Rightarrow> u32 \<Rightarrow> u32 \<Rightarrow> u32 \<Rightarrow> (bool \<times> int) option" where
  "isa_next_pc Op_beq a b im pc mepc = Some (if uint a = uint b then (True, uint pc + sint im) else (False, uint pc + 4))"
| "isa_next_pc Op_bne a b im pc mepc = Some (if uint a \<noteq> uint b then (True, uint pc + sint im) else (False, uint pc + 4))"
| "isa_next_pc Op_blt a b im pc mepc = Some (if sint a < sint b then (True, uint pc + sint im) else (False, uint pc + 4))"
| "isa_next_pc Op_bge a b im pc mepc = Some (if sint b \<le> sint a then (True, uint pc + sint im) else (False, uint pc + 4))"
| "isa_next_pc Op_bltu a b im pc mepc = Some (if uint a < uint b then (True, uint pc + sint im) else (False, uint pc + 4))"
| "isa_next_pc Op_bgeu a b im pc mepc = Some (if uint b \<le> uint a then (True, uint pc + sint im) else (False, uint pc + 4))"
| "isa_next_pc Op_jal a b im pc mepc = Some (True, uint pc + sint im)"
| "isa_next_pc Op_jalr a b im pc mepc = Some (True, 2 * ((uint a + sint im) div 2))"
| "isa_next_pc Op_mret a b im pc mepc = Some (True, uint mepc)"
| "isa_next_pc _ a b im pc mepc = None"

lemma even_address: "(x :: u32) AND NOT 1 = word_of_int (2 * (k div 2))" if "x = word_of_int k"
proof (rule bit_word_eqI)
  fix n assume n: "n < LENGTH(32)"
  have "2 * (k div 2) = push_bit 1 (drop_bit 1 k)" by (simp add: push_bit_eq_mult drop_bit_eq_div)
  with n that show "bit (x AND NOT 1) n = bit (word_of_int (2 * (k div 2)) :: u32) n"
    by (simp add: bit_simps) (cases n, simp_all add: bit_simps)
qed

lemma word_pc: "pc + im = (word_of_int (uint pc + sint im) :: u32)" "pc + 4 = (word_of_int (uint pc + 4) :: u32)"
  by simp_all

lemma bru_exec_next:
  assumes "o_enable p" "o_valid p" "(Unit_bru, o_sub_op p) = op_sub x"
    and "isa_next_pc x (o_src1_value p) (o_src2_value p) (o_imm p) (o_pc p) mepc = Some (j, k)"
    and "csrfile_read_sys f CSR_MEPC = Some mepc"
  shows "\<exists>w. bru_exec f p = Some w \<and> o_bru_jump w = j \<and> o_bru_next_pc w = word_of_int k \<and>
    (x \<in> {Op_jal, Op_jalr} \<longrightarrow> o_rd_value w = o_pc p + 4) \<and> same_inst p w"
proof -
  have jalr: "(o_imm p + o_src1_value p) AND NOT 1 = word_of_int (2 * ((uint (o_src1_value p) + sint (o_imm p)) div 2))"
    by (rule even_address) (simp add: add.commute)
  show ?thesis using assms
    by (cases x) (auto simp: bru_exec_def bru_switch_def Let_def same_inst_def word_less_def word_le_def
        word_uint_eq_iff [of "o_src1_value p"] jalr [simplified] split: if_splits)
qed

subsection \<open>Loads\<close>

definition load_size :: "lsu_op_t \<Rightarrow> nat" where
  "load_size x = (if x \<in> {Lsu_lb, Lsu_lbu} then 1 else if x \<in> {Lsu_lh, Lsu_lhu} then 2 else 4)"

definition is_load :: "lsu_op_t \<Rightarrow> bool" where
  "is_load x \<longleftrightarrow> x \<in> {Lsu_lb, Lsu_lbu, Lsu_lh, Lsu_lhu, Lsu_lw}"

text \<open>Memory with the stores that wait in the store buffer written to it.\<close>

definition program_memory :: "lsu_mem \<Rightarrow> u32 \<Rightarrow> u8" where
  "program_memory m = fold put_store (fifo_contents (lm_store_buffer m)) (bus_view (lm_bus m))"

lemma bit_from_byte: "j < 32 \<Longrightarrow> bit (v :: u32) j = bit (byte_of v (j div 8)) (j mod 8)"
  by (simp add: byte_of_bit)

lemma high_bytes_zero:
  assumes "\<And>k. n \<le> k \<Longrightarrow> k < 4 \<Longrightarrow> byte_of (v :: u32) k = 0"
  shows "8 * n \<le> j \<Longrightarrow> \<not> bit v j"
proof (cases "j < 32")
  case True
  assume "8 * n \<le> j"
  with True assms [of "j div 8"] show ?thesis by (simp add: bit_from_byte)
qed (use bit_imp_le_length [of v j] in auto)

text \<open>The value the store buffer returns: the bytes of program memory, zero above them.\<close>

lemma forwarded_bytes:
  assumes "fifo_ring q" "\<forall>it \<in> set (fifo_contents q). store_ok it" "n \<in> {1, 2, 4}" "unat addr + n < 2 ^ 32"
    and "\<forall>k < n. byte_of bv k = mem (addr + of_nat k)" "\<And>k. n \<le> k \<Longrightarrow> k < 4 \<Longrightarrow> byte_of bv k = 0"
  obtains v where "sb_get_feedback_value addr (of_nat n) bv q = Some v"
    "\<forall>k < n. byte_of v k = fold put_store (fifo_contents q) mem (addr + of_nat k)" "\<And>j. 8 * n \<le> j \<Longrightarrow> \<not> bit v j"
proof
  let ?v = "fold (feedback_merge addr (of_nat n)) (fifo_contents q) bv"
  have n: "unat (of_nat n :: u32) = n" using assms(3) by auto
  show "sb_get_feedback_value addr (of_nat n) bv q = Some ?v" by (rule feedback_value_fold [OF assms(1)])
  show "\<forall>k < n. byte_of ?v k = fold put_store (fifo_contents q) mem (addr + of_nat k)"
    using feedback_fold_bytes [OF assms(2), of "of_nat n" addr bv mem] assms(3-5) unfolding n by blast
  have "byte_of ?v k = 0" if "n \<le> k" "k < 4" for k
    using feedback_fold_high [OF assms(2), of "of_nat n" addr k bv] assms(3,4,6) that unfolding n by simp
  then show "\<And>j. 8 * n \<le> j \<Longrightarrow> \<not> bit ?v j" by (rule high_bytes_zero)
qed

lemma byte_of_ucast_up: "byte_of (ucast (w :: 'a :: len word) :: u32) k = (if 8 * k < 32 then byte_of w k else 0)"
  if "LENGTH('a) \<le> 32"
  using that by (auto intro!: bit_word_eqI simp: byte_of_bit bit_simps dest: bit_imp_le_length)

lemma byte_of_high:
  assumes "LENGTH('a) \<le> 8 * k"
  shows "byte_of (w :: 'a :: len word) k = 0"
proof (rule bit_word_eqI)
  fix n assume "n < LENGTH(8)"
  then show "bit (byte_of w k) n = bit (0 :: u8) n"
    using assms bit_imp_le_length [of w "8 * k + n"] by (auto simp: byte_of_bit)
qed

lemma sign_extended_load:
  assumes "n \<in> {1, 2}" "\<And>j. 8 * n \<le> j \<Longrightarrow> \<not> bit (v :: u32) j"
  obtains r where "sign_extend v (8 * n) = Some r" "\<forall>k < n. byte_of r k = byte_of v k"
    "\<forall>j. 8 * n \<le> j \<and> j < 32 \<longrightarrow> bit r j = bit (byte_of v (n - 1)) 7"
proof -
  have n: "0 < 8 * n" "8 * n < 32" using assms(1) by auto
  have t: "take_bit (8 * n) v = v" using assms(2) by (intro bit_word_eqI) (auto simp: bit_simps intro: leI)
  obtain r where r: "sign_extend v (8 * n) = Some r" using sign_extend_total [OF n] by blast
  have b: "bit r j = bit v (min j (8 * n - 1))" if "j < 32" for j using sign_extend_bit [OF n t that] r by simp
  have "byte_of r k = byte_of v k" if "k < n" for k
  proof (rule bit_word_eqI)
    fix i assume "i < LENGTH(8)"
    then have "min (8 * k + i) (8 * n - 1) = 8 * k + i" "8 * k + i < 32" "i < 8" using that n(2) by auto
    then show "bit (byte_of r k) i = bit (byte_of v k) i" by (simp add: byte_of_bit b)
  qed
  moreover have "bit r j = bit (byte_of v (n - 1)) 7" if "8 * n \<le> j" "j < 32" for j
    using that n(1) assms(1) by (auto simp: byte_of_bit b min_def)
  ultimately show thesis using that r by blast
qed

lemma lsu_load_value:
  assumes "is_load x" "bus_wf (lm_bus m)" "mem_access (lm_bus m) i addr (load_size x)" "unat addr + load_size x < 2 ^ 32"
    and "fifo_ring (lm_store_buffer m)" "\<forall>it \<in> set (fifo_contents (lm_store_buffer m)). store_ok it"
  shows "\<exists>v. lsu_load x addr m = Some (v, m) \<and>
    (\<forall>k < load_size x. byte_of v k = program_memory m (addr + of_nat k)) \<and>
    (\<forall>j. 8 * load_size x \<le> j \<and> j < 32 \<longrightarrow>
       bit v j = (x \<in> {Lsu_lb, Lsu_lh} \<and> bit (program_memory m (addr + of_nat (load_size x - 1))) 7))"
proof -
  note fw = forwarded_bytes [OF assms(5,6), where addr = addr and mem = "bus_view (lm_bus m)"]
  consider (b) "x \<in> {Lsu_lb, Lsu_lbu}" "load_size x = 1" | (h) "x \<in> {Lsu_lh, Lsu_lhu}" "load_size x = 2"
    | (w) "x = Lsu_lw" "load_size x = 4" using assms(1) by (auto simp: is_load_def load_size_def)
  then show ?thesis
  proof cases
    case b
    have rd: "bus_read8 addr (lm_bus m) = Some (bus_view (lm_bus m) addr, lm_bus m)"
      using bus_read8_view [OF assms(2)] assms(3) b(2) by simp
    obtain v where v: "sb_get_feedback_value addr (of_nat 1) (ucast (bus_view (lm_bus m) addr)) (lm_store_buffer m) = Some v"
      "\<forall>k < 1. byte_of v k = program_memory m (addr + of_nat k)" "\<And>j. 8 * 1 \<le> j \<Longrightarrow> \<not> bit v j"
      by (rule fw [where n = 1 and bv = "ucast (bus_view (lm_bus m) addr)", folded program_memory_def])
        (use assms(4) b(2) in \<open>simp_all add: byte_of_ucast_up byte_of_high, simp add: byte_of_def\<close>)
    obtain r where r: "sign_extend v (8 * 1) = Some r" "\<forall>k < 1. byte_of r k = byte_of v k"
      "\<forall>j. 8 * 1 \<le> j \<and> j < 32 \<longrightarrow> bit r j = bit (byte_of v (1 - 1)) 7"
      by (rule sign_extended_load [of 1, OF _ v(3)]) simp
    show ?thesis using b rd v r by (auto simp: lsu_load_def)
  next
    case h
    obtain u where rd: "bus_read16 addr (lm_bus m) = Some (u, lm_bus m)"
      "\<forall>k < 2. byte_of u k = bus_view (lm_bus m) (addr + of_nat k)"
      using bus_read16_view [OF assms(2) assms(3) [unfolded h(2)]] by blast
    obtain v where v: "sb_get_feedback_value addr (of_nat 2) (ucast u) (lm_store_buffer m) = Some v"
      "\<forall>k < 2. byte_of v k = program_memory m (addr + of_nat k)" "\<And>j. 8 * 2 \<le> j \<Longrightarrow> \<not> bit v j"
      by (rule fw [where n = 2 and bv = "ucast u", folded program_memory_def])
        (use assms(4) h(2) rd(2) in \<open>simp_all add: byte_of_ucast_up byte_of_high\<close>)
    obtain r where r: "sign_extend v (8 * 2) = Some r" "\<forall>k < 2. byte_of r k = byte_of v k"
      "\<forall>j. 8 * 2 \<le> j \<and> j < 32 \<longrightarrow> bit r j = bit (byte_of v (2 - 1)) 7"
      by (rule sign_extended_load [of 2, OF _ v(3)]) simp
    show ?thesis using h rd v r by (auto simp: lsu_load_def)
  next
    case w
    obtain u where rd: "bus_read32 addr (lm_bus m) = Some (u, lm_bus m)"
      "\<forall>k < 4. byte_of u k = bus_view (lm_bus m) (addr + of_nat k)"
      using bus_read32_view [OF assms(2) assms(3) [unfolded w(2)]] by blast
    obtain v where v: "sb_get_feedback_value addr (of_nat 4) u (lm_store_buffer m) = Some v"
      "\<forall>k < 4. byte_of v k = program_memory m (addr + of_nat k)" "\<And>j. 8 * 4 \<le> j \<Longrightarrow> \<not> bit v j"
      by (rule fw [where n = 4 and bv = u, folded program_memory_def])
        (use assms(4) w(2) rd(2) in simp_all)
    show ?thesis using w rd v by (auto simp: lsu_load_def)
  qed
qed

subsection \<open>The cycle of a unit\<close>

text \<open>The contract of a unit whose result depends on the instruction only: it returns for every instruction whose union
  member it reads and keeps what identifies the instruction.\<close>

locale exec_unit =
  fixes exec :: "issue_execute_pack_t \<Rightarrow> execute_wb_pack_t option" and reads :: "sub_op_t \<Rightarrow> bool"
  assumes returns: "reads (o_sub_op p) \<Longrightarrow> \<exists>w. exec p = Some w \<and> same_inst p w"
begin

lemma cycle_idle:
  assumes "cf_flushing cf \<or> fifo_is_empty (eu_fifo s)"
  shows "exec_run exec cf s = Some (exec_put zero_execute_wb_pack s)"
  using assms by (auto simp: exec_run_def exec_take_def cf_flushing_def)

lemma cycle_executes:
  assumes "fifo_inv (eu_fifo s)" "fifo_contents (eu_fifo s) = p # ps" "reads (o_sub_op p)" "\<not> cf_flushing cf"
  shows "\<exists>w s1. exec_run exec cf s = Some (exec_feedback w, s1) \<and> exec p = Some w \<and> same_inst p w \<and>
    port_get (eu_wb_port s1) = w \<and> fifo_inv (eu_fifo s1) \<and> fifo_contents (eu_fifo s1) = ps"
proof -
  obtain w where w: "exec p = Some w" "same_inst p w" using returns [OF assms(3)] by blast
  obtain q where q: "fifo_pop (eu_fifo s) = (Some p, q)" "fifo_inv q" "fifo_contents q = ps" "\<not> fifo_is_empty (eu_fifo s)"
    using pop_Cons [OF assms(1,2)] by blast
  have "exec_run exec cf s = Some (exec_put w (s \<lparr> eu_fifo := q \<rparr>))"
    using assms(4) w q by (auto simp: exec_run_def exec_take_def cf_flushing_def)
  with w q show ?thesis by (simp add: exec_put_def)
qed

end

lemma same_inst_to_wb [simp]:
  "same_inst p (to_wb p)" "same_inst p ((to_wb p) \<lparr> o_rd_value := v \<rparr>)" "same_inst p (wb_exception e v (to_wb p))"
  by (simp_all add: same_inst_def wb_exception_def)

lemma alu_trap_same [simp]: "same_inst p w \<Longrightarrow> same_inst p (alu_trap x w)"
  by (cases x) (simp_all add: same_inst_def wb_exception_def)

interpretation alu_unit: exec_unit alu_exec "unit_reads Unit_alu"
  by unfold_locales (auto simp: alu_exec_def Let_def)

interpretation mul_unit: exec_unit mul_exec "unit_reads Unit_mul"
  by unfold_locales (auto simp: mul_exec_def Let_def)

interpretation div_unit: exec_unit div_exec "unit_reads Unit_div"
  by unfold_locales (auto simp: div_exec_def Let_def)

subsection \<open>Properties\<close>

text \<open>An issued instruction with the given operands, for the examples.\<close>

definition sample_issued :: "decode_rename_pack_t \<Rightarrow> u32 \<Rightarrow> u32 \<Rightarrow> issue_execute_pack_t" where
  "sample_issued d a b = readreg_issue_op_info_t.extend (rename_readreg_op_info_t.extend
     (decode_rename_pack_t.extend d (rename_readreg_op_info_t.fields 7 1 2 40)) (readreg_issue_op_info_t.fields a True b True))
     (issue_execute_pack_t.fields 0)"

lemma sample_issued_simps [simp]:
  "carries (sample_issued d a b) d" "o_src1_value (sample_issued d a b) = a" "o_src2_value (sample_issued d a b) = b"
  by (simp_all add: carries_def sample_issued_def decode_rename_pack_t.defs rename_readreg_op_info_t.defs
      readreg_issue_op_info_t.defs issue_execute_pack_t.defs)

text \<open>C3: From the instruction word to the result: when the decoder accepts a fetched word as a computing instruction and
  the decoded instruction reaches its execution unit with its operands, the unit returns, raises no exception, keeps
  what identifies the instruction, and puts in the result register the value the RISC-V manual gives in integer
  arithmetic, for every RV32I register, immediate and upper-immediate instruction and for the M extension with its
  division corner cases.\<close>

theorem execute_computes_isa:
  assumes "fd_enable r" "decode_item r = Some d" "accepted d = Some x" "carries p d"
    and "isa_value x (o_src1_value p) (o_src2_value p) (o_imm d) (fd_pc r) = Some k"
  shows "\<exists>w. unit_exec (o_op_unit d) p = Some w \<and> o_rd_value w = word_of_int k \<and> \<not> o_has_exception w \<and> same_inst p w"
proof -
  note D = decoded_for_unit [OF assms(1-3)] and C = carries_fields [OF assms(4)]
  have "isa_value x (o_src1_value p) (o_src2_value p) (o_imm p) (o_pc p) = Some k" using assms(5) C D by simp
  from unit_exec_computes [OF _ _ _ _ this] D C show ?thesis by simp
qed

theorem execute_computes_isa_witness:
  "\<exists>d w. decode_item (sample_fetch 0x02C5C533) = Some d \<and>
     unit_exec (o_op_unit d) (sample_issued d 0x80000000 0xFFFFFFFF) = Some w \<and> o_rd_value w = 0x80000000"
proof -
  obtain d where d: "decode_item (sample_fetch 0x02C5C533) = Some d" "accepted d = Some Op_div"
    using decode_accepts [of "sample_fetch 0x02C5C533"] by (auto simp: sample_fetch_def decoded_op_table isa_find_def isa_table_def)
  have "isa_value Op_div 0x80000000 0xFFFFFFFF (o_imm d) 0x80000000 = Some (2 ^ 31)"
    by (simp add: sint_extremes signed_divide_int_def)
  with execute_computes_isa [OF _ d, of "sample_issued d 0x80000000 0xFFFFFFFF" "2 ^ 31"] d(1) show ?thesis
    by (auto simp: sample_fetch_def)
qed

text \<open>C13: Branches and jumps: when the decoder accepts a fetched word as an instruction of the branch unit and it reaches the
  unit with its operands, the unit decides taken or not taken as the manual does, computes the address of the next
  instruction (the sign-extended offset from the pc, the register plus offset with bit 0 cleared for \<open>jalr\<close>, \<open>mepc\<close> for
  \<open>mret\<close>, the next word when not taken), and links \<open>jal\<close> and \<open>jalr\<close> to the following instruction.\<close>

theorem bru_follows_isa:
  assumes "fd_enable r" "decode_item r = Some d" "accepted d = Some x" "carries p d"
    and "csrfile_read_sys f CSR_MEPC = Some mepc"
    and "isa_next_pc x (o_src1_value p) (o_src2_value p) (o_imm d) (fd_pc r) mepc = Some (j, k)"
  shows "\<exists>w. bru_exec f p = Some w \<and> o_bru_jump w = j \<and> o_bru_next_pc w = word_of_int k \<and>
    (x \<in> {Op_jal, Op_jalr} \<longrightarrow> o_rd_value w = fd_pc r + 4) \<and> same_inst p w"
proof -
  note D = decoded_for_unit [OF assms(1-3)] and C = carries_fields [OF assms(4)]
  have n: "isa_next_pc x (o_src1_value p) (o_src2_value p) (o_imm p) (o_pc p) mepc = Some (j, k)" using assms(6) C D by simp
  have "fst (op_sub x) = Unit_bru" using assms(6) by (cases x) auto
  with D(1) have "(Unit_bru, o_sub_op p) = op_sub x" using C by (metis fst_conv)
  from bru_exec_next [OF _ _ this n assms(5)] D C show ?thesis by simp
qed

theorem bru_follows_isa_witness:
  "\<exists>d w. decode_item (sample_fetch 0xFE20CEE3) = Some d \<and>
     bru_exec (csrfile_new undefined \<lparr> csr_map_table := [CSR_MEPC \<mapsto> undefined] \<rparr>) (sample_issued d 0xFFFFFFFF 1) = Some w \<and>
     o_bru_jump w \<and> o_bru_next_pc w = 0x7FFFFFFC"
proof -
  let ?f = "csrfile_new undefined \<lparr> csr_map_table := [CSR_MEPC \<mapsto> undefined] \<rparr>"
  obtain d where d: "decode_item (sample_fetch 0xFE20CEE3) = Some d" "accepted d = Some Op_blt"
    using decode_accepts [of "sample_fetch 0xFE20CEE3"] by (auto simp: sample_fetch_def decoded_op_table isa_find_def isa_table_def)
  have "o_imm d = 0xFFFFFFFC" using d(1) by (auto simp: decode_item_def sample_fetch_def decode_fields_def decode_switch_def
      sign_extend_def Let_def decode_branch_def set_op_def decode_finish_def)
  moreover have "sint (0xFFFFFFFC :: u32) = -4" by code_simp
  ultimately have "isa_next_pc Op_blt 0xFFFFFFFF 1 (o_imm d) 0x80000000 mepc = Some (True, 0x7FFFFFFC)" for mepc
    by (simp add: sint_extremes)
  moreover obtain mepc where "csrfile_read_sys ?f CSR_MEPC = Some mepc" by (simp add: csrfile_read_sys_def)
  ultimately show ?thesis
    using bru_follows_isa [OF _ d, of "sample_issued d 0xFFFFFFFF 1" ?f mepc True "0x7FFFFFFC"] d(1)
    by (auto simp: sample_fetch_def)
qed

text \<open>C14: Loads see program order: a load from memory returns, in little-endian order, the bytes memory would hold had every
  store waiting in the store buffer been written to it, sign extended for \<open>lb\<close> and \<open>lh\<close> and zero extended for \<open>lbu\<close> and
  \<open>lhu\<close>, and changes neither memory nor the store buffer.\<close>

theorem load_reads_program_memory:
  assumes "is_load x" "bus_wf (lm_bus m)" "mem_access (lm_bus m) i addr (load_size x)" "unat addr + load_size x < 2 ^ 32"
    and "fifo_ring (lm_store_buffer m)" "\<forall>it \<in> set (fifo_contents (lm_store_buffer m)). store_ok it"
  shows "\<exists>v. lsu_load x addr m = Some (v, m) \<and>
    (\<forall>k < load_size x. byte_of v k = program_memory m (addr + of_nat k)) \<and>
    (\<forall>j. 8 * load_size x \<le> j \<and> j < 32 \<longrightarrow>
       bit v j = (x \<in> {Lsu_lb, Lsu_lh} \<and> bit (program_memory m (addr + of_nat (load_size x - 1))) 7))"
  using lsu_load_value [OF assms] .

theorem load_reads_program_memory_witness:
  "\<exists>v. lsu_load Lsu_lb 0x80000005 \<lparr> lm_bus = sample_bus, lm_store_buffer = sample_stores \<rparr> =
      Some (v, \<lparr> lm_bus = sample_bus, lm_store_buffer = sample_stores \<rparr>) \<and> byte_of v 0 = 0xAB \<and> bit v 31"
proof -
  let ?m = "\<lparr> lm_bus = sample_bus, lm_store_buffer = sample_stores \<rparr>"
  have ok: "\<forall>it \<in> set (fifo_contents sample_stores). store_ok it"
    by (simp add: sample_stores_ok store_ok_def sample_store_def)
  have acc: "mem_access sample_bus 0 0x80000005 (load_size Lsu_lb)"
    by (simp add: load_size_def mem_access_def sample_bus_def sample_memory_def)
  have mem: "program_memory ?m 0x80000005 = 0xAB"
    by (simp add: program_memory_def sample_stores_ok sample_store_def put_store_def put_bytes_def byte_of_def unat_gt_0)
  show ?thesis
    using load_reads_program_memory [of Lsu_lb ?m 0 "0x80000005"] sample_bus_wf acc ok mem sample_stores_ok(1)
    by (auto simp: is_load_def load_size_def)
qed

text \<open>C39: A cycle of the ALU, multiplier or divider without a flush takes the oldest instruction of its queue, leaves the
  younger ones in order, puts the result of exactly that instruction on its port, and forwards it on the feedback
  channel when it writes a renamed register; it does not abort on an instruction decoded for the unit.\<close>

theorem execute_cycle_in_order:
  assumes "(run, u) \<in> {(alu_run, Unit_alu), (mul_run, Unit_mul), (div_run, Unit_div)}"
    and "fifo_inv (eu_fifo s)" "fifo_contents (eu_fifo s) = p # ps" "unit_reads u (o_sub_op p)" "\<not> cf_flushing cf"
  shows "\<exists>ch s1 w. run cf s = Some (ch, s1) \<and> unit_exec u p = Some w \<and> same_inst p w \<and> port_get (eu_wb_port s1) = w \<and>
    fifo_inv (eu_fifo s1) \<and> fifo_contents (eu_fifo s1) = ps \<and>
    (ch_enable ch \<longleftrightarrow> o_enable p \<and> o_valid p \<and> o_rd_enable p \<and> o_need_rename p \<and> \<not> o_has_exception w) \<and>
    ch_phy_id ch = o_rd_phy p \<and> ch_value ch = o_rd_value w"
  using assms(1,4) alu_unit.cycle_executes [OF assms(2,3) _ assms(5)] mul_unit.cycle_executes [OF assms(2,3) _ assms(5)]
    div_unit.cycle_executes [OF assms(2,3) _ assms(5)]
  by (fastforce simp: alu_run_def mul_run_def div_run_def unit_exec_def exec_feedback_def same_inst_def)

theorem execute_cycle_in_order_witness:
  "\<exists>ch s1 w. alu_run (sample_commit_feedback False)
       \<lparr> eu_fifo = snd (fifo_push (sample_issued zero_decode_rename_pack 1 2) (fifo_new 1 [zero_issue_execute_pack] 0 False)),
         eu_wb_port = port_new zero_execute_wb_pack \<rparr> = Some (ch, s1) \<and>
     alu_exec (sample_issued zero_decode_rename_pack 1 2) = Some w \<and> port_get (eu_wb_port s1) = w"
proof -
  let ?p = "sample_issued zero_decode_rename_pack 1 2"
  let ?q = "fifo_new 1 [zero_issue_execute_pack] 0 False"
  have inv: "fifo_inv ?q" by (rule fifo_new_inv) simp_all
  have q: "\<not> fifo_is_full ?q" "fifo_contents ?q = []"
    by (simp_all add: fifo_new_def fifo_is_full_def fifo_contents_def fifo_ids_def fifo_fill_def ring_dist_def)
  let ?s = "\<lparr> eu_fifo = snd (fifo_push ?p ?q), eu_wb_port = port_new zero_execute_wb_pack \<rparr>"
  have s: "fifo_inv (eu_fifo ?s)" "fifo_contents (eu_fifo ?s) = [?p]" using inv q by (simp_all add: push_contents push_inv)
  have r: "unit_reads Unit_alu (o_sub_op ?p)" using carries_fields(7) [OF sample_issued_simps(1)]
    by (simp add: zero_decode_rename_pack_def)
  have nf: "\<not> cf_flushing (sample_commit_feedback False)" by (simp add: cf_flushing_def sample_commit_feedback_def)
  have "(alu_run, Unit_alu) \<in> {(alu_run, Unit_alu), (mul_run, Unit_mul), (div_run, Unit_div)}" by simp
  from execute_cycle_in_order [OF this s r nf] show ?thesis unfolding unit_exec_def by auto
qed

end
