(* ===== verification/Rename.thy ===== *)
theory Rename
  imports Pipeline_Types Perf Rat Rob
begin

text \<open>
  \<open>pipeline/rename.cpp\<close>: the rename stage takes up to \<open>RENAME_WIDTH\<close> decoded instructions, gives each a slot of the
  reorder buffer and each result a free physical register, and replaces the architectural source registers by physical
  ones. The alias table is read as it was at the start of the cycle and changed at its end, so results of older
  instructions of the same group are handed on inside the stage.
\<close>

record rename_state =
  rn_decode_rename_fifo :: "decode_rename_pack_t fifo"
  rn_rename_readreg_port :: "rename_readreg_pack_t port"
  rn_rat :: rat
  rn_rob :: rob
  rn_checkpoint_buffer :: checkpoint_buffer
  rn_perf :: perf
  rn_busy :: bool
  rn_rev_pack :: decode_rename_pack_t

text \<open>The locals of \<open>run\<close> that the loop changes.\<close>

record rename_loop = rename_state +
  rl_send_pack :: rename_readreg_pack_t
  rl_phy_reg_req_cnt :: nat
  rl_rob_req_cnt :: nat
  rl_used_phy_reg_cnt :: nat
  rl_global_cp :: checkpoint_t

definition rename_reset :: "rename_state \<Rightarrow> rename_state" where
  "rename_reset s = s \<lparr> rn_busy := False \<rparr>"

text \<open>The copy of the fields of \<open>rev_pack\<close>.\<close>

definition rename_base :: "decode_rename_pack_t \<Rightarrow> rename_readreg_op_info_t" where
  "rename_base rev_pack = decode_rename_pack_t.extend rev_pack (rename_readreg_op_info_t.fields 0 0 0 0)"

text \<open>The search of the older instructions of the group for the newest one that writes the same register, and the
  forwarding of the group's new names to a source register.\<close>

definition old_phy_feedback :: "nat \<Rightarrow> rename_readreg_op_info_t list \<Rightarrow> nat option" where
  "old_phy_feedback rd older =
     map_option o_rd_phy (find (\<lambda>o1. o_enable o1 \<and> o_valid o1 \<and> o_need_rename o1 \<and> rd = o_rd o1) (rev older))"

definition source_feedback :: "bool \<Rightarrow> nat \<Rightarrow> rename_readreg_op_info_t list \<Rightarrow> nat \<Rightarrow> nat" where
  "source_feedback need rs older phy =
     fold (\<lambda>o1 p. if o_enable o1 \<and> o_valid o1 \<and> o_rd_enable o1 \<and> need \<and> rs = o_rd o1 then o_rd_phy o1 else p) older phy"

text \<open>The new name of the result: whether there was an old name, the old name, the new name.\<close>

definition rename_rd :: "nat list \<Rightarrow> nat \<Rightarrow> decode_rename_pack_t \<Rightarrow> rename_loop \<Rightarrow> (bool \<times> nat \<times> nat \<times> rename_loop) option" where
  "rename_rd new_phy_reg_id i rev_pack s =
     (if o_valid rev_pack \<and> o_need_rename rev_pack then do {
        found \<leftarrow> rat_get_phy_id (rn_rat s) (o_rd rev_pack);
        old_phy \<leftarrow> found;
        assert_that (rl_used_phy_reg_cnt s < length new_phy_reg_id);
        let rd_phy = new_phy_reg_id ! rl_used_phy_reg_cnt s;
        rat1 \<leftarrow> rat_set_map_sync (o_rd rev_pack) rd_phy (rn_rat s);
        cp1 \<leftarrow> cp_set_map rat1 (o_rd rev_pack) rd_phy (rl_global_cp s);
        Some (True, case old_phy_feedback (o_rd rev_pack) (take i (rl_send_pack s)) of None \<Rightarrow> old_phy | Some p \<Rightarrow> p, rd_phy,
          s \<lparr> rn_rat := rat1, rl_global_cp := cp1, rl_used_phy_reg_cnt := rl_used_phy_reg_cnt s + 1 \<rparr>) }
      else Some (False, 0, 0, s))"

definition rename_rob_item :: "bool \<Rightarrow> nat \<Rightarrow> nat \<Rightarrow> decode_rename_pack_t \<Rightarrow> rob_item_t" where
  "rename_rob_item old_valid old_phy rd_phy rev_pack =
     zero_rob_item \<lparr> rob_old_phy_reg_id_valid := old_valid, rob_old_phy_reg_id := old_phy, rob_finish := False,
       rob_new_phy_reg_id := rd_phy, rob_pc := o_pc rev_pack, rob_inst_value := o_value rev_pack,
       rob_has_exception := o_has_exception rev_pack, rob_exception_id := o_exception_id rev_pack,
       rob_exception_value := o_exception_value rev_pack, rob_is_mret := (o_op rev_pack = Op_mret),
       rob_csr_addr := o_csr rev_pack \<rparr>"

definition rename_source :: "bool \<Rightarrow> nat \<Rightarrow> rat \<Rightarrow> nat option" where
  "rename_source need rs r = (if need then do { found \<leftarrow> rat_get_phy_id r rs; found } else Some 0)"

text \<open>The checkpoint of a predicted branch; the fields \<open>clone\<close> does not copy are as the stack was.\<close>

definition rename_checkpoint ::
  "checkpoint_t \<Rightarrow> decode_rename_pack_t \<Rightarrow> checkpoint_t \<Rightarrow> checkpoint_buffer \<Rightarrow> checkpoint_buffer option" where
  "rename_checkpoint uninit rev_pack global_cp cpb =
     (if o_valid rev_pack \<and> o_predicted rev_pack \<and> o_checkpoint_id_valid rev_pack then do {
        origin_cp \<leftarrow> cpbuf_get_item cpb (o_checkpoint_id rev_pack);
        Some (cpbuf_set_item_sync (o_checkpoint_id rev_pack)
          ((checkpoint_clone global_cp uninit) \<lparr> global_history := global_history origin_cp,
             local_history := local_history origin_cp \<rparr>) cpb) }
      else Some cpb)"

definition rename_enabled :: "checkpoint_t \<Rightarrow> nat list \<Rightarrow> nat \<Rightarrow> decode_rename_pack_t \<Rightarrow> rename_loop \<Rightarrow> rename_loop option" where
  "rename_enabled uninit new_phy_reg_id i rev_pack s = do {
     (old_valid, old_phy, rd_phy, s1) \<leftarrow> rename_rd new_phy_reg_id i rev_pack s;
     new_id \<leftarrow> rob_get_new_id (rn_rob s1);
     let (pushed, t, rob1) = rob_push (rename_rob_item old_valid old_phy rd_phy rev_pack) (rn_rob s1);
     assert_that pushed;
     rs1_phy \<leftarrow> rename_source (o_rs1_need_map rev_pack) (o_rs1 rev_pack) (rn_rat s1);
     rs2_phy \<leftarrow> rename_source (o_rs2_need_map rev_pack) (o_rs2 rev_pack) (rn_rat s1);
     let older = (if o_valid rev_pack then take i (rl_send_pack s1) else []);
     cpb1 \<leftarrow> rename_checkpoint uninit rev_pack (rl_global_cp s1) (rn_checkpoint_buffer s1);
     Some (s1 \<lparr> rn_rob := rob1, rn_checkpoint_buffer := cpb1, rl_send_pack := (rl_send_pack s1)[i :=
       (rename_base rev_pack) \<lparr> o_rob_id := new_id, o_rd_phy := rd_phy,
          o_rs1_phy := source_feedback (o_rs1_need_map rev_pack) (o_rs1 rev_pack) older rs1_phy,
          o_rs2_phy := source_feedback (o_rs2_need_map rev_pack) (o_rs2 rev_pack) older rs2_phy \<rparr>] \<rparr>) }"

definition rename_step :: "checkpoint_t \<Rightarrow> nat \<Rightarrow> rename_loop \<Rightarrow> (bool \<times> rename_loop) option" where
  "rename_step uninit i s =
     (case fifo_get_front (rn_decode_rename_fifo s) of
        None \<Rightarrow> Some (True, s)
      | Some front \<Rightarrow> do {
          let s1 = s \<lparr> rn_rev_pack := front,
            rl_phy_reg_req_cnt := rl_phy_reg_req_cnt s + (if o_enable front \<and> o_valid front \<and> o_need_rename front then 1 else 0),
            rl_rob_req_cnt := rl_rob_req_cnt s + (if o_enable front then 1 else 0) \<rparr>;
          new_phy_reg_id \<leftarrow> rat_get_free_phy_id (rn_rat s1) (rl_phy_reg_req_cnt s1);
          if length new_phy_reg_id \<ge> rl_phy_reg_req_cnt s1 \<and> rob_get_free_space (rn_rob s1) \<ge> 1 then do {
            let s2 = s1 \<lparr> rn_decode_rename_fifo := snd (fifo_pop (rn_decode_rename_fifo s1)),
                          rl_send_pack := (rl_send_pack s1)[i := rename_base front] \<rparr>;
            s3 \<leftarrow> (if o_enable front then rename_enabled uninit new_phy_reg_id i front s2 else Some s2);
            Some (False, s3) }
          else if length new_phy_reg_id < rl_phy_reg_req_cnt s1 then
            let pf = phy_regfile_full_add (rn_perf s1)
            in Some (True, s1 \<lparr> rn_perf := if rob_get_free_space (rn_rob s1) < rl_rob_req_cnt s1 then rob_full_add pf else pf \<rparr>)
          else Some (True, s1 \<lparr> rn_perf := rob_full_add (rn_perf s1) \<rparr>) })"

definition rename_run :: "checkpoint_t \<Rightarrow> issue_feedback_pack_t \<Rightarrow> commit_feedback_pack_t \<Rightarrow> rename_state \<Rightarrow>
    (rename_feedback_pack_t \<times> rename_state) option" where
  "rename_run uninit issue_pack cf s = do {
     let feedback_pack = \<lparr> rf_idle = fifo_is_empty (rn_decode_rename_fifo s) \<rparr>;
     s1 \<leftarrow>
       (if \<not> cf_flushing cf then
          if \<not> if_stall issue_pack then do {
            l \<leftarrow> for_break (rename_step uninit) [0..<RENAME_WIDTH]
              (rename_state.extend s (rename_loop.fields (replicate RENAME_WIDTH zero_rename_readreg_op_info) 0 0 0
                 (rat_save (rn_rat s) uninit)));
            Some ((rename_state.truncate l)
              \<lparr> rn_rename_readreg_port := port_set (rl_send_pack l) (rn_rename_readreg_port l) \<rparr>) }
          else Some s
        else Some (s \<lparr> rn_rename_readreg_port :=
            port_set (replicate RENAME_WIDTH zero_rename_readreg_op_info) (rn_rename_readreg_port s),
          rn_busy := False, rn_rev_pack := zero_decode_rename_pack \<rparr>));
     Some (feedback_pack, s1) }"

end
