(* ===== verification/Rename_Props.thy ===== *)
theory Rename_Props
  imports Rename Bp_Props
begin

text \<open>
  Correctness of the rename stage. The reference \<open>seq_rename\<close> renames one instruction at a time, each looking its
  registers up in the alias table that the previous one left behind. The stage renames a whole group against the table of
  the start of the cycle and hands the group's own results on, but computes the same: the same physical sources and
  destinations, the same old names in the reorder buffer, the same alias table once the queued requests are carried out,
  and for each predicted branch the table as it is right after the branch.
\<close>

subsection \<open>One instruction at a time\<close>

definition seq_source :: "bool \<Rightarrow> nat \<Rightarrow> rat \<Rightarrow> nat option" where
  "seq_source need rs r = (if need then do { p \<leftarrow> rat_get_phy_id r rs; p } else Some 0)"

definition seq_rename_one :: "nat \<Rightarrow> nat \<Rightarrow> decode_rename_pack_t \<Rightarrow> rat \<Rightarrow> (rename_readreg_op_info_t \<times> rob_item_t \<times> rat) option" where
  "seq_rename_one slot new d r = do {
     rs1_phy \<leftarrow> seq_source (o_rs1_need_map d) (o_rs1 d) r;
     rs2_phy \<leftarrow> seq_source (o_rs2_need_map d) (o_rs2 d) r;
     (old, r1) \<leftarrow> (if o_need_rename d then do { (q, r1) \<leftarrow> rat_set_map (o_rd d) new r; old \<leftarrow> q; Some (old, r1) } else Some (0, r));
     let rd_phy = (if o_need_rename d then new else 0);
     Some ((rename_base d) \<lparr> o_rob_id := slot, o_rd_phy := rd_phy, o_rs1_phy := rs1_phy, o_rs2_phy := rs2_phy \<rparr>,
       rename_rob_item (o_need_rename d) old rd_phy d, r1) }"

definition takes_checkpoint :: "decode_rename_pack_t \<Rightarrow> bool" where
  "takes_checkpoint d \<longleftrightarrow> o_predicted d \<and> o_checkpoint_id_valid d"

text \<open>The slots and the free registers are given out in order. The third list has, for every instruction that owns a
  checkpoint, the checkpoint and the alias table after the instruction.\<close>

fun seq_rename :: "nat list \<Rightarrow> nat list \<Rightarrow> decode_rename_pack_t list \<Rightarrow> rat \<Rightarrow>
    (rename_readreg_op_info_t list \<times> rob_item_t list \<times> (nat \<times> rat) list \<times> rat) option" where
  "seq_rename slots free [] r = Some ([], [], [], r)"
| "seq_rename slots free (d # ds) r = do {
     (op, item, r1) \<leftarrow> seq_rename_one (hd slots) (hd free) d r;
     (ops, items, cps, r2) \<leftarrow> seq_rename (tl slots) (if o_need_rename d then tl free else free) ds r1;
     Some (op # ops, item # items, (if takes_checkpoint d then [(o_checkpoint_id d, r1)] else []) @ cps, r2) }"

text \<open>How many instructions go: as many as the width allows, while each finds a slot and the register it needs.\<close>

fun rename_fit :: "nat \<Rightarrow> nat \<Rightarrow> nat \<Rightarrow> decode_rename_pack_t list \<Rightarrow> nat" where
  "rename_fit 0 regs slots ds = 0"
| "rename_fit (Suc w) regs slots [] = 0"
| "rename_fit (Suc w) regs slots (d # ds) =
     (let need = (if o_need_rename d then 1 else 0)
      in if need \<le> regs \<and> 1 \<le> slots then Suc (rename_fit w (regs - need) (slots - 1) ds) else 0)"

lemma rename_fit_Nil: "rename_fit w regs slots [] = 0"
  by (cases w) simp_all

definition free_phys :: "rat \<Rightarrow> nat list" where
  "free_phys r = filter (\<lambda>i. i \<notin> rat_valids r) [0..<phy_reg_num r]"

subsection \<open>The queued alias table, the checkpoint and the table they stand for\<close>

definition cp_shows :: "checkpoint_t \<Rightarrow> rat \<Rightarrow> bool" where
  "cp_shows cp v \<longleftrightarrow> rat_phy_map_table_valid cp = phy_map_table_valid v \<and>
     rat_phy_map_table_visible cp = phy_map_table_visible v"

definition names_rel :: "rat \<Rightarrow> rat \<Rightarrow> rat \<Rightarrow> checkpoint_t \<Rightarrow> nat \<Rightarrow> bool" where
  "names_rel R v r cp used \<longleftrightarrow> rat_total v \<and> arch_reg_num R = 32 \<and> arch_reg_num v = 32 \<and> phy_reg_num v = phy_reg_num R \<and>
     (\<exists>reqs. r = R \<lparr> rat_sync_request_q := rat_sync_request_q R @ reqs \<rparr> \<and> drain rat_handle reqs R = Some v) \<and>
     free_phys v = drop used (free_phys R) \<and> used \<le> length (free_phys R) \<and>
     cp_shows cp v \<and> rat_phy_map_table cp = phy_map_table v"

lemma rat_get_phy_id_queue [simp]: "rat_get_phy_id (r \<lparr> rat_sync_request_q := x \<rparr>) a = rat_get_phy_id r a"
  by (simp add: rat_get_phy_id_def rat_get_valid_def rat_get_visible_def cong: if_cong)

lemma rat_get_free_phy_id_queue [simp]:
  "rat_get_free_phy_id (r \<lparr> rat_sync_request_q := x \<rparr>) n = rat_get_free_phy_id r n"
proof -
  have "free_phy_loop (r \<lparr> rat_sync_request_q := x \<rparr>) n is acc = free_phy_loop r n is acc" for "is" acc
    by (induction "is" arbitrary: acc) (simp_all add: rat_get_valid_def Let_def)
  then show ?thesis by (simp add: rat_get_free_phy_id_def)
qed

lemma free_phy_total: "\<exists>ids. rat_get_free_phy_id r n = Some ids"
proof -
  have "\<exists>ids. free_phy_loop r n is acc = Some ids" if "set is \<subseteq> {..<phy_reg_num r}" for "is" acc
    using that by (induction "is" arbitrary: acc) (simp_all add: rat_get_valid_def Let_def)
  from this [of "[0..<phy_reg_num r]" "[]"] show ?thesis by (simp add: rat_get_free_phy_id_def subset_iff)
qed

lemma filter_drop_hd:
  assumes "distinct xs" "filter (\<lambda>i. i \<notin> A) xs = p # ps"
  shows "filter (\<lambda>i. i \<notin> insert p A) xs = ps"
proof -
  have "filter (\<lambda>i. i \<notin> insert p A) xs = filter (\<lambda>i. i \<noteq> p) (filter (\<lambda>i. i \<notin> A) xs)" by (simp add: conj_commute)
  also have "\<dots> = filter (\<lambda>i. i \<noteq> p) (p # ps)" by (simp only: assms(2))
  also have "\<dots> = ps"
  proof -
    have "distinct (p # ps)" unfolding assms(2) [symmetric] using assms(1) by simp
    then show ?thesis by (auto simp: filter_id_conv)
  qed
  finally show ?thesis .
qed

lemma free_phys_set_map:
  assumes "rat_wf v" "free_phys v = p # ps" "q < phy_reg_num v" "q \<noteq> p"
  shows "free_phys (set_map_state a p (Some q) v) = ps" "p < phy_reg_num v" "p \<notin> rat_valids v"
proof -
  have "p \<in> set (free_phys v)" using assms(2) by simp
  then show p: "p < phy_reg_num v" "p \<notin> rat_valids v" by (auto simp: free_phys_def)
  have "\<And>x. Some q = Some x \<Longrightarrow> x < phy_reg_num v \<and> x \<noteq> p" using assms(3,4) by simp
  from set_map_state_sets(2) [where a = a and old = "Some q", OF assms(1) p(1) this]
  show "free_phys (set_map_state a p (Some q) v) = ps"
    using filter_drop_hd [of "[0..<phy_reg_num v]" "rat_valids v" p ps] assms(2) by (simp add: free_phys_def)
qed

text \<open>The operations on a checkpoint do to its tables what the operations on the alias table do.\<close>

lemma cp_set_map_shows:
  assumes "cp_shows cp v" "rat_phy_map_table cp = phy_map_table v" "phy_reg_num r = phy_reg_num v" "arch_reg_num r = arch_reg_num v"
    and "p < phy_reg_num v" "p \<notin> rat_valids v" "0 < a" "a < arch_reg_num v"
    and "rat_get_phy_id v a = Some (Some q)" "q < phy_reg_num v"
  shows "\<exists>cp1. cp_set_map r a p cp = Some cp1 \<and> cp_shows cp1 (set_map_state a p (Some q) v) \<and>
    rat_phy_map_table cp1 = phy_map_table (set_map_state a p (Some q) v)"
proof -
  have "cp_get_phy_id r cp a = rat_get_phy_id v a"
    using assms(1-4) by (simp add: cp_get_phy_id_def rat_get_phy_id_def cp_get_valid_def rat_get_valid_def cp_get_visible_def
        rat_get_visible_def cp_shows_def cong: if_cong)
  moreover have "cp_get_valid r cp p = Some False"
    using assms(1,3,5,6) by (simp add: cp_get_valid_def cp_shows_def rat_valids_def)
  ultimately show ?thesis
    using assms by (simp add: cp_set_map_def Let_def cp_set_valid_def cp_set_visible_def cp_shows_def set_map_state_def)
qed

lemma names_rel_set:
  assumes rel: "names_rel R v r cp used" and a: "0 < a" "a < 32" and used: "used < length (free_phys R)"
  obtains old v1 r1 cp1 where "rat_get_phy_id v a = Some (Some old)"
    "rat_set_map a (free_phys R ! used) v = Some (Some old, v1)"
    "rat_set_map_sync a (free_phys R ! used) r = Some r1"
    "cp_set_map r1 a (free_phys R ! used) cp = Some cp1" "names_rel R v1 r1 cp1 (used + 1)"
    "\<And>b. rat_get_phy_id v1 b = (if b = a then Some (Some (free_phys R ! used)) else rat_get_phy_id v b)"
proof -
  let ?p = "free_phys R ! used"
  note d = rel [unfolded names_rel_def]
  have fr: "free_phys v = ?p # drop (Suc used) (free_phys R)" using d used by (simp add: Cons_nth_drop_Suc)
  then have "?p \<in> set (free_phys v)" by simp
  then have p: "?p < phy_reg_num v" "?p \<notin> rat_valids v" by (auto simp: free_phys_def)
  from d a have tot: "rat_total v" and a32: "a < arch_reg_num v" by auto
  from rat_set_map_total [OF tot p a(1) a32] obtain q v1 where
    v1: "rat_get_phy_id v a = Some (Some q)" "q \<in> rat_visibles v" "q \<noteq> ?p" "rat_set_map a ?p v = Some (Some q, v1)"
      "v1 = set_map_state a ?p (Some q) v" "rat_total v1"
      "\<And>b. rat_get_phy_id v1 b = (if b = a then Some (Some ?p) else rat_get_phy_id v b)" by blast
  have q: "q < phy_reg_num v" using v1(2) by (simp add: rat_visibles_def)
  obtain reqs where reqs: "r = R \<lparr> rat_sync_request_q := rat_sync_request_q R @ reqs \<rparr>" "drain rat_handle reqs R = Some v"
    using d by blast
  let ?r1 = "R \<lparr> rat_sync_request_q := rat_sync_request_q R @ (reqs @ [Rat_set_map a ?p]) \<rparr>"
  have r1: "rat_set_map_sync a ?p r = Some ?r1" using p(1) a a32 d by (simp add: rat_set_map_sync_def reqs(1))
  have dr: "drain rat_handle (reqs @ [Rat_set_map a ?p]) R = Some v1" using reqs(2) v1(4) by (simp add: drain_append)
  have "phy_reg_num ?r1 = phy_reg_num v" "arch_reg_num ?r1 = arch_reg_num v" using d by simp_all
  from cp_set_map_shows [OF _ _ this p a(1) a32 v1(1) q, of cp] d obtain cp1 where
    cp1: "cp_set_map ?r1 a ?p cp = Some cp1" "cp_shows cp1 v1" "rat_phy_map_table cp1 = phy_map_table v1"
    unfolding v1(5) by blast
  have "free_phys v1 = drop (used + 1) (free_phys R)"
    using free_phys_set_map(1) [OF _ fr q v1(3), where a = a] tot unfolding v1(5) by simp
  then have "names_rel R v1 ?r1 cp1 (used + 1)"
    unfolding names_rel_def using d v1(5,6) dr cp1(2,3) used by auto
  from that [OF v1(1,4) r1 cp1(1) this v1(7)] show thesis .
qed

subsection \<open>Handing names on inside the group\<close>

definition renamable :: "('a) decode_rename_pack_t_scheme \<Rightarrow> bool" where
  "renamable d \<longleftrightarrow> o_enable d \<and> o_valid d \<and> o_rd d < 32 \<and> (o_need_rename d \<longleftrightarrow> o_rd_enable d \<and> o_rd d \<noteq> 0) \<and>
     (o_rs1_need_map d \<longrightarrow> 0 < o_rs1 d \<and> o_rs1 d < 32) \<and> (o_rs2_need_map d \<longrightarrow> 0 < o_rs2 d \<and> o_rs2 d < 32)"

lemma old_phy_feedback_snoc:
  "old_phy_feedback b (older @ [o1]) =
     (if o_enable o1 \<and> o_valid o1 \<and> o_need_rename o1 \<and> b = o_rd o1 then Some (o_rd_phy o1) else old_phy_feedback b older)"
  by (simp add: old_phy_feedback_def)

lemma source_feedback_newest:
  assumes "\<forall>o1 \<in> set older. renamable o1" "0 < rs"
  shows "source_feedback True rs older p = (case old_phy_feedback rs older of None \<Rightarrow> p | Some q \<Rightarrow> q)"
  using assms(1)
proof (induction older rule: rev_induct)
  case (snoc o1 older)
  then have "renamable o1" "source_feedback True rs older p = (case old_phy_feedback rs older of None \<Rightarrow> p | Some q \<Rightarrow> q)"
    by simp_all
  with assms(2) show ?case by (auto simp: source_feedback_def old_phy_feedback_snoc renamable_def)
qed (simp add: source_feedback_def old_phy_feedback_def)

lemma source_feedback_off: "source_feedback False rs older p = p"
  by (induction older rule: rev_induct) (simp_all add: source_feedback_def)

text \<open>The names of a group in front of the table of the start of the cycle.\<close>

definition group_names :: "rat \<Rightarrow> rename_readreg_op_info_t list \<Rightarrow> rat \<Rightarrow> bool" where
  "group_names R older v \<longleftrightarrow> (\<forall>o1 \<in> set older. renamable o1) \<and>
     (\<forall>b. rat_get_phy_id v b = (case old_phy_feedback b older of None \<Rightarrow> rat_get_phy_id R b | Some p \<Rightarrow> Some (Some p)))"

lemma group_names_source:
  assumes "group_names R older v" "rat_total v" "rat_total R" "arch_reg_num R = 32" "arch_reg_num v = 32" "need \<longrightarrow> 0 < rs \<and> rs < 32"
  shows "\<exists>p. rename_source need rs R = Some p \<and> seq_source need rs v = Some (source_feedback need rs older p)"
proof (cases need)
  case True
  then obtain p where p: "rat_get_phy_id R rs = Some (Some p)" using assms rat_get_phy_id_total [of R rs] by auto
  with True assms(1,6) source_feedback_newest [of older rs p] show ?thesis
    by (auto simp: rename_source_def seq_source_def group_names_def split: option.splits)
qed (simp add: rename_source_def seq_source_def source_feedback_off)

lemma group_names_snoc:
  assumes "group_names R older v" "renamable o1"
    "\<And>b. rat_get_phy_id v1 b = (if o_need_rename o1 \<and> b = o_rd o1 then Some (Some (o_rd_phy o1)) else rat_get_phy_id v b)"
  shows "group_names R (older @ [o1]) v1"
  using assms by (auto simp: group_names_def old_phy_feedback_snoc renamable_def split: option.splits)

subsection \<open>One step of the loop\<close>

definition rename_rel :: "rat \<Rightarrow> nat \<Rightarrow> rename_loop \<Rightarrow> rat \<Rightarrow> bool" where
  "rename_rel R i s v \<longleftrightarrow> length (rl_send_pack s) = RENAME_WIDTH \<and> rat_total R \<and>
     names_rel R v (rn_rat s) (rl_global_cp s) (rl_used_phy_reg_cnt s) \<and> group_names R (take i (rl_send_pack s)) v \<and>
     rl_phy_reg_req_cnt s = rl_used_phy_reg_cnt s \<and> fifo_inv (rn_rob s) \<and> \<not> pop_status_save (rn_rob s) \<and>
     fifo_inv (rn_decode_rename_fifo s)"

lemma free_ids_prefix:
  assumes "names_rel R v r cp used"
  obtains ids where "rat_get_free_phy_id r n = Some ids" "n \<le> length ids \<longleftrightarrow> n \<le> length (free_phys R)"
    "\<And>k. n \<le> length (free_phys R) \<Longrightarrow> k < n \<Longrightarrow> ids ! k = free_phys R ! k"
proof (cases n)
  case 0
  with that free_phy_total [of r n] show thesis by auto
next
  case (Suc m)
  obtain reqs where "r = R \<lparr> rat_sync_request_q := reqs \<rparr>" using assms by (auto simp: names_rel_def)
  with Suc have "rat_get_free_phy_id r n = Some (take n (free_phys R))"
    by (simp add: rat_get_free_phy_id_eq free_phys_def)
  then show thesis by (rule that) auto
qed

lemma rob_room:
  assumes "fifo_inv q" "\<not> pop_status_save q"
  shows "rob_get_free_space q = qsize q - fifo_fill q" "1 \<le> rob_get_free_space q \<longleftrightarrow> \<not> fifo_is_full q"
proof -
  have "rob_get_size q = fifo_get_size q" using assms(2) by (simp add: rob_get_size_def fifo_get_size_def)
  with assms show s: "rob_get_free_space q = qsize q - fifo_fill q"
    by (simp add: rob_get_free_space_def get_size_occupied fifo_popped_def)
  then show "1 \<le> rob_get_free_space q \<longleftrightarrow> \<not> fifo_is_full q"
    using assms is_full_occupied [of q] occupied_le_size [of q] by (auto simp: fifo_popped_def)
qed

text \<open>The renaming of the result.\<close>

lemma rename_rd_rel:
  assumes rel: "names_rel R v (rn_rat s) (rl_global_cp s) (rl_used_phy_reg_cnt s)" "rat_total R"
    and grp: "group_names R (take i (rl_send_pack s)) v" and d: "renamable d"
    and ids: "o_need_rename d \<Longrightarrow> rl_used_phy_reg_cnt s < length (free_phys R) \<and> rl_used_phy_reg_cnt s < length ids \<and>
      ids ! rl_used_phy_reg_cnt s = free_phys R ! rl_used_phy_reg_cnt s"
  obtains old v1 r1 cp1 where
    "rename_rd ids i d s = Some (o_need_rename d, old, if o_need_rename d then hd (free_phys v) else 0,
       s \<lparr> rn_rat := r1, rl_global_cp := cp1, rl_used_phy_reg_cnt := rl_used_phy_reg_cnt s + (if o_need_rename d then 1 else 0) \<rparr>)"
    "(if o_need_rename d then do { (q, r1) \<leftarrow> rat_set_map (o_rd d) (hd (free_phys v)) v; old \<leftarrow> q; Some (old, r1) } else Some (0, v))
       = Some (old, v1)"
    "names_rel R v1 r1 cp1 (rl_used_phy_reg_cnt s + (if o_need_rename d then 1 else 0))"
    "\<And>b. rat_get_phy_id v1 b = (if o_need_rename d \<and> b = o_rd d then Some (Some (hd (free_phys v))) else rat_get_phy_id v b)"
proof (cases "o_need_rename d")
  case False
  with rel(1) that [where old = 0 and ?r1.0 = "rn_rat s" and ?cp1.0 = "rl_global_cp s" and ?v1.0 = v] d show thesis by (simp add: rename_rd_def renamable_def)
next
  case True
  let ?k = "rl_used_phy_reg_cnt s"
  note ids = ids [OF True]
  from d True have a: "0 < o_rd d" "o_rd d < 32" "o_valid d" by (auto simp: renamable_def)
  have hd: "hd (free_phys v) = free_phys R ! ?k" using rel(1) ids by (simp add: names_rel_def hd_drop_conv_nth)
  from names_rel_set [OF rel(1) a(1,2)] ids obtain old v1 r1 cp1 where
    n: "rat_get_phy_id v (o_rd d) = Some (Some old)" "rat_set_map (o_rd d) (free_phys R ! ?k) v = Some (Some old, v1)"
      "rat_set_map_sync (o_rd d) (free_phys R ! ?k) (rn_rat s) = Some r1"
      "cp_set_map r1 (o_rd d) (free_phys R ! ?k) (rl_global_cp s) = Some cp1" "names_rel R v1 r1 cp1 (?k + 1)"
      "\<And>b. rat_get_phy_id v1 b = (if b = o_rd d then Some (Some (free_phys R ! ?k)) else rat_get_phy_id v b)"
    by blast
  have look: "rat_get_phy_id (rn_rat s) b = rat_get_phy_id R b" for b using rel(1) by (auto simp: names_rel_def)
  obtain o0 where o0: "rat_get_phy_id R (o_rd d) = Some (Some o0)"
    using rat_get_phy_id_total [OF rel(2) a(1)] a(2) rel(1) by (auto simp: names_rel_def)
  have old: "(case old_phy_feedback (o_rd d) (take i (rl_send_pack s)) of None \<Rightarrow> o0 | Some p \<Rightarrow> p) = old"
    using grp n(1) o0 by (auto simp: group_names_def split: option.splits)
  show thesis
    by (rule that [where old = old and ?r1.0 = r1 and ?cp1.0 = cp1 and ?v1.0 = v1])
      (use True n ids a o0 old in \<open>simp_all add: rename_rd_def look hd\<close>)
qed

text \<open>What a request to the checkpoint buffer saves.\<close>

definition cp_saved :: "checkpoint_t list \<Rightarrow> nat \<times> rat \<Rightarrow> cpbuf_request \<Rightarrow> bool" where
  "cp_saved mem = (\<lambda>(i, w) req. \<exists>cp. req = Cpbuf_set_item i cp \<and> cp_shows cp w \<and>
     global_history cp = global_history (mem ! i) \<and> local_history cp = local_history (mem ! i))"

lemma rename_checkpoint_saves:
  assumes "o_valid d" "takes_checkpoint d \<longrightarrow> o_checkpoint_id d < length (buffer cpb)" "cp_shows cp v"
  shows "\<exists>reqs. rename_checkpoint uninit d cp cpb = Some (cpb \<lparr> cpbuf_sync_request_q := cpbuf_sync_request_q cpb @ reqs \<rparr>) \<and>
    list_all2 (cp_saved (buffer cpb)) (if takes_checkpoint d then [(o_checkpoint_id d, v)] else []) reqs"
proof (cases "takes_checkpoint d")
  case True
  with assms have c: "o_valid d \<and> o_predicted d \<and> o_checkpoint_id_valid d" "o_checkpoint_id d < length (buffer cpb)"
    by (simp_all add: takes_checkpoint_def)
  let ?cp = "(checkpoint_clone cp uninit) \<lparr> global_history := global_history (buffer cpb ! o_checkpoint_id d),
    local_history := local_history (buffer cpb ! o_checkpoint_id d) \<rparr>"
  have "rename_checkpoint uninit d cp cpb = Some (cpb \<lparr> cpbuf_sync_request_q := cpbuf_sync_request_q cpb @ [Cpbuf_set_item (o_checkpoint_id d) ?cp] \<rparr>)"
    using c by (simp add: rename_checkpoint_def cpbuf_get_item_def cpbuf_set_item_sync_def)
  moreover have "cp_saved (buffer cpb) (o_checkpoint_id d, v) (Cpbuf_set_item (o_checkpoint_id d) ?cp)"
    using assms(3) by (simp add: cp_saved_def cp_shows_def checkpoint_clone_def)
  ultimately show ?thesis using True by auto
next
  case False
  then have "rename_checkpoint uninit d cp cpb = Some (cpb \<lparr> cpbuf_sync_request_q := cpbuf_sync_request_q cpb @ [] \<rparr>)"
    by (auto simp: rename_checkpoint_def takes_checkpoint_def)
  with False show ?thesis by (intro exI [of _ "[]"]) simp
qed

lemma renamable_base [simp]: "renamable ((rename_base d) \<lparr> o_rob_id := x, o_rd_phy := y, o_rs1_phy := z, o_rs2_phy := w \<rparr>) = renamable d"
  "o_need_rename ((rename_base d) \<lparr> o_rob_id := x, o_rd_phy := y, o_rs1_phy := z, o_rs2_phy := w \<rparr>) = o_need_rename d"
  "o_rd ((rename_base d) \<lparr> o_rob_id := x, o_rd_phy := y, o_rs1_phy := z, o_rs2_phy := w \<rparr>) = o_rd d"
  by (simp_all add: renamable_def rename_base_def decode_rename_pack_t.defs rename_readreg_op_info_t.defs)

text \<open>What the rest of the loop body does to the slots and the checkpoints, given the name of the result.\<close>

definition rename_effect :: "nat \<Rightarrow> rename_loop \<Rightarrow> rename_readreg_op_info_t list \<Rightarrow> rob_item_t list \<Rightarrow> (nat \<times> rat) list \<Rightarrow> rename_loop \<Rightarrow> bool" where
  "rename_effect i s ops items cps s1 \<longleftrightarrow>
     rl_send_pack s1 = take i (rl_send_pack s) @ ops @ drop (i + length ops) (rl_send_pack s) \<and>
     fifo_contents (rn_rob s1) = fifo_contents (rn_rob s) @ items \<and>
     fifo_ids (rn_rob s1) = fifo_ids (rn_rob s) @ map o_rob_id ops \<and> qsize (rn_rob s1) = qsize (rn_rob s) \<and>
     buffer (rn_checkpoint_buffer s1) = buffer (rn_checkpoint_buffer s) \<and>
     (\<exists>reqs. cpbuf_sync_request_q (rn_checkpoint_buffer s1) = cpbuf_sync_request_q (rn_checkpoint_buffer s) @ reqs \<and>
        list_all2 (cp_saved (buffer (rn_checkpoint_buffer s))) cps reqs)"

lemma rename_enabled_rel:
  assumes rel: "names_rel R v (rn_rat s) (rl_global_cp s) (rl_used_phy_reg_cnt s)" "rat_total R"
    and grp: "group_names R (take i (rl_send_pack s)) v" and i: "i < length (rl_send_pack s)" and d: "renamable d"
    and ids: "o_need_rename d \<Longrightarrow> rl_used_phy_reg_cnt s < length (free_phys R) \<and> rl_used_phy_reg_cnt s < length ids \<and>
      ids ! rl_used_phy_reg_cnt s = free_phys R ! rl_used_phy_reg_cnt s"
    and rob: "fifo_inv (rn_rob s)" "\<not> fifo_is_full (rn_rob s)"
    and cpb: "takes_checkpoint d \<longrightarrow> o_checkpoint_id d < length (buffer (rn_checkpoint_buffer s))"
  obtains op item v1 s1 where "rename_enabled uninit ids i d s = Some s1"
    "seq_rename_one (wptr (rn_rob s)) (hd (free_phys v)) d v = Some (op, item, v1)"
    "rename_effect i s [op] [item] (if takes_checkpoint d then [(o_checkpoint_id d, v1)] else []) s1"
    "names_rel R v1 (rn_rat s1) (rl_global_cp s1) (rl_used_phy_reg_cnt s1)"
    "group_names R (take (Suc i) (rl_send_pack s1)) v1"
    "rl_used_phy_reg_cnt s1 = rl_used_phy_reg_cnt s + (if o_need_rename d then 1 else 0)"
    "rl_phy_reg_req_cnt s1 = rl_phy_reg_req_cnt s" "rn_decode_rename_fifo s1 = rn_decode_rename_fifo s"
    "rn_rob s1 = snd (fifo_push item (rn_rob s))"
proof -
  let ?older = "take i (rl_send_pack s)"
  let ?new = "if o_need_rename d then hd (free_phys v) else 0"
  obtain old v1 r1 cp1 where
    rd: "rename_rd ids i d s = Some (o_need_rename d, old, ?new,
       s \<lparr> rn_rat := r1, rl_global_cp := cp1, rl_used_phy_reg_cnt := rl_used_phy_reg_cnt s + (if o_need_rename d then 1 else 0) \<rparr>)"
      "(if o_need_rename d then do { (q, r1) \<leftarrow> rat_set_map (o_rd d) (hd (free_phys v)) v; old \<leftarrow> q; Some (old, r1) } else Some (0, v))
         = Some (old, v1)"
      "names_rel R v1 r1 cp1 (rl_used_phy_reg_cnt s + (if o_need_rename d then 1 else 0))"
      "\<And>b. rat_get_phy_id v1 b = (if o_need_rename d \<and> b = o_rd d then Some (Some (hd (free_phys v))) else rat_get_phy_id v b)"
    by (rule rename_rd_rel [OF rel grp d ids]) (assumption, rule that)
  have look: "rat_get_phy_id r1 b = rat_get_phy_id R b" for b using rd(3) by (auto simp: names_rel_def)
  have src: "rename_source need rs r1 = rename_source need rs R" for need rs by (simp add: rename_source_def look)
  from rel have tot: "rat_total v" "arch_reg_num R = 32" "arch_reg_num v = 32" by (auto simp: names_rel_def)
  from d have need: "o_rs1_need_map d \<longrightarrow> 0 < o_rs1 d \<and> o_rs1 d < 32" "o_rs2_need_map d \<longrightarrow> 0 < o_rs2 d \<and> o_rs2 d < 32"
    and val: "o_valid d" by (simp_all add: renamable_def)
  from group_names_source [OF grp tot(1) rel(2) tot(2,3) need(1)] obtain p1 where
    p1: "rename_source (o_rs1_need_map d) (o_rs1 d) R = Some p1"
      "seq_source (o_rs1_need_map d) (o_rs1 d) v = Some (source_feedback (o_rs1_need_map d) (o_rs1 d) ?older p1)" by blast
  from group_names_source [OF grp tot(1) rel(2) tot(2,3) need(2)] obtain p2 where
    p2: "rename_source (o_rs2_need_map d) (o_rs2 d) R = Some p2"
      "seq_source (o_rs2_need_map d) (o_rs2 d) v = Some (source_feedback (o_rs2_need_map d) (o_rs2 d) ?older p2)" by blast
  have "cp_shows cp1 v1" using rd(3) by (simp add: names_rel_def)
  from rename_checkpoint_saves [OF val cpb this, of uninit] obtain reqs where
    reqs: "rename_checkpoint uninit d cp1 (rn_checkpoint_buffer s) = Some (rn_checkpoint_buffer s
        \<lparr> cpbuf_sync_request_q := cpbuf_sync_request_q (rn_checkpoint_buffer s) @ reqs \<rparr>)"
      "list_all2 (cp_saved (buffer (rn_checkpoint_buffer s))) (if takes_checkpoint d then [(o_checkpoint_id d, v1)] else []) reqs"
    by blast
  let ?item = "rename_rob_item (o_need_rename d) old ?new d"
  let ?op = "(rename_base d) \<lparr> o_rob_id := wptr (rn_rob s), o_rd_phy := ?new,
    o_rs1_phy := source_feedback (o_rs1_need_map d) (o_rs1 d) ?older p1,
    o_rs2_phy := source_feedback (o_rs2_need_map d) (o_rs2 d) ?older p2 \<rparr>"
  let ?s1 = "s \<lparr> rn_rat := r1, rl_global_cp := cp1, rl_used_phy_reg_cnt := rl_used_phy_reg_cnt s + (if o_need_rename d then 1 else 0),
    rn_rob := snd (fifo_push ?item (rn_rob s)), rn_checkpoint_buffer := rn_checkpoint_buffer s
        \<lparr> cpbuf_sync_request_q := cpbuf_sync_request_q (rn_checkpoint_buffer s) @ reqs \<rparr>,
    rl_send_pack := (rl_send_pack s)[i := ?op] \<rparr>"
  have push: "rob_push ?item (rn_rob s) = (True, wptr (rn_rob s), snd (fifo_push ?item (rn_rob s)))"
    using push_ok [OF rob(2), of ?item] by (simp add: rob_push_def case_prod_unfold)
  have split: "(rl_send_pack s)[i := ?op] = ?older @ [?op] @ drop (Suc i) (rl_send_pack s)"
    using i by (simp add: upd_conv_take_nth_drop)
  show thesis
  proof (rule that [of ?s1 ?op ?item v1])
    show "rename_enabled uninit ids i d s = Some ?s1"
      using push rob(2) p1(1) p2(1) reqs(1) val by (simp add: rename_enabled_def rd(1) rob_get_new_id_def src Let_def)
    show "seq_rename_one (wptr (rn_rob s)) (hd (free_phys v)) d v = Some (?op, ?item, v1)"
      using p1(2) p2(2) rd(2) by (simp add: seq_rename_one_def Let_def)
    show "rename_effect i s [?op] [?item] (if takes_checkpoint d then [(o_checkpoint_id d, v1)] else []) ?s1"
      using split reqs(2) push_contents [OF rob, of ?item] push_ids [OF rob, of ?item]
      by (simp add: rename_effect_def push_fields)
    have "take (Suc i) ((rl_send_pack s)[i := ?op]) = ?older @ [?op]" unfolding split using i by simp
    with group_names_snoc [OF grp, of ?op v1] d rd(4) show "group_names R (take (Suc i) (rl_send_pack ?s1)) v1" by auto
  qed (use rd(3) in simp_all)
qed

lemma rename_effect_trans:
  assumes "rename_effect i s [op] items1 cps1 s1" "rename_effect (Suc i) s1 ops items2 cps2 s2" "i < length (rl_send_pack s)"
  shows "rename_effect i s (op # ops) (items1 @ items2) (cps1 @ cps2) s2"
proof -
  obtain reqs1 reqs2 where reqs: "cpbuf_sync_request_q (rn_checkpoint_buffer s2) = cpbuf_sync_request_q (rn_checkpoint_buffer s) @ reqs1 @ reqs2"
    "list_all2 (cp_saved (buffer (rn_checkpoint_buffer s))) cps1 reqs1" "list_all2 (cp_saved (buffer (rn_checkpoint_buffer s))) cps2 reqs2"
    using assms(1,2) by (auto simp: rename_effect_def)
  from list_all2_appendI [OF reqs(2,3)] reqs(1) have
    "\<exists>reqs. cpbuf_sync_request_q (rn_checkpoint_buffer s2) = cpbuf_sync_request_q (rn_checkpoint_buffer s) @ reqs \<and>
       list_all2 (cp_saved (buffer (rn_checkpoint_buffer s))) (cps1 @ cps2) reqs" by blast
  with assms show ?thesis by (simp add: rename_effect_def add.commute [of i])
qed

lemma rename_effect_refl:
  "rl_send_pack s1 = rl_send_pack s \<Longrightarrow> rn_rob s1 = rn_rob s \<Longrightarrow> rn_checkpoint_buffer s1 = rn_checkpoint_buffer s \<Longrightarrow>
    rename_effect i s [] [] [] s1"
  by (auto simp: rename_effect_def intro!: exI [of _ "[]"])

definition rename_need :: "decode_rename_pack_t \<Rightarrow> nat" where
  "rename_need d = (if o_need_rename d then 1 else 0)"

lemma rename_step_ids:
  assumes rel: "rename_rel R i s v" and d: "renamable d" and ds: "fifo_contents (rn_decode_rename_fifo s) = d # ds"
  obtains ids where "rat_get_free_phy_id (rn_rat s) (rl_used_phy_reg_cnt s + rename_need d) = Some ids"
    "rl_used_phy_reg_cnt s + rename_need d \<le> length ids \<longleftrightarrow> rename_need d \<le> length (free_phys v)"
    "rename_need d \<le> length (free_phys v) \<Longrightarrow> o_need_rename d \<Longrightarrow> rl_used_phy_reg_cnt s < length (free_phys R) \<and>
       rl_used_phy_reg_cnt s < length ids \<and> ids ! rl_used_phy_reg_cnt s = free_phys R ! rl_used_phy_reg_cnt s"
proof -
  let ?u = "rl_used_phy_reg_cnt s"
  from rel have n: "names_rel R v (rn_rat s) (rl_global_cp s) ?u" by (simp add: rename_rel_def)
  from free_ids_prefix [OF n, of "?u + rename_need d"] obtain ids where
    ids: "rat_get_free_phy_id (rn_rat s) (?u + rename_need d) = Some ids"
      "?u + rename_need d \<le> length ids \<longleftrightarrow> ?u + rename_need d \<le> length (free_phys R)"
      "\<And>k. ?u + rename_need d \<le> length (free_phys R) \<Longrightarrow> k < ?u + rename_need d \<Longrightarrow> ids ! k = free_phys R ! k" by blast
  from n have "length (free_phys v) = length (free_phys R) - ?u" "?u \<le> length (free_phys R)" by (simp_all add: names_rel_def)
  with ids show thesis by (intro that [of ids]) (auto simp: rename_need_def)
qed

lemma rename_step_cases:
  fixes s d ids
  defines "n \<equiv> rl_used_phy_reg_cnt s + rename_need d"
  defines "s1 \<equiv> s \<lparr> rn_rev_pack := d, rl_phy_reg_req_cnt := n, rl_rob_req_cnt := rl_rob_req_cnt s + 1 \<rparr>"
  assumes front: "fifo_get_front (rn_decode_rename_fifo s) = Some d" and d: "renamable d"
    and cnt: "rl_phy_reg_req_cnt s = rl_used_phy_reg_cnt s" and ids: "rat_get_free_phy_id (rn_rat s) n = Some ids"
  shows "n \<le> length ids \<Longrightarrow> 1 \<le> rob_get_free_space (rn_rob s) \<Longrightarrow>
      rename_step uninit i s = map_option (Pair False) (rename_enabled uninit ids i d (s1
        \<lparr> rn_decode_rename_fifo := snd (fifo_pop (rn_decode_rename_fifo s)), rl_send_pack := (rl_send_pack s)[i := rename_base d] \<rparr>))"
    and "\<not> (n \<le> length ids \<and> 1 \<le> rob_get_free_space (rn_rob s)) \<Longrightarrow> \<exists>pf. rename_step uninit i s = Some (True, s1 \<lparr> rn_perf := pf \<rparr>)"
proof -
  have en: "o_enable d" "o_valid d" using d by (simp_all add: renamable_def)
  have n: "rl_phy_reg_req_cnt s + (if o_enable d \<and> o_valid d \<and> o_need_rename d then 1 else 0) = n"
    "rl_rob_req_cnt s + (if o_enable d then 1 else 0) = rl_rob_req_cnt s + 1"
    using cnt en by (simp_all add: n_def rename_need_def)
  show "rename_step uninit i s = map_option (Pair False) (rename_enabled uninit ids i d (s1
        \<lparr> rn_decode_rename_fifo := snd (fifo_pop (rn_decode_rename_fifo s)), rl_send_pack := (rl_send_pack s)[i := rename_base d] \<rparr>))"
    if "n \<le> length ids" "1 \<le> rob_get_free_space (rn_rob s)"
    unfolding rename_step_def front option.case n Let_def s1_def using that ids en
    by (simp add: map_conv_bind_option comp_def)
  show "\<exists>pf. rename_step uninit i s = Some (True, s1 \<lparr> rn_perf := pf \<rparr>)"
    if "\<not> (n \<le> length ids \<and> 1 \<le> rob_get_free_space (rn_rob s))"
    unfolding rename_step_def front option.case n Let_def s1_def using that ids by auto
qed

lemma rename_step_moves:
  assumes rel: "rename_rel R i s v" and i: "i < RENAME_WIDTH" and d: "renamable d"
    and ds: "fifo_contents (rn_decode_rename_fifo s) = d # ds"
    and fit: "rename_need d \<le> length (free_phys v)" "1 \<le> qsize (rn_rob s) - fifo_fill (rn_rob s)"
    and cpb: "takes_checkpoint d \<longrightarrow> o_checkpoint_id d < length (buffer (rn_checkpoint_buffer s))"
  obtains op item v1 s1 where "rename_step uninit i s = Some (False, s1)"
    "seq_rename_one (o_rob_id op) (hd (free_phys v)) d v = Some (op, item, v1)"
    "rename_effect i s [op] [item] (if takes_checkpoint d then [(o_checkpoint_id d, v1)] else []) s1"
    "rename_rel R (Suc i) s1 v1" "fifo_contents (rn_decode_rename_fifo s1) = ds"
    "free_phys v1 = (if o_need_rename d then tl (free_phys v) else free_phys v)"
    "fifo_fill (rn_rob s1) = Suc (fifo_fill (rn_rob s))"
proof -
  let ?u = "rl_used_phy_reg_cnt s"
  note r = rel [unfolded rename_rel_def]
  from r have rob: "fifo_inv (rn_rob s)" "\<not> pop_status_save (rn_rob s)" "fifo_inv (rn_decode_rename_fifo s)" by auto
  obtain q1 where q1: "fifo_pop (rn_decode_rename_fifo s) = (Some d, q1)" "fifo_inv q1" "fifo_contents q1 = ds"
    "\<not> fifo_is_empty (rn_decode_rename_fifo s)" using pop_Cons [OF rob(3) ds] by blast
  have front: "fifo_get_front (rn_decode_rename_fifo s) = Some d"
    using q1(1,4) by (simp add: fifo_get_front_def fifo_pop_def Let_def)
  obtain ids where ids: "rat_get_free_phy_id (rn_rat s) (?u + rename_need d) = Some ids"
    "?u + rename_need d \<le> length ids \<longleftrightarrow> rename_need d \<le> length (free_phys v)"
    "rename_need d \<le> length (free_phys v) \<Longrightarrow> o_need_rename d \<Longrightarrow> ?u < length (free_phys R) \<and> ?u < length ids \<and> ids ! ?u = free_phys R ! ?u"
    by (rule rename_step_ids [OF rel d ds]) (rule that)
  have room: "1 \<le> rob_get_free_space (rn_rob s)" using rob_room(1) [OF rob(1,2)] fit(2) by simp
  then have nf: "\<not> fifo_is_full (rn_rob s)" using rob_room(2) [OF rob(1,2)] by simp
  let ?s2 = "s \<lparr> rn_rev_pack := d, rl_phy_reg_req_cnt := ?u + rename_need d, rl_rob_req_cnt := rl_rob_req_cnt s + 1,
     rn_decode_rename_fifo := q1, rl_send_pack := (rl_send_pack s)[i := rename_base d] \<rparr>"
  have d': "o_enable d" "o_valid d" using d by (simp_all add: renamable_def)
  have step: "rename_step uninit i s = map_option (Pair False) (rename_enabled uninit ids i d ?s2)"
    using rename_step_cases(1) [OF front d _ ids(1), of uninit i] r ids(2) fit(1) room q1(1) by simp
  have n: "names_rel R v (rn_rat ?s2) (rl_global_cp ?s2) (rl_used_phy_reg_cnt ?s2)" "rat_total R"
    "group_names R (take i (rl_send_pack ?s2)) v" "i < length (rl_send_pack ?s2)" using r i by simp_all
  obtain op item v1 s1 where e: "rename_enabled uninit ids i d ?s2 = Some s1"
    "seq_rename_one (wptr (rn_rob ?s2)) (hd (free_phys v)) d v = Some (op, item, v1)"
    "rename_effect i ?s2 [op] [item] (if takes_checkpoint d then [(o_checkpoint_id d, v1)] else []) s1"
    "names_rel R v1 (rn_rat s1) (rl_global_cp s1) (rl_used_phy_reg_cnt s1)"
    "group_names R (take (Suc i) (rl_send_pack s1)) v1"
    "rl_used_phy_reg_cnt s1 = rl_used_phy_reg_cnt ?s2 + (if o_need_rename d then 1 else 0)"
    "rl_phy_reg_req_cnt s1 = rl_phy_reg_req_cnt ?s2" "rn_decode_rename_fifo s1 = rn_decode_rename_fifo ?s2"
    "rn_rob s1 = snd (fifo_push item (rn_rob ?s2))"
    by (rule rename_enabled_rel [OF n d, of ids uninit])
      (use ids(3) fit(1) rob(1) nf cpb that in simp_all)
  from e(3) have "map o_rob_id [op] = [wptr (rn_rob s)]"
    using push_ids [OF rob(1) nf, of item] e(9) by (simp add: rename_effect_def)
  then have slot: "o_rob_id op = wptr (rn_rob s)" by simp
  show thesis
  proof (rule that [of s1 op item v1])
    show "rename_step uninit i s = Some (False, s1)" using step e(1) by simp
    show "seq_rename_one (o_rob_id op) (hd (free_phys v)) d v = Some (op, item, v1)" using e(2) slot by simp
    show "rename_effect i s [op] [item] (if takes_checkpoint d then [(o_checkpoint_id d, v1)] else []) s1"
      using e(3) by (simp add: rename_effect_def)
    show "rename_rel R (Suc i) s1 v1"
      using r i e(3-9) q1(2) push_inv [OF rob(1), of item] by (simp add: rename_rel_def rename_effect_def push_fields rename_need_def)
    show "fifo_contents (rn_decode_rename_fifo s1) = ds" using e(8) q1(3) by simp
    show "free_phys v1 = (if o_need_rename d then tl (free_phys v) else free_phys v)"
      using e(4,6) r by (auto simp: names_rel_def drop_Suc tl_drop)
    show "fifo_fill (rn_rob s1) = Suc (fifo_fill (rn_rob s))" using push_fill [OF rob(1) nf, of item] e(9) by simp
  qed
qed

subsection \<open>The loop\<close>

lemma rename_loop_seq:
  assumes "rename_rel R i s v" "i + w = RENAME_WIDTH" "\<forall>d \<in> set (take w ds). renamable d"
    "fifo_contents (rn_decode_rename_fifo s) = ds"
    "\<forall>d \<in> set (take w ds). takes_checkpoint d \<longrightarrow> o_checkpoint_id d < length (buffer (rn_checkpoint_buffer s))"
    "k = rename_fit w (length (free_phys v)) (qsize (rn_rob s) - fifo_fill (rn_rob s)) ds"
  shows "\<exists>s1 ops items cps v1. for_break (rename_step uninit) [i..<RENAME_WIDTH] s = Some s1 \<and> length ops = k \<and>
    seq_rename (map o_rob_id ops) (free_phys v) (take k ds) v = Some (ops, items, cps, v1) \<and>
    rename_effect i s ops items cps s1 \<and> names_rel R v1 (rn_rat s1) (rl_global_cp s1) (rl_used_phy_reg_cnt s1) \<and>
    fifo_contents (rn_decode_rename_fifo s1) = drop k ds \<and> fifo_inv (rn_decode_rename_fifo s1) \<and> fifo_inv (rn_rob s1)"
  using assms
proof (induction w arbitrary: i s v ds k)
  case 0
  then show ?case by (auto simp: rename_rel_def rename_effect_refl)
next
  case (Suc w)
  note r = Suc.prems(1) [unfolded rename_rel_def]
  have upt: "[i..<RENAME_WIDTH] = i # [Suc i..<RENAME_WIDTH]" using Suc.prems(2) by (simp add: upt_conv_Cons)
  show ?case
  proof (cases ds)
    case Nil
    then have "fifo_get_front (rn_decode_rename_fifo s) = None"
      using Suc.prems(4) r contents_Nil [of "rn_decode_rename_fifo s"] by (simp add: fifo_get_front_def)
    then have "rename_step uninit i s = Some (True, s)" by (simp add: rename_step_def)
    with Nil Suc.prems(4,6) r show ?thesis unfolding upt by (auto simp: rename_effect_refl)
  next
    case (Cons d ds1)
    then have d: "renamable d" and ds: "fifo_contents (rn_decode_rename_fifo s) = d # ds1"
      and cp: "takes_checkpoint d \<longrightarrow> o_checkpoint_id d < length (buffer (rn_checkpoint_buffer s))" using Suc.prems by simp_all
    show ?thesis
    proof (cases "rename_need d \<le> length (free_phys v) \<and> 1 \<le> qsize (rn_rob s) - fifo_fill (rn_rob s)")
      case True
      have i: "i < RENAME_WIDTH" using Suc.prems(2) by simp
      obtain op item v1 s1 where e: "rename_step uninit i s = Some (False, s1)"
        "seq_rename_one (o_rob_id op) (hd (free_phys v)) d v = Some (op, item, v1)"
        "rename_effect i s [op] [item] (if takes_checkpoint d then [(o_checkpoint_id d, v1)] else []) s1"
        "rename_rel R (Suc i) s1 v1" "fifo_contents (rn_decode_rename_fifo s1) = ds1"
        "free_phys v1 = (if o_need_rename d then tl (free_phys v) else free_phys v)"
        "fifo_fill (rn_rob s1) = Suc (fifo_fill (rn_rob s))"
        by (rule rename_step_moves [OF Suc.prems(1) i d ds _ _ cp]) (use True that in blast)+
      have q: "qsize (rn_rob s1) = qsize (rn_rob s)" "buffer (rn_checkpoint_buffer s1) = buffer (rn_checkpoint_buffer s)"
        using e(3) by (simp_all add: rename_effect_def)
      let ?k = "rename_fit w (length (free_phys v1)) (qsize (rn_rob s1) - fifo_fill (rn_rob s1)) ds1"
      have k: "k = Suc ?k" using Suc.prems(6) True Cons e(6,7) q by (auto simp: Let_def rename_need_def)
      have "\<exists>s2 ops items cps v2. for_break (rename_step uninit) [Suc i..<RENAME_WIDTH] s1 = Some s2 \<and> length ops = ?k \<and>
        seq_rename (map o_rob_id ops) (free_phys v1) (take ?k ds1) v1 = Some (ops, items, cps, v2) \<and>
        rename_effect (Suc i) s1 ops items cps s2 \<and> names_rel R v2 (rn_rat s2) (rl_global_cp s2) (rl_used_phy_reg_cnt s2) \<and>
        fifo_contents (rn_decode_rename_fifo s2) = drop ?k ds1 \<and> fifo_inv (rn_decode_rename_fifo s2) \<and> fifo_inv (rn_rob s2)"
        by (rule Suc.IH) (use e(4,5) Suc.prems(2,3,5) Cons q(2) in simp_all)
      then obtain s2 ops items cps v2 where f: "for_break (rename_step uninit) [Suc i..<RENAME_WIDTH] s1 = Some s2" "length ops = ?k"
        "seq_rename (map o_rob_id ops) (free_phys v1) (take ?k ds1) v1 = Some (ops, items, cps, v2)"
        "rename_effect (Suc i) s1 ops items cps s2" "names_rel R v2 (rn_rat s2) (rl_global_cp s2) (rl_used_phy_reg_cnt s2)"
        "fifo_contents (rn_decode_rename_fifo s2) = drop ?k ds1" "fifo_inv (rn_decode_rename_fifo s2)" "fifo_inv (rn_rob s2)"
        by blast
      have "rename_effect i s (op # ops) (item # items) ((if takes_checkpoint d then [(o_checkpoint_id d, v1)] else []) @ cps) s2"
        using rename_effect_trans [OF e(3) f(4)] r i by simp
      moreover have "seq_rename (map o_rob_id (op # ops)) (free_phys v) (take k ds) v =
        Some (op # ops, item # items, (if takes_checkpoint d then [(o_checkpoint_id d, v1)] else []) @ cps, v2)"
        using e(2) f(3) unfolding k Cons e(6) by simp
      moreover have "for_break (rename_step uninit) [i..<RENAME_WIDTH] s = Some s2" unfolding upt using e(1) f(1) by simp
      moreover have "length (op # ops) = k" "fifo_contents (rn_decode_rename_fifo s2) = drop k ds" using f(2,6) k Cons by simp_all
      ultimately show ?thesis using f(5,7,8) by blast
    next
      case False
      have k: "k = 0" using Suc.prems(6) False Cons by (auto simp: Let_def rename_need_def)
      obtain ids where ids: "rat_get_free_phy_id (rn_rat s) (rl_used_phy_reg_cnt s + rename_need d) = Some ids"
        "rl_used_phy_reg_cnt s + rename_need d \<le> length ids \<longleftrightarrow> rename_need d \<le> length (free_phys v)"
        by (rule rename_step_ids [OF Suc.prems(1) d ds]) (rule that)
      have "fifo_get_front (rn_decode_rename_fifo s) = Some d"
        using pop_Cons [OF _ ds] r by (auto simp: fifo_get_front_def fifo_pop_def Let_def split: if_splits)
      moreover have "\<not> (rl_used_phy_reg_cnt s + rename_need d \<le> length ids \<and> 1 \<le> rob_get_free_space (rn_rob s))"
        using False ids(2) rob_room(1) [of "rn_rob s"] r by auto
      ultimately obtain pf where "rename_step uninit i s = Some (True, s \<lparr> rn_rev_pack := d,
          rl_phy_reg_req_cnt := rl_used_phy_reg_cnt s + rename_need d, rl_rob_req_cnt := rl_rob_req_cnt s + 1, rn_perf := pf \<rparr>)"
        using rename_step_cases(2) [OF _ d _ ids(1)] r by blast
      with k r Suc.prems(4) show ?thesis unfolding upt by (simp add: rename_effect_refl)
    qed
  qed
qed

subsection \<open>Properties\<close>

lemma rename_rel_start:
  assumes "rat_total (rn_rat s)" "arch_reg_num (rn_rat s) = 32" "fifo_inv (rn_decode_rename_fifo s)" "fifo_inv (rn_rob s)"
    "\<not> pop_status_save (rn_rob s)"
  shows "rename_rel (rn_rat s) 0 (rename_state.extend s (rename_loop.fields (replicate RENAME_WIDTH zero_rename_readreg_op_info) 0 0 0
    (rat_save (rn_rat s) uninit))) (rn_rat s)"
  using assms
  by (auto simp: rename_rel_def names_rel_def group_names_def old_phy_feedback_def cp_shows_def rat_save_def
      rename_state.defs rename_loop.defs intro!: exI [of _ "[]"])

text \<open>C5: A cycle of the rename stage without flush and stall returns, and renames the group of instructions it takes as if
  one by one: every source gets the name that its register has after the older instructions of the group, every result the
  next free physical register, every reorder buffer entry the name that the result replaces. The requests that the cycle
  queues turn the alias table into the one-by-one table, in which every register has exactly one name, and save for every
  predicted branch the table right after the branch, with the histories that its checkpoint had. It takes as many
  instructions as there are, as fit the width, the free registers and the free slots.\<close>

theorem rename_group_sequential:
  assumes "rat_total (rn_rat s)" "arch_reg_num (rn_rat s) = 32" "fifo_inv (rn_decode_rename_fifo s)" "fifo_inv (rn_rob s)"
    "\<not> pop_status_save (rn_rob s)" "\<not> cf_flushing cf" "\<not> if_stall ip"
    "\<forall>d \<in> set (take RENAME_WIDTH (fifo_contents (rn_decode_rename_fifo s))). renamable d"
    "\<forall>d \<in> set (take RENAME_WIDTH (fifo_contents (rn_decode_rename_fifo s))).
       takes_checkpoint d \<longrightarrow> o_checkpoint_id d < length (buffer (rn_checkpoint_buffer s))"
  shows "\<exists>fb s1 k ops items cps v rat_reqs cp_reqs. rename_run uninit ip cf s = Some (fb, s1) \<and>
    k = rename_fit RENAME_WIDTH (length (free_phys (rn_rat s))) (qsize (rn_rob s) - fifo_fill (rn_rob s))
          (fifo_contents (rn_decode_rename_fifo s)) \<and>
    seq_rename (map o_rob_id ops) (free_phys (rn_rat s)) (take k (fifo_contents (rn_decode_rename_fifo s))) (rn_rat s)
      = Some (ops, items, cps, v) \<and>
    port_get (rn_rename_readreg_port s1) = ops @ replicate (RENAME_WIDTH - k) zero_rename_readreg_op_info \<and>
    fifo_contents (rn_decode_rename_fifo s1) = drop k (fifo_contents (rn_decode_rename_fifo s)) \<and>
    fifo_contents (rn_rob s1) = fifo_contents (rn_rob s) @ items \<and>
    fifo_ids (rn_rob s1) = fifo_ids (rn_rob s) @ map o_rob_id ops \<and>
    rn_rat s1 = (rn_rat s) \<lparr> rat_sync_request_q := rat_sync_request_q (rn_rat s) @ rat_reqs \<rparr> \<and>
    drain rat_handle rat_reqs (rn_rat s) = Some v \<and> rat_total v \<and>
    cpbuf_sync_request_q (rn_checkpoint_buffer s1) = cpbuf_sync_request_q (rn_checkpoint_buffer s) @ cp_reqs \<and>
    list_all2 (cp_saved (buffer (rn_checkpoint_buffer s))) cps cp_reqs"
proof -
  let ?l = "rename_state.extend s (rename_loop.fields (replicate RENAME_WIDTH zero_rename_readreg_op_info) 0 0 0
    (rat_save (rn_rat s) uninit))"
  let ?ds = "fifo_contents (rn_decode_rename_fifo s)"
  have l: "rn_rob ?l = rn_rob s" "rn_checkpoint_buffer ?l = rn_checkpoint_buffer s" "rn_decode_rename_fifo ?l = rn_decode_rename_fifo s"
    "rl_send_pack ?l = replicate RENAME_WIDTH zero_rename_readreg_op_info"
    by (simp_all add: rename_state.defs rename_loop.defs)
  let ?k = "rename_fit RENAME_WIDTH (length (free_phys (rn_rat s))) (qsize (rn_rob s) - fifo_fill (rn_rob s)) ?ds"
  have "\<exists>s1 ops items cps v1. for_break (rename_step uninit) [0..<RENAME_WIDTH] ?l = Some s1 \<and> length ops = ?k \<and>
    seq_rename (map o_rob_id ops) (free_phys (rn_rat s)) (take ?k ?ds) (rn_rat s) = Some (ops, items, cps, v1) \<and>
    rename_effect 0 ?l ops items cps s1 \<and> names_rel (rn_rat s) v1 (rn_rat s1) (rl_global_cp s1) (rl_used_phy_reg_cnt s1) \<and>
    fifo_contents (rn_decode_rename_fifo s1) = drop ?k ?ds \<and> fifo_inv (rn_decode_rename_fifo s1) \<and> fifo_inv (rn_rob s1)"
    by (rule rename_loop_seq [OF rename_rel_start [OF assms(1-5)], where w = RENAME_WIDTH])
      (use assms(8,9) in \<open>simp_all only: l add_0\<close>)
  then obtain s1 ops items cps v1 where f: "for_break (rename_step uninit) [0..<RENAME_WIDTH] ?l = Some s1" "length ops = ?k"
    "seq_rename (map o_rob_id ops) (free_phys (rn_rat s)) (take ?k ?ds) (rn_rat s) = Some (ops, items, cps, v1)"
    "rename_effect 0 ?l ops items cps s1" "names_rel (rn_rat s) v1 (rn_rat s1) (rl_global_cp s1) (rl_used_phy_reg_cnt s1)"
    "fifo_contents (rn_decode_rename_fifo s1) = drop ?k ?ds" by blast
  note e = f(4) [unfolded rename_effect_def l]
  obtain reqs where reqs: "rn_rat s1 = (rn_rat s) \<lparr> rat_sync_request_q := rat_sync_request_q (rn_rat s) @ reqs \<rparr>"
    "drain rat_handle reqs (rn_rat s) = Some v1" "rat_total v1" using f(5) by (auto simp: names_rel_def)
  obtain cp_reqs where cp: "cpbuf_sync_request_q (rn_checkpoint_buffer s1) = cpbuf_sync_request_q (rn_checkpoint_buffer s) @ cp_reqs"
    "list_all2 (cp_saved (buffer (rn_checkpoint_buffer s))) cps cp_reqs" using e by blast
  let ?t = "(rename_state.truncate s1) \<lparr> rn_rename_readreg_port := port_set (rl_send_pack s1) (rn_rename_readreg_port s1) \<rparr>"
  have run: "rename_run uninit ip cf s = Some (\<lparr> rf_idle = fifo_is_empty (rn_decode_rename_fifo s) \<rparr>, ?t)"
    using f(1) assms(6,7) by (simp add: rename_run_def rename_state.defs)
  have t: "rn_rat ?t = rn_rat s1" "rn_rob ?t = rn_rob s1" "rn_checkpoint_buffer ?t = rn_checkpoint_buffer s1"
    "rn_decode_rename_fifo ?t = rn_decode_rename_fifo s1" "port_get (rn_rename_readreg_port ?t) = rl_send_pack s1"
    by (simp_all add: rename_state.defs)
  have out: "rl_send_pack s1 = ops @ replicate (RENAME_WIDTH - ?k) zero_rename_readreg_op_info" using e f(2) by simp
  have rob: "fifo_contents (rn_rob s1) = fifo_contents (rn_rob s) @ items" "fifo_ids (rn_rob s1) = fifo_ids (rn_rob s) @ map o_rob_id ops"
    using e by simp_all
  show ?thesis
    by (intro exI conjI) (rule run, rule refl, rule f(3), unfold t, rule out, rule f(6), rule rob(1), rule rob(2), rule reqs(1),
      rule reqs(2), rule reqs(3), rule cp(1), rule cp(2))
qed

definition sample_rename_pack :: decode_rename_pack_t where
  "sample_rename_pack = zero_decode_rename_pack \<lparr> o_enable := True, o_valid := True, o_rd := 5,
     o_rd_enable := True, o_need_rename := True, o_rs1 := 5, o_rs1_need_map := True \<rparr>"

definition sample_rename_fifo :: "decode_rename_pack_t fifo" where
  "sample_rename_fifo = snd (fifo_push sample_rename_pack (fifo_new 4 (replicate 4 zero_decode_rename_pack) 0 False))"

definition sample_rename_state :: "rat \<Rightarrow> rename_state" where
  "sample_rename_state r =
     \<lparr> rn_decode_rename_fifo = sample_rename_fifo,
       rn_rename_readreg_port = port_new (replicate RENAME_WIDTH zero_rename_readreg_op_info), rn_rat = r,
       rn_rob = rob_new 4 (replicate 4 zero_rob_item) 0 False,
       rn_checkpoint_buffer = cpbuf_new 2 (replicate 2 sample_checkpoint) 0 False,
       rn_perf = perf_zero, rn_busy = False, rn_rev_pack = zero_decode_rename_pack \<rparr>"

lemma sample_rename_ok:
  "fifo_inv sample_rename_fifo" "fifo_contents sample_rename_fifo = [sample_rename_pack]"
  "fifo_inv (rob_new 4 (replicate 4 zero_rob_item) 0 False)" "\<not> pop_status_save (rob_new 4 (replicate 4 zero_rob_item) 0 False)"
  "fifo_fill (rob_new 4 (replicate 4 zero_rob_item) 0 False) = 0" "qsize (rob_new 4 (replicate 4 zero_rob_item) 0 False) = 4"
  "renamable sample_rename_pack" "\<not> takes_checkpoint sample_rename_pack" "o_need_rename sample_rename_pack"
  by code_simp+

theorem rename_group_sequential_witness:
  "\<exists>r fb s1. rat_boot (rat_new 128 32 [] [] [] []) = Some r \<and>
     rename_run sample_checkpoint \<lparr> if_stall = False \<rparr> (sample_commit_feedback False) (sample_rename_state r) = Some (fb, s1) \<and>
     fifo_contents (rn_decode_rename_fifo s1) = []"
proof -
  obtain r where r: "rat_boot (rat_new 128 32 [] [] [] []) = Some r" "rat_total r" "arch_reg_num r = 32" "phy_reg_num r = 128"
    "rat_valids r = {1..<32}" using rat_boot_total [of 128 "[]" "[]" "[]" "[]"] by auto
  let ?s = "sample_rename_state r"
  have s: "rn_decode_rename_fifo ?s = sample_rename_fifo" "rn_rat ?s = r" "rn_rob ?s = rob_new 4 (replicate 4 zero_rob_item) 0 False"
    by (simp_all add: sample_rename_state_def)
  have cf: "\<not> cf_flushing (sample_commit_feedback False)" by (simp add: cf_flushing_def sample_commit_feedback_def)
  have "0 \<in> set (free_phys r)" using r by (simp add: free_phys_def)
  then have "1 \<le> length (free_phys r)" by (cases "free_phys r") auto
  then have fit: "rename_fit RENAME_WIDTH (length (free_phys r)) (4 - 0) [sample_rename_pack] = 1"
    using rename_fit.simps(3) [of 3 "length (free_phys r)" 4 sample_rename_pack "[]"] sample_rename_ok(9)
    by (simp add: rename_fit_Nil)
  have ok: "rat_total (rn_rat ?s)" "arch_reg_num (rn_rat ?s) = 32" "fifo_inv (rn_decode_rename_fifo ?s)" "fifo_inv (rn_rob ?s)"
    "\<not> pop_status_save (rn_rob ?s)" "\<not> if_stall \<lparr> if_stall = False \<rparr>"
    "\<forall>d \<in> set (take RENAME_WIDTH (fifo_contents (rn_decode_rename_fifo ?s))). renamable d"
    "\<forall>d \<in> set (take RENAME_WIDTH (fifo_contents (rn_decode_rename_fifo ?s))).
       takes_checkpoint d \<longrightarrow> o_checkpoint_id d < length (buffer (rn_checkpoint_buffer ?s))"
    unfolding s sample_rename_ok(2) using r sample_rename_ok by simp_all
  obtain fb s1 k where run: "rename_run sample_checkpoint \<lparr> if_stall = False \<rparr> (sample_commit_feedback False) ?s = Some (fb, s1)"
    "k = rename_fit RENAME_WIDTH (length (free_phys (rn_rat ?s))) (qsize (rn_rob ?s) - fifo_fill (rn_rob ?s))
          (fifo_contents (rn_decode_rename_fifo ?s))"
    "fifo_contents (rn_decode_rename_fifo s1) = drop k (fifo_contents (rn_decode_rename_fifo ?s))"
    using rename_group_sequential [OF ok(1-5) cf ok(6-8), of sample_checkpoint] by metis
  have "k = 1" using run(2) fit unfolding s sample_rename_ok(2,5,6) by simp
  then have "fifo_contents (rn_decode_rename_fifo s1) = []" using run(3) unfolding s sample_rename_ok(2) by simp
  with r(1) run(1) show ?thesis by blast
qed

end
