(* ===== verification/Issue.thy ===== *)
theory Issue
  imports Pipeline_Types Perf Regfile Issue_Queue Store_Buffer Bus
begin

text \<open>
  \<open>pipeline/issue.cpp\<close>: the issue stage keeps the renamed instructions in the issue queue until their operands are there,
  picks up to \<open>ISSUE_WIDTH\<close> of them out of order, sends them to the queues of the execution units, loads the operands of
  the waiting ones from the forwarded results and takes in the instructions of the register read stage.

  The six arrays \<open>issue_alu_fifo\<close>, \<open>issue_bru_fifo\<close>, ... and the six counters \<open>alu_index\<close>, \<open>bru_index\<close>, ... that the code
  selects with a \<open>switch\<close> on the unit are functions of the unit.
\<close>

fun unit_cnt :: "op_unit_t \<Rightarrow> nat" where
  "unit_cnt Unit_alu = ALU_UNIT_NUM"
| "unit_cnt Unit_bru = BRU_UNIT_NUM"
| "unit_cnt Unit_csr = CSR_UNIT_NUM"
| "unit_cnt Unit_div = DIV_UNIT_NUM"
| "unit_cnt Unit_lsu = LSU_UNIT_NUM"
| "unit_cnt Unit_mul = MUL_UNIT_NUM"

record issue_state =
  is_readreg_issue_port :: "readreg_issue_pack_t port"
  is_unit_fifo :: "op_unit_t \<Rightarrow> issue_execute_pack_t fifo list"
  is_phy_regfile :: "phy_regfile_item_t regfile"
  is_store_buffer :: store_buffer
  is_issue_q :: "issue_queue_item_t issue_queue"
  is_busy :: bool
  is_inst_waiting :: bool
  is_inst_waiting_rob_id :: nat
  is_last_index :: nat
  is_unit_index :: "op_unit_t \<Rightarrow> nat"
  is_perf :: perf

definition issue_reset :: "issue_state \<Rightarrow> issue_state" where
  "issue_reset s = s \<lparr> is_issue_q := iq_reset (is_issue_q s), is_busy := False, is_inst_waiting := False,
     is_inst_waiting_rob_id := 0, is_last_index := 0, is_unit_index := (\<lambda>u. 0) \<rparr>"

definition alone_op :: "issue_queue_item_t \<Rightarrow> bool" where
  "alone_op it \<longleftrightarrow> o_op_unit it = Unit_csr \<or> o_op it = Op_mret"

subsection \<open>Selection\<close>

text \<open>The locals of the selecting loop.\<close>

record issue_scan =
  sc_items :: "issue_queue_item_t list"
  sc_available :: "op_unit_t \<Rightarrow> bool list"
  sc_item_id_list :: "nat list"
  sc_has_lsu_op :: bool
  sc_has_csr_op :: bool
  sc_has_mret_op :: bool
  sc_i :: nat

definition units_available :: "issue_state \<Rightarrow> op_unit_t \<Rightarrow> bool list" where
  "units_available s u = map (\<lambda>i. \<not> fifo_is_full (is_unit_fifo s u ! i)) [0..<unit_cnt u]"

text \<open>The loop over the channels, which ends early only when both operands are ready.\<close>

definition src_ready :: "execute_feedback_pack_t \<Rightarrow> bool \<Rightarrow> nat \<Rightarrow> bool" where
  "src_ready execute_pack loaded phy \<longleftrightarrow> loaded \<or> list_ex (\<lambda>c. ch_enable c \<and> phy = ch_phy_id c) execute_pack"

definition unit_search :: "bool list \<Rightarrow> nat option" where
  "unit_search available = find (\<lambda>i. available ! i) [0..<length available]"

definition fence_trigger :: "commit_feedback_pack_t \<Rightarrow> store_buffer \<Rightarrow> nat \<Rightarrow> issue_queue_item_t \<Rightarrow> bool" where
  "fence_trigger cf sb i it \<longleftrightarrow> o_op it = Op_fence \<and>
     (\<not> fifo_is_empty sb \<or> i \<noteq> 0 \<or> cf_next_handle_rob_id cf \<noteq> o_rob_id it)"

definition issue_selects :: "execute_feedback_pack_t \<Rightarrow> commit_feedback_pack_t \<Rightarrow> store_buffer \<Rightarrow> issue_scan \<Rightarrow>
    issue_queue_item_t \<Rightarrow> bool" where
  "issue_selects execute_pack cf sb sc it \<longleftrightarrow>
     src_ready execute_pack (o_src1_loaded it) (o_rs1_phy it) \<and> src_ready execute_pack (o_src2_loaded it) (o_rs2_phy it) \<and>
     unit_search (sc_available sc (o_op_unit it)) \<noteq> None \<and>
     (\<not> sc_has_lsu_op sc \<or> o_op_unit it \<noteq> Unit_lsu) \<and> (\<not> sc_has_csr_op sc \<or> o_op_unit it \<noteq> Unit_csr) \<and>
     (\<not> sc_has_mret_op sc \<or> o_op it \<noteq> Op_mret) \<and> \<not> fence_trigger cf sb (sc_i sc) it"

definition issue_scan_body :: "execute_feedback_pack_t \<Rightarrow> commit_feedback_pack_t \<Rightarrow> issue_state \<Rightarrow> nat \<Rightarrow> issue_scan \<Rightarrow>
    (bool \<times> issue_scan) option" where
  "issue_scan_body execute_pack cf s item_id sc = do {
     it \<leftarrow> iq_get_item (is_issue_q s) item_id;
     let i = sc_i sc;
     assert_that (i < ISSUE_WIDTH);
     let sc1 = sc \<lparr> sc_items := (sc_items sc)[i := it] \<rparr>;
     if alone_op it \<and> i \<noteq> 0 then Some (True, sc1)
     else do {
       assert_that (cf_enable cf);
       if alone_op it \<and> cf_next_handle_rob_id cf \<noteq> o_rob_id it then Some (True, sc1)
       else do {
         let sc2 =
           (if issue_selects execute_pack cf (is_store_buffer s) sc it then
              (case unit_search (sc_available sc (o_op_unit it)) of
                 None \<Rightarrow> sc1
               | Some unit_index \<Rightarrow> sc1 \<lparr> sc_available := (sc_available sc)
                     (o_op_unit it := (sc_available sc (o_op_unit it))[unit_index := False]),
                   sc_item_id_list := sc_item_id_list sc @ [item_id], sc_i := i + 1 \<rparr>)
            else sc1 \<lparr> sc_items := (sc_items sc)[i := it \<lparr> o_enable := False \<rparr>] \<rparr>);
         let sc3 = sc2 \<lparr> sc_has_lsu_op := sc_has_lsu_op sc \<or> o_op_unit it = Unit_lsu,
           sc_has_csr_op := sc_has_csr_op sc \<or> o_op_unit it = Unit_csr,
           sc_has_mret_op := sc_has_mret_op sc \<or> o_op it = Op_mret \<rparr>;
         Some (alone_op it \<or> fence_trigger cf (is_store_buffer s) i it, sc3) } } }"

definition issue_scan_next :: "issue_state \<Rightarrow> issue_scan \<Rightarrow> nat \<Rightarrow> (bool \<times> nat) option" where
  "issue_scan_next s sc item_id = do {
     (ok, n) \<leftarrow> iq_get_next_id (is_issue_q s) item_id;
     Some (ok \<and> length (sc_item_id_list sc) < ISSUE_WIDTH, n) }"

definition issue_select :: "execute_feedback_pack_t \<Rightarrow> commit_feedback_pack_t \<Rightarrow> issue_state \<Rightarrow> issue_scan option" where
  "issue_select execute_pack cf s = do {
     first_id \<leftarrow> iq_get_front_id (is_issue_q s);
     do_while (issue_scan_body execute_pack cf s) (issue_scan_next s) (\<lambda>item_id. item_id = first_id) first_id
       \<lparr> sc_items = replicate ISSUE_WIDTH zero_readreg_issue_op_info, sc_available = units_available s, sc_item_id_list = [],
         sc_has_lsu_op = False, sc_has_csr_op = False, sc_has_mret_op = False, sc_i = 0 \<rparr> }"

subsection \<open>Dispatch\<close>

text \<open>The feedback of one operand: the flag and the value. A result of the execution units overrides, one of the
  write-back stage does not.\<close>

definition operand_feedback :: "bool \<Rightarrow> bool \<Rightarrow> nat \<Rightarrow> (execute_feedback_channel_t \<times> wb_feedback_channel_t) list \<Rightarrow> bool \<times> u32" where
  "operand_feedback loaded need_map phy channels =
     fold (\<lambda>(e, w) (fb, v).
         let (fb1, v1) = (if ch_enable e \<and> \<not> loaded \<and> need_map \<and> phy = ch_phy_id e then (True, ch_value e) else (fb, v))
         in if ch_enable w \<and> \<not> loaded \<and> \<not> fb1 \<and> need_map \<and> phy = ch_phy_id w then (True, ch_value w) else (fb1, v1))
       channels (False, 0)"

fun lsu_align :: "lsu_op_t \<Rightarrow> u32" where
  "lsu_align Lsu_lb = 1" | "lsu_align Lsu_lbu = 1" | "lsu_align Lsu_lh = 2" | "lsu_align Lsu_lhu = 2" | "lsu_align Lsu_lw = 4"
| "lsu_align Lsu_sb = 1" | "lsu_align Lsu_sh = 2" | "lsu_align Lsu_sw = 4"

definition lsu_exception :: "lsu_op_t \<Rightarrow> bool \<Rightarrow> riscv_exception_t" where
  "lsu_exception x misaligned =
     (if x \<in> {Lsu_sb, Lsu_sh, Lsu_sw}
      then if misaligned then store_amo_address_misaligned else store_amo_access_fault
      else if misaligned then load_address_misaligned else load_access_fault)"

definition issue_lsu_check :: "issue_execute_pack_t \<Rightarrow> issue_execute_pack_t option" where
  "issue_lsu_check send_pack =
     (if o_valid send_pack \<and> o_op_unit send_pack = Unit_lsu then do {
        let addr = o_src1_value send_pack + o_imm send_pack;
        x \<leftarrow> sub_lsu_op (o_sub_op send_pack);
        let misaligned = (\<not> bus_check_align addr (lsu_align x));
        Some (send_pack \<lparr> o_lsu_addr := addr, o_exception_value := addr, o_has_exception := misaligned,
          o_exception_id := lsu_exception x misaligned \<rparr>) }
      else Some send_pack)"

text \<open>The instruction with its operands; \<open>None\<close> inside when one is missing.\<close>

definition issue_pack :: "execute_feedback_pack_t \<Rightarrow> wb_feedback_pack_t \<Rightarrow> issue_queue_item_t \<Rightarrow> issue_execute_pack_t option option" where
  "issue_pack execute_pack wb_pack it = do {
     let channels = (if o_src1_loaded it \<and> o_src2_loaded it then [] else zip execute_pack wb_pack);
     let (fb1, v1) = operand_feedback (o_src1_loaded it) (o_rs1_need_map it) (o_rs1_phy it) channels;
     let (fb2, v2) = operand_feedback (o_src2_loaded it) (o_rs2_need_map it) (o_rs2_phy it) channels;
     if (fb1 \<or> o_src1_loaded it) \<and> (fb2 \<or> o_src2_loaded it) then do {
       send_pack \<leftarrow> issue_lsu_check (readreg_issue_op_info_t.extend
         (it \<lparr> o_src1_value := if fb1 then v1 else o_src1_value it, o_src1_loaded := fb1 \<or> o_src1_loaded it,
               o_src2_value := if fb2 then v2 else o_src2_value it, o_src2_loaded := fb2 \<or> o_src2_loaded it \<rparr>)
         (issue_execute_pack_t.fields 0));
       Some (Some send_pack) }
     else Some None }"

text \<open>The round-robin search for a queue with room.\<close>

definition dispatch_search :: "'a fifo list \<Rightarrow> nat \<Rightarrow> nat \<Rightarrow> nat option option" where
  "dispatch_search unit_fifo cnt unit_index =
     do_while (\<lambda>k found. do {
         assert_that (k < length unit_fifo);
         Some (if \<not> fifo_is_full (unit_fifo ! k) then (True, Some k) else (False, found)) })
       (\<lambda>found k. Some (True, (k + 1) mod cnt)) (\<lambda>k. k = unit_index) unit_index None"

definition issue_push :: "issue_execute_pack_t \<Rightarrow> issue_state \<Rightarrow> (bool \<times> issue_state) option" where
  "issue_push send_pack s = do {
     let u = o_op_unit send_pack;
     found \<leftarrow> dispatch_search (is_unit_fifo s u) (unit_cnt u) (is_unit_index s u);
     case found of
       None \<Rightarrow> Some (True, s \<lparr> is_perf := issue_execute_fifo_full_add (is_perf s) \<rparr>)
     | Some k \<Rightarrow> do {
         let (ok, q) = fifo_push send_pack (is_unit_fifo s u ! k);
         assert_that ok;
         Some (is_inst_waiting s, s \<lparr> is_unit_fifo := (is_unit_fifo s)(u := (is_unit_fifo s u)[k := q]),
           is_unit_index := (is_unit_index s)(u := (k + 1) mod unit_cnt u) \<rparr>) } }"

definition issue_dispatch_step :: "execute_feedback_pack_t \<Rightarrow> wb_feedback_pack_t \<Rightarrow> commit_feedback_pack_t \<Rightarrow> issue_scan \<Rightarrow>
    nat \<Rightarrow> issue_state \<Rightarrow> (bool \<times> issue_state) option" where
  "issue_dispatch_step execute_pack wb_pack cf sc i s =
     (if i \<ge> length (sc_item_id_list sc) then Some (True, s)
      else do {
        let it = sc_items sc ! i;
        if \<not> o_enable it then Some (False, s)
        else do {
          s1 \<leftarrow> (if alone_op it then do {
                assert_that (cf_enable cf);
                Some (s \<lparr> is_inst_waiting := True, is_inst_waiting_rob_id := o_rob_id it \<rparr>) }
              else Some s);
          pack \<leftarrow> issue_pack execute_pack wb_pack it;
          case pack of None \<Rightarrow> Some (True, s1) | Some send_pack \<Rightarrow> issue_push send_pack s1 } })"

text \<open>The output half of a cycle; the slots of the issued instructions are the result.\<close>

definition inst_waiting_ok :: "commit_feedback_pack_t \<Rightarrow> nat \<Rightarrow> bool" where
  "inst_waiting_ok cf rob_id \<longleftrightarrow> list_ex (\<lambda>i. cf_enable cf \<and> cf_committed_rob_id_valid cf ! i \<and>
     cf_committed_rob_id cf ! i = rob_id) [0..<COMMIT_WIDTH]"

definition issue_output :: "execute_feedback_pack_t \<Rightarrow> wb_feedback_pack_t \<Rightarrow> commit_feedback_pack_t \<Rightarrow> issue_state \<Rightarrow>
    (nat list \<times> issue_state) option" where
  "issue_output execute_pack wb_pack cf s =
     (if \<not> is_inst_waiting s \<or> inst_waiting_ok cf (is_inst_waiting_rob_id s) then do {
        let s1 = s \<lparr> is_inst_waiting := False \<rparr>;
        if fifo_is_empty (is_issue_q s1) then Some ([], s1)
        else do {
          sc \<leftarrow> issue_select execute_pack cf s1;
          s2 \<leftarrow> for_break (issue_dispatch_step execute_pack wb_pack cf sc) [0..<ISSUE_WIDTH] s1;
          Some (sc_item_id_list sc, s2) } }
      else Some ([], s))"

subsection \<open>Waiting instructions\<close>

text \<open>The operands an instruction picks up from one channel.\<close>

definition load_channel :: "execute_feedback_channel_t \<Rightarrow> issue_queue_item_t \<Rightarrow> issue_queue_item_t" where
  "load_channel c it =
     (if ch_enable c then
        let it1 = (if \<not> o_src1_loaded it \<and> o_rs1_need_map it \<and> o_rs1_phy it = ch_phy_id c
                   then it \<lparr> o_src1_loaded := True, o_src1_value := ch_value c \<rparr> else it)
        in if \<not> o_src2_loaded it1 \<and> o_rs2_need_map it1 \<and> o_rs2_phy it1 = ch_phy_id c
           then it1 \<lparr> o_src2_loaded := True, o_src2_value := ch_value c \<rparr> else it1
      else it)"

definition load_channels :: "execute_feedback_pack_t \<Rightarrow> wb_feedback_pack_t \<Rightarrow> issue_queue_item_t \<Rightarrow> issue_queue_item_t" where
  "load_channels execute_pack wb_pack it = fold (\<lambda>(e, w) it. load_channel w (load_channel e it)) (zip execute_pack wb_pack) it"

definition wake_body :: "execute_feedback_pack_t \<Rightarrow> wb_feedback_pack_t \<Rightarrow> nat list \<Rightarrow> nat \<Rightarrow> issue_queue_item_t issue_queue \<Rightarrow>
    (bool \<times> issue_queue_item_t issue_queue) option" where
  "wake_body execute_pack wb_pack item_id_list item_id q =
     (if item_id \<in> set item_id_list then Some (False, q)
      else do {
        it \<leftarrow> iq_get_item q item_id;
        let it1 = load_channels execute_pack wb_pack it;
        let modified = (o_src1_loaded it1 \<noteq> o_src1_loaded it \<or> o_src2_loaded it1 \<noteq> o_src2_loaded it);
        Some (False, if modified then iq_set_item_sync item_id it1 q else q) })"

definition issue_wake :: "execute_feedback_pack_t \<Rightarrow> wb_feedback_pack_t \<Rightarrow> nat list \<Rightarrow> issue_queue_item_t issue_queue \<Rightarrow>
    issue_queue_item_t issue_queue option" where
  "issue_wake execute_pack wb_pack item_id_list q =
     (case iq_get_front_id q of
        None \<Rightarrow> Some q
      | Some first_id \<Rightarrow> do_while (wake_body execute_pack wb_pack item_id_list) iq_get_next_id (\<lambda>item_id. item_id = first_id) first_id q)"

subsection \<open>Input\<close>

definition load_regfile :: "phy_regfile_item_t regfile \<Rightarrow> issue_queue_item_t \<Rightarrow> issue_queue_item_t option" where
  "load_regfile rf it = do {
     it1 \<leftarrow> (if \<not> o_src1_loaded it \<and> o_rs1_need_map it then do {
          v \<leftarrow> read_data_valid rf (o_rs1_phy it);
          x \<leftarrow> regfile_read rf (o_rs1_phy it);
          Some (if v then it \<lparr> o_src1_loaded := True, o_src1_value := phy_value x \<rparr> else it) }
        else Some it);
     (if \<not> o_src2_loaded it1 \<and> o_rs2_need_map it1 then do {
          v \<leftarrow> read_data_valid rf (o_rs2_phy it1);
          x \<leftarrow> regfile_read rf (o_rs2_phy it1);
          Some (if v then it1 \<lparr> o_src2_loaded := True, o_src2_value := phy_value x \<rparr> else it1) }
        else Some it1) }"

definition issue_item :: "execute_feedback_pack_t \<Rightarrow> wb_feedback_pack_t \<Rightarrow> phy_regfile_item_t regfile \<Rightarrow>
    readreg_issue_op_info_t \<Rightarrow> issue_queue_item_t option" where
  "issue_item execute_pack wb_pack rf cur_op =
     (if o_valid cur_op then do {
        t_item \<leftarrow> load_regfile rf cur_op;
        Some (load_channels execute_pack wb_pack t_item) }
      else Some cur_op)"

text \<open>The loop over the received instructions; \<open>busy\<close> stays set when the queue is full.\<close>

definition issue_input_step :: "execute_feedback_pack_t \<Rightarrow> wb_feedback_pack_t \<Rightarrow> readreg_issue_pack_t \<Rightarrow> nat \<Rightarrow> bool \<times> issue_state \<Rightarrow>
    (bool \<times> bool \<times> issue_state) option" where
  "issue_input_step execute_pack wb_pack rev_pack i = (\<lambda>(finish, s). do {
     let cur_op = rev_pack ! i;
     let s1 = s \<lparr> is_last_index := i \<rparr>;
     if \<not> o_enable cur_op then Some (False, finish, s1)
     else if fifo_is_full (is_issue_q s1) then Some (True, False, s1 \<lparr> is_perf := issue_queue_full_add (is_perf s1) \<rparr>)
     else do {
       t_item \<leftarrow> issue_item execute_pack wb_pack (is_phy_regfile s1) cur_op;
       Some (False, finish, s1 \<lparr> is_issue_q := snd (fifo_push t_item (is_issue_q s1)) \<rparr>) } })"

definition issue_input :: "execute_feedback_pack_t \<Rightarrow> wb_feedback_pack_t \<Rightarrow> issue_state \<Rightarrow> issue_state option" where
  "issue_input execute_pack wb_pack s = do {
     let s1 = (if \<not> is_busy s then s \<lparr> is_busy := True, is_last_index := 0 \<rparr> else s);
     (finish, s2) \<leftarrow> for_break (issue_input_step execute_pack wb_pack (port_get (is_readreg_issue_port s1)))
       [is_last_index s1..<READREG_WIDTH] (True, s1);
     Some (if finish then s2 \<lparr> is_busy := False, is_last_index := 0 \<rparr> else s2) }"

subsection \<open>The cycle\<close>

definition issue_flush :: "issue_state \<Rightarrow> issue_state" where
  "issue_flush s = s \<lparr> is_unit_fifo := (\<lambda>u. map fifo_flush (is_unit_fifo s u)), is_issue_q := fifo_flush (is_issue_q s),
     is_busy := False, is_inst_waiting := False \<rparr>"

definition issue_run :: "execute_feedback_pack_t \<Rightarrow> wb_feedback_pack_t \<Rightarrow> commit_feedback_pack_t \<Rightarrow> issue_state \<Rightarrow>
    (issue_feedback_pack_t \<times> issue_state) option" where
  "issue_run execute_pack wb_pack cf s =
     (if \<not> cf_flushing cf then do {
        (item_id_list, s1) \<leftarrow> issue_output execute_pack wb_pack cf s;
        q1 \<leftarrow> issue_wake execute_pack wb_pack item_id_list (is_issue_q s1);
        s2 \<leftarrow> issue_input execute_pack wb_pack (s1 \<lparr> is_issue_q := q1 \<rparr>);
        q2 \<leftarrow> iq_sync (iq_compress_sync item_id_list (is_issue_q s2));
        Some (\<lparr> if_stall = is_busy s2 \<rparr>, s2 \<lparr> is_issue_q := q2 \<rparr>) }
      else Some (\<lparr> if_stall = False \<rparr>, issue_flush s))"

end
