(* ===== verification/Readreg.thy ===== *)
theory Readreg
  imports Pipeline_Types Regfile
begin

text \<open>
  \<open>pipeline/readreg.cpp\<close>: the register read stage fills in the operands of the renamed instructions, from the physical
  register file or, where the register has no value there yet, from the results that the execution units and the
  write-back stage forward in this cycle. An operand found nowhere stays unloaded and is picked up by the issue stage.
\<close>

record readreg_state =
  rr_rename_readreg_port :: "rename_readreg_pack_t port"
  rr_readreg_issue_port :: "readreg_issue_pack_t port"
  rr_phy_regfile :: "phy_regfile_item_t regfile"

text \<open>The loop over the channels: at every index the execution unit's channel first, then the write-back stage's.\<close>

fun readreg_forward :: "nat \<Rightarrow> (execute_feedback_channel_t \<times> wb_feedback_channel_t) list \<Rightarrow> u32 option" where
  "readreg_forward phy [] = None"
| "readreg_forward phy ((e, w) # cs) =
     (if ch_enable e \<and> phy = ch_phy_id e then Some (ch_value e)
      else if ch_enable w \<and> phy = ch_phy_id w then Some (ch_value w)
      else readreg_forward phy cs)"

text \<open>One operand: its value and whether it is loaded.\<close>

definition readreg_source :: "phy_regfile_item_t regfile \<Rightarrow> execute_feedback_pack_t \<Rightarrow> wb_feedback_pack_t \<Rightarrow>
    bool \<Rightarrow> nat \<Rightarrow> arg_src_t \<Rightarrow> u32 \<Rightarrow> (u32 \<times> bool) option" where
  "readreg_source rf execute_pack wb_pack need_map phy src im =
     (if need_map then do {
        reg_item \<leftarrow> regfile_read rf phy;
        data_valid \<leftarrow> read_data_valid rf phy;
        Some (if data_valid then (phy_value reg_item, True)
          else case readreg_forward phy (zip execute_pack wb_pack) of Some v \<Rightarrow> (v, True) | None \<Rightarrow> (0, False)) }
      else if src = Src_imm then Some (im, True)
      else Some (0, True))"

definition readreg_op :: "phy_regfile_item_t regfile \<Rightarrow> execute_feedback_pack_t \<Rightarrow> wb_feedback_pack_t \<Rightarrow>
    rename_readreg_op_info_t \<Rightarrow> readreg_issue_op_info_t option" where
  "readreg_op rf execute_pack wb_pack rev_op =
     (if o_enable rev_op \<and> o_valid rev_op then do {
        (v1, l1) \<leftarrow> readreg_source rf execute_pack wb_pack (o_rs1_need_map rev_op) (o_rs1_phy rev_op) (o_arg1_src rev_op) (o_imm rev_op);
        (v2, l2) \<leftarrow> readreg_source rf execute_pack wb_pack (o_rs2_need_map rev_op) (o_rs2_phy rev_op) (o_arg2_src rev_op) (o_imm rev_op);
        Some (rename_readreg_op_info_t.extend rev_op (readreg_issue_op_info_t.fields v1 l1 v2 l2)) }
      else Some (rename_readreg_op_info_t.extend rev_op (readreg_issue_op_info_t.fields 0 True 0 True)))"

definition readreg_run :: "issue_feedback_pack_t \<Rightarrow> execute_feedback_pack_t \<Rightarrow> wb_feedback_pack_t \<Rightarrow> commit_feedback_pack_t \<Rightarrow>
    readreg_state \<Rightarrow> readreg_state option" where
  "readreg_run issue_pack execute_pack wb_pack cf s =
     (if \<not> cf_flushing cf then
        if \<not> if_stall issue_pack then do {
          send_pack \<leftarrow> those (map (readreg_op (rr_phy_regfile s) execute_pack wb_pack) (port_get (rr_rename_readreg_port s)));
          Some (s \<lparr> rr_readreg_issue_port := port_set send_pack (rr_readreg_issue_port s) \<rparr>) }
        else Some s
      else Some (s \<lparr> rr_readreg_issue_port := port_set (replicate READREG_WIDTH zero_readreg_issue_op_info) (rr_readreg_issue_port s) \<rparr>))"

end
