(* ===== verification/Issue_Props.thy ===== *)
theory Issue_Props
  imports Issue Readreg "HOL-Library.Multiset"
begin

text \<open>
  The issue stage keeps every instruction it takes in until it has sent it to an execution unit, and the operands it sends
  along are the values of the physical registers that the instruction names.
\<close>

subsection \<open>Operands\<close>

text \<open>
  The values are described by a function: \<open>V p\<close> is the value that the instruction writing physical register \<open>p\<close> computes.
  The forwarded results and the register file agree with it, and so has every operand that has been loaded.
\<close>

definition channel_ok :: "(nat \<Rightarrow> u32) \<Rightarrow> execute_feedback_channel_t \<Rightarrow> bool" where
  "channel_ok V c \<longleftrightarrow> (ch_enable c \<longrightarrow> ch_value c = V (ch_phy_id c))"

definition regfile_ok :: "(nat \<Rightarrow> u32) \<Rightarrow> phy_regfile_item_t regfile \<Rightarrow> bool" where
  "regfile_ok V rf \<longleftrightarrow> (\<forall>p x. read_data_valid rf p = Some True \<and> regfile_read rf p = Some x \<longrightarrow> phy_value x = V p)"

definition item_ok :: "(nat \<Rightarrow> u32) \<Rightarrow> 'a readreg_issue_op_info_t_scheme \<Rightarrow> bool" where
  "item_ok V it \<longleftrightarrow> (o_src1_loaded it \<or> o_valid it \<and> o_rs1_need_map it) \<and> (o_src2_loaded it \<or> o_valid it \<and> o_rs2_need_map it) \<and>
     (o_valid it \<and> o_src1_loaded it \<and> o_rs1_need_map it \<longrightarrow> o_src1_value it = V (o_rs1_phy it)) \<and>
     (o_valid it \<and> o_src2_loaded it \<and> o_rs2_need_map it \<longrightarrow> o_src2_value it = V (o_rs2_phy it))"

text \<open>An instruction apart from its operands.\<close>

definition op_of :: "'a readreg_issue_op_info_t_scheme \<Rightarrow> 'a readreg_issue_op_info_t_scheme" where
  "op_of it = it \<lparr> o_src1_value := 0, o_src1_loaded := False, o_src2_value := 0, o_src2_loaded := False \<rparr>"

lemma op_of_update [simp]:
  "op_of (it \<lparr> o_src1_value := v \<rparr>) = op_of it" "op_of (it \<lparr> o_src1_loaded := b \<rparr>) = op_of it"
  "op_of (it \<lparr> o_src2_value := v \<rparr>) = op_of it" "op_of (it \<lparr> o_src2_loaded := b \<rparr>) = op_of it"
  by (simp_all add: op_of_def)

lemma op_of_fields:
  assumes "op_of it1 = op_of it"
  shows "o_enable it1 = o_enable it" "o_valid it1 = o_valid it" "o_op_unit it1 = o_op_unit it" "o_rob_id it1 = o_rob_id it"
    "o_sub_op it1 = o_sub_op it" "o_op it1 = o_op it" "o_rs1_phy it1 = o_rs1_phy it" "o_rs2_phy it1 = o_rs2_phy it"
    "o_rs1_need_map it1 = o_rs1_need_map it" "o_rs2_need_map it1 = o_rs2_need_map it" "o_imm it1 = o_imm it"
  using assms [THEN arg_cong, of o_enable] assms [THEN arg_cong, of o_valid] assms [THEN arg_cong, of o_op_unit]
    assms [THEN arg_cong, of o_rob_id] assms [THEN arg_cong, of o_sub_op] assms [THEN arg_cong, of o_op] assms [THEN arg_cong, of o_rs1_phy]
    assms [THEN arg_cong, of o_rs2_phy] assms [THEN arg_cong, of o_rs1_need_map] assms [THEN arg_cong, of o_rs2_need_map]
    assms [THEN arg_cong, of o_imm]
  by (simp_all add: op_of_def)

lemma op_of_load_channel [simp]: "op_of (load_channel c it) = op_of it"
  by (simp add: load_channel_def Let_def)

lemma load_channel_ok: "item_ok V it \<Longrightarrow> channel_ok V c \<Longrightarrow> item_ok V (load_channel c it)"
  by (auto simp: load_channel_def Let_def item_ok_def channel_ok_def)

lemma load_channels_ok:
  assumes "item_ok V it" "\<forall>c \<in> set execute_pack \<union> set wb_pack. channel_ok V c"
  shows "item_ok V (load_channels execute_pack wb_pack it) \<and> op_of (load_channels execute_pack wb_pack it) = op_of it"
proof -
  have "item_ok V (fold (\<lambda>(e, w) it. load_channel w (load_channel e it)) cs it) \<and>
      op_of (fold (\<lambda>(e, w) it. load_channel w (load_channel e it)) cs it) = op_of it"
    if "item_ok V it" "\<forall>(e, w) \<in> set cs. channel_ok V e \<and> channel_ok V w" for cs
    using that
  proof (induction cs arbitrary: it)
    case (Cons c cs)
    obtain e w where c: "c = (e, w)" by (cases c)
    then have "channel_ok V e" "channel_ok V w" using Cons.prems(2) by auto
    with Cons.IH [of "load_channel w (load_channel e it)"] Cons.prems show ?case by (simp add: c load_channel_ok)
  qed simp
  with assms show ?thesis unfolding load_channels_def by (auto dest: set_zip_leftD set_zip_rightD)
qed

lemma load_regfile_ok:
  assumes "item_ok V it" "regfile_ok V rf" "o_rs1_phy it < regfile_size rf" "o_rs2_phy it < regfile_size rf"
  shows "\<exists>it1. load_regfile rf it = Some it1 \<and> item_ok V it1 \<and> op_of it1 = op_of it"
proof -
  obtain x1 b1 x2 b2 where r: "regfile_read rf (o_rs1_phy it) = Some x1" "read_data_valid rf (o_rs1_phy it) = Some b1"
    "regfile_read rf (o_rs2_phy it) = Some x2" "read_data_valid rf (o_rs2_phy it) = Some b2"
    using assms(3,4) by (simp add: regfile_read_def read_data_valid_def)
  have v: "b1 \<longrightarrow> phy_value x1 = V (o_rs1_phy it)" "b2 \<longrightarrow> phy_value x2 = V (o_rs2_phy it)" using assms(2) r by (auto simp: regfile_ok_def)
  let ?it1 = "if \<not> o_src1_loaded it \<and> o_rs1_need_map it \<and> b1 then it \<lparr> o_src1_loaded := True, o_src1_value := phy_value x1 \<rparr> else it"
  let ?it2 = "if \<not> o_src2_loaded it \<and> o_rs2_need_map it \<and> b2 then ?it1 \<lparr> o_src2_loaded := True, o_src2_value := phy_value x2 \<rparr> else ?it1"
  have "load_regfile rf it = Some ?it2" using r by (simp add: load_regfile_def)
  moreover have "item_ok V ?it2" using assms(1) v by (auto simp: item_ok_def)
  ultimately show ?thesis by auto
qed

lemma issue_item_ok:
  assumes "item_ok V it" "regfile_ok V rf" "o_valid it \<longrightarrow> o_rs1_phy it < regfile_size rf \<and> o_rs2_phy it < regfile_size rf"
    "\<forall>c \<in> set execute_pack \<union> set wb_pack. channel_ok V c"
  shows "\<exists>it1. issue_item execute_pack wb_pack rf it = Some it1 \<and> item_ok V it1 \<and> op_of it1 = op_of it"
proof (cases "o_valid it")
  case True
  then obtain it1 where "load_regfile rf it = Some it1" "item_ok V it1" "op_of it1 = op_of it" using load_regfile_ok [OF assms(1,2)] assms(3) by blast
  with True load_channels_ok [OF _ assms(4), of it1] show ?thesis by (simp add: issue_item_def)
next
  case False
  with assms(1) show ?thesis by (simp add: issue_item_def)
qed

text \<open>The operands forwarded at dispatch.\<close>

lemma operand_feedback_found:
  "fst (operand_feedback loaded need phy cs) \<longleftrightarrow> \<not> loaded \<and> need \<and>
     (\<exists>(e, w) \<in> set cs. ch_enable e \<and> phy = ch_phy_id e \<or> ch_enable w \<and> phy = ch_phy_id w)"
proof -
  let ?f = "\<lambda>(e, w) (fb, v). let (fb1, v1) = (if ch_enable e \<and> \<not> loaded \<and> need \<and> phy = ch_phy_id e then (True, ch_value e) else (fb, v))
         in if ch_enable w \<and> \<not> loaded \<and> \<not> fb1 \<and> need \<and> phy = ch_phy_id w then (True, ch_value w) else (fb1, v1)"
  have "fst (fold ?f cs (fb, v)) \<longleftrightarrow> fb \<or> \<not> loaded \<and> need \<and>
     (\<exists>(e, w) \<in> set cs. ch_enable e \<and> phy = ch_phy_id e \<or> ch_enable w \<and> phy = ch_phy_id w)" for fb v
    by (induction cs arbitrary: fb v) (auto simp: Let_def split: if_splits prod.splits)
  then show ?thesis by (simp add: operand_feedback_def)
qed

lemma operand_feedback_value:
  assumes "\<forall>(e, w) \<in> set cs. channel_ok V e \<and> channel_ok V w" "operand_feedback loaded need phy cs = (True, v)"
  shows "v = V phy"
proof -
  let ?f = "\<lambda>(e, w) (fb, v). let (fb1, v1) = (if ch_enable e \<and> \<not> loaded \<and> need \<and> phy = ch_phy_id e then (True, ch_value e) else (fb, v))
         in if ch_enable w \<and> \<not> loaded \<and> \<not> fb1 \<and> need \<and> phy = ch_phy_id w then (True, ch_value w) else (fb1, v1)"
  have "case fold ?f cs (False, 0) of (fb, x) \<Rightarrow> fb \<longrightarrow> x = V phy"
  proof (rule fold_invariant [where Q = "\<lambda>(e, w). channel_ok V e \<and> channel_ok V w"])
    show "case ?f c a of (fb, x) \<Rightarrow> fb \<longrightarrow> x = V phy"
      if "case c of (e, w) \<Rightarrow> channel_ok V e \<and> channel_ok V w" "case a of (fb, x) \<Rightarrow> fb \<longrightarrow> x = V phy" for c a
      using that by (auto simp: channel_ok_def Let_def split: prod.splits if_splits)
  qed (use assms(1) in auto)
  with assms(2) show ?thesis by (simp add: operand_feedback_def)
qed

text \<open>What the stage sends for an instruction: the same operation with both operands, and the address of a memory access.\<close>

definition lsu_ok :: "'a readreg_issue_op_info_t_scheme \<Rightarrow> bool" where
  "lsu_ok it \<longleftrightarrow> (o_valid it \<and> o_op_unit it = Unit_lsu \<longrightarrow> sub_lsu_op (o_sub_op it) \<noteq> None)"

definition sends :: "(nat \<Rightarrow> u32) \<Rightarrow> issue_queue_item_t \<Rightarrow> issue_execute_pack_t \<Rightarrow> bool" where
  "sends V it p \<longleftrightarrow> o_rob_id p = o_rob_id it \<and> o_pc p = o_pc it \<and> o_valid p = o_valid it \<and> o_op p = o_op it \<and> o_op_unit p = o_op_unit it \<and>
     o_sub_op p = o_sub_op it \<and> o_imm p = o_imm it \<and> o_rd_enable p = o_rd_enable it \<and> o_rd_phy p = o_rd_phy it \<and>
     o_src1_loaded p \<and> o_src2_loaded p \<and>
     (o_valid it \<and> o_rs1_need_map it \<longrightarrow> o_src1_value p = V (o_rs1_phy it)) \<and> (o_valid it \<and> \<not> o_rs1_need_map it \<longrightarrow> o_src1_value p = o_src1_value it) \<and>
     (o_valid it \<and> o_rs2_need_map it \<longrightarrow> o_src2_value p = V (o_rs2_phy it)) \<and> (o_valid it \<and> \<not> o_rs2_need_map it \<longrightarrow> o_src2_value p = o_src2_value it) \<and>
     (o_valid it \<and> o_op_unit it = Unit_lsu \<longrightarrow> o_lsu_addr p = o_src1_value p + o_imm it \<and>
        (\<exists>x. sub_lsu_op (o_sub_op it) = Some x \<and> o_has_exception p = (\<not> bus_check_align (o_lsu_addr p) (lsu_align x))))"

lemma operand_ready:
  assumes "src_ready execute_pack loaded phy" "loaded \<or> need" "length execute_pack = length wb_pack"
    "\<forall>c \<in> set execute_pack \<union> set wb_pack. channel_ok V c" "cs = zip execute_pack wb_pack \<or> cs = [] \<and> loaded"
    "operand_feedback loaded need phy cs = (fb, v)"
  shows "fb = (\<not> loaded)" "fb \<Longrightarrow> v = V phy"
proof -
  show "fb = (\<not> loaded)"
  proof (cases loaded)
    case True
    with operand_feedback_found [of loaded need phy cs] assms(6) show ?thesis by simp
  next
    case False
    with assms(1,5) obtain e where e: "e \<in> set execute_pack" "ch_enable e" "phy = ch_phy_id e" and cs: "cs = zip execute_pack wb_pack"
      by (auto simp: src_ready_def list_ex_iff)
    obtain i where "i < length execute_pack" "e = execute_pack ! i" using e(1) by (auto simp: in_set_conv_nth)
    then have "(e, wb_pack ! i) \<in> set cs" using assms(3) by (auto simp: cs in_set_zip)
    with False e(2,3) operand_feedback_found [of loaded need phy cs] assms(2,6) show ?thesis by auto
  qed
  have "\<forall>(e, w) \<in> set cs. channel_ok V e \<and> channel_ok V w" using assms(4,5) by (auto dest: set_zip_leftD set_zip_rightD)
  with assms(6) show "v = V phy" if fb using that operand_feedback_value [of cs V loaded need phy v] by simp
qed

lemma issue_pack_ready:
  assumes "item_ok V it" "lsu_ok it" "src_ready execute_pack (o_src1_loaded it) (o_rs1_phy it)" "src_ready execute_pack (o_src2_loaded it) (o_rs2_phy it)"
    "length execute_pack = length wb_pack" "\<forall>c \<in> set execute_pack \<union> set wb_pack. channel_ok V c"
  shows "\<exists>p. issue_pack execute_pack wb_pack it = Some (Some p) \<and> sends V it p"
proof -
  define cs where "cs = (if o_src1_loaded it \<and> o_src2_loaded it then [] else zip execute_pack wb_pack)"
  obtain fb1 v1 where f1: "operand_feedback (o_src1_loaded it) (o_rs1_need_map it) (o_rs1_phy it) cs = (fb1, v1)" by fastforce
  obtain fb2 v2 where f2: "operand_feedback (o_src2_loaded it) (o_rs2_need_map it) (o_rs2_phy it) cs = (fb2, v2)" by fastforce
  have cs: "cs = zip execute_pack wb_pack \<or> cs = [] \<and> o_src1_loaded it" "cs = zip execute_pack wb_pack \<or> cs = [] \<and> o_src2_loaded it"
    by (simp_all add: cs_def)
  have i: "o_src1_loaded it \<or> o_rs1_need_map it" "o_src2_loaded it \<or> o_rs2_need_map it" using assms(1) by (auto simp: item_ok_def)
  note r1 = operand_ready [OF assms(3) i(1) assms(5,6) cs(1) f1] and r2 = operand_ready [OF assms(4) i(2) assms(5,6) cs(2) f2]
  let ?it = "it \<lparr> o_src1_value := if fb1 then v1 else o_src1_value it, o_src1_loaded := True,
       o_src2_value := if fb2 then v2 else o_src2_value it, o_src2_loaded := True \<rparr>"
  let ?p = "readreg_issue_op_info_t.extend ?it (issue_execute_pack_t.fields 0)"
  have p: "issue_pack execute_pack wb_pack it = Option.bind (issue_lsu_check ?p) (\<lambda>p. Some (Some p))"
    using r1(1) r2(1) by (simp add: issue_pack_def Let_def f1 f2 flip: cs_def)
  have v: "o_valid it \<longrightarrow> o_src1_value ?it = (if o_rs1_need_map it then V (o_rs1_phy it) else o_src1_value it)"
    "o_valid it \<longrightarrow> o_src2_value ?it = (if o_rs2_need_map it then V (o_rs2_phy it) else o_src2_value it)"
    using r1 r2 assms(1) by (auto simp: item_ok_def)
  show ?thesis
  proof (cases "o_valid it \<and> o_op_unit it = Unit_lsu")
    case True
    then obtain x where x: "sub_lsu_op (o_sub_op it) = Some x" using assms(2) by (auto simp: lsu_ok_def)
    with True v p show ?thesis
      by (auto simp: issue_lsu_check_def readreg_issue_op_info_t.defs issue_execute_pack_t.defs Let_def sends_def)
  next
    case False
    with v p show ?thesis by (auto simp: issue_lsu_check_def readreg_issue_op_info_t.defs issue_execute_pack_t.defs sends_def)
  qed
qed

subsection \<open>Selection\<close>

definition nonfull :: "'a fifo list \<Rightarrow> nat" where
  "nonfull fs = length (filter (\<lambda>f. \<not> fifo_is_full f) fs)"

definition for_unit :: "issue_queue_item_t issue_queue \<Rightarrow> op_unit_t \<Rightarrow> nat list \<Rightarrow> nat list" where
  "for_unit q u ids = filter (\<lambda>i. o_op_unit (buffer q ! i) = u) ids"

text \<open>The queue and the unit queues between two cycles.\<close>

definition queue_ok :: "(nat \<Rightarrow> u32) \<Rightarrow> issue_queue_item_t issue_queue \<Rightarrow> bool" where
  "queue_ok V q \<longleftrightarrow> fifo_ring q \<and> \<not> pop_status_save q \<and> (\<forall>it \<in> set (fifo_contents q). o_enable it \<and> item_ok V it \<and> lsu_ok it)"

definition units_ok :: "issue_state \<Rightarrow> bool" where
  "units_ok s \<longleftrightarrow> (\<forall>u. length (is_unit_fifo s u) = unit_cnt u \<and> (\<forall>f \<in> set (is_unit_fifo s u). fifo_inv f) \<and> is_unit_index s u < unit_cnt u)"

text \<open>Some elements of a list in their order.\<close>

definition picked :: "'a list \<Rightarrow> 'a list \<Rightarrow> bool" where
  "picked sel xs \<longleftrightarrow> sel = filter (\<lambda>x. x \<in> set sel) xs"

text \<open>The selecting loop after \<open>k\<close> entries: the selected slots in queue order with their instructions, all ready, and a unit
  queue with room for each.\<close>

definition scan_inv :: "execute_feedback_pack_t \<Rightarrow> commit_feedback_pack_t \<Rightarrow> issue_state \<Rightarrow> nat \<Rightarrow> issue_scan \<Rightarrow> bool" where
  "scan_inv execute_pack cf s k sc \<longleftrightarrow> (let q = is_issue_q s; sel = sc_item_id_list sc in
     picked sel (take k (fifo_ids q)) \<and> length sel \<le> ISSUE_WIDTH \<and> sc_i sc = length sel \<and>
     length (sc_items sc) = ISSUE_WIDTH \<and> (\<forall>j < length sel. sc_items sc ! j = buffer q ! (sel ! j)) \<and>
     (\<forall>i \<in> set sel. src_ready execute_pack (o_src1_loaded (buffer q ! i)) (o_rs1_phy (buffer q ! i)) \<and>
        src_ready execute_pack (o_src2_loaded (buffer q ! i)) (o_rs2_phy (buffer q ! i)) \<and>
        (alone_op (buffer q ! i) \<longrightarrow> cf_next_handle_rob_id cf = o_rob_id (buffer q ! i))) \<and>
     (\<forall>u. length (filter id (sc_available sc u)) + length (for_unit q u sel) = nonfull (is_unit_fifo s u)))"

definition no_alone :: "issue_state \<Rightarrow> issue_scan \<Rightarrow> bool" where
  "no_alone s sc \<longleftrightarrow> (\<forall>i \<in> set (sc_item_id_list sc). \<not> alone_op (buffer (is_issue_q s) ! i))"

lemma unit_search_Some:
  assumes "unit_search xs = Some i"
  shows "length (filter id (xs[i := False])) + 1 = length (filter id xs)"
proof -
  have i: "i < length xs" "xs ! i" using assms by (auto simp: unit_search_def find_Some_iff)
  then have "xs = take i xs @ True # drop (Suc i) xs" using id_take_nth_drop [of i xs] by simp
  then have "filter id xs = filter id (take i xs) @ True # filter id (drop (Suc i) xs)" by (metis filter.simps(2) filter_append id_apply)
  with i show ?thesis by (simp add: upd_conv_take_nth_drop)
qed

lemma picked_subset: "picked sel xs \<Longrightarrow> set sel \<subseteq> set xs"
  unfolding picked_def by (metis filter_is_subset)

lemma picked_append: "picked sel xs \<Longrightarrow> set sel \<inter> set ys = {} \<Longrightarrow> picked sel (xs @ ys)"
  unfolding picked_def by (metis append_Nil2 disjoint_iff filter_False filter_append)

lemma picked_snoc:
  assumes "picked sel xs" "x \<notin> set xs"
  shows "picked (sel @ [x]) (xs @ [x])"
proof -
  have "filter (\<lambda>y. y \<in> set (sel @ [x])) xs = filter (\<lambda>y. y \<in> set sel) xs" using assms(2) by (intro filter_cong) auto
  with assms(1) show ?thesis by (simp add: picked_def)
qed

lemma picked_Suc:
  assumes "distinct ids" "k < length ids" "picked sel (take k ids)"
  shows "picked sel (take (Suc k) ids)" "picked (sel @ [ids ! k]) (take (Suc k) ids)"
proof -
  have t: "take (Suc k) ids = take k ids @ [ids ! k]" using assms(2) by (rule take_Suc_conv_app_nth)
  have "distinct (take (Suc k) ids)" using assms(1) by simp
  then have n: "ids ! k \<notin> set (take k ids)" unfolding t by simp
  show "picked (sel @ [ids ! k]) (take (Suc k) ids)" unfolding t using assms(3) n by (rule picked_snoc)
  show "picked sel (take (Suc k) ids)" unfolding t using assms(3) picked_subset [OF assms(3)] n by (intro picked_append) auto
qed

lemma iq_get_item_nth: "fifo_ring q \<Longrightarrow> k < fifo_fill q \<Longrightarrow> iq_get_item q (fifo_ids q ! k) = Some (buffer q ! (fifo_ids q ! k))"
  by (simp add: iq_get_item_def iq_slots.valid_iff)

lemma scan_step:
  assumes "fifo_ring (is_issue_q s)" "k < fifo_fill (is_issue_q s)" "cf_enable cf" "scan_inv execute_pack cf s k sc" "no_alone s sc"
    "length (sc_item_id_list sc) < ISSUE_WIDTH"
  shows "\<exists>brk sc1. issue_scan_body execute_pack cf s (fifo_ids (is_issue_q s) ! k) sc = Some (brk, sc1) \<and> scan_inv execute_pack cf s (Suc k) sc1 \<and>
    (no_alone s sc1 \<or> length (sc_item_id_list sc1) = 1) \<and> (\<not> brk \<longrightarrow> no_alone s sc1)"
proof -
  let ?q = "is_issue_q s" and ?sel = "sc_item_id_list sc"
  let ?id = "fifo_ids ?q ! k" and ?av = "sc_available sc"
  let ?it = "buffer ?q ! ?id"
  note I = assms(4) [unfolded scan_inv_def Let_def]
  have get: "iq_get_item ?q ?id = Some ?it" using assms(1,2) by (rule iq_get_item_nth)
  have sel: "picked ?sel (take (Suc k) (fifo_ids ?q))" "picked (?sel @ [?id]) (take (Suc k) (fifo_ids ?q))"
    using picked_Suc [of "fifo_ids ?q" k ?sel] ids_distinct [OF assms(1)] assms(2) I by simp_all
  have skip: "scan_inv execute_pack cf s (Suc k) (sc \<lparr> sc_items := (sc_items sc)[length ?sel := x], sc_has_lsu_op := a, sc_has_csr_op := b, sc_has_mret_op := c \<rparr>)" for x a b c
    using I sel(1) assms(6) by (simp add: scan_inv_def)
  have skip1: "scan_inv execute_pack cf s (Suc k) (sc \<lparr> sc_items := (sc_items sc)[length ?sel := x] \<rparr>)" for x
    using skip [where x = x and a = "sc_has_lsu_op sc" and b = "sc_has_csr_op sc" and c = "sc_has_mret_op sc"] by simp
  consider (stop) "alone_op ?it \<and> (sc_i sc \<noteq> 0 \<or> cf_next_handle_rob_id cf \<noteq> o_rob_id ?it)"
    | (pass) "\<not> (alone_op ?it \<and> (sc_i sc \<noteq> 0 \<or> cf_next_handle_rob_id cf \<noteq> o_rob_id ?it))" "\<not> issue_selects execute_pack cf (is_store_buffer s) sc ?it"
    | (take) "\<not> (alone_op ?it \<and> (sc_i sc \<noteq> 0 \<or> cf_next_handle_rob_id cf \<noteq> o_rob_id ?it))" "issue_selects execute_pack cf (is_store_buffer s) sc ?it"
    by blast
  then show ?thesis
  proof cases
    case stop
    then have "issue_scan_body execute_pack cf s ?id sc = Some (True, sc \<lparr> sc_items := (sc_items sc)[length ?sel := ?it] \<rparr>)"
      using get I assms(3,6) by (auto simp: issue_scan_body_def Let_def)
    then show ?thesis using skip1 assms(5) by (auto simp: no_alone_def)
  next
    case pass
    then have "issue_scan_body execute_pack cf s ?id sc = Some (alone_op ?it \<or> fence_trigger cf (is_store_buffer s) (sc_i sc) ?it,
        sc \<lparr> sc_items := (sc_items sc)[length ?sel := ?it \<lparr> o_enable := False \<rparr>], sc_has_lsu_op := sc_has_lsu_op sc \<or> o_op_unit ?it = Unit_lsu,
           sc_has_csr_op := sc_has_csr_op sc \<or> o_op_unit ?it = Unit_csr, sc_has_mret_op := sc_has_mret_op sc \<or> o_op ?it = Op_mret \<rparr>)"
      using get I assms(3,6) by (auto simp: issue_scan_body_def Let_def)
    then show ?thesis using skip assms(5) by (simp add: no_alone_def)
  next
    case take
    then obtain i where i: "unit_search (?av (o_op_unit ?it)) = Some i" by (auto simp: issue_selects_def)
    let ?sc1 = "sc \<lparr> sc_items := (sc_items sc)[length ?sel := ?it], sc_available := ?av (o_op_unit ?it := (?av (o_op_unit ?it))[i := False]),
        sc_item_id_list := ?sel @ [?id], sc_i := length ?sel + 1, sc_has_lsu_op := sc_has_lsu_op sc \<or> o_op_unit ?it = Unit_lsu,
        sc_has_csr_op := sc_has_csr_op sc \<or> o_op_unit ?it = Unit_csr, sc_has_mret_op := sc_has_mret_op sc \<or> o_op ?it = Op_mret \<rparr>"
    have body: "issue_scan_body execute_pack cf s ?id sc = Some (alone_op ?it \<or> fence_trigger cf (is_store_buffer s) (sc_i sc) ?it, ?sc1)"
      using take get I i assms(3,6) by (auto simp: issue_scan_body_def Let_def)
    have av: "length (filter id ((?av (o_op_unit ?it := (?av (o_op_unit ?it))[i := False])) u)) + length (for_unit ?q u (?sel @ [?id])) =
        nonfull (is_unit_fifo s u)" for u
    proof -
      have "length (filter id (?av u)) + length (for_unit ?q u ?sel) = nonfull (is_unit_fifo s u)" using I by blast
      with unit_search_Some [OF i] show ?thesis by (cases "u = o_op_unit ?it") (simp_all add: for_unit_def)
    qed
    have "\<forall>j < length (?sel @ [?id]). ((sc_items sc)[length ?sel := ?it]) ! j = buffer ?q ! ((?sel @ [?id]) ! j)"
      using I assms(6) by (auto simp: nth_append less_Suc_eq nth_list_update)
    then have "scan_inv execute_pack cf s (Suc k) ?sc1"
      using I sel(2) assms(6) av take by (simp add: scan_inv_def issue_selects_def)
    moreover have "no_alone s ?sc1 \<or> length (?sel @ [?id]) = 1" using assms(5) take(1) I by (auto simp: no_alone_def)
    moreover have "\<not> alone_op ?it \<longrightarrow> no_alone s ?sc1" using assms(5) by (auto simp: no_alone_def)
    ultimately show ?thesis using body by auto
  qed
qed

lemma issue_select_ok:
  assumes "fifo_ring (is_issue_q s)" "\<not> fifo_is_empty (is_issue_q s)" "cf_enable cf" "units_ok s"
  shows "\<exists>sc. issue_select execute_pack cf s = Some sc \<and> scan_inv execute_pack cf s (fifo_fill (is_issue_q s)) sc \<and>
    (no_alone s sc \<or> length (sc_item_id_list sc) = 1)"
proof -
  let ?q = "is_issue_q s" and ?xs = "fifo_ids (is_issue_q s)"
  let ?sc0 = "\<lparr> sc_items = replicate ISSUE_WIDTH zero_readreg_issue_op_info, sc_available = units_available s, sc_item_id_list = [],
         sc_has_lsu_op = False, sc_has_csr_op = False, sc_has_mret_op = False, sc_i = 0 \<rparr>"
  have ne: "?xs \<noteq> []" using assms(1,2) is_empty_fill [of ?q] by (auto simp flip: length_0_conv)
  have front: "iq_get_front_id ?q = Some (hd ?xs)" using iq_slots.front_id_hd [OF assms(1)] ne by simp
  have "units_available s u = map (\<lambda>f. \<not> fifo_is_full f) (is_unit_fifo s u)" for u
    using assms(4) by (auto simp: units_available_def units_ok_def intro!: nth_equalityI)
  then have av: "length (filter id (units_available s u)) = nonfull (is_unit_fifo s u)" for u
    by (simp add: nonfull_def filter_map comp_def)
  let ?J = "\<lambda>sc. \<exists>k \<le> length ?xs. scan_inv execute_pack cf s k sc \<and> (no_alone s sc \<or> length (sc_item_id_list sc) = 1)"
  have "\<exists>sc. do_while (issue_scan_body execute_pack cf s) (issue_scan_next s) (\<lambda>i. i = hd ?xs) (hd ?xs) ?sc0 = Some sc \<and> ?J sc"
  proof (rule do_while_until [where I = "\<lambda>k sc. scan_inv execute_pack cf s k sc \<and> no_alone s sc \<and> length (sc_item_id_list sc) < ISSUE_WIDTH"
        and K = "\<lambda>k sc. scan_inv execute_pack cf s (Suc k) sc \<and> no_alone s sc"])
    show "scan_inv execute_pack cf s 0 ?sc0 \<and> no_alone s ?sc0 \<and> length (sc_item_id_list ?sc0) < ISSUE_WIDTH"
      by (simp add: scan_inv_def no_alone_def picked_def av for_unit_def)
    show "\<exists>brk sc1. issue_scan_body execute_pack cf s (?xs ! k) sc = Some (brk, sc1) \<and>
        (if brk then ?J sc1 else scan_inv execute_pack cf s (Suc k) sc1 \<and> no_alone s sc1)"
      if "k < length ?xs" "scan_inv execute_pack cf s k sc \<and> no_alone s sc \<and> length (sc_item_id_list sc) < ISSUE_WIDTH" for k sc
    proof -
      have "k < fifo_fill ?q" using that(1) by simp
      from scan_step [OF assms(1) this assms(3)] that(2) obtain brk sc1 where
        "issue_scan_body execute_pack cf s (?xs ! k) sc = Some (brk, sc1)" "scan_inv execute_pack cf s (Suc k) sc1"
        "no_alone s sc1 \<or> length (sc_item_id_list sc1) = 1" "\<not> brk \<longrightarrow> no_alone s sc1"
        by blast
      with that(1) show ?thesis by (intro exI [of _ brk] exI [of _ sc1]) (auto intro!: exI [of _ "Suc k"])
    qed
    show "\<exists>ok. issue_scan_next s sc (?xs ! k) = Some (ok, ?xs ! Suc k) \<and> \<not> ?xs ! Suc k = hd ?xs \<and>
        (if ok then scan_inv execute_pack cf s (Suc k) sc \<and> no_alone s sc \<and> length (sc_item_id_list sc) < ISSUE_WIDTH else ?J sc)"
      if "Suc k < length ?xs" "scan_inv execute_pack cf s (Suc k) sc \<and> no_alone s sc" for k sc
    proof -
      have "?xs ! Suc k \<noteq> hd ?xs"
        using that(1) ids_distinct [OF assms(1)] ne nth_eq_iff_index_eq [of ?xs "Suc k" 0] by (simp add: hd_conv_nth)
      moreover have "issue_scan_next s sc (?xs ! k) = Some (length (sc_item_id_list sc) < ISSUE_WIDTH, ?xs ! Suc k)"
        using iq_slots.next_id_Suc [OF assms(1) that(1)] by (simp add: issue_scan_next_def)
      ultimately show ?thesis using that
        by (intro exI [of _ "length (sc_item_id_list sc) < ISSUE_WIDTH"]) (auto intro!: exI [of _ "Suc k"])
    qed
    show "?J sc \<and> (\<exists>ok y. issue_scan_next s sc (last ?xs) = Some (ok, y) \<and> (ok \<longrightarrow> y = hd ?xs))"
      if "scan_inv execute_pack cf s (Suc (length ?xs - 1)) sc \<and> no_alone s sc" for sc
    proof -
      obtain ok y where "iq_get_next_id ?q (last ?xs) = Some (ok, y)" "ok \<longrightarrow> y = hd ?xs"
        using iq_slots.next_id_last [OF assms(1) ne] by blast
      moreover have "Suc (length ?xs - 1) = length ?xs" using ne by (cases ?xs) simp_all
      ultimately show ?thesis using that by (auto simp: issue_scan_next_def intro!: exI [of _ "length ?xs"])
    qed
  qed (rule ne)
  then obtain sc k where sc: "issue_select execute_pack cf s = Some sc" "k \<le> length ?xs" "scan_inv execute_pack cf s k sc"
    "no_alone s sc \<or> length (sc_item_id_list sc) = 1"
    using front by (auto simp: issue_select_def)
  have "set (take k ?xs) \<inter> set (drop k ?xs) = {}" using ids_distinct [OF assms(1)] by (simp add: set_take_disj_set_drop_if_distinct)
  then have "picked (sc_item_id_list sc) ?xs"
    using sc(3) picked_append [of "sc_item_id_list sc" "take k ?xs" "drop k ?xs"] picked_subset [of "sc_item_id_list sc" "take k ?xs"]
    by (auto simp: scan_inv_def Let_def)
  then have "scan_inv execute_pack cf s (fifo_fill ?q) sc" using sc(3) by (simp add: scan_inv_def Let_def)
  with sc show ?thesis by blast
qed

subsection \<open>Dispatch\<close>

definition sent_to :: "issue_state \<Rightarrow> op_unit_t \<Rightarrow> issue_execute_pack_t multiset" where
  "sent_to s u = mset (concat (map fifo_contents (is_unit_fifo s u)))"

lemma dispatch_search_found:
  assumes "n < cnt" "length fs = cnt" "k0 < cnt" "\<not> fifo_is_full (fs ! k0)"
  shows "\<exists>k < cnt. dispatch_search fs cnt n = Some (Some k) \<and> \<not> fifo_is_full (fs ! k)"
proof -
  let ?xs = "map (\<lambda>j. (n + j) mod cnt) [0..<cnt]"
  have ne: "?xs \<noteq> []" and hd: "hd ?xs = n" using assms(1) by (simp_all add: hd_map)
  let ?body = "\<lambda>k found. do { assert_that (k < length fs); Some (if \<not> fifo_is_full (fs ! k) then (True, Some k) else (False, found)) }"
  let ?J = "\<lambda>found. \<exists>k < cnt. found = Some k \<and> \<not> fifo_is_full (fs ! k)"
  have "\<exists>found. do_while ?body (\<lambda>found k. Some (True, (k + 1) mod cnt)) (\<lambda>k. k = n) (hd ?xs) None = Some found \<and> ?J found"
  proof (rule do_while_until [where I = "\<lambda>j found. \<forall>i < j. fifo_is_full (fs ! (?xs ! i))" and K = "\<lambda>j found. \<forall>i < Suc j. fifo_is_full (fs ! (?xs ! i))"])
    show "\<exists>brk s1. ?body (?xs ! j) found = Some (brk, s1) \<and> (if brk then ?J s1 else \<forall>i < Suc j. fifo_is_full (fs ! (?xs ! i)))"
      if "j < length ?xs" "\<forall>i < j. fifo_is_full (fs ! (?xs ! i))" for j found
      using that assms(1,2) by (auto simp: less_Suc_eq)
    show "\<exists>ok. Some (True, (?xs ! j + 1) mod cnt) = Some (ok, ?xs ! Suc j) \<and> \<not> ?xs ! Suc j = n \<and>
        (if ok then \<forall>i < Suc j. fifo_is_full (fs ! (?xs ! i)) else ?J found)"
      if "Suc j < length ?xs" "\<forall>i < Suc j. fifo_is_full (fs ! (?xs ! i))" for j found
    proof -
      have "(n + Suc j) mod cnt \<noteq> n"
      proof (cases "n + Suc j < cnt")
        case False
        with that(1) assms(1) have "(n + Suc j) mod cnt = n + Suc j - cnt" by (simp add: mod_if)
        with that(1) False show ?thesis by simp
      qed simp
      with that show ?thesis by (intro exI [of _ True]) (simp add: mod_Suc_eq)
    qed
    show "?J found \<and> (\<exists>ok y. Some (True, (last ?xs + 1) mod cnt) = Some (ok, y) \<and> (ok \<longrightarrow> y = n))"
      if "\<forall>i < Suc (length ?xs - 1). fifo_is_full (fs ! (?xs ! i))" for found
    proof -
      define j where "j = (k0 + cnt - n) mod cnt"
      have "j < cnt" "(n + j) mod cnt = k0" using assms(1,3) by (simp_all add: j_def mod_simps)
      with that assms(1,4) show ?thesis by auto
    qed
  qed (rule ne, simp)
  then show ?thesis unfolding hd dispatch_search_def by auto
qed

lemma mset_concat_update:
  assumes "k < length xss"
  shows "mset (concat (xss[k := ys])) + mset (xss ! k) = mset (concat xss) + mset ys"
proof -
  have "mset (concat xss) = mset (concat (take k xss)) + mset (xss ! k) + mset (concat (drop (Suc k) xss))"
    by (subst id_take_nth_drop [OF assms]) simp
  then show ?thesis by (simp add: upd_conv_take_nth_drop [OF assms])
qed

lemma nonfull_update: "k < length fs \<Longrightarrow> nonfull fs \<le> nonfull (fs[k := q]) + 1"
proof -
  assume k: "k < length fs"
  have "nonfull fs = nonfull (take k fs) + nonfull [fs ! k] + nonfull (drop (Suc k) fs)"
    by (subst id_take_nth_drop [OF k]) (simp add: nonfull_def)
  then show ?thesis by (simp add: upd_conv_take_nth_drop [OF k] nonfull_def)
qed

lemma issue_push_ok:
  assumes "units_ok s" "0 < nonfull (is_unit_fifo s (o_op_unit p))"
  shows "\<exists>s1. issue_push p s = Some (is_inst_waiting s, s1) \<and> units_ok s1 \<and>
    (\<forall>u. sent_to s1 u = sent_to s u + (if u = o_op_unit p then {#p#} else {#})) \<and>
    (\<forall>u. nonfull (is_unit_fifo s u) \<le> nonfull (is_unit_fifo s1 u) + (if u = o_op_unit p then 1 else 0)) \<and>
    (\<exists>uf ui. s1 = s \<lparr> is_unit_fifo := uf, is_unit_index := ui \<rparr>)"
proof -
  let ?u = "o_op_unit p" and ?fs = "is_unit_fifo s (o_op_unit p)"
  have ok: "length ?fs = unit_cnt ?u" "\<forall>f \<in> set ?fs. fifo_inv f" "is_unit_index s ?u < unit_cnt ?u" using assms(1) by (auto simp: units_ok_def)
  have "filter (\<lambda>f. \<not> fifo_is_full f) ?fs \<noteq> []" using assms(2) by (auto simp: nonfull_def)
  then obtain f where "f \<in> set ?fs" "\<not> fifo_is_full f" by (auto simp: filter_empty_conv)
  then obtain k0 where "k0 < unit_cnt ?u" "\<not> fifo_is_full (?fs ! k0)" using ok(1) by (metis in_set_conv_nth)
  then obtain k where k: "k < unit_cnt ?u" "dispatch_search ?fs (unit_cnt ?u) (is_unit_index s ?u) = Some (Some k)" "\<not> fifo_is_full (?fs ! k)"
    using dispatch_search_found [OF ok(3,1)] by blast
  have inv: "fifo_inv (?fs ! k)" using ok(1,2) k(1) by simp
  let ?q = "snd (fifo_push p (?fs ! k))"
  let ?s1 = "s \<lparr> is_unit_fifo := (is_unit_fifo s)(?u := ?fs[k := ?q]), is_unit_index := (is_unit_index s)(?u := (k + 1) mod unit_cnt ?u) \<rparr>"
  obtain q where q: "fifo_push p (?fs ! k) = (True, q)" using push_ok [OF k(3), of p] by (metis prod.collapse)
  have run: "issue_push p s = Some (is_inst_waiting s, ?s1)" using k(2) q by (simp add: issue_push_def Let_def)
  have inv1: "\<forall>f \<in> set (?fs[k := ?q]). fifo_inv f" using ok(2) push_inv [OF inv, of p] set_update_subset_insert [of ?fs k ?q] by auto
  have "units_ok ?s1" using assms(1) inv1 k(1) by (auto simp: units_ok_def)
  moreover have "sent_to ?s1 u = sent_to s u + (if u = ?u then {#p#} else {#})" for u
  proof (cases "u = ?u")
    case True
    have "mset (concat ((map fifo_contents ?fs)[k := fifo_contents ?q])) + mset (map fifo_contents ?fs ! k) = mset (concat (map fifo_contents ?fs)) + mset (fifo_contents ?q)"
      using k(1) ok(1) by (intro mset_concat_update) simp
    moreover have "fifo_contents ?q = fifo_contents (?fs ! k) @ [p]" using inv k(3) by (rule push_contents)
    ultimately show ?thesis using True k(1) ok(1) by (simp add: sent_to_def map_update)
  qed (simp add: sent_to_def)
  moreover have "nonfull (is_unit_fifo s u) \<le> nonfull (is_unit_fifo ?s1 u) + (if u = ?u then 1 else 0)" for u
    using nonfull_update [of k ?fs ?q] k(1) ok(1) by simp
  ultimately show ?thesis using run by (intro exI [of _ ?s1]) auto
qed

text \<open>After the first \<open>k\<close> selected instructions.\<close>

definition dispatched :: "(nat \<Rightarrow> u32) \<Rightarrow> nat list \<Rightarrow> issue_state \<Rightarrow> nat \<Rightarrow> issue_state \<Rightarrow> bool" where
  "dispatched V sel s k s1 \<longleftrightarrow> (let q = is_issue_q s in
     (\<exists>ps. list_all2 (\<lambda>i p. sends V (buffer q ! i) p) (take k sel) ps \<and> (\<forall>u. sent_to s1 u = sent_to s u + mset (filter (\<lambda>p. o_op_unit p = u) ps))) \<and>
     units_ok s1 \<and> (\<forall>u. nonfull (is_unit_fifo s u) \<le> nonfull (is_unit_fifo s1 u) + length (for_unit q u (take k sel))) \<and>
     is_readreg_issue_port s1 = is_readreg_issue_port s \<and> is_phy_regfile s1 = is_phy_regfile s \<and> is_issue_q s1 = q \<and>
     is_busy s1 = is_busy s \<and> is_last_index s1 = is_last_index s)"

lemma dispatched_push:
  assumes "dispatched V sel s k s1" "k < length sel" "sends V (buffer (is_issue_q s) ! (sel ! k)) p"
    and "\<forall>u. length (for_unit (is_issue_q s) u sel) \<le> nonfull (is_unit_fifo s u)"
  shows "\<exists>s2. issue_push p s1 = Some (is_inst_waiting s1, s2) \<and> dispatched V sel s (Suc k) s2 \<and> is_inst_waiting s2 = is_inst_waiting s1 \<and>
    is_inst_waiting_rob_id s2 = is_inst_waiting_rob_id s1"
proof -
  let ?q = "is_issue_q s" and ?u = "o_op_unit p"
  note I = assms(1) [unfolded dispatched_def Let_def]
  have t: "take (Suc k) sel = take k sel @ [sel ! k]" using assms(2) by (rule take_Suc_conv_app_nth)
  have u: "o_op_unit (buffer ?q ! (sel ! k)) = ?u" using assms(3) by (simp add: sends_def)
  have f: "for_unit ?q u (take (Suc k) sel) = for_unit ?q u (take k sel) @ (if u = ?u then [sel ! k] else [])" for u
    using u by (auto simp: t for_unit_def)
  have "for_unit ?q u sel = for_unit ?q u (take (Suc k) sel) @ for_unit ?q u (drop (Suc k) sel)" for u
    by (simp add: for_unit_def flip: filter_append)
  then have "length (for_unit ?q ?u (take k sel)) < length (for_unit ?q ?u sel)" by (simp add: f)
  moreover have "length (for_unit ?q ?u sel) \<le> nonfull (is_unit_fifo s ?u)" using assms(4) by blast
  moreover have "nonfull (is_unit_fifo s ?u) \<le> nonfull (is_unit_fifo s1 ?u) + length (for_unit ?q ?u (take k sel))" using I by blast
  ultimately have room: "0 < nonfull (is_unit_fifo s1 ?u)" by simp
  have units: "units_ok s1" using I by blast
  obtain s2 where s2: "issue_push p s1 = Some (is_inst_waiting s1, s2)" "units_ok s2"
    "\<forall>u. sent_to s2 u = sent_to s1 u + (if u = ?u then {#p#} else {#})"
    "\<forall>u. nonfull (is_unit_fifo s1 u) \<le> nonfull (is_unit_fifo s2 u) + (if u = ?u then 1 else 0)"
    "\<exists>uf ui. s2 = s1 \<lparr> is_unit_fifo := uf, is_unit_index := ui \<rparr>"
    using issue_push_ok [OF units room] by blast
  obtain ps where ps: "list_all2 (\<lambda>i p. sends V (buffer ?q ! i) p) (take k sel) ps"
    "\<forall>u. sent_to s1 u = sent_to s u + mset (filter (\<lambda>p. o_op_unit p = u) ps)" using I by blast
  have "list_all2 (\<lambda>i p. sends V (buffer ?q ! i) p) (take (Suc k) sel) (ps @ [p])" using ps(1) assms(3) by (simp add: t list_all2_appendI)
  moreover have "\<forall>u. sent_to s2 u = sent_to s u + mset (filter (\<lambda>p. o_op_unit p = u) (ps @ [p]))" using ps(2) s2(3) by simp
  moreover have "nonfull (is_unit_fifo s u) \<le> nonfull (is_unit_fifo s2 u) + length (for_unit ?q u (take (Suc k) sel))" for u
  proof -
    have "nonfull (is_unit_fifo s u) \<le> nonfull (is_unit_fifo s1 u) + length (for_unit ?q u (take k sel))" using I by blast
    with s2(4) [rule_format, of u] show ?thesis by (cases "u = ?u") (simp_all add: f)
  qed
  ultimately have "dispatched V sel s (Suc k) s2" unfolding dispatched_def Let_def using s2(2,5) I by auto
  with s2(1,5) show ?thesis by auto
qed

lemma issue_dispatch_ok:
  fixes sc
  defines "sel \<equiv> sc_item_id_list sc"
  assumes "queue_ok V (is_issue_q s)" "cf_enable cf" "units_ok s" "\<not> is_inst_waiting s"
    and "scan_inv execute_pack cf s (fifo_fill (is_issue_q s)) sc" "no_alone s sc \<or> length sel = 1"
    and "length execute_pack = length wb_pack" "\<forall>c \<in> set execute_pack \<union> set wb_pack. channel_ok V c"
  shows "\<exists>s1. for_break (issue_dispatch_step execute_pack wb_pack cf sc) [0..<ISSUE_WIDTH] s = Some s1 \<and> dispatched V sel s (length sel) s1 \<and>
    (\<forall>i \<in> set sel. alone_op (buffer (is_issue_q s) ! i) \<longrightarrow> sel = [i] \<and> is_inst_waiting s1 \<and> is_inst_waiting_rob_id s1 = o_rob_id (buffer (is_issue_q s) ! i))"
proof -
  let ?q = "is_issue_q s"
  note S = assms(6) [unfolded scan_inv_def Let_def, folded sel_def]
  let ?J = "\<lambda>s1. dispatched V sel s (length sel) s1 \<and>
    (\<forall>i \<in> set sel. alone_op (buffer ?q ! i) \<longrightarrow> sel = [i] \<and> is_inst_waiting s1 \<and> is_inst_waiting_rob_id s1 = o_rob_id (buffer ?q ! i))"
  let ?I = "\<lambda>k s1. k \<le> length sel \<and> dispatched V sel s k s1 \<and> \<not> is_inst_waiting s1 \<and> (\<forall>i \<in> set (take k sel). \<not> alone_op (buffer ?q ! i))"
  have room: "\<forall>u. length (for_unit ?q u sel) \<le> nonfull (is_unit_fifo s u)" using S by (metis le_add2)
  have len: "length sel \<le> ISSUE_WIDTH" using S by blast
  show ?thesis
  proof (rule for_break_steps [where I = ?I])
    show "?I 0 s" using assms(4,5) by (simp add: dispatched_def for_unit_def)
    show "?J s1" if "?I (length [0..<ISSUE_WIDTH]) s1" for s1
    proof -
      have e: "length [0..<ISSUE_WIDTH] = length sel" using that len by simp
      show ?thesis using that unfolding e by simp
    qed
    show "\<exists>brk s2. issue_dispatch_step execute_pack wb_pack cf sc ([0..<ISSUE_WIDTH] ! k) s1 = Some (brk, s2) \<and> (if brk then ?J s2 else ?I (Suc k) s2)"
      if k: "k < length [0..<ISSUE_WIDTH]" and I: "?I k s1" for k s1
    proof (cases "k < length sel")
      case False
      with I have "k = length sel" by simp
      with I k show ?thesis by (intro exI [of _ True] exI [of _ s1]) (simp add: issue_dispatch_step_def flip: sel_def)
    next
      case True
      let ?it = "buffer ?q ! (sel ! k)"
      have n: "[0..<ISSUE_WIDTH] ! k = k" using k by simp
      have item: "sc_items sc ! k = ?it" using S True by blast
      have mem: "sel ! k \<in> set sel" using True by simp
      have "set sel \<subseteq> set (fifo_ids ?q)" using S picked_subset [of sel "fifo_ids ?q"] by simp
      with mem have "?it \<in> set (fifo_contents ?q)" by (auto simp: fifo_contents_def)
      then have it: "o_enable ?it" "item_ok V ?it" "lsu_ok ?it" using assms(2) by (auto simp: queue_ok_def)
      obtain p where p: "issue_pack execute_pack wb_pack ?it = Some (Some p)" "sends V ?it p"
        using issue_pack_ready [OF it(2,3) _ _ assms(8,9)] S mem by blast
      define s0 where "s0 = (if alone_op ?it then s1 \<lparr> is_inst_waiting := True, is_inst_waiting_rob_id := o_rob_id ?it \<rparr> else s1)"
      have d: "dispatched V sel s k s0" using I by (simp add: s0_def dispatched_def units_ok_def sent_to_def)
      obtain s2 where s2: "issue_push p s0 = Some (is_inst_waiting s0, s2)" "dispatched V sel s (Suc k) s2"
        "is_inst_waiting s2 = is_inst_waiting s0" "is_inst_waiting_rob_id s2 = is_inst_waiting_rob_id s0"
        using dispatched_push [OF d True p(2) room] by blast
      have step: "issue_dispatch_step execute_pack wb_pack cf sc k s1 = Some (is_inst_waiting s0, s2)"
        using True it(1) assms(3) p(1) s2(1) by (simp add: issue_dispatch_step_def item Let_def s0_def split: if_splits flip: sel_def)
      show ?thesis
      proof (cases "alone_op ?it")
        case a: True
        with assms(7) mem have "length sel = 1" by (auto simp: no_alone_def sel_def)
        with True have "k = 0" "sel = [sel ! 0]" by (auto simp: length_Suc_conv)
        then have "\<forall>i \<in> set sel. i = sel ! k \<and> sel = [i]" by (metis empty_iff empty_set set_ConsD)
        with a s2 step \<open>k = 0\<close> \<open>length sel = 1\<close> show ?thesis unfolding n by (intro exI [of _ True] exI [of _ s2]) (simp add: s0_def)
      next
        case a: False
        with I True have "\<forall>i \<in> set (take (Suc k) sel). \<not> alone_op (buffer ?q ! i)" by (auto simp: take_Suc_conv_app_nth)
        with a s2 step I True show ?thesis unfolding n by (intro exI [of _ False] exI [of _ s2]) (simp add: s0_def)
      qed
    qed
  qed
qed

subsection \<open>Waiting instructions\<close>

definition loads_more :: "issue_queue_item_t \<Rightarrow> issue_queue_item_t \<Rightarrow> bool" where
  "loads_more it it1 \<longleftrightarrow> (o_src1_loaded it \<longrightarrow> o_src1_loaded it1) \<and> (o_src2_loaded it \<longrightarrow> o_src2_loaded it1) \<and>
     (o_src1_loaded it1 = o_src1_loaded it \<and> o_src2_loaded it1 = o_src2_loaded it \<longrightarrow> it1 = it)"

lemma loads_more_trans: "loads_more it it1 \<Longrightarrow> loads_more it1 it2 \<Longrightarrow> loads_more it it2"
  by (auto simp: loads_more_def)

lemma loads_more_refl: "loads_more it it"
  by (simp add: loads_more_def)

lemma load_channel_more: "loads_more it (load_channel c it)"
proof -
  have 1: "loads_more it (if \<not> o_src1_loaded it \<and> P then it \<lparr> o_src1_loaded := True, o_src1_value := v \<rparr> else it)" for it P v
    by (cases "o_src1_loaded it") (simp_all add: loads_more_def)
  have 2: "loads_more it (if \<not> o_src2_loaded it \<and> P then it \<lparr> o_src2_loaded := True, o_src2_value := v \<rparr> else it)" for it P v
    by (cases "o_src2_loaded it") (simp_all add: loads_more_def)
  show ?thesis unfolding load_channel_def Let_def
    using loads_more_trans [OF 1 2] loads_more_refl by (cases "ch_enable c") (simp_all only: if_True if_False)
qed

lemma load_channels_same:
  assumes "o_src1_loaded (load_channels execute_pack wb_pack it) = o_src1_loaded it" "o_src2_loaded (load_channels execute_pack wb_pack it) = o_src2_loaded it"
  shows "load_channels execute_pack wb_pack it = it"
proof -
  have "loads_more it (load_channels execute_pack wb_pack it)"
    unfolding load_channels_def
  proof (rule fold_invariant [where Q = "\<lambda>_. True"])
    show "loads_more it ((case c of (e, w) \<Rightarrow> \<lambda>x. load_channel w (load_channel e x)) x)" if "loads_more it x" for c x
      using that load_channel_more loads_more_trans by (metis (no_types, lifting) case_prod_unfold)
  qed (simp_all add: loads_more_def)
  with assms show ?thesis by (simp add: loads_more_def)
qed

definition wake_request :: "execute_feedback_pack_t \<Rightarrow> wb_feedback_pack_t \<Rightarrow> nat list \<Rightarrow> issue_queue_item_t issue_queue \<Rightarrow> nat \<Rightarrow>
    issue_queue_item_t issue_queue_request list" where
  "wake_request execute_pack wb_pack sel q i = (let it = buffer q ! i; it1 = load_channels execute_pack wb_pack it in
     if i \<in> set sel \<or> it1 = it then [] else [Iq_set_item i it1])"

lemma issue_wake_ok:
  assumes "fifo_ring q"
  shows "issue_wake execute_pack wb_pack sel q =
    Some (q \<lparr> iq_sync_request_q := iq_sync_request_q q @ concat (map (wake_request execute_pack wb_pack sel q) (fifo_ids q)) \<rparr>)"
proof (cases "fifo_ids q = []")
  case True
  then show ?thesis using iq_slots.front_id_hd [OF assms] by (simp add: issue_wake_def)
next
  case False
  let ?req = "wake_request execute_pack wb_pack sel q" and ?xs = "fifo_ids q"
  let ?f = "\<lambda>i q1. (False, q1 \<lparr> iq_sync_request_q := iq_sync_request_q q1 @ ?req i \<rparr>)"
  let ?I = "\<lambda>q1. \<exists>rs. q1 = q \<lparr> iq_sync_request_q := rs \<rparr>"
  have front: "iq_get_front_id q = Some (hd ?xs)" using iq_slots.front_id_hd [OF assms] False by simp
  have "do_while (wake_body execute_pack wb_pack sel) (\<lambda>q1. iq_get_next_id q1) (\<lambda>i. i = hd ?xs) (hd ?xs) q = Some (fold_break ?f ?xs q)"
  proof (rule iq_slots.walk [where I = ?I and queue = "\<lambda>q1. q1", OF False])
    show "?I q" by (intro exI [of _ "iq_sync_request_q q"]) simp
    show "fifo_ring q1 \<and> fifo_ids q1 = ?xs" if "?I q1" for q1
      using that assms by (auto simp: fifo_ring_def fifo_ids_def fifo_fill_def)
    show "wake_body execute_pack wb_pack sel i q1 = Some (?f i q1) \<and> ?I (snd (?f i q1))" if "i \<in> set ?xs" "?I q1" for i q1
    proof -
      from that(2) obtain rs where q1: "q1 = q \<lparr> iq_sync_request_q := rs \<rparr>" by blast
      have "iq_get_item q1 i = Some (buffer q ! i)"
      proof -
        have "iq_check_id_valid q i" using that(1) iq_slots.valid_iff [OF assms] by blast
        moreover have "iq_check_id_valid q1 i = iq_check_id_valid q i" by (simp add: q1 iq_check_id_valid_def fifo_is_empty_def)
        ultimately show ?thesis by (simp add: q1 iq_get_item_def)
      qed
      then show ?thesis
        using load_channels_same [of execute_pack wb_pack "buffer q ! i"]
        by (auto simp: q1 wake_body_def wake_request_def Let_def iq_set_item_sync_def)
    qed
  qed
  moreover have "fold_break ?f xs q1 = q1 \<lparr> iq_sync_request_q := iq_sync_request_q q1 @ concat (map ?req xs) \<rparr>" for xs q1
    by (induction xs arbitrary: q1) simp_all
  ultimately show ?thesis using front by (simp add: issue_wake_def)
qed

text \<open>The requests at the end of the cycle put the awakened instructions into their slots.\<close>

lemma drain_wakes:
  assumes "fifo_ring q" "set ids \<subseteq> set (fifo_ids q)" "distinct ids" "\<forall>i \<in> set ids. buffer q ! i = buffer q0 ! i"
  shows "\<exists>b. drain iq_handle (concat (map (wake_request execute_pack wb_pack sel q0) ids)) q = Some (q \<lparr> buffer := b \<rparr>) \<and> length b = length (buffer q) \<and>
    (\<forall>i. b ! i = (if i \<in> set ids \<and> i \<notin> set sel then load_channels execute_pack wb_pack (buffer q ! i) else buffer q ! i))"
  using assms
proof (induction ids arbitrary: q)
  case Nil
  then show ?case by (intro exI [of _ "buffer q"]) simp
next
  case (Cons i ids)
  define b1 where "b1 = (if i \<in> set sel then buffer q else (buffer q)[i := load_channels execute_pack wb_pack (buffer q ! i)])"
  have live: "iq_check_id_valid q i" using Cons.prems(1,2) by (simp add: iq_slots.valid_iff)
  have i: "i < length (buffer q)" using ids_less [OF Cons.prems(1), of i] Cons.prems(1,2) fifo_ring_size [of q] by simp
  have req: "drain iq_handle (wake_request execute_pack wb_pack sel q0 i) q = Some (q \<lparr> buffer := b1 \<rparr>)"
  proof -
    have "buffer q0 ! i = buffer q ! i" using Cons.prems(4) by simp
    then show ?thesis using live by (auto simp: wake_request_def Let_def iq_set_item_def b1_def)
  qed
  have ring: "fifo_ring (q \<lparr> buffer := b1 \<rparr>)" and ids: "fifo_ids (q \<lparr> buffer := b1 \<rparr>) = fifo_ids q"
    using Cons.prems(1) by (simp_all add: b1_def)
  have b1: "b1 ! j = (if j = i \<and> i \<notin> set sel then load_channels execute_pack wb_pack (buffer q ! i) else buffer q ! j)" for j
    using i by (simp add: b1_def nth_list_update)
  obtain b where b: "drain iq_handle (concat (map (wake_request execute_pack wb_pack sel q0) ids)) (q \<lparr> buffer := b1 \<rparr>) = Some (q \<lparr> buffer := b \<rparr>)"
    "length b = length b1" "\<forall>j. b ! j = (if j \<in> set ids \<and> j \<notin> set sel then load_channels execute_pack wb_pack (b1 ! j) else b1 ! j)"
  proof -
    have "\<forall>j \<in> set ids. buffer (q \<lparr> buffer := b1 \<rparr>) ! j = buffer q0 ! j" using Cons.prems(3,4) by (auto simp: b1)
    then show thesis using Cons.IH [OF ring] Cons.prems(2,3) that unfolding ids by auto
  qed
  have "length b1 = length (buffer q)" by (simp add: b1_def)
  moreover have "b ! j = (if j \<in> set (i # ids) \<and> j \<notin> set sel then load_channels execute_pack wb_pack (buffer q ! j) else buffer q ! j)" for j
    using b(3) Cons.prems(3) by (auto simp: b1)
  ultimately show ?case using b(1,2) req by (intro exI [of _ b]) (simp add: drain_append)
qed

text \<open>An instruction that waits picks up every forwarded result it needs: nothing but operands changes, a loaded operand keeps
  its value, and an operand that is still missing is not among the results.\<close>

definition awakened :: "execute_feedback_pack_t \<Rightarrow> wb_feedback_pack_t \<Rightarrow> issue_queue_item_t \<Rightarrow> issue_queue_item_t \<Rightarrow> bool" where
  "awakened execute_pack wb_pack it it1 \<longleftrightarrow> op_of it1 = op_of it \<and>
     (o_src1_loaded it \<longrightarrow> o_src1_loaded it1 \<and> o_src1_value it1 = o_src1_value it) \<and>
     (o_src2_loaded it \<longrightarrow> o_src2_loaded it1 \<and> o_src2_value it1 = o_src2_value it) \<and>
     (\<forall>c \<in> set execute_pack \<union> set wb_pack. ch_enable c \<longrightarrow>
        (\<not> o_src1_loaded it1 \<longrightarrow> ch_phy_id c \<noteq> o_rs1_phy it1) \<and> (\<not> o_src2_loaded it1 \<longrightarrow> ch_phy_id c \<noteq> o_rs2_phy it1))"

definition keeps_loaded :: "issue_queue_item_t \<Rightarrow> issue_queue_item_t \<Rightarrow> bool" where
  "keeps_loaded it it1 \<longleftrightarrow> op_of it1 = op_of it \<and>
     (o_src1_loaded it \<longrightarrow> o_src1_loaded it1 \<and> o_src1_value it1 = o_src1_value it) \<and>
     (o_src2_loaded it \<longrightarrow> o_src2_loaded it1 \<and> o_src2_value it1 = o_src2_value it)"

lemma keeps_loaded_trans: "keeps_loaded it it1 \<Longrightarrow> keeps_loaded it1 it2 \<Longrightarrow> keeps_loaded it it2"
  by (auto simp: keeps_loaded_def)

lemma load_channel_keeps: "keeps_loaded it (load_channel c it)"
  by (simp add: keeps_loaded_def) (simp add: load_channel_def Let_def)

lemma load_fold_keeps: "keeps_loaded it (fold (\<lambda>(e, w) it. load_channel w (load_channel e it)) cs it)"
proof (rule fold_invariant [where Q = "\<lambda>_. True"])
  show "keeps_loaded it ((case c of (e, w) \<Rightarrow> \<lambda>x. load_channel w (load_channel e x)) x)" if "keeps_loaded it x" for c x
    using that load_channel_keeps keeps_loaded_trans by (metis (no_types, lifting) case_prod_unfold)
qed (simp_all add: keeps_loaded_def)

lemma load_channel_complete:
  assumes "ch_enable c"
  shows "o_rs1_need_map it \<Longrightarrow> o_rs1_phy it = ch_phy_id c \<Longrightarrow> o_src1_loaded (load_channel c it)"
    "o_rs2_need_map it \<Longrightarrow> o_rs2_phy it = ch_phy_id c \<Longrightarrow> o_src2_loaded (load_channel c it)"
  using assms by (simp_all add: load_channel_def Let_def)

lemma load_fold_complete:
  assumes "(e, w) \<in> set cs" "c = e \<or> c = w" "ch_enable c"
  shows "(o_rs1_need_map it \<and> o_rs1_phy it = ch_phy_id c \<longrightarrow> o_src1_loaded (fold (\<lambda>(e, w) it. load_channel w (load_channel e it)) cs it)) \<and>
    (o_rs2_need_map it \<and> o_rs2_phy it = ch_phy_id c \<longrightarrow> o_src2_loaded (fold (\<lambda>(e, w) it. load_channel w (load_channel e it)) cs it))"
  using assms(1)
proof (induction cs arbitrary: it)
  case (Cons d cs)
  obtain e1 w1 where d: "d = (e1, w1)" by (cases d)
  let ?it1 = "load_channel w1 (load_channel e1 it)"
  note f = op_of_fields [OF op_of_load_channel]
  show ?case
  proof (cases "(e, w) \<in> set cs")
    case True
    from Cons.IH [OF this, of ?it1] show ?thesis by (simp add: d f)
  next
    case False
    with Cons.prems d have "e1 = e" "w1 = w" by auto
    then have "(o_rs1_need_map it \<and> o_rs1_phy it = ch_phy_id c \<longrightarrow> o_src1_loaded ?it1) \<and> (o_rs2_need_map it \<and> o_rs2_phy it = ch_phy_id c \<longrightarrow> o_src2_loaded ?it1)"
      using assms(2,3) load_channel_complete [OF assms(3)] load_channel_keeps [of "load_channel e1 it" w1] by (auto simp: f keeps_loaded_def)
    then show ?thesis using load_fold_keeps [of ?it1 cs] by (simp add: d keeps_loaded_def)
  qed
qed simp

lemma load_channels_awaken:
  assumes "item_ok V it" "length execute_pack = length wb_pack"
  shows "awakened execute_pack wb_pack it (load_channels execute_pack wb_pack it)"
proof -
  let ?it1 = "load_channels execute_pack wb_pack it"
  have k: "keeps_loaded it ?it1" unfolding load_channels_def by (rule load_fold_keeps)
  then have op: "op_of ?it1 = op_of it" by (simp add: keeps_loaded_def)
  have "(\<not> o_src1_loaded ?it1 \<longrightarrow> ch_phy_id c \<noteq> o_rs1_phy ?it1) \<and> (\<not> o_src2_loaded ?it1 \<longrightarrow> ch_phy_id c \<noteq> o_rs2_phy ?it1)"
    if c: "c \<in> set execute_pack \<union> set wb_pack" "ch_enable c" for c
  proof -
    from c(1) assms(2) obtain i where "i < length execute_pack" "c = execute_pack ! i \<or> c = wb_pack ! i" by (auto simp: in_set_conv_nth)
    then obtain e w where ew: "(e, w) \<in> set (zip execute_pack wb_pack)" "c = e \<or> c = w" using assms(2) by (force simp: in_set_zip)
    have "(o_src1_loaded ?it1 \<or> o_rs1_need_map it) \<and> (o_src2_loaded ?it1 \<or> o_rs2_need_map it)" using assms(1) k by (auto simp: item_ok_def keeps_loaded_def)
    with load_fold_complete [OF ew c(2), of it] show ?thesis by (auto simp: op_of_fields [OF op] simp flip: load_channels_def)
  qed
  with k show ?thesis by (simp add: awakened_def keeps_loaded_def)
qed

subsection \<open>Input\<close>

definition input_ok :: "(nat \<Rightarrow> u32) \<Rightarrow> phy_regfile_item_t regfile \<Rightarrow> readreg_issue_op_info_t \<Rightarrow> bool" where
  "input_ok V rf x \<longleftrightarrow> item_ok V x \<and> lsu_ok x \<and> (o_valid x \<longrightarrow> o_rs1_phy x < regfile_size rf \<and> o_rs2_phy x < regfile_size rf)"

lemma load_regfile_keeps:
  assumes "load_regfile rf it = Some it1"
  shows "keeps_loaded it it1"
proof -
  have 1: "keeps_loaded x x1"
    if "(if \<not> o_src1_loaded x \<and> o_rs1_need_map x then do {
          v \<leftarrow> read_data_valid rf (o_rs1_phy x); y \<leftarrow> regfile_read rf (o_rs1_phy x);
          Some (if v then x \<lparr> o_src1_loaded := True, o_src1_value := phy_value y \<rparr> else x) } else Some x) = Some x1" for x x1
    using that by (auto simp: keeps_loaded_def split: if_splits bind_splits)
  have 2: "keeps_loaded x x1"
    if "(if \<not> o_src2_loaded x \<and> o_rs2_need_map x then do {
          v \<leftarrow> read_data_valid rf (o_rs2_phy x); y \<leftarrow> regfile_read rf (o_rs2_phy x);
          Some (if v then x \<lparr> o_src2_loaded := True, o_src2_value := phy_value y \<rparr> else x) } else Some x) = Some x1" for x x1
    using that by (auto simp: keeps_loaded_def split: if_splits bind_splits)
  from assms [unfolded load_regfile_def] show ?thesis
    by (rule bind_eq_Some_conv [THEN iffD1, elim_format]) (blast intro: keeps_loaded_trans [OF 1 2])
qed

lemma issue_item_input:
  assumes "input_ok V rf x" "regfile_ok V rf" "length execute_pack = length wb_pack" "\<forall>c \<in> set execute_pack \<union> set wb_pack. channel_ok V c"
  shows "\<exists>it. issue_item execute_pack wb_pack rf x = Some it \<and> item_ok V it \<and> awakened execute_pack wb_pack x it"
proof (cases "o_valid x")
  case True
  obtain y where y: "load_regfile rf x = Some y" "item_ok V y" "op_of y = op_of x"
    using assms(1,2) True load_regfile_ok [of V x rf] by (auto simp: input_ok_def)
  have "awakened execute_pack wb_pack x (load_channels execute_pack wb_pack y)"
    using load_channels_awaken [OF y(2) assms(3)] load_regfile_keeps [OF y(1)] by (auto simp: awakened_def keeps_loaded_def)
  with True y load_channels_ok [OF y(2) assms(4)] show ?thesis by (simp add: issue_item_def)
next
  case False
  with assms(1) show ?thesis by (auto simp: issue_item_def input_ok_def item_ok_def awakened_def)
qed

text \<open>The queue grown by new instructions at its end.\<close>

definition grown :: "issue_queue_item_t issue_queue \<Rightarrow> issue_queue_item_t list \<Rightarrow> issue_queue_item_t issue_queue \<Rightarrow> bool" where
  "grown q new q1 \<longleftrightarrow> fifo_inv q1 \<and> \<not> pop_status_save q1 \<and> qsize q1 = qsize q \<and> iq_sync_request_q q1 = iq_sync_request_q q \<and>
     fifo_contents q1 = fifo_contents q @ new \<and> (\<exists>ids. fifo_ids q1 = fifo_ids q @ ids)"

lemma grown_push:
  assumes "fifo_inv q" "\<not> pop_status_save q" "\<not> fifo_is_full q"
  shows "grown q [x] (snd (fifo_push x q))"
  using assms push_inv [OF assms(1), of x] push_contents [OF assms(1,3), of x] push_ids [OF assms(1,3), of x]
  by (simp add: grown_def push_fields) (simp add: fifo_push_def Let_def)

lemma grown_trans: "grown q xs q1 \<Longrightarrow> grown q1 ys q2 \<Longrightarrow> grown q (xs @ ys) q2"
  by (auto simp: grown_def)

definition input_frame :: "issue_state \<Rightarrow> issue_state \<Rightarrow> bool" where
  "input_frame s s1 \<longleftrightarrow> (\<exists>q l p. s1 = s \<lparr> is_issue_q := q, is_last_index := l, is_perf := p \<rparr>)"

lemma input_frame_simps [simp]:
  "input_frame s s" "input_frame s (s \<lparr> is_last_index := l, is_perf := p \<rparr>)"
  "input_frame (s \<lparr> is_issue_q := q \<rparr>) s1 = input_frame s s1" "input_frame (s \<lparr> is_last_index := l \<rparr>) s1 = input_frame s s1"
proof -
  show "input_frame s s" unfolding input_frame_def
    by (intro exI [of _ "is_issue_q s"] exI [of _ "is_last_index s"] exI [of _ "is_perf s"]) simp
  show "input_frame s (s \<lparr> is_last_index := l, is_perf := p \<rparr>)" unfolding input_frame_def
    by (intro exI [of _ "is_issue_q s"] exI [of _ l] exI [of _ p]) simp
qed (simp_all add: input_frame_def)

lemma issue_input_loop:
  fixes i rev_pack s
  defines "ins \<equiv> filter o_enable (drop i rev_pack)"
  assumes "i \<le> length rev_pack" "fifo_inv (is_issue_q s)" "\<not> pop_status_save (is_issue_q s)"
    and "\<forall>x \<in> set (drop i rev_pack). o_enable x \<longrightarrow> (\<exists>it. issue_item execute_pack wb_pack (is_phy_regfile s) x = Some it \<and> P x it)"
  shows "\<exists>finish s1 n new. for_break (issue_input_step execute_pack wb_pack rev_pack) [i..<length rev_pack] (True, s) = Some (finish, s1) \<and>
    n = min (length ins) (qsize (is_issue_q s) - fifo_fill (is_issue_q s)) \<and> (finish \<longleftrightarrow> n = length ins) \<and>
    list_all2 P (take n ins) new \<and> grown (is_issue_q s) new (is_issue_q s1) \<and>
    (\<not> finish \<longrightarrow> filter o_enable (drop (is_last_index s1) rev_pack) = drop n ins) \<and>
    input_frame s s1"
  unfolding ins_def using assms(2-5)
proof (induction "length rev_pack - i" arbitrary: i s)
  case 0
  then have "drop i rev_pack = []" "[i..<length rev_pack] = []" by simp_all
  with 0 show ?case
    by (intro exI [of _ True] exI [of _ s] exI [of _ 0] exI [of _ "[]"]) (simp add: grown_def)
next
  case (Suc d)
  let ?x = "rev_pack ! i" and ?q = "is_issue_q s" and ?ins = "filter o_enable (drop (Suc i) rev_pack)"
  let ?body = "issue_input_step execute_pack wb_pack rev_pack"
  have i: "i < length rev_pack" using Suc.hyps(2) by simp
  then have upt: "[i..<length rev_pack] = i # [Suc i..<length rev_pack]" and dr: "drop i rev_pack = ?x # drop (Suc i) rev_pack"
    by (simp_all add: upt_conv_Cons Cons_nth_drop_Suc)
  have d: "d = length rev_pack - Suc i" "Suc i \<le> length rev_pack" using Suc.hyps(2) i by simp_all
  have rest: "\<forall>x \<in> set (drop (Suc i) rev_pack). o_enable x \<longrightarrow> (\<exists>it. issue_item execute_pack wb_pack (is_phy_regfile s) x = Some it \<and> P x it)"
    using Suc.prems(4) by (simp add: dr)
  consider (skip) "\<not> o_enable ?x" | (full) "o_enable ?x" "fifo_is_full ?q" | (push) "o_enable ?x" "\<not> fifo_is_full ?q" by blast
  then show ?case
  proof cases
    case skip
    have "?body i (True, s) = Some (False, True, s \<lparr> is_last_index := i \<rparr>)" using skip by (simp add: issue_input_step_def)
    moreover have "\<exists>finish s1 n new. for_break ?body [Suc i..<length rev_pack] (True, s \<lparr> is_last_index := i \<rparr>) = Some (finish, s1) \<and>
        n = min (length ?ins) (qsize ?q - fifo_fill ?q) \<and> (finish \<longleftrightarrow> n = length ?ins) \<and> list_all2 P (take n ?ins) new \<and> grown ?q new (is_issue_q s1) \<and>
        (\<not> finish \<longrightarrow> filter o_enable (drop (is_last_index s1) rev_pack) = drop n ?ins) \<and>
        input_frame s s1"
      using Suc.hyps(1) [OF d, of "s \<lparr> is_last_index := i \<rparr>"] Suc.prems(2,3) rest by simp
    ultimately show ?thesis using skip by (simp add: upt dr)
  next
    case full
    have "qsize ?q - fifo_fill ?q = 0" using full(2) is_full_occupied [OF Suc.prems(2)] Suc.prems(3) by (simp add: fifo_popped_def)
    moreover have "?body i (True, s) = Some (True, False, s \<lparr> is_last_index := i, is_perf := issue_queue_full_add (is_perf s) \<rparr>)"
      using full by (simp add: issue_input_step_def)
    ultimately show ?thesis using full Suc.prems(2,3)
      by (intro exI [of _ False] exI [of _ "s \<lparr> is_last_index := i, is_perf := issue_queue_full_add (is_perf s) \<rparr>"] exI [of _ 0] exI [of _ "[]"])
        (simp add: upt dr grown_def)
  next
    case push
    obtain it where it: "issue_item execute_pack wb_pack (is_phy_regfile s) ?x = Some it" "P ?x it" using Suc.prems(4) push(1) by (auto simp: dr)
    let ?q1 = "snd (fifo_push it ?q)"
    let ?s0 = "s \<lparr> is_issue_q := ?q1, is_last_index := i \<rparr>"
    have g: "grown ?q [it] ?q1" using Suc.prems(2,3) push(2) by (rule grown_push)
    have room: "fifo_fill ?q < qsize ?q" "fifo_fill ?q1 = Suc (fifo_fill ?q)"
      using not_full_fill [OF Suc.prems(2) push(2)] push_fill [OF Suc.prems(2) push(2)] by simp_all
    have body: "?body i (True, s) = Some (False, True, ?s0)" using push it(1) by (simp add: issue_input_step_def)
    have "fifo_inv ?q1" "\<not> pop_status_save ?q1" using g by (simp_all add: grown_def)
    then have "\<exists>finish s1 n new. for_break ?body [Suc i..<length rev_pack] (True, ?s0) = Some (finish, s1) \<and>
        n = min (length ?ins) (qsize ?q1 - fifo_fill ?q1) \<and> (finish \<longleftrightarrow> n = length ?ins) \<and> list_all2 P (take n ?ins) new \<and> grown ?q1 new (is_issue_q s1) \<and>
        (\<not> finish \<longrightarrow> filter o_enable (drop (is_last_index s1) rev_pack) = drop n ?ins) \<and>
        input_frame s s1"
      using Suc.hyps(1) [OF d, of ?s0] rest by simp
    then obtain finish s1 n new where r: "for_break ?body [Suc i..<length rev_pack] (True, ?s0) = Some (finish, s1)"
        "n = min (length ?ins) (qsize ?q1 - fifo_fill ?q1)" "finish \<longleftrightarrow> n = length ?ins" "list_all2 P (take n ?ins) new" "grown ?q1 new (is_issue_q s1)"
        "\<not> finish \<longrightarrow> filter o_enable (drop (is_last_index s1) rev_pack) = drop n ?ins"
        "input_frame s s1"
      by blast
    have "min (length (?x # ?ins)) (qsize ?q - fifo_fill ?q) = Suc n" using r(2) room g by (auto simp: grown_def)
    moreover have "grown ?q (it # new) (is_issue_q s1)" using grown_trans [OF g r(5)] by simp
    ultimately show ?thesis using r(1,3,4,6,7) it(2) body push(1)
      by (intro exI [of _ finish] exI [of _ s1] exI [of _ "Suc n"] exI [of _ "it # new"]) (simp add: upt dr)
  qed
qed

subsection \<open>The end of the cycle\<close>

lemma grown_slots:
  assumes "grown q new q1"
  shows "\<exists>ids. fifo_ids q1 = fifo_ids q @ ids \<and> map (\<lambda>i. buffer q1 ! i) ids = new \<and> (\<forall>i \<in> set (fifo_ids q). buffer q1 ! i = buffer q ! i)"
proof -
  obtain ids where ids: "fifo_ids q1 = fifo_ids q @ ids" using assms by (auto simp: grown_def)
  have "map (\<lambda>i. buffer q1 ! i) (fifo_ids q) @ map (\<lambda>i. buffer q1 ! i) ids = map (\<lambda>i. buffer q ! i) (fifo_ids q) @ new"
    using assms by (simp add: grown_def fifo_contents_def ids)
  then have "map (\<lambda>i. buffer q1 ! i) (fifo_ids q) = map (\<lambda>i. buffer q ! i) (fifo_ids q)" "map (\<lambda>i. buffer q1 ! i) ids = new" by simp_all
  with ids show ?thesis by auto
qed

lemma issue_sync_ok:
  assumes "fifo_ring q" "picked sel (fifo_ids q)"
    and "grown (q \<lparr> iq_sync_request_q := concat (map (wake_request execute_pack wb_pack sel q) (fifo_ids q)) \<rparr>) new q1"
  shows "\<exists>q2. iq_sync (iq_compress_sync sel q1) = Some q2 \<and> fifo_ring q2 \<and> \<not> pop_status_save q2 \<and> iq_sync_request_q q2 = [] \<and> qsize q2 = qsize q \<and>
    fifo_contents q2 = map (load_channels execute_pack wb_pack) (map (\<lambda>i. buffer q ! i) (filter (\<lambda>i. i \<notin> set sel) (fifo_ids q))) @ new"
proof -
  let ?rs = "concat (map (wake_request execute_pack wb_pack sel q) (fifo_ids q))" and ?q0 = "q1 \<lparr> iq_sync_request_q := [] \<rparr>"
  let ?L = "load_channels execute_pack wb_pack"
  have q1: "fifo_inv q1" "\<not> pop_status_save q1" "qsize q1 = qsize q" "iq_sync_request_q q1 = ?rs" using assms(3) by (simp_all add: grown_def)
  obtain ids where ids: "fifo_ids q1 = fifo_ids q @ ids" "map (\<lambda>i. buffer q1 ! i) ids = new" "\<forall>i \<in> set (fifo_ids q). buffer q1 ! i = buffer q ! i"
    using grown_slots [OF assms(3)] by (auto simp: fifo_ids_def fifo_fill_def)
  have ring: "fifo_ring ?q0" and ids0: "fifo_ids ?q0 = fifo_ids q @ ids" using fifo_inv_ring [OF q1(1)] ids(1)
    by (simp_all add: fifo_ring_def fifo_ids_def fifo_fill_def)
  have dist: "distinct (fifo_ids q @ ids)" using ids_distinct [OF fifo_inv_ring [OF q1(1)]] by (simp add: ids(1))
  obtain b where b: "drain iq_handle ?rs ?q0 = Some (?q0 \<lparr> buffer := b \<rparr>)" "length b = length (buffer q1)"
    "\<forall>i. b ! i = (if i \<in> set (fifo_ids q) \<and> i \<notin> set sel then ?L (buffer q1 ! i) else buffer q1 ! i)"
    using drain_wakes [OF ring, of "fifo_ids q" q execute_pack wb_pack sel] dist ids0 ids(3) by auto
  let ?q2 = "?q0 \<lparr> buffer := b \<rparr>"
  have ring2: "fifo_ring ?q2" and ids2: "fifo_ids ?q2 = fifo_ids q @ ids" using ring ids0 b(2) by (simp_all add: fifo_ring_def fifo_ids_def fifo_fill_def)
  have sel: "set sel \<subseteq> set (fifo_ids q)" using assms(2) by (rule picked_subset)
  then have new: "filter (\<lambda>i. i \<in> set sel) ids = []" "filter (\<lambda>i. i \<notin> set sel) ids = ids" using dist by (auto simp: filter_empty_conv filter_id_conv)
  then have f: "filter (\<lambda>i. i \<in> set sel) (fifo_ids q @ ids) = sel" using assms(2) by (simp add: picked_def)
  note compress = iq_compress_keeps_order [OF ring2, of "\<lambda>i. i \<in> set sel", unfolded ids2 f]
  obtain q3 where q3: "iq_compress sel ?q2 = Some q3" "fifo_ring q3" "qsize q3 = qsize q1" "iq_sync_request_q q3 = []" "pop_status_save q3 = pop_status_save q1"
    "fifo_contents q3 = map (\<lambda>i. b ! i) (filter (\<lambda>i. i \<notin> set sel) (fifo_ids q @ ids))"
    using compress by auto
  have "map (\<lambda>i. b ! i) ids = new" using ids(2) b(3) dist by auto
  then have "fifo_contents q3 = map ?L (map (\<lambda>i. buffer q ! i) (filter (\<lambda>i. i \<notin> set sel) (fifo_ids q))) @ new"
    using b(3) ids(3) new(2) by (simp add: q3(6))
  moreover have "iq_sync (iq_compress_sync sel q1) = Some q3"
    using b(1) q3(1) q1(4) by (simp add: iq_sync_def iq_compress_sync_def drain_append)
  ultimately show ?thesis using q3 q1(2,3) by simp
qed

text \<open>The received instructions that have not been taken in yet.\<close>

definition issue_inputs :: "issue_state \<Rightarrow> readreg_issue_op_info_t list" where
  "issue_inputs s = filter o_enable (drop (if is_busy s then is_last_index s else 0) (port_get (is_readreg_issue_port s)))"

lemma issue_input_ok:
  assumes "length (port_get (is_readreg_issue_port s)) = READREG_WIDTH" "is_busy s \<longrightarrow> is_last_index s < READREG_WIDTH"
    and "fifo_inv (is_issue_q s)" "\<not> pop_status_save (is_issue_q s)"
    and "\<forall>x \<in> set (issue_inputs s). \<exists>it. issue_item execute_pack wb_pack (is_phy_regfile s) x = Some it \<and> P x it"
    and "n = min (length (issue_inputs s)) (qsize (is_issue_q s) - fifo_fill (is_issue_q s))"
  shows "\<exists>s1 new. issue_input execute_pack wb_pack s = Some s1 \<and> list_all2 P (take n (issue_inputs s)) new \<and> grown (is_issue_q s) new (is_issue_q s1) \<and>
    (is_busy s1 \<longleftrightarrow> n < length (issue_inputs s)) \<and> (is_busy s1 \<longrightarrow> issue_inputs s1 = drop n (issue_inputs s)) \<and>
    (\<exists>q l p b. s1 = s \<lparr> is_issue_q := q, is_last_index := l, is_perf := p, is_busy := b \<rparr>)"
proof -
  let ?rev = "port_get (is_readreg_issue_port s)"
  let ?i = "if is_busy s then is_last_index s else 0"
  let ?s0 = "s \<lparr> is_busy := True, is_last_index := ?i \<rparr>"
  have s0: "(if \<not> is_busy s then s \<lparr> is_busy := True, is_last_index := 0 \<rparr> else s) = ?s0" by simp
  have i: "?i \<le> length ?rev" using assms(1,2) by auto
  have items: "\<forall>x \<in> set (drop ?i ?rev). o_enable x \<longrightarrow> (\<exists>it. issue_item execute_pack wb_pack (is_phy_regfile ?s0) x = Some it \<and> P x it)"
    using assms(5) by (simp add: issue_inputs_def)
  have q0: "fifo_inv (is_issue_q ?s0)" "\<not> pop_status_save (is_issue_q ?s0)" using assms(3,4) by simp_all
  have n: "n = min (length (issue_inputs s)) (qsize (is_issue_q ?s0) - fifo_fill (is_issue_q ?s0))" using assms(6) by simp
  have q: "is_issue_q ?s0 = is_issue_q s" by simp
  from issue_input_loop [OF i q0 items, folded issue_inputs_def n, unfolded q]
  obtain finish s1 new where l: "for_break (issue_input_step execute_pack wb_pack ?rev) [?i..<length ?rev] (True, ?s0) = Some (finish, s1)"
    "finish \<longleftrightarrow> n = length (issue_inputs s)" "list_all2 P (take n (issue_inputs s)) new" "grown (is_issue_q s) new (is_issue_q s1)"
    "\<not> finish \<longrightarrow> filter o_enable (drop (is_last_index s1) ?rev) = drop n (issue_inputs s)"
    "input_frame ?s0 s1"
    using assms(6) by blast
  obtain q l p where s1: "s1 = ?s0 \<lparr> is_issue_q := q, is_last_index := l, is_perf := p \<rparr>" using l(6) unfolding input_frame_def by blast
  let ?s2 = "if finish then s1 \<lparr> is_busy := False, is_last_index := 0 \<rparr> else s1"
  have run: "issue_input execute_pack wb_pack s = Some ?s2"
    using l(1) unfolding issue_input_def s0 Let_def by (simp add: assms(1))
  have "n \<le> length (issue_inputs s)" using assms(6) by simp
  then have "is_busy ?s2 \<longleftrightarrow> n < length (issue_inputs s)" using l(2) by (auto simp: s1)
  moreover have "is_busy ?s2 \<longrightarrow> issue_inputs ?s2 = drop n (issue_inputs s)" using l(2,5) by (simp add: s1 issue_inputs_def)
  moreover have "\<exists>q l p b. ?s2 = s \<lparr> is_issue_q := q, is_last_index := l, is_perf := p, is_busy := b \<rparr>"
    by (intro exI [of _ q] exI [of _ "if finish then 0 else l"] exI [of _ p] exI [of _ "\<not> finish"]) (simp add: s1)
  ultimately show ?thesis using run l(3,4) by (intro exI [of _ ?s2] exI [of _ new]) simp
qed

lemma shuffles_map: "zs \<in> shuffles xs ys \<Longrightarrow> map f zs \<in> shuffles (map f xs) (map f ys)"
  by (induction xs ys arbitrary: zs rule: shuffles.induct) auto

lemma lsu_ok_op_of: "op_of it1 = op_of it \<Longrightarrow> lsu_ok it1 = lsu_ok it"
  using op_of_fields [of it1 it] by (simp add: lsu_ok_def)

lemma kept_items_ok:
  assumes "o_enable it \<and> item_ok V it \<and> lsu_ok it" "\<forall>c \<in> set execute_pack \<union> set wb_pack. channel_ok V c"
  shows "o_enable (load_channels execute_pack wb_pack it) \<and> item_ok V (load_channels execute_pack wb_pack it) \<and> lsu_ok (load_channels execute_pack wb_pack it)"
  using assms(1) load_channels_ok [OF _ assms(2), of it] op_of_fields(1) [of "load_channels execute_pack wb_pack it" it]
    lsu_ok_op_of [of "load_channels execute_pack wb_pack it" it] by simp

lemma new_items_ok:
  assumes "list_all2 (\<lambda>x it. item_ok V it \<and> awakened execute_pack wb_pack x it) (take n (issue_inputs s)) new"
    and "\<forall>x \<in> set (issue_inputs s). input_ok V (is_phy_regfile s) x"
  shows "\<forall>it \<in> set new. o_enable it \<and> item_ok V it \<and> lsu_ok it"
proof
  fix it
  assume "it \<in> set new"
  then obtain i where i: "i < length new" "it = new ! i" by (auto simp: in_set_conv_nth)
  let ?x = "take n (issue_inputs s) ! i"
  have len: "i < length (take n (issue_inputs s))" using list_all2_lengthD [OF assms(1)] i(1) by simp
  then have x: "?x \<in> set (issue_inputs s)" "item_ok V it" "op_of it = op_of ?x"
    using in_set_takeD [OF nth_mem [OF len]] list_all2_nthD2 [OF assms(1) i(1)] by (simp_all add: i(2) awakened_def)
  then have "o_enable ?x" "lsu_ok ?x" using assms(2) by (auto simp: issue_inputs_def input_ok_def)
  with x(2) op_of_fields(1) [OF x(3)] lsu_ok_op_of [OF x(3)] show "o_enable it \<and> item_ok V it \<and> lsu_ok it" by simp
qed

lemma issue_output_ok:
  fixes s
  defines "q \<equiv> is_issue_q s"
  assumes "queue_ok V q" "units_ok s" "cf_enable cf \<or> fifo_contents q = []"
    and "length execute_pack = length wb_pack" "\<forall>c \<in> set execute_pack \<union> set wb_pack. channel_ok V c"
  shows "\<exists>sel s1. issue_output execute_pack wb_pack cf s = Some (sel, s1) \<and> picked sel (fifo_ids q) \<and> length sel \<le> ISSUE_WIDTH \<and>
    dispatched V sel s (length sel) s1 \<and> (is_inst_waiting s \<and> \<not> inst_waiting_ok cf (is_inst_waiting_rob_id s) \<longrightarrow> sel = []) \<and>
    (\<forall>i \<in> set sel. alone_op (buffer q ! i) \<longrightarrow> sel = [i] \<and> cf_next_handle_rob_id cf = o_rob_id (buffer q ! i) \<and>
       is_inst_waiting s1 \<and> is_inst_waiting_rob_id s1 = o_rob_id (buffer q ! i))"
proof -
  have none: "picked [] (fifo_ids q)" by (simp add: picked_def)
  have idle: "dispatched V [] s 0 s1" if "s1 = s \<or> s1 = s \<lparr> is_inst_waiting := False \<rparr>" for s1
    using that assms(3) by (auto simp: dispatched_def for_unit_def picked_def units_ok_def sent_to_def)
  let ?s0 = "s \<lparr> is_inst_waiting := False \<rparr>"
  consider (wait) "is_inst_waiting s" "\<not> inst_waiting_ok cf (is_inst_waiting_rob_id s)"
    | (empty) "\<not> (is_inst_waiting s \<and> \<not> inst_waiting_ok cf (is_inst_waiting_rob_id s))" "fifo_is_empty q"
    | (scan) "\<not> (is_inst_waiting s \<and> \<not> inst_waiting_ok cf (is_inst_waiting_rob_id s))" "\<not> fifo_is_empty q" by blast
  then show ?thesis
  proof cases
    case wait
    have "dispatched V [] s 0 s" by (rule idle) simp
    with none wait show ?thesis by (intro exI [of _ "[]"] exI [of _ s]) (simp add: issue_output_def)
  next
    case empty
    have "dispatched V [] s 0 ?s0" by (rule idle) simp
    with none empty show ?thesis by (intro exI [of _ "[]"] exI [of _ ?s0]) (auto simp: issue_output_def q_def)
  next
    case scan
    have ring: "fifo_ring (is_issue_q ?s0)" "\<not> fifo_is_empty (is_issue_q ?s0)" "queue_ok V (is_issue_q ?s0)" and u: "units_ok ?s0"
      using assms(2,3) scan(2) by (simp_all add: queue_ok_def q_def units_ok_def)
    have en: "cf_enable cf" using assms(4) scan(2) contents_Nil [of q] ring(1) by (auto simp: q_def)
    obtain sc where sc: "issue_select execute_pack cf ?s0 = Some sc" "scan_inv execute_pack cf ?s0 (fifo_fill (is_issue_q ?s0)) sc"
      "no_alone ?s0 sc \<or> length (sc_item_id_list sc) = 1" using issue_select_ok [OF ring(1,2) en u] by blast
    let ?sel = "sc_item_id_list sc"
    have nw: "\<not> is_inst_waiting ?s0" by simp
    obtain s1 where s1: "for_break (issue_dispatch_step execute_pack wb_pack cf sc) [0..<ISSUE_WIDTH] ?s0 = Some s1" "dispatched V ?sel ?s0 (length ?sel) s1"
      "\<forall>i \<in> set ?sel. alone_op (buffer q ! i) \<longrightarrow> ?sel = [i] \<and> is_inst_waiting s1 \<and> is_inst_waiting_rob_id s1 = o_rob_id (buffer q ! i)"
      using issue_dispatch_ok [OF ring(3) en u nw sc(2,3) assms(5,6)] by (auto simp: q_def)
    have S: "picked ?sel (fifo_ids q)" "length ?sel \<le> ISSUE_WIDTH" "\<forall>i \<in> set ?sel. alone_op (buffer q ! i) \<longrightarrow> cf_next_handle_rob_id cf = o_rob_id (buffer q ! i)"
      using sc(2) by (simp_all add: scan_inv_def Let_def q_def)
    have "dispatched V ?sel s (length ?sel) s1" using s1(2) by (simp add: dispatched_def sent_to_def)
    moreover have "issue_output execute_pack wb_pack cf s = Some (?sel, s1)"
      using scan sc(1) s1(1) by (auto simp: issue_output_def q_def)
    ultimately show ?thesis using S s1(3) scan(1) by blast
  qed
qed

text \<open>What follows the dispatch in a cycle.\<close>

lemma issue_rest_ok:
  fixes s sel
  defines "q \<equiv> is_issue_q s" and "n \<equiv> min (length (issue_inputs s)) (qsize (is_issue_q s) - fifo_fill (is_issue_q s))"
    and "kept \<equiv> map (\<lambda>i. buffer (is_issue_q s) ! i) (filter (\<lambda>i. i \<notin> set sel) (fifo_ids (is_issue_q s)))"
  assumes "queue_ok V q" "iq_sync_request_q q = []" "picked sel (fifo_ids q)" "dispatched V sel s k s1"
    and "length execute_pack = length wb_pack" "\<forall>c \<in> set execute_pack \<union> set wb_pack. channel_ok V c" "regfile_ok V (is_phy_regfile s)"
    and "length (port_get (is_readreg_issue_port s)) = READREG_WIDTH" "is_busy s \<longrightarrow> is_last_index s < READREG_WIDTH"
    and "\<forall>x \<in> set (issue_inputs s). input_ok V (is_phy_regfile s) x"
  shows "\<exists>q1 s2 q2 new. issue_wake execute_pack wb_pack sel (is_issue_q s1) = Some q1 \<and> issue_input execute_pack wb_pack (s1 \<lparr> is_issue_q := q1 \<rparr>) = Some s2 \<and>
    iq_sync (iq_compress_sync sel (is_issue_q s2)) = Some q2 \<and> queue_ok V q2 \<and> iq_sync_request_q q2 = [] \<and>
    fifo_contents q2 = map (load_channels execute_pack wb_pack) kept @ new \<and> list_all2 (awakened execute_pack wb_pack) (take n (issue_inputs s)) new \<and>
    (is_busy s2 \<longleftrightarrow> n < length (issue_inputs s)) \<and> (is_busy s2 \<longrightarrow> issue_inputs s2 = drop n (issue_inputs s)) \<and>
    (\<exists>q l p b. s2 = s1 \<lparr> is_issue_q := q, is_last_index := l, is_perf := p, is_busy := b \<rparr>)"
proof -
  let ?A = "awakened execute_pack wb_pack" and ?L = "load_channels execute_pack wb_pack"
  have ring: "fifo_ring q" "fifo_inv q" "\<not> pop_status_save q" using assms(4) by (simp_all add: queue_ok_def fifo_inv_def)
  note D = assms(7) [unfolded dispatched_def Let_def, folded q_def]
  define q1 where "q1 = q \<lparr> iq_sync_request_q := concat (map (wake_request execute_pack wb_pack sel q) (fifo_ids q)) \<rparr>"
  have wake: "issue_wake execute_pack wb_pack sel (is_issue_q s1) = Some q1" using issue_wake_ok [OF ring(1)] D assms(5) by (simp add: q1_def)
  have q1: "fifo_inv q1" "\<not> pop_status_save q1" "qsize q1 = qsize q" "fifo_fill q1 = fifo_fill q"
    using ring by (simp_all add: q1_def fifo_inv_def fifo_ring_def fifo_contents_def fifo_ids_def fifo_fill_def)
  let ?s2 = "s1 \<lparr> is_issue_q := q1 \<rparr>"
  have in2: "issue_inputs ?s2 = issue_inputs s" "is_phy_regfile ?s2 = is_phy_regfile s" "is_issue_q ?s2 = q1"
    using D by (simp_all add: issue_inputs_def)
  have items: "\<forall>x \<in> set (issue_inputs ?s2). \<exists>it. issue_item execute_pack wb_pack (is_phy_regfile ?s2) x = Some it \<and> item_ok V it \<and> ?A x it"
    unfolding in2 using issue_item_input [OF _ assms(10,8,9)] assms(13) by blast
  have n: "n = min (length (issue_inputs ?s2)) (qsize (is_issue_q ?s2) - fifo_fill (is_issue_q ?s2))" unfolding in2 by (simp add: n_def q1(3,4) q_def)
  have b2: "length (port_get (is_readreg_issue_port ?s2)) = READREG_WIDTH" "is_busy ?s2 \<longrightarrow> is_last_index ?s2 < READREG_WIDTH"
    "fifo_inv (is_issue_q ?s2)" "\<not> pop_status_save (is_issue_q ?s2)" using assms(11,12) D q1 by simp_all
  obtain s3 new where i: "issue_input execute_pack wb_pack ?s2 = Some s3" "list_all2 (\<lambda>x it. item_ok V it \<and> ?A x it) (take n (issue_inputs s)) new"
    "grown q1 new (is_issue_q s3)" "is_busy s3 \<longleftrightarrow> n < length (issue_inputs s)" "is_busy s3 \<longrightarrow> issue_inputs s3 = drop n (issue_inputs s)"
    "\<exists>q l p b. s3 = ?s2 \<lparr> is_issue_q := q, is_last_index := l, is_perf := p, is_busy := b \<rparr>"
    using issue_input_ok [OF b2 items n, unfolded in2] by blast
  obtain q4 where q4: "iq_sync (iq_compress_sync sel (is_issue_q s3)) = Some q4" "fifo_ring q4" "\<not> pop_status_save q4" "iq_sync_request_q q4 = []"
    "fifo_contents q4 = map ?L kept @ new" using issue_sync_ok [OF ring(1) assms(6) i(3) [unfolded q1_def]] unfolding kept_def q_def by blast
  have new: "list_all2 ?A (take n (issue_inputs s)) new" using i(2) by (rule list_all2_mono) simp
  have "\<forall>it \<in> set kept. o_enable it \<and> item_ok V it \<and> lsu_ok it" using assms(4) by (auto simp: queue_ok_def fifo_contents_def kept_def q_def)
  then have "\<forall>it \<in> set (map ?L kept). o_enable it \<and> item_ok V it \<and> lsu_ok it" using kept_items_ok [OF _ assms(9)] unfolding set_map ball_simps(9) by blast
  moreover have "\<forall>it \<in> set new. o_enable it \<and> item_ok V it \<and> lsu_ok it" using i(2) assms(13) by (rule new_items_ok)
  ultimately have "queue_ok V q4" using q4(2,3,5) unfolding queue_ok_def by (metis UnE set_append)
  moreover have "\<exists>q l p b. s3 = s1 \<lparr> is_issue_q := q, is_last_index := l, is_perf := p, is_busy := b \<rparr>" using i(6) by simp
  ultimately show ?thesis using wake i(1,4,5) q4(1,4,5) new by blast
qed

text \<open>C6: in a cycle without a flush, the issue stage loses, repeats and invents nothing. The instructions of the queue are split, in
  order, into those that are sent and those that are kept. Every sent one arrives in a queue of its unit with the
  values of its source registers and, for a memory access, its address and whether it is aligned. The kept ones stay in their order
  and pick up every forwarded result they wait for. Behind them come as many of the received instructions as fit, and the
  stage stalls exactly when some are left, which it then takes next. An instruction that has to execute alone is sent alone, when
  it is the next to retire, and the stage then waits for it.\<close>

theorem issue_run_conserves:
  fixes s
  defines "q \<equiv> is_issue_q s" and "n \<equiv> min (length (issue_inputs s)) (qsize (is_issue_q s) - fifo_fill (is_issue_q s))"
  assumes "\<not> cf_flushing cf" "queue_ok V q" "iq_sync_request_q q = []" "units_ok s" "cf_enable cf \<or> fifo_contents q = []"
    and "length execute_pack = length wb_pack" "\<forall>c \<in> set execute_pack \<union> set wb_pack. channel_ok V c" "regfile_ok V (is_phy_regfile s)"
    and "length (port_get (is_readreg_issue_port s)) = READREG_WIDTH" "is_busy s \<longrightarrow> is_last_index s < READREG_WIDTH"
    and "\<forall>x \<in> set (issue_inputs s). input_ok V (is_phy_regfile s) x"
  shows "\<exists>fb s1 sent kept kept1 new ps. issue_run execute_pack wb_pack cf s = Some (fb, s1) \<and>
    fifo_contents q \<in> shuffles sent kept \<and> length sent \<le> ISSUE_WIDTH \<and> (is_inst_waiting s \<and> \<not> inst_waiting_ok cf (is_inst_waiting_rob_id s) \<longrightarrow> sent = []) \<and>
    list_all2 (sends V) sent ps \<and> (\<forall>u. sent_to s1 u = sent_to s u + mset (filter (\<lambda>p. o_op_unit p = u) ps)) \<and>
    (\<forall>it \<in> set sent. alone_op it \<longrightarrow> sent = [it] \<and> cf_next_handle_rob_id cf = o_rob_id it \<and> is_inst_waiting s1 \<and> is_inst_waiting_rob_id s1 = o_rob_id it) \<and>
    fifo_contents (is_issue_q s1) = kept1 @ new \<and> list_all2 (awakened execute_pack wb_pack) kept kept1 \<and>
    list_all2 (awakened execute_pack wb_pack) (take n (issue_inputs s)) new \<and>
    (if_stall fb \<longleftrightarrow> n < length (issue_inputs s)) \<and> (if_stall fb \<longrightarrow> is_busy s1 \<and> issue_inputs s1 = drop n (issue_inputs s)) \<and> (\<not> if_stall fb \<longrightarrow> \<not> is_busy s1) \<and>
    queue_ok V (is_issue_q s1) \<and> iq_sync_request_q (is_issue_q s1) = [] \<and> units_ok s1"
proof -
  let ?A = "awakened execute_pack wb_pack" and ?L = "load_channels execute_pack wb_pack"
  obtain sel s1 where o: "issue_output execute_pack wb_pack cf s = Some (sel, s1)" "picked sel (fifo_ids q)" "length sel \<le> ISSUE_WIDTH"
    "dispatched V sel s (length sel) s1" "is_inst_waiting s \<and> \<not> inst_waiting_ok cf (is_inst_waiting_rob_id s) \<longrightarrow> sel = []"
    "\<forall>i \<in> set sel. alone_op (buffer q ! i) \<longrightarrow> sel = [i] \<and> cf_next_handle_rob_id cf = o_rob_id (buffer q ! i) \<and>
       is_inst_waiting s1 \<and> is_inst_waiting_rob_id s1 = o_rob_id (buffer q ! i)"
    using issue_output_ok [OF assms(4) [unfolded q_def] assms(6) assms(7) [unfolded q_def] assms(8,9)] unfolding q_def by blast
  note D = o(4) [unfolded dispatched_def Let_def, folded q_def]
  obtain ps where ps: "list_all2 (\<lambda>i p. sends V (buffer q ! i) p) sel ps" "\<forall>u. sent_to s1 u = sent_to s u + mset (filter (\<lambda>p. o_op_unit p = u) ps)"
    using D by auto
  let ?kept = "map (\<lambda>i. buffer q ! i) (filter (\<lambda>i. i \<notin> set sel) (fifo_ids q))" and ?sent = "map (\<lambda>i. buffer q ! i) sel"
  obtain q1 s3 q4 new where r: "issue_wake execute_pack wb_pack sel (is_issue_q s1) = Some q1" "issue_input execute_pack wb_pack (s1 \<lparr> is_issue_q := q1 \<rparr>) = Some s3"
    "iq_sync (iq_compress_sync sel (is_issue_q s3)) = Some q4" "queue_ok V q4" "iq_sync_request_q q4 = []" "fifo_contents q4 = map ?L ?kept @ new"
    "list_all2 ?A (take n (issue_inputs s)) new" "is_busy s3 \<longleftrightarrow> n < length (issue_inputs s)" "is_busy s3 \<longrightarrow> issue_inputs s3 = drop n (issue_inputs s)"
    "\<exists>q l p b. s3 = s1 \<lparr> is_issue_q := q, is_last_index := l, is_perf := p, is_busy := b \<rparr>"
    using issue_rest_ok [OF assms(4,5) [unfolded q_def] o(2) [unfolded q_def] o(4) assms(8-13), folded q_def n_def] unfolding n_def by blast
  let ?s4 = "s3 \<lparr> is_issue_q := q4 \<rparr>"
  have run: "issue_run execute_pack wb_pack cf s = Some (\<lparr> if_stall = is_busy s3 \<rparr>, ?s4)" using assms(3) o(1) r(1-3) by (simp add: issue_run_def)
  have split: "fifo_contents q \<in> shuffles ?sent ?kept"
    using partition_in_shuffles [of "fifo_ids q" "\<lambda>i. i \<in> set sel"] o(2) unfolding picked_def fifo_contents_def by (metis shuffles_map)
  have sends: "list_all2 (sends V) ?sent ps" using ps(1) by (simp add: list_all2_map1)
  have "\<forall>it \<in> set ?kept. item_ok V it" using assms(4) by (auto simp: queue_ok_def fifo_contents_def)
  then have kept1: "list_all2 ?A ?kept (map ?L ?kept)"
    unfolding list_all2_map1 list_all2_map2 by (intro list.rel_refl_strong) (use load_channels_awaken [of V, OF _ assms(8)] in simp)
  have s4: "sent_to ?s4 u = sent_to s1 u" "units_ok ?s4" "is_inst_waiting ?s4 = is_inst_waiting s1" "is_inst_waiting_rob_id ?s4 = is_inst_waiting_rob_id s1"
    "issue_inputs ?s4 = issue_inputs s3" "is_busy ?s4 = is_busy s3" "is_issue_q ?s4 = q4" for u
    using r(10) D by (auto simp: sent_to_def units_ok_def issue_inputs_def)
  have alone: "\<forall>it \<in> set ?sent. alone_op it \<longrightarrow> ?sent = [it] \<and> cf_next_handle_rob_id cf = o_rob_id it \<and> is_inst_waiting ?s4 \<and> is_inst_waiting_rob_id ?s4 = o_rob_id it"
    unfolding s4 using o(6) by auto
  have wait: "is_inst_waiting s \<and> \<not> inst_waiting_ok cf (is_inst_waiting_rob_id s) \<longrightarrow> ?sent = []" using o(5) by simp
  have sent: "\<forall>u. sent_to ?s4 u = sent_to s u + mset (filter (\<lambda>p. o_op_unit p = u) ps)" unfolding s4 by (rule ps(2))
  show ?thesis unfolding n_def [symmetric]
    apply (rule exI [of _ "\<lparr> if_stall = is_busy s3 \<rparr>"], rule exI [of _ ?s4], rule exI [of _ ?sent], rule exI [of _ ?kept], rule exI [of _ "map ?L ?kept"],
        rule exI [of _ new], rule exI [of _ ps])
    using run split o(3) wait sends sent alone kept1 r(4-9) s4 by simp
qed

definition sample_issue_item :: issue_queue_item_t where
  "sample_issue_item = zero_readreg_issue_op_info \<lparr> o_enable := True, o_valid := True, o_op_unit := Unit_alu, o_rob_id := 3, o_rs1_need_map := False, o_src1_value := 5, o_src1_loaded := True,
     o_rs2_need_map := True, o_rs2_phy := 1, o_src2_loaded := False \<rparr>"

definition sample_issue_state :: issue_state where
  "sample_issue_state = \<lparr> is_readreg_issue_port = port_new (replicate READREG_WIDTH zero_readreg_issue_op_info),
     is_unit_fifo = (\<lambda>u. replicate (unit_cnt u) (fifo_new 1 [zero_issue_execute_pack] 0 False)),
     is_phy_regfile = regfile_new \<lparr> phy_value = 0 \<rparr> 2, is_store_buffer = sb_new 1 [sample_store False 0 0 0 1] 0 False,
     is_issue_q = snd (fifo_push sample_issue_item (iq_new 2 (replicate 2 zero_readreg_issue_op_info) 0 False)),
     is_busy = False, is_inst_waiting = False, is_inst_waiting_rob_id = 0, is_last_index = 0, is_unit_index = (\<lambda>u. 0), is_perf = perf_zero \<rparr>"

definition sample_result :: "nat \<Rightarrow> u32 \<Rightarrow> execute_feedback_channel_t" where
  "sample_result p v = zero_feedback_channel \<lparr> ch_enable := True, ch_phy_id := p, ch_value := v \<rparr>"

lemma sample_issue_queue:
  "queue_ok (\<lambda>_. 9) (is_issue_q sample_issue_state)" "iq_sync_request_q (is_issue_q sample_issue_state) = []"
  "fifo_contents (is_issue_q sample_issue_state) = [sample_issue_item]"
proof -
  have ids: "fifo_fill (is_issue_q sample_issue_state) = 1" by code_simp
  then show c: "fifo_contents (is_issue_q sample_issue_state) = [sample_issue_item]"
    by (simp add: fifo_contents_def fifo_ids_def) code_simp
  have "fifo_ring (is_issue_q sample_issue_state)" by code_simp
  moreover have "\<not> pop_status_save (is_issue_q sample_issue_state)" by code_simp
  ultimately show "queue_ok (\<lambda>_. 9) (is_issue_q sample_issue_state)"
    unfolding queue_ok_def c by (simp add: sample_issue_item_def item_ok_def lsu_ok_def)
  show "iq_sync_request_q (is_issue_q sample_issue_state) = []" by code_simp
qed

theorem issue_run_conserves_witness:
  "\<exists>fb s1. issue_run [sample_result 1 9] [zero_feedback_channel] (sample_commit_feedback False \<lparr> cf_enable := True, cf_next_handle_rob_id := 3 \<rparr>) sample_issue_state = Some (fb, s1) \<and>
     units_ok s1 \<and> queue_ok (\<lambda>_. 9) (is_issue_q s1) \<and> \<not> if_stall fb"
proof -
  let ?s = sample_issue_state and ?cf = "sample_commit_feedback False \<lparr> cf_enable := True, cf_next_handle_rob_id := 3 \<rparr>"
  have "0 < unit_cnt u" for u by (cases u) simp_all
  then have "units_ok ?s" using fifo_new_inv [of 1 "[zero_issue_execute_pack]"] by (simp add: units_ok_def sample_issue_state_def)
  moreover have "issue_inputs ?s = []" by code_simp
  moreover have "\<not> cf_flushing ?cf" by (simp add: cf_flushing_def sample_commit_feedback_def)
  moreover have "regfile_ok (\<lambda>_. 9) (is_phy_regfile ?s)" 
    by (auto simp: regfile_ok_def sample_issue_state_def read_data_valid_def regfile_new_def bitmap_get_zero)
  moreover have c: "channel_ok (\<lambda>_. 9) (sample_result 1 9)" "channel_ok (\<lambda>_. 9) zero_feedback_channel" "length (port_get (is_readreg_issue_port ?s)) = READREG_WIDTH" "\<not> is_busy ?s"
    by (simp_all add: channel_ok_def sample_result_def zero_feedback_channel_def sample_issue_state_def port_get_def port_new_def)
  ultimately show ?thesis
    using issue_run_conserves [of ?cf "\<lambda>_. 9" ?s "[sample_result 1 9]" "[zero_feedback_channel]"] sample_issue_queue c
    by simp blast
qed

subsection \<open>Reading the registers\<close>

text \<open>What the register read stage gives to an instruction: its operand registers' values as far as they exist, its immediate where it
  has one; an operand it leaves open has a value neither in the register file nor among the forwarded results.\<close>

definition reads :: "(nat \<Rightarrow> u32) \<Rightarrow> execute_feedback_pack_t \<Rightarrow> wb_feedback_pack_t \<Rightarrow> phy_regfile_item_t regfile \<Rightarrow> rename_readreg_op_info_t \<Rightarrow>
    readreg_issue_op_info_t \<Rightarrow> bool" where
  "reads V execute_pack wb_pack rf x y \<longleftrightarrow> item_ok V y \<and>
     (o_valid x \<and> \<not> o_rs1_need_map x \<longrightarrow> o_src1_value y = (if o_arg1_src x = Src_imm then o_imm x else 0)) \<and>
     (o_valid x \<and> \<not> o_rs2_need_map x \<longrightarrow> o_src2_value y = (if o_arg2_src x = Src_imm then o_imm x else 0)) \<and>
     (\<not> o_src1_loaded y \<longrightarrow> read_data_valid rf (o_rs1_phy x) = Some False \<and> (\<forall>c \<in> set execute_pack \<union> set wb_pack. ch_enable c \<longrightarrow> ch_phy_id c \<noteq> o_rs1_phy x)) \<and>
     (\<not> o_src2_loaded y \<longrightarrow> read_data_valid rf (o_rs2_phy x) = Some False \<and> (\<forall>c \<in> set execute_pack \<union> set wb_pack. ch_enable c \<longrightarrow> ch_phy_id c \<noteq> o_rs2_phy x))"

lemma readreg_forward_ok:
  assumes "length es = length ws"
  shows "(readreg_forward phy (zip es ws) = None \<longrightarrow> (\<forall>c \<in> set es \<union> set ws. ch_enable c \<longrightarrow> ch_phy_id c \<noteq> phy)) \<and>
    ((\<forall>c \<in> set es \<union> set ws. channel_ok V c) \<longrightarrow> readreg_forward phy (zip es ws) = Some v \<longrightarrow> v = V phy)"
  using assms by (induction es ws rule: list_induct2) (auto simp: channel_ok_def)

lemma readreg_source_ok:
  assumes "need \<longrightarrow> phy < regfile_size rf" "regfile_ok V rf" "length execute_pack = length wb_pack" "\<forall>c \<in> set execute_pack \<union> set wb_pack. channel_ok V c"
  shows "\<exists>v l. readreg_source rf execute_pack wb_pack need phy src im = Some (v, l) \<and> (l \<or> need) \<and> (need \<and> l \<longrightarrow> v = V phy) \<and>
    (\<not> need \<longrightarrow> v = (if src = Src_imm then im else 0)) \<and>
    (\<not> l \<longrightarrow> read_data_valid rf phy = Some False \<and> (\<forall>c \<in> set execute_pack \<union> set wb_pack. ch_enable c \<longrightarrow> ch_phy_id c \<noteq> phy))"
proof (cases need)
  case True
  then obtain x b where r: "regfile_read rf phy = Some x" "read_data_valid rf phy = Some b" using assms(1) by (simp add: regfile_read_def read_data_valid_def)
  have "b \<longrightarrow> phy_value x = V phy" using assms(2) r by (auto simp: regfile_ok_def)
  with True r readreg_forward_ok [OF assms(3), of phy V] assms(4) show ?thesis by (auto simp: readreg_source_def split: option.splits)
qed (auto simp: readreg_source_def)

lemma readreg_op_ok:
  assumes "o_enable x \<and> o_valid x \<longrightarrow> (o_rs1_need_map x \<longrightarrow> o_rs1_phy x < regfile_size rf) \<and> (o_rs2_need_map x \<longrightarrow> o_rs2_phy x < regfile_size rf)"
    and "regfile_ok V rf" "length execute_pack = length wb_pack" "\<forall>c \<in> set execute_pack \<union> set wb_pack. channel_ok V c"
  shows "\<exists>y. readreg_op rf execute_pack wb_pack x = Some y \<and> rename_readreg_op_info_t.truncate y = x \<and> (o_enable x \<longrightarrow> reads V execute_pack wb_pack rf x y)"
proof (cases "o_enable x \<and> o_valid x")
  case True
  then have need: "o_rs1_need_map x \<longrightarrow> o_rs1_phy x < regfile_size rf" "o_rs2_need_map x \<longrightarrow> o_rs2_phy x < regfile_size rf" using assms(1) by blast+
  obtain v1 l1 where r1: "readreg_source rf execute_pack wb_pack (o_rs1_need_map x) (o_rs1_phy x) (o_arg1_src x) (o_imm x) = Some (v1, l1)"
    "l1 \<or> o_rs1_need_map x" "o_rs1_need_map x \<and> l1 \<longrightarrow> v1 = V (o_rs1_phy x)" "\<not> o_rs1_need_map x \<longrightarrow> v1 = (if o_arg1_src x = Src_imm then o_imm x else 0)"
    "\<not> l1 \<longrightarrow> read_data_valid rf (o_rs1_phy x) = Some False \<and> (\<forall>c \<in> set execute_pack \<union> set wb_pack. ch_enable c \<longrightarrow> ch_phy_id c \<noteq> o_rs1_phy x)"
    using readreg_source_ok [OF need(1) assms(2-4), of "o_arg1_src x" "o_imm x"] by blast
  obtain v2 l2 where r2: "readreg_source rf execute_pack wb_pack (o_rs2_need_map x) (o_rs2_phy x) (o_arg2_src x) (o_imm x) = Some (v2, l2)"
    "l2 \<or> o_rs2_need_map x" "o_rs2_need_map x \<and> l2 \<longrightarrow> v2 = V (o_rs2_phy x)" "\<not> o_rs2_need_map x \<longrightarrow> v2 = (if o_arg2_src x = Src_imm then o_imm x else 0)"
    "\<not> l2 \<longrightarrow> read_data_valid rf (o_rs2_phy x) = Some False \<and> (\<forall>c \<in> set execute_pack \<union> set wb_pack. ch_enable c \<longrightarrow> ch_phy_id c \<noteq> o_rs2_phy x)"
    using readreg_source_ok [OF need(2) assms(2-4), of "o_arg2_src x" "o_imm x"] by blast
  let ?y = "rename_readreg_op_info_t.extend x (readreg_issue_op_info_t.fields v1 l1 v2 l2)"
  have y: "o_src1_value ?y = v1" "o_src1_loaded ?y = l1" "o_src2_value ?y = v2" "o_src2_loaded ?y = l2" "o_valid ?y = o_valid x"
    "o_rs1_need_map ?y = o_rs1_need_map x" "o_rs2_need_map ?y = o_rs2_need_map x" "o_rs1_phy ?y = o_rs1_phy x" "o_rs2_phy ?y = o_rs2_phy x"
    by (simp_all add: rename_readreg_op_info_t.defs readreg_issue_op_info_t.defs)
  have "item_ok V ?y" unfolding item_ok_def y using r1(2,3) r2(2,3) True by blast
  then have "reads V execute_pack wb_pack rf x ?y" unfolding reads_def y using r1(4,5) r2(4,5) by blast
  moreover have "readreg_op rf execute_pack wb_pack x = Some ?y" using True r1(1) r2(1) by (simp add: readreg_op_def)
  moreover have "rename_readreg_op_info_t.truncate ?y = x" by (simp add: rename_readreg_op_info_t.defs readreg_issue_op_info_t.defs)
  ultimately show ?thesis by blast
next
  case False
  then show ?thesis
    by (auto simp: readreg_op_def reads_def item_ok_def rename_readreg_op_info_t.defs readreg_issue_op_info_t.defs)
qed

lemma those_map_Some:
  "(\<And>x. x \<in> set xs \<Longrightarrow> \<exists>y. f x = Some y \<and> R x y) \<Longrightarrow> \<exists>ys. those (map f xs) = Some ys \<and> list_all2 R xs ys"
proof (induction xs)
  case (Cons x xs)
  obtain ys where "those (map f xs) = Some ys" "list_all2 R xs ys" using Cons by auto
  moreover obtain y where "f x = Some y" "R x y" using Cons.prems by auto
  ultimately show ?case by auto
qed simp

text \<open>C7: in a cycle without flush and stall, the register read stage passes on every instruction as it was renamed and gives it its
  operands: the values of its source registers where the register file or a forwarded result has them, its immediate where it has one.
  An operand is left open only when its register has a value in neither.\<close>

theorem readreg_gives_operands:
  assumes "\<not> cf_flushing cf" "\<not> if_stall fb" "regfile_ok V (rr_phy_regfile s)" "length execute_pack = length wb_pack"
    and "\<forall>c \<in> set execute_pack \<union> set wb_pack. channel_ok V c"
    and "\<forall>x \<in> set (port_get (rr_rename_readreg_port s)). o_enable x \<and> o_valid x \<longrightarrow>
      (o_rs1_need_map x \<longrightarrow> o_rs1_phy x < regfile_size (rr_phy_regfile s)) \<and> (o_rs2_need_map x \<longrightarrow> o_rs2_phy x < regfile_size (rr_phy_regfile s))"
  shows "\<exists>s1. readreg_run fb execute_pack wb_pack cf s = Some s1 \<and>
    list_all2 (\<lambda>x y. rename_readreg_op_info_t.truncate y = x \<and> (o_enable x \<longrightarrow> reads V execute_pack wb_pack (rr_phy_regfile s) x y))
      (port_get (rr_rename_readreg_port s)) (port_get (rr_readreg_issue_port s1))"
proof -
  let ?R = "\<lambda>x y. rename_readreg_op_info_t.truncate y = x \<and> (o_enable x \<longrightarrow> reads V execute_pack wb_pack (rr_phy_regfile s) x y)"
  obtain ys where "those (map (readreg_op (rr_phy_regfile s) execute_pack wb_pack) (port_get (rr_rename_readreg_port s))) = Some ys"
    "list_all2 ?R (port_get (rr_rename_readreg_port s)) ys"
    using those_map_Some [of "port_get (rr_rename_readreg_port s)" "readreg_op (rr_phy_regfile s) execute_pack wb_pack" ?R]
      readreg_op_ok [OF _ assms(3-5)] assms(6) by blast
  with assms(1,2) show ?thesis by (simp add: readreg_run_def)
qed

definition sample_renamed_op :: rename_readreg_op_info_t where
  "sample_renamed_op = zero_rename_readreg_op_info \<lparr> o_enable := True, o_valid := True, o_rs1_need_map := True, o_rs1_phy := 1, o_arg2_src := Src_imm, o_imm := 4 \<rparr>"

theorem readreg_gives_operands_witness:
  "\<exists>s1. readreg_run \<lparr> if_stall = False \<rparr> [sample_result 1 9] [zero_feedback_channel] (sample_commit_feedback False)
      \<lparr> rr_rename_readreg_port = port_new [sample_renamed_op], rr_readreg_issue_port = port_new [], rr_phy_regfile = regfile_new \<lparr> phy_value = 0 \<rparr> 2 \<rparr> = Some s1 \<and>
     (\<exists>y. port_get (rr_readreg_issue_port s1) = [y] \<and> reads (\<lambda>_. 9) [sample_result 1 9] [zero_feedback_channel] (regfile_new \<lparr> phy_value = 0 \<rparr> 2) sample_renamed_op y)"
proof -
  let ?s = "\<lparr> rr_rename_readreg_port = port_new [sample_renamed_op], rr_readreg_issue_port = port_new [], rr_phy_regfile = regfile_new \<lparr> phy_value = 0 \<rparr> 2 \<rparr>"
  have "regfile_ok (\<lambda>_. 9) (regfile_new \<lparr> phy_value = 0 \<rparr> 2)"
    by (auto simp: regfile_ok_def read_data_valid_def regfile_new_def bitmap_get_zero)
  moreover have "\<not> cf_flushing (sample_commit_feedback False)" by (simp add: cf_flushing_def sample_commit_feedback_def)
  moreover have "o_enable sample_renamed_op" "\<not> o_rs2_need_map sample_renamed_op" "o_rs1_phy sample_renamed_op = 1" by code_simp+
  moreover have "channel_ok (\<lambda>_. 9) (sample_result 1 9)" "channel_ok (\<lambda>_. 9) zero_feedback_channel" "regfile_size (regfile_new \<lparr> phy_value = 0 \<rparr> 2) = 2"
    by (simp_all add: channel_ok_def sample_result_def zero_feedback_channel_def regfile_new_def)
  ultimately show ?thesis
    using readreg_gives_operands [of "sample_commit_feedback False" "\<lparr> if_stall = False \<rparr>" "\<lambda>_. 9" ?s "[sample_result 1 9]" "[zero_feedback_channel]"]
    by (auto simp: list_all2_Cons1)
qed

end
