(* ===== verification/Wb.thy ===== *)
theory Wb
  imports Pipeline_Types Regfile
begin

text \<open>
  \<open>pipeline/wb.cpp\<close>: the write-back stage takes the results of all execution units, queues the writes of the physical
  register file, forwards the written values and hands the instructions to the commit stage.
\<close>

record wb_state =
  wb_execute_wb_port :: "execute_wb_pack_t port list"
  wb_wb_commit_port :: "wb_commit_pack_t port"
  wb_phy_regfile :: "phy_regfile_item_t regfile"

text \<open>The list of all ports, in the order in which \<open>init\<close> collects them.\<close>

definition wb_init :: "execute_wb_pack_t port list \<Rightarrow> execute_wb_pack_t port list \<Rightarrow> execute_wb_pack_t port list \<Rightarrow>
    execute_wb_pack_t port list \<Rightarrow> execute_wb_pack_t port list \<Rightarrow> execute_wb_pack_t port list \<Rightarrow> execute_wb_pack_t port list" where
  "wb_init alu_wb_port bru_wb_port csr_wb_port div_wb_port lsu_wb_port mul_wb_port =
     take ALU_UNIT_NUM alu_wb_port @ take BRU_UNIT_NUM bru_wb_port @ take CSR_UNIT_NUM csr_wb_port @
     take DIV_UNIT_NUM div_wb_port @ take LSU_UNIT_NUM lsu_wb_port @ take MUL_UNIT_NUM mul_wb_port"

definition wb_writes :: "execute_wb_pack_t \<Rightarrow> bool" where
  "wb_writes rev_pack \<longleftrightarrow> o_enable rev_pack \<and> o_valid rev_pack \<and> \<not> o_has_exception rev_pack \<and> o_rd_enable rev_pack \<and>
     o_need_rename rev_pack"

text \<open>The body of the loop over the ports. Every field of the received pack is copied.\<close>

definition wb_step :: "execute_wb_pack_t port list \<Rightarrow> nat \<Rightarrow>
    wb_commit_pack_t \<times> wb_feedback_pack_t \<times> phy_regfile_item_t regfile \<Rightarrow>
    (wb_commit_pack_t \<times> wb_feedback_pack_t \<times> phy_regfile_item_t regfile) option" where
  "wb_step ports i = (\<lambda>(send_pack, feedback_pack, rf). do {
     assert_that (i < EXECUTE_UNIT_NUM);
     let rev_pack = port_get (ports ! i);
     let send_pack1 = send_pack[i := rev_pack];
     Some (if wb_writes rev_pack then
         (send_pack1, feedback_pack[i := \<lparr> ch_enable = True, ch_phy_id = o_rd_phy rev_pack, ch_value = o_rd_value rev_pack \<rparr>],
          regfile_write_sync (o_rd_phy rev_pack) \<lparr> phy_value = o_rd_value rev_pack \<rparr> True rf)
       else (send_pack1, feedback_pack, rf)) })"

definition wb_run :: "commit_feedback_pack_t \<Rightarrow> wb_state \<Rightarrow> (wb_feedback_pack_t \<times> wb_state) option" where
  "wb_run cf s = do {
     let start = (replicate EXECUTE_UNIT_NUM zero_execute_wb_pack, replicate EXECUTE_UNIT_NUM zero_feedback_channel, wb_phy_regfile s);
     (send_pack, feedback_pack, rf) \<leftarrow>
       (if \<not> cf_flushing cf then drain (wb_step (wb_execute_wb_port s)) [0..<length (wb_execute_wb_port s)] start else Some start);
     Some (feedback_pack, s \<lparr> wb_phy_regfile := rf, wb_wb_commit_port := port_set send_pack (wb_wb_commit_port s) \<rparr>) }"

subsection \<open>What a cycle does\<close>

definition wb_channel :: "execute_wb_pack_t \<Rightarrow> wb_feedback_channel_t" where
  "wb_channel p = (if wb_writes p then \<lparr> ch_enable = True, ch_phy_id = o_rd_phy p, ch_value = o_rd_value p \<rparr> else zero_feedback_channel)"

definition wb_requests :: "execute_wb_pack_t list \<Rightarrow> phy_regfile_item_t regfile_request list" where
  "wb_requests ps = map (\<lambda>p. Regfile_write (o_rd_phy p) \<lparr> phy_value = o_rd_value p \<rparr> True) (filter wb_writes ps)"

lemma wb_loop:
  assumes "length ports = EXECUTE_UNIT_NUM" "k \<le> EXECUTE_UNIT_NUM"
  shows "drain (wb_step ports) [0..<k] (replicate EXECUTE_UNIT_NUM zero_execute_wb_pack, replicate EXECUTE_UNIT_NUM zero_feedback_channel, rf) =
    Some (map port_get (take k ports) @ replicate (EXECUTE_UNIT_NUM - k) zero_execute_wb_pack,
      map (wb_channel \<circ> port_get) (take k ports) @ replicate (EXECUTE_UNIT_NUM - k) zero_feedback_channel,
      rf \<lparr> regfile_sync_request_q := regfile_sync_request_q rf @ wb_requests (map port_get (take k ports)) \<rparr>)"
  using assms(2)
proof (induction k)
  case (Suc k)
  have len: "length (map port_get (take k ports)) = k" "length (map (wb_channel \<circ> port_get) (take k ports)) = k"
    using Suc.prems assms(1) by simp_all
  have "EXECUTE_UNIT_NUM - k = Suc (EXECUTE_UNIT_NUM - Suc k)" using Suc.prems by simp
  then have rep: "replicate (EXECUTE_UNIT_NUM - k) zero_execute_wb_pack = zero_execute_wb_pack # replicate (EXECUTE_UNIT_NUM - Suc k) zero_execute_wb_pack"
    "replicate (EXECUTE_UNIT_NUM - k) zero_feedback_channel = zero_feedback_channel # replicate (EXECUTE_UNIT_NUM - Suc k) zero_feedback_channel"
    by simp_all
  have upd: "(xs @ x # ys)[k := y] = xs @ y # ys" if "length xs = k" for xs ys :: "'z list" and x y
    using that by (simp add: list_update_append)
  have tk: "take (Suc k) ports = take k ports @ [ports ! k]" using Suc.prems assms(1) by (simp add: take_Suc_conv_app_nth)
  have "drain (wb_step ports) [0..<Suc k] (replicate EXECUTE_UNIT_NUM zero_execute_wb_pack, replicate EXECUTE_UNIT_NUM zero_feedback_channel, rf) =
    wb_step ports k (map port_get (take k ports) @ replicate (EXECUTE_UNIT_NUM - k) zero_execute_wb_pack,
      map (wb_channel \<circ> port_get) (take k ports) @ replicate (EXECUTE_UNIT_NUM - k) zero_feedback_channel,
      rf \<lparr> regfile_sync_request_q := regfile_sync_request_q rf @ wb_requests (map port_get (take k ports)) \<rparr>)"
    using Suc by (simp add: drain_snoc comp_def)
  also have "\<dots> = Some (map port_get (take (Suc k) ports) @ replicate (EXECUTE_UNIT_NUM - Suc k) zero_execute_wb_pack,
      map (wb_channel \<circ> port_get) (take (Suc k) ports) @ replicate (EXECUTE_UNIT_NUM - Suc k) zero_feedback_channel,
      rf \<lparr> regfile_sync_request_q := regfile_sync_request_q rf @ wb_requests (map port_get (take (Suc k) ports)) \<rparr>)"
    using Suc.prems len unfolding tk rep
    by (simp add: wb_step_def upd Let_def wb_channel_def wb_requests_def regfile_write_sync_def)
  finally show ?case .
qed (simp add: wb_requests_def)

text \<open>A cycle without a flush hands on the packs of all units; it queues exactly one write for every result and forwards
  it on the unit's channel.\<close>

lemma wb_run_eq:
  assumes "length (wb_execute_wb_port s) = EXECUTE_UNIT_NUM"
  defines "ps \<equiv> map port_get (wb_execute_wb_port s)"
  shows "\<not> cf_flushing cf \<Longrightarrow> wb_run cf s = Some (map wb_channel ps, s
      \<lparr> wb_phy_regfile := (wb_phy_regfile s)
          \<lparr> regfile_sync_request_q := regfile_sync_request_q (wb_phy_regfile s) @ wb_requests ps \<rparr>,
        wb_wb_commit_port := port_set ps (wb_wb_commit_port s) \<rparr>)"
    and "cf_flushing cf \<Longrightarrow> wb_run cf s = Some (replicate EXECUTE_UNIT_NUM zero_feedback_channel, s
      \<lparr> wb_wb_commit_port := port_set (replicate EXECUTE_UNIT_NUM zero_execute_wb_pack) (wb_wb_commit_port s) \<rparr>)"
  using wb_loop [OF assms(1), of EXECUTE_UNIT_NUM "wb_phy_regfile s"] assms(1)
  by (simp_all add: wb_run_def ps_def)

end
