(* ===== verification/Commit.thy ===== *)
theory Commit
  imports Pipeline_Types Perf Rat Rob Regfile Csr Interrupt Branch_Predictor
begin

text \<open>
  \<open>pipeline/commit.cpp\<close>: the commit stage retires finished instructions from the head of the reorder buffer, in order
  and up to \<open>COMMIT_WIDTH\<close> per cycle; it repairs a mispredicted branch from the branch's checkpoint, and on an exception or
  an interrupt it walks the reorder buffer back from the tail, one entry per cycle, before it redirects the fetch stage.
\<close>

unbundle bit_operations_syntax

datatype commit_state_t = St_normal | St_flush | St_interrupt_flush

record commit_state =
  cm_wb_commit_port :: "wb_commit_pack_t port"
  cm_rat :: rat
  cm_rob :: rob
  cm_csr_file :: csrfile
  cm_phy_regfile :: "phy_regfile_item_t regfile"
  cm_checkpoint_buffer :: checkpoint_buffer
  cm_branch_predictor :: branch_predictor
  cm_interrupt_interface :: interrupt_interface
  cm_perf :: perf
  cm_cur_state :: commit_state_t
  cm_rob_item :: rob_item_t
  cm_rob_item_id :: nat
  cm_restore_rob_item_id :: nat
  cm_interrupt_pc :: u32
  cm_interrupt_id :: riscv_interrupt_t

text \<open>The locals of \<open>run\<close>.\<close>

record commit_loop = commit_state +
  cl_feedback :: commit_feedback_pack_t
  cl_need_flush :: bool

definition zero_commit_feedback :: commit_feedback_pack_t where
  "zero_commit_feedback = \<lparr> cf_enable = False, cf_next_handle_rob_id_valid = False, cf_next_handle_rob_id = 0,
     cf_has_exception = False, cf_exception_pc = 0, cf_flush = False, cf_committed_rob_id = replicate COMMIT_WIDTH 0,
     cf_committed_rob_id_valid = replicate COMMIT_WIDTH False, cf_jump_enable = False, cf_jump = False,
     cf_next_pc = 0 \<rparr>"

definition zero_phy_regfile_item :: phy_regfile_item_t where
  "zero_phy_regfile_item = \<lparr> phy_value = 0 \<rparr>"

definition commit_reset :: "commit_state \<Rightarrow> commit_state" where
  "commit_reset s = s \<lparr> cm_cur_state := St_normal, cm_interrupt_pc := 0, cm_interrupt_id := machine_external \<rparr>"

subsection \<open>Retiring\<close>

text \<open>The effects of retiring one instruction, up to the branch handling.\<close>

definition commit_retire :: "rob_item_t \<Rightarrow> commit_loop \<Rightarrow> commit_loop" where
  "commit_retire it s =
     (let s1 = s \<lparr> cm_rob := rob_pop_sync (cm_rob s) \<rparr>;
          s2 = (if rob_old_phy_reg_id_valid it then s1
              \<lparr> cm_rat := rat_commit_map_sync (rob_new_phy_reg_id it) (rat_release_map_sync (rob_old_phy_reg_id it) (cm_rat s1)),
                cm_phy_regfile := regfile_write_sync (rob_old_phy_reg_id it) zero_phy_regfile_item False (cm_phy_regfile s1) \<rparr>
            else s1);
          s3 = s2 \<lparr> cm_rob := rob_add_commit_num 1 (rob_set_committed True (cm_rob s2)) \<rparr>
      in if rob_csr_newvalue_valid it
         then s3 \<lparr> cm_csr_file := csrfile_write_sync (rob_csr_addr it) (rob_csr_newvalue it) (cm_csr_file s3) \<rparr> else s3)"

definition commit_mret :: "rob_item_t \<Rightarrow> commit_loop \<Rightarrow> commit_loop option" where
  "commit_mret it s =
     (if rob_is_mret it then do {
        v \<leftarrow> csrfile_read_sys (cm_csr_file s) CSR_MSTATUS;
        let mstatus = csr_load v mstatus_new;
        let mstatus1 = mstatus_set_mie (mstatus_get_mpie mstatus) mstatus;
        Some (s \<lparr> cm_csr_file := csrfile_write_sys_sync CSR_MSTATUS (csr_get_value mstatus1) (cm_csr_file s) \<rparr>) }
      else Some s)"

definition prediction_hit :: "rob_item_t \<Rightarrow> bool" where
  "prediction_hit it \<longleftrightarrow> rob_bru_jump it = rob_predicted_jump it \<and>
     (rob_bru_next_pc it = rob_predicted_next_pc it \<or> \<not> rob_predicted_jump it)"

definition commit_next_pc :: "rob_item_t \<Rightarrow> u32" where
  "commit_next_pc it = (if rob_bru_jump it then rob_bru_next_pc it else rob_pc it + 4)"

text \<open>The checkpoint made ready for the repair: registers that are not visible in it are released and have no value, the
  visible ones have one.\<close>

definition repair_step :: "rat \<Rightarrow> phy_regfile_item_t regfile \<Rightarrow> nat \<Rightarrow> checkpoint_t \<times> nat \<Rightarrow> (checkpoint_t \<times> nat) option" where
  "repair_step r rf i = (\<lambda>(cp, cnt). do {
     visible \<leftarrow> cp_get_visible r cp i;
     if \<not> visible then do {
       cp1 \<leftarrow> cp_set_valid r i False cp;
       cp2 \<leftarrow> cp_set_data_valid rf i False cp1;
       Some (cp2, cnt) }
     else do {
       cp1 \<leftarrow> cp_set_data_valid rf i True cp;
       Some (cp1, cnt + 1) } })"

definition repair_checkpoint :: "rat \<Rightarrow> phy_regfile_item_t regfile \<Rightarrow> rob_item_t \<Rightarrow> checkpoint_t \<Rightarrow> checkpoint_t option" where
  "repair_checkpoint r rf it cp = do {
     cp1 \<leftarrow> (if rob_old_phy_reg_id_valid it then cp_release_map r (rob_old_phy_reg_id it) cp else Some cp);
     (cp2, cnt) \<leftarrow> drain (repair_step r rf) [0..<PHY_REG_NUM] (cp1, 0);
     assert_that (cnt = 31);
     Some cp2 }"

definition commit_miss :: "rob_item_t \<Rightarrow> commit_loop \<Rightarrow> commit_loop option" where
  "commit_miss it s = do {
     let s1 = s \<lparr> cm_perf := branch_miss_add (cm_perf s) \<rparr>;
     bp1 \<leftarrow> bp_update_prediction (rob_pc it) (rob_inst_value it) (rob_bru_jump it) (rob_bru_next_pc it) False (cm_branch_predictor s1);
     cp0 \<leftarrow> cpbuf_get_item (cm_checkpoint_buffer s1) (rob_checkpoint_id it);
     cp \<leftarrow> repair_checkpoint (cm_rat s1) (cm_phy_regfile s1) it cp0;
     Some (s1 \<lparr> cm_branch_predictor := bp1, cm_rat := rat_restore_sync cp (cm_rat s1),
       cm_phy_regfile := regfile_restore_sync cp (cm_phy_regfile s1),
       cl_feedback := (cl_feedback s1) \<lparr> cf_enable := True, cf_flush := True, cf_jump_enable := True,
         cf_jump := rob_bru_jump it, cf_next_pc := commit_next_pc it \<rparr>,
       cm_rob := fifo_flush (cm_rob s1), cm_checkpoint_buffer := fifo_flush (cm_checkpoint_buffer s1),
       cl_need_flush := True \<rparr>) }"

text \<open>A branch always ends the retiring of the cycle.\<close>

definition commit_branch :: "rob_item_t \<Rightarrow> commit_loop \<Rightarrow> commit_loop option" where
  "commit_branch it s = do {
     s1 \<leftarrow> commit_mret it (s \<lparr> cm_perf := branch_num_add (cm_perf s) \<rparr>);
     if rob_predicted it then do {
       let s2 = s1 \<lparr> cm_perf := branch_predicted_add (cm_perf s1) \<rparr>;
       if prediction_hit it then do {
         bp1 \<leftarrow> bp_update_prediction (rob_pc it) (rob_inst_value it) (rob_bru_jump it) (rob_bru_next_pc it) True (cm_branch_predictor s2);
         Some (s2 \<lparr> cm_perf := branch_hit_add (cm_perf s2), cm_branch_predictor := bp1,
           cm_checkpoint_buffer := cpbuf_pop_sync (cm_checkpoint_buffer s2) \<rparr>) }
       else if rob_checkpoint_id_valid it then commit_miss it s2
       else None }
     else Some (s1 \<lparr> cl_feedback := (cl_feedback s1) \<lparr> cf_enable := True, cf_jump_enable := True,
         cf_jump := rob_bru_jump it, cf_next_pc := commit_next_pc it \<rparr> \<rparr>) }"

definition commit_step :: "nat \<Rightarrow> nat \<Rightarrow> commit_loop \<Rightarrow> (bool \<times> commit_loop) option" where
  "commit_step first_id i s = do {
     it \<leftarrow> rob_get_item (cm_rob s) (cm_rob_item_id s);
     let s1 = s \<lparr> cm_rob_item := it \<rparr>;
     if rob_finish it then do {
       (ok, n) \<leftarrow> rob_get_next_id (cm_rob s1) (cm_rob_item_id s1);
       let fb = cl_feedback s1;
       let s2 = s1 \<lparr> cl_feedback := fb \<lparr> cf_next_handle_rob_id := n, cf_next_handle_rob_id_valid := ok \<and> n \<noteq> first_id,
         cf_committed_rob_id_valid := (cf_committed_rob_id_valid fb)[i := True],
         cf_committed_rob_id := (cf_committed_rob_id fb)[i := cm_rob_item_id s1] \<rparr> \<rparr>;
       if rob_has_exception it then do {
         tail_id \<leftarrow> rob_get_tail_id (cm_rob s2);
         Some (True, s2 \<lparr> cm_restore_rob_item_id := tail_id, cm_cur_state := St_flush, cl_need_flush := True,
           cl_feedback := (cl_feedback s2) \<lparr> cf_enable := True, cf_flush := True \<rparr> \<rparr>) }
       else if rob_bru_op it then do {
         s3 \<leftarrow> commit_branch it (commit_retire it s2);
         Some (True, s3) }
       else do {
         let s3 = commit_retire it s2;
         (ok1, n1) \<leftarrow> rob_get_next_id (cm_rob s3) (cm_rob_item_id s3);
         Some (\<not> ok1 \<or> n1 = first_id, s3 \<lparr> cm_rob_item_id := n1 \<rparr>) } }
     else Some (True, s1) }"

definition commit_interrupt :: "riscv_interrupt_t \<Rightarrow> commit_loop \<Rightarrow> commit_loop option" where
  "commit_interrupt cause s = do {
     tail_id \<leftarrow> rob_get_tail_id (cm_rob s);
     Some (s \<lparr> cm_interrupt_id := cause, cm_interrupt_pc := rob_pc (cm_rob_item s), cm_restore_rob_item_id := tail_id,
       cm_cur_state := St_interrupt_flush, cl_need_flush := True,
       cl_feedback := (cl_feedback s) \<lparr> cf_enable := True, cf_flush := True \<rparr> \<rparr>) }"

definition commit_output :: "commit_loop \<Rightarrow> commit_loop option" where
  "commit_output s =
     (if \<not> fifo_is_empty (cm_rob s) then do {
        first_id \<leftarrow> rob_get_front_id (cm_rob s);
        it \<leftarrow> rob_get_item (cm_rob s) first_id;
        let s1 = s \<lparr> cm_rob_item_id := first_id, cm_rob_item := it,
          cl_feedback := (cl_feedback s) \<lparr> cf_enable := True, cf_next_handle_rob_id := first_id, cf_next_handle_rob_id_valid := True \<rparr> \<rparr>;
        cause \<leftarrow> intif_get_cause (cm_csr_file s1) (cm_interrupt_interface s1);
        case cause of
          Some c \<Rightarrow> commit_interrupt c s1
        | None \<Rightarrow> for_break (commit_step first_id) [0..<COMMIT_WIDTH] s1 }
      else Some s)"

subsection \<open>Input\<close>

definition commit_finish :: "wb_commit_op_info_t \<Rightarrow> rob_item_t \<Rightarrow> rob_item_t" where
  "commit_finish p it = it \<lparr> rob_finish := True, rob_has_exception := o_has_exception p, rob_exception_id := o_exception_id p,
     rob_exception_value := o_exception_value p, rob_predicted := o_predicted p, rob_predicted_jump := o_predicted_jump p,
     rob_predicted_next_pc := o_predicted_next_pc p, rob_checkpoint_id_valid := o_checkpoint_id_valid p,
     rob_checkpoint_id := o_checkpoint_id p, rob_bru_op := (o_op_unit p = Unit_bru), rob_bru_jump := o_bru_jump p,
     rob_bru_next_pc := o_bru_next_pc p, rob_csr_newvalue := o_csr_newvalue p, rob_csr_newvalue_valid := o_csr_newvalue_valid p \<rparr>"

definition commit_input_step :: "wb_commit_op_info_t \<Rightarrow> rob \<Rightarrow> rob option" where
  "commit_input_step p q =
     (if o_enable p then do {
        it \<leftarrow> rob_get_item q (o_rob_id p);
        Some (rob_set_item_sync (o_rob_id p) (commit_finish p it) q) }
      else Some q)"

subsection \<open>Walking back\<close>

text \<open>The part of the two flush states that is the same: undo the rename of one entry and step to the previous one. The
  flag says that another entry is to come.\<close>

definition commit_walk_back :: "commit_state \<Rightarrow> (bool \<times> commit_state) option" where
  "commit_walk_back s = do {
     it \<leftarrow> rob_get_item (cm_rob s) (cm_restore_rob_item_id s);
     let s1 = (if rob_old_phy_reg_id_valid it then s
         \<lparr> cm_rat := rat_restore_map_sync (rob_new_phy_reg_id it) (rob_old_phy_reg_id it) (cm_rat s),
           cm_phy_regfile := regfile_write_sync (rob_new_phy_reg_id it) zero_phy_regfile_item False (cm_phy_regfile s) \<rparr>
       else s);
     (ok, p) \<leftarrow> rob_get_prev_id (cm_rob s1) (cm_restore_rob_item_id s1);
     Some (if cm_restore_rob_item_id s1 \<noteq> cm_rob_item_id s1
       then (ok, s1 \<lparr> cm_restore_rob_item_id := p \<rparr>) else (False, s1)) }"

text \<open>The end of a flush: the trap registers, the way to the handler.\<close>

definition commit_trap :: "u32 \<Rightarrow> u32 \<Rightarrow> u32 \<Rightarrow> commit_state \<Rightarrow> commit_state" where
  "commit_trap mepc mtval mcause s = s \<lparr> cm_csr_file := csrfile_write_sys_sync CSR_MCAUSE mcause
     (csrfile_write_sys_sync CSR_MTVAL mtval (csrfile_write_sys_sync CSR_MEPC mepc (cm_csr_file s))) \<rparr>"

definition commit_flushed :: "commit_state \<Rightarrow> commit_state" where
  "commit_flushed s = s \<lparr> cm_rob := rob_add_commit_num 1 (rob_set_committed True (fifo_flush (cm_rob s))), cm_cur_state := St_normal \<rparr>"

definition flush_feedback :: commit_feedback_pack_t where
  "flush_feedback = zero_commit_feedback \<lparr> cf_enable := True, cf_flush := True \<rparr>"

definition commit_run_flush :: "commit_state \<Rightarrow> (commit_feedback_pack_t \<times> commit_state) option" where
  "commit_run_flush s = do {
     (more, s1) \<leftarrow> commit_walk_back s;
     if more then Some (flush_feedback, s1)
     else do {
       let it = cm_rob_item s1;
       exception_pc \<leftarrow> csrfile_read_sys (cm_csr_file s1) CSR_MTVEC;
       Some (flush_feedback \<lparr> cf_has_exception := True, cf_exception_pc := exception_pc \<rparr>,
         commit_flushed (commit_trap (rob_pc it) (rob_exception_value it) (exception_code (rob_exception_id it)) s1)) } }"

definition commit_run_interrupt_flush :: "commit_state \<Rightarrow> (commit_feedback_pack_t \<times> commit_state) option" where
  "commit_run_interrupt_flush s = do {
     (more, s1) \<leftarrow> commit_walk_back s;
     if more then Some (flush_feedback, s1)
     else do {
       let s2 = commit_trap (cm_interrupt_pc s1) 0 (0x80000000 OR interrupt_code (cm_interrupt_id s1)) s1;
       v \<leftarrow> csrfile_read_sys (cm_csr_file s2) CSR_MSTATUS;
       let mstatus = csr_load v mstatus_new;
       let mstatus1 = mstatus_set_mie False (mstatus_set_mpie (mstatus_get_mie mstatus) mstatus);
       let s3 = s2 \<lparr> cm_csr_file := csrfile_write_sys_sync CSR_MSTATUS (csr_get_value mstatus1) (cm_csr_file s2),
         cm_interrupt_interface := intif_set_ack_sync (cm_interrupt_id s2) (cm_interrupt_interface s2) \<rparr>;
       exception_pc \<leftarrow> csrfile_read_sys (cm_csr_file s3) CSR_MTVEC;
       Some (flush_feedback \<lparr> cf_has_exception := True, cf_exception_pc := exception_pc \<rparr>, commit_flushed s3) } }"

subsection \<open>The cycle\<close>

definition commit_run_normal :: "commit_state \<Rightarrow> (commit_feedback_pack_t \<times> commit_state) option" where
  "commit_run_normal s = do {
     l \<leftarrow> commit_output (commit_state.extend s (commit_loop.fields zero_commit_feedback False));
     let s1 = commit_state.truncate l;
     rob1 \<leftarrow> (if \<not> cl_need_flush l then drain commit_input_step (port_get (cm_wb_commit_port s1)) (cm_rob s1) else Some (cm_rob s1));
     Some (cl_feedback l, s1 \<lparr> cm_rob := rob1 \<rparr>) }"

definition commit_run :: "commit_state \<Rightarrow> (commit_feedback_pack_t \<times> commit_state) option" where
  "commit_run s =
     (case cm_cur_state s of
        St_normal \<Rightarrow> commit_run_normal s
      | St_flush \<Rightarrow> commit_run_flush s
      | St_interrupt_flush \<Rightarrow> commit_run_interrupt_flush s)"

end
