(* ===== verification/Commit_Flush.thy ===== *)
theory Commit_Flush
  imports Commit
begin

text \<open>
  Exceptions and interrupts. The commit stage undoes the renames of the instructions from the tail of the reorder buffer
  back to the trapping one, one per cycle. The cycles of a flush are followed here as a sequence of \<open>run\<close> and of the
  alias table's \<open>sync\<close>, the one end-of-cycle step that the walk depends on: after as many cycles as there are
  instructions to undo the stage is back in its normal state and the alias table is the one from before their renames.
\<close>

fun flush_cycles :: "nat \<Rightarrow> commit_state \<Rightarrow> (commit_feedback_pack_t list \<times> commit_state) option" where
  "flush_cycles 0 s = Some ([], s)"
| "flush_cycles (Suc n) s = do {
     (fb, s1) \<leftarrow> commit_run s;
     r \<leftarrow> rat_sync (cm_rat s1);
     (fbs, s2) \<leftarrow> flush_cycles n (s1 \<lparr> cm_rat := r \<rparr>);
     Some (fb # fbs, s2) }"

text \<open>The (new, old) pairs of the renames that entries of the reorder buffer record.\<close>

definition undo_log :: "rob_item_t list \<Rightarrow> (nat \<times> nat) list" where
  "undo_log its = map (\<lambda>it. (rob_new_phy_reg_id it, rob_old_phy_reg_id it)) (filter rob_old_phy_reg_id_valid its)"

lemma undo_log_simps [simp]:
  "undo_log [] = []" "undo_log (its @ [it]) = undo_log its @ (if rob_old_phy_reg_id_valid it then [(rob_new_phy_reg_id it, rob_old_phy_reg_id it)] else [])"
  by (simp_all add: undo_log_def)

text \<open>The stage is flushing and stands at entry \<open>e + m\<close>; entry \<open>e\<close> is the last one to undo.\<close>

definition flushing_at :: "commit_state \<Rightarrow> nat \<Rightarrow> nat \<Rightarrow> bool" where
  "flushing_at s e m \<longleftrightarrow> fifo_ring (cm_rob s) \<and> e + m < fifo_fill (cm_rob s) \<and>
     cm_rob_item_id s = fifo_ids (cm_rob s) ! e \<and> cm_restore_rob_item_id s = fifo_ids (cm_rob s) ! (e + m) \<and>
     cm_rob_item s = fifo_contents (cm_rob s) ! e \<and> rat_sync_request_q (cm_rat s) = []"

lemma rat_sync_undo:
  assumes "rat_sync_request_q r = []"
  shows "rat_sync (rat_restore_map_sync p q r) = rat_restore_map p q r" "rat_sync r = Some r"
  using assms drain_snoc [of rat_handle "[]" "Rat_restore_map p q" r]
  by (cases r, simp add: rat_sync_def rat_restore_map_sync_def)+

lemma rat_restore_map_queue:
  "rat_restore_map p q r = Some t \<Longrightarrow> rat_sync_request_q t = rat_sync_request_q r"
  by (auto simp: rat_restore_map_def bind_eq_Some_conv rat_set_valid_def rat_set_visible_def Let_def)

lemma rob_item_at:
  assumes "fifo_ring q" "i < fifo_fill q"
  shows "rob_get_item q (fifo_ids q ! i) = Some (fifo_contents q ! i)"
  using assms fifo_ring_size [OF assms(1)] by (simp add: rob_get_item_def contents_nth ids_nth)

lemma commit_walk_back_item:
  assumes "flushing_at s e m"
  defines "it \<equiv> fifo_contents (cm_rob s) ! (e + m)"
  obtains s1 r where "commit_walk_back s = Some (m \<noteq> 0, s1)"
    "cm_rat s1 = (if rob_old_phy_reg_id_valid it then rat_restore_map_sync (rob_new_phy_reg_id it) (rob_old_phy_reg_id it) (cm_rat s) else cm_rat s)"
    "cm_rob s1 = cm_rob s" "cm_rob_item_id s1 = cm_rob_item_id s" "cm_rob_item s1 = cm_rob_item s" "cm_cur_state s1 = cm_cur_state s"
    "cm_csr_file s1 = cm_csr_file s" "cm_interrupt_pc s1 = cm_interrupt_pc s" "cm_interrupt_id s1 = cm_interrupt_id s"
    "cm_interrupt_interface s1 = cm_interrupt_interface s"
    "m \<noteq> 0 \<Longrightarrow> cm_restore_rob_item_id s1 = fifo_ids (cm_rob s) ! (e + m - 1)"
proof -
  note f = assms(1) [unfolded flushing_at_def]
  have item: "rob_get_item (cm_rob s) (cm_restore_rob_item_id s) = Some it"
    using f rob_item_at [of "cm_rob s" "e + m"] by (simp add: it_def)
  have same: "cm_restore_rob_item_id s = cm_rob_item_id s \<longleftrightarrow> m = 0"
    using f ids_distinct [of "cm_rob s"] by (auto simp: nth_eq_iff_index_eq)
  have "cm_restore_rob_item_id s \<in> set (fifo_ids (cm_rob s))" using f by simp
  then obtain b p where prev: "rob_get_prev_id (cm_rob s) (cm_restore_rob_item_id s) = Some (b, p)"
    using f rob_slots.valid_iff [of "cm_rob s"] by (simp add: rob_get_prev_id_def Let_def)
  have more: "b \<and> p = fifo_ids (cm_rob s) ! (e + m - 1)" if "m \<noteq> 0"
    using that f prev rob_get_prev_id_nth [of "cm_rob s" "e + m - 1"] by simp
  let ?u = "if rob_old_phy_reg_id_valid it then s
     \<lparr> cm_rat := rat_restore_map_sync (rob_new_phy_reg_id it) (rob_old_phy_reg_id it) (cm_rat s),
       cm_phy_regfile := regfile_write_sync (rob_new_phy_reg_id it) zero_phy_regfile_item False (cm_phy_regfile s) \<rparr> else s"
  let ?s1 = "if m \<noteq> 0 then ?u \<lparr> cm_restore_rob_item_id := p \<rparr> else ?u"
  have u: "cm_rob ?u = cm_rob s" "cm_restore_rob_item_id ?u = cm_restore_rob_item_id s" "cm_rob_item_id ?u = cm_rob_item_id s" by simp_all
  have "commit_walk_back s = Some (m \<noteq> 0, ?s1)"
    unfolding commit_walk_back_def item Let_def using prev same more by (simp add: u split del: if_split) auto
  then show thesis by (rule that) (use more in simp_all)
qed

lemma flush_cycles_walk:
  assumes "flushing_at s e m" "cm_cur_state s = St_flush \<or> cm_cur_state s = St_interrupt_flush"
    "rollback (rev (undo_log (take (Suc m) (drop e (fifo_contents (cm_rob s)))))) (cm_rat s) = Some t"
  shows "\<exists>s1. flush_cycles m s = Some (replicate m flush_feedback, s1) \<and> flushing_at s1 e 0 \<and>
    cm_rob s1 = cm_rob s \<and> cm_cur_state s1 = cm_cur_state s \<and> cm_csr_file s1 = cm_csr_file s \<and>
    cm_interrupt_pc s1 = cm_interrupt_pc s \<and> cm_interrupt_id s1 = cm_interrupt_id s \<and>
    cm_interrupt_interface s1 = cm_interrupt_interface s \<and>
    rollback (rev (undo_log [fifo_contents (cm_rob s) ! e])) (cm_rat s1) = Some t"
  using assms
proof (induction m arbitrary: s)
  case 0
  then have "take (Suc 0) (drop e (fifo_contents (cm_rob s))) = [fifo_contents (cm_rob s) ! e]"
    by (simp add: flushing_at_def take_Suc_conv_app_nth)
  with 0 show ?case by simp
next
  case (Suc m)
  note f = Suc.prems(1) [unfolded flushing_at_def]
  let ?it = "fifo_contents (cm_rob s) ! (e + Suc m)"
  let ?its = "take (Suc m) (drop e (fifo_contents (cm_rob s)))"
  have its: "take (Suc (Suc m)) (drop e (fifo_contents (cm_rob s))) = ?its @ [?it]"
    using f by (subst take_Suc_conv_app_nth) auto
  obtain s1 where w: "commit_walk_back s = Some (True, s1)"
    "cm_rat s1 = (if rob_old_phy_reg_id_valid ?it then rat_restore_map_sync (rob_new_phy_reg_id ?it) (rob_old_phy_reg_id ?it) (cm_rat s) else cm_rat s)"
    "cm_rob s1 = cm_rob s" "cm_rob_item_id s1 = cm_rob_item_id s" "cm_rob_item s1 = cm_rob_item s" "cm_cur_state s1 = cm_cur_state s"
    "cm_csr_file s1 = cm_csr_file s" "cm_interrupt_pc s1 = cm_interrupt_pc s" "cm_interrupt_id s1 = cm_interrupt_id s"
    "cm_interrupt_interface s1 = cm_interrupt_interface s"
    "cm_restore_rob_item_id s1 = fifo_ids (cm_rob s) ! (e + m)"
    by (rule commit_walk_back_item [OF Suc.prems(1)]) auto
  have run: "commit_run s = Some (flush_feedback, s1)"
    using Suc.prems(2) w(1) by (auto simp: commit_run_def commit_run_flush_def commit_run_interrupt_flush_def)
  have "rollback (rev (undo_log (?its @ [?it]))) (cm_rat s) = Some t" using Suc.prems(3) its by simp
  then obtain r where r: "rat_sync (cm_rat s1) = Some r" "rollback (rev (undo_log ?its)) r = Some t" "rat_sync_request_q r = []"
    using f w(2) rat_sync_undo [of "cm_rat s"] rat_restore_map_queue [of _ _ "cm_rat s"]
    by (auto simp: rollback_def bind_eq_Some_conv split: if_splits)
  let ?s = "s1 \<lparr> cm_rat := r \<rparr>"
  have "flushing_at ?s e m" using f w r(3) by (simp add: flushing_at_def)
  moreover have "cm_cur_state ?s = St_flush \<or> cm_cur_state ?s = St_interrupt_flush" using Suc.prems(2) w(6) by simp
  moreover have "rollback (rev (undo_log (take (Suc m) (drop e (fifo_contents (cm_rob ?s)))))) (cm_rat ?s) = Some t"
    using r(2) w(3) by simp
  ultimately have "\<exists>s2. flush_cycles m ?s = Some (replicate m flush_feedback, s2) \<and> flushing_at s2 e 0 \<and>
    cm_rob s2 = cm_rob ?s \<and> cm_cur_state s2 = cm_cur_state ?s \<and> cm_csr_file s2 = cm_csr_file ?s \<and>
    cm_interrupt_pc s2 = cm_interrupt_pc ?s \<and> cm_interrupt_id s2 = cm_interrupt_id ?s \<and>
    cm_interrupt_interface s2 = cm_interrupt_interface ?s \<and>
    rollback (rev (undo_log [fifo_contents (cm_rob ?s) ! e])) (cm_rat s2) = Some t"
    by (rule Suc.IH)
  then show ?case using run r(1) w by auto
qed

text \<open>The last cycle: the trap registers are written, the reorder buffer is emptied, the fetch stage is redirected.\<close>

definition trap_requests :: "u32 \<Rightarrow> u32 \<Rightarrow> u32 \<Rightarrow> csr_request list" where
  "trap_requests mepc mtval mcause = [Csr_write_sys CSR_MEPC mepc, Csr_write_sys CSR_MTVAL mtval, Csr_write_sys CSR_MCAUSE mcause]"

definition trap_feedback :: "u32 \<Rightarrow> commit_feedback_pack_t" where
  "trap_feedback h = flush_feedback \<lparr> cf_has_exception := True, cf_exception_pc := h \<rparr>"

definition flushed :: "commit_state \<Rightarrow> rat \<Rightarrow> csr_request list \<Rightarrow> commit_state \<Rightarrow> bool" where
  "flushed s r reqs s1 \<longleftrightarrow> cm_cur_state s1 = St_normal \<and> fifo_contents (cm_rob s1) = [] \<and> cm_rat s1 = r \<and>
     csr_sync_request_q (cm_csr_file s1) = csr_sync_request_q (cm_csr_file s) @ reqs"

lemma rob_contents_add [simp]: "fifo_contents (rob_add_commit_num n (rob_set_committed b q)) = fifo_contents q"
  by (simp add: rob_add_commit_num_def rob_set_committed_def fifo_contents_def fifo_ids_def fifo_fill_def)

lemma last_cycle_rat:
  assumes "flushing_at s e 0" "rollback (rev (undo_log [fifo_contents (cm_rob s) ! e])) (cm_rat s) = Some t"
    "cm_rat s1 = (if rob_old_phy_reg_id_valid (fifo_contents (cm_rob s) ! e) then rat_restore_map_sync
       (rob_new_phy_reg_id (fifo_contents (cm_rob s) ! e)) (rob_old_phy_reg_id (fifo_contents (cm_rob s) ! e)) (cm_rat s) else cm_rat s)"
  shows "rat_sync (cm_rat s1) = Some t"
  using assms rat_sync_undo [of "cm_rat s"]
  by (auto simp: flushing_at_def rollback_def undo_log_def bind_eq_Some_conv split: if_splits)

lemma exception_last_cycle:
  assumes "flushing_at s e 0" "cm_cur_state s = St_flush" "csrfile_read_sys (cm_csr_file s) CSR_MTVEC = Some h"
    "rollback (rev (undo_log [fifo_contents (cm_rob s) ! e])) (cm_rat s) = Some t"
  defines "it \<equiv> fifo_contents (cm_rob s) ! e"
  shows "\<exists>s1. flush_cycles 1 s = Some ([trap_feedback h], s1) \<and>
    flushed s t (trap_requests (rob_pc it) (rob_exception_value it) (exception_code (rob_exception_id it))) s1"
proof -
  obtain s1 where w: "commit_walk_back s = Some (False, s1)"
    "cm_rat s1 = (if rob_old_phy_reg_id_valid it then rat_restore_map_sync (rob_new_phy_reg_id it) (rob_old_phy_reg_id it) (cm_rat s) else cm_rat s)"
    "cm_rob s1 = cm_rob s" "cm_rob_item s1 = cm_rob_item s" "cm_csr_file s1 = cm_csr_file s"
    unfolding it_def by (rule commit_walk_back_item [OF assms(1)]) auto
  note f = assms(1) [unfolded flushing_at_def]
  have "rat_sync (cm_rat s1) = Some t" by (rule last_cycle_rat [OF assms(1,4) w(2) [unfolded it_def]])
  moreover have "fifo_contents (fifo_flush (cm_rob s)) = []" using f flush_ring [of "cm_rob s"] by simp
  moreover have "cm_rob_item s = it" using f by (simp add: it_def)
  ultimately show ?thesis
    using assms(2,3) w by (simp add: commit_run_def commit_run_flush_def Let_def trap_feedback_def commit_flushed_def commit_trap_def
        flushed_def csrfile_write_sys_sync_def trap_requests_def)
qed

lemma interrupt_last_cycle:
  assumes "flushing_at s e 0" "cm_cur_state s = St_interrupt_flush" "csrfile_read_sys (cm_csr_file s) CSR_MTVEC = Some h"
    "csrfile_read_sys (cm_csr_file s) CSR_MSTATUS = Some v"
    "rollback (rev (undo_log [fifo_contents (cm_rob s) ! e])) (cm_rat s) = Some t"
  shows "\<exists>s1. flush_cycles 1 s = Some ([trap_feedback h], s1) \<and>
    flushed s t (trap_requests (cm_interrupt_pc s) 0 (0x80000000 OR interrupt_code (cm_interrupt_id s)) @
      [Csr_write_sys CSR_MSTATUS (csr_get_value (mstatus_set_mie False (mstatus_set_mpie (mstatus_get_mie (csr_load v mstatus_new)) (csr_load v mstatus_new))))]) s1 \<and>
    intif_sync_request_q (cm_interrupt_interface s1) = intif_sync_request_q (cm_interrupt_interface s) @ [Set_ack (cm_interrupt_id s)]"
proof -
  let ?it = "fifo_contents (cm_rob s) ! e"
  obtain s1 where w: "commit_walk_back s = Some (False, s1)"
    "cm_rat s1 = (if rob_old_phy_reg_id_valid ?it then rat_restore_map_sync (rob_new_phy_reg_id ?it) (rob_old_phy_reg_id ?it) (cm_rat s) else cm_rat s)"
    "cm_rob s1 = cm_rob s" "cm_csr_file s1 = cm_csr_file s" "cm_interrupt_pc s1 = cm_interrupt_pc s" "cm_interrupt_id s1 = cm_interrupt_id s"
    "cm_interrupt_interface s1 = cm_interrupt_interface s"
    by (rule commit_walk_back_item [OF assms(1)]) auto
  note f = assms(1) [unfolded flushing_at_def]
  have "rat_sync (cm_rat s1) = Some t" by (rule last_cycle_rat [OF assms(1,5) w(2)])
  moreover have "fifo_contents (fifo_flush (cm_rob s)) = []" using f flush_ring [of "cm_rob s"] by simp
  moreover have "csrfile_read_sys (f1 \<lparr> csr_sync_request_q := x \<rparr>) a = csrfile_read_sys f1 a" for f1 x a
    by (simp add: csrfile_read_sys_def split: option.splits)
  ultimately show ?thesis
    using assms(2-4) w by (simp add: commit_run_def commit_run_interrupt_flush_def Let_def trap_feedback_def commit_flushed_def commit_trap_def
        flushed_def csrfile_write_sys_sync_def trap_requests_def intif_set_ack_sync_def)
qed

lemma flush_cycles_add:
  "flush_cycles (m + n) s = do { (fbs, s1) \<leftarrow> flush_cycles m s; (fbs1, s2) \<leftarrow> flush_cycles n s1; Some (fbs @ fbs1, s2) }"
  by (induction m arbitrary: s) (auto simp: case_prod_unfold Let_def split: bind_split)

subsection \<open>Properties\<close>

lemma flush_undoes:
  assumes "rat_total r0" "rename_ok r0 xs" "rename_all xs r0 = Some (log, r)"
  obtains t where "rollback (rev log) r = Some t" "rat_same r0 t" "\<And>a. rat_get_phy_id t a = rat_get_phy_id r0 a"
proof -
  from rename_all_rollback [OF assms(1,2)] assms(3) obtain t where t: "rollback (rev log) r = Some t" "rat_same r0 t" by auto
  from that [OF t rat_same_lookup [OF t(2)]] assms(1) show thesis by auto
qed

text \<open>C8: Exceptions are precise. From the cycle after commit met a finished instruction with an exception, it takes exactly
  one cycle per entry from the tail of the reorder buffer back to that instruction, all of them flushing the pipeline.
  Then the stage is back in its normal state with an empty reorder buffer, every register has the name it had before
  the instruction was renamed, the trap registers are to be written with its address, value and cause, and the fetch
  stage is sent to the handler.\<close>

theorem exception_flush_precise:
  assumes "cm_cur_state s = St_flush" "flushing_at s e m" "Suc (e + m) = fifo_fill (cm_rob s)"
    "csrfile_read_sys (cm_csr_file s) CSR_MTVEC = Some h" "rat_total r0" "rename_ok r0 xs"
    "rename_all xs r0 = Some (undo_log (drop e (fifo_contents (cm_rob s))), cm_rat s)"
  shows "\<exists>s1. flush_cycles (Suc m) s = Some (replicate m flush_feedback @ [trap_feedback h], s1) \<and>
    cm_cur_state s1 = St_normal \<and> fifo_contents (cm_rob s1) = [] \<and> rat_same r0 (cm_rat s1) \<and>
    (\<forall>a. rat_get_phy_id (cm_rat s1) a = rat_get_phy_id r0 a) \<and>
    csr_sync_request_q (cm_csr_file s1) = csr_sync_request_q (cm_csr_file s) @
      trap_requests (rob_pc (fifo_contents (cm_rob s) ! e)) (rob_exception_value (fifo_contents (cm_rob s) ! e))
        (exception_code (rob_exception_id (fifo_contents (cm_rob s) ! e)))"
proof -
  have all: "take (Suc m) (drop e (fifo_contents (cm_rob s))) = drop e (fifo_contents (cm_rob s))"
    using assms(3) by simp
  obtain t where t: "rollback (rev (undo_log (drop e (fifo_contents (cm_rob s))))) (cm_rat s) = Some t" "rat_same r0 t"
    "\<And>a. rat_get_phy_id t a = rat_get_phy_id r0 a" by (rule flush_undoes [OF assms(5-7)]) (rule that)
  obtain s1 where s1: "flush_cycles m s = Some (replicate m flush_feedback, s1)" "flushing_at s1 e 0" "cm_rob s1 = cm_rob s"
    "cm_cur_state s1 = cm_cur_state s" "cm_csr_file s1 = cm_csr_file s"
    "rollback (rev (undo_log [fifo_contents (cm_rob s) ! e])) (cm_rat s1) = Some t"
    using flush_cycles_walk [OF assms(2) disjI1 [OF assms(1)]] t(1) unfolding all by blast
  obtain s2 where s2: "flush_cycles 1 s1 = Some ([trap_feedback h], s2)"
    "flushed s1 t (trap_requests (rob_pc (fifo_contents (cm_rob s1) ! e)) (rob_exception_value (fifo_contents (cm_rob s1) ! e))
       (exception_code (rob_exception_id (fifo_contents (cm_rob s1) ! e)))) s2"
    using exception_last_cycle [OF s1(2), of h t] s1(3-6) assms(1,4) by auto
  have "flush_cycles (m + 1) s = Some (replicate m flush_feedback @ [trap_feedback h], s2)"
    unfolding flush_cycles_add using s1(1) s2(1) by (simp del: flush_cycles.simps One_nat_def)
  with s2(2) s1(3,5) t(2,3) show ?thesis by (auto simp: flushed_def)
qed

definition sample_flush_item :: rob_item_t where
  "sample_flush_item = zero_rob_item \<lparr> rob_new_phy_reg_id := 40, rob_old_phy_reg_id := 5, rob_old_phy_reg_id_valid := True,
     rob_finish := True, rob_pc := 0x80000010, rob_has_exception := True, rob_exception_id := illegal_instruction \<rparr>"

definition sample_flush_rob :: rob where
  "sample_flush_rob = snd (fifo_push sample_flush_item (rob_new 4 (replicate 4 zero_rob_item) 0 False))"

definition sample_flush_csrs :: csrfile where
  "sample_flush_csrs = (csrfile_new \<lparr> send_fifo = [], rev_fifo = [] \<rparr>) \<lparr> csr_map_table :=
     [CSR_MTVEC \<mapsto> \<lparr> csr_readonly = False, csr_reg = csr_load 0x80000100 mtvec_new \<rparr>,
      CSR_MIE \<mapsto> \<lparr> csr_readonly = False, csr_reg = mie_new \<rparr>,
      CSR_MSTATUS \<mapsto> \<lparr> csr_readonly = False, csr_reg = csr_load 8 mstatus_new \<rparr>] \<rparr>"

definition sample_flush_state :: "commit_state_t \<Rightarrow> branch_predictor \<Rightarrow> rat \<Rightarrow> commit_state" where
  "sample_flush_state st bp r = \<lparr> cm_wb_commit_port = port_new (replicate EXECUTE_UNIT_NUM zero_execute_wb_pack), cm_rat = r,
     cm_rob = sample_flush_rob, cm_csr_file = sample_flush_csrs, cm_phy_regfile = regfile_new zero_phy_regfile_item 128,
     cm_checkpoint_buffer = cpbuf_new 1 [] 0 False, cm_branch_predictor = bp, cm_interrupt_interface = intif_new, cm_perf = perf_zero,
     cm_cur_state = st, cm_rob_item = sample_flush_item, cm_rob_item_id = 0, cm_restore_rob_item_id = 0,
     cm_interrupt_pc = 0x80000010, cm_interrupt_id = machine_timer \<rparr>"

lemma sample_flush_rob_facts:
  "fifo_ring sample_flush_rob" "fifo_fill sample_flush_rob = 1" "fifo_ids sample_flush_rob = [0]"
  "fifo_contents sample_flush_rob = [sample_flush_item]" "undo_log [sample_flush_item] = [(40, 5)]"
  "csrfile_read_sys sample_flush_csrs CSR_MTVEC = Some 0x80000100" "csrfile_read_sys sample_flush_csrs CSR_MSTATUS = Some 8"
  by code_simp+

lemma sample_flushing: "rat_sync_request_q r = [] \<Longrightarrow> flushing_at (sample_flush_state st bp r) 0 0"
  by (simp add: flushing_at_def sample_flush_state_def sample_flush_rob_facts)

lemma sample_renamed:
  obtains r0 r where "rat_total r0" "rename_ok r0 [(5, 40)]" "rename_all [(5, 40)] r0 = Some ([(40, 5)], r)" "rat_sync_request_q r = []"
    "rat_get_phy_id r0 5 = Some (Some 5)"
proof -
  obtain b where b: "rat_total b" "rat_valids b = {1..<32}" "phy_reg_num b = 128" "arch_reg_num b = 32" "rat_visibles b = {1..<32}"
    "\<forall>i \<in> {1..<32}. phy_map_table b ! i = i" using rat_boot_total [of 128 "[]" "[]" "[]" "[]"] by auto
  let ?r0 = "b \<lparr> rat_sync_request_q := [] \<rparr>"
  have q: "rat_valids ?r0 = rat_valids b" "rat_visibles ?r0 = rat_visibles b" by (simp_all add: rat_sets)
  have r0: "rat_total ?r0" "rat_valids ?r0 = {1..<32}" "rat_visibles ?r0 = {1..<32}"
    using b(1,2,5) unfolding q by (simp_all add: rat_total_def rat_inv_def rat_wf_def q)
  have ok: "rename_ok ?r0 [(5, 40)]" using r0(2) b(3,4) by (simp add: rename_ok_def)
  have five: "rat_get_phy_id ?r0 5 = Some (Some 5)"
    using rat_get_phy_id_iff [of ?r0 5 5] r0 b(4,6) by (simp add: rat_total_inv)
  obtain q s where s: "rat_get_phy_id ?r0 5 = Some (Some q)" "rat_set_map 5 40 ?r0 = Some (Some q, s)" "s = set_map_state 5 40 (Some q) ?r0"
    by (rule rat_set_map_total [OF r0(1), of 40 5]) (use r0(2) b(3,4) that in simp_all)
  have "rename_all [(5, 40)] ?r0 = Some ([(40, 5)], s)" using s five by simp
  moreover have "rat_sync_request_q s = []" unfolding s(3) by (simp add: set_map_state_def)
  ultimately show thesis using that r0(1) ok five by blast
qed

theorem exception_flush_precise_witness:
  "\<exists>bp r s1. flush_cycles 1 (sample_flush_state St_flush bp r) = Some ([trap_feedback 0x80000100], s1) \<and>
     cm_cur_state s1 = St_normal \<and> rat_get_phy_id (cm_rat s1) 5 = Some (Some 5)"
proof -
  obtain r0 r where r: "rat_total r0" "rename_ok r0 [(5, 40)]" "rename_all [(5, 40)] r0 = Some ([(40, 5)], r)" "rat_sync_request_q r = []"
    "rat_get_phy_id r0 5 = Some (Some 5)" by (rule sample_renamed)
  obtain bp :: branch_predictor where True by blast
  let ?s = "sample_flush_state St_flush bp r"
  have s: "cm_cur_state ?s = St_flush" "Suc (0 + 0) = fifo_fill (cm_rob ?s)" "csrfile_read_sys (cm_csr_file ?s) CSR_MTVEC = Some 0x80000100"
    "rename_all [(5, 40)] r0 = Some (undo_log (drop 0 (fifo_contents (cm_rob ?s))), cm_rat ?s)"
    using r(3) by (simp_all add: sample_flush_state_def sample_flush_rob_facts)
  from exception_flush_precise [OF s(1) sample_flushing [OF r(4)] s(2,3) r(1,2) s(4)] obtain s1 where
    "flush_cycles (Suc 0) ?s = Some (replicate 0 flush_feedback @ [trap_feedback 0x80000100], s1)" "cm_cur_state s1 = St_normal"
    "\<forall>a. rat_get_phy_id (cm_rat s1) a = rat_get_phy_id r0 a" by blast
  with r(5) show ?thesis unfolding replicate_0 append_Nil One_nat_def by metis
qed

text \<open>The walk back of an interrupt, from the cycle after it was taken.\<close>

lemma interrupt_walk:
  assumes "cm_cur_state s = St_interrupt_flush" "flushing_at s 0 m" "Suc m = fifo_fill (cm_rob s)"
    "csrfile_read_sys (cm_csr_file s) CSR_MTVEC = Some h" "csrfile_read_sys (cm_csr_file s) CSR_MSTATUS = Some v"
    "rat_total r0" "rename_ok r0 xs" "rename_all xs r0 = Some (undo_log (fifo_contents (cm_rob s)), cm_rat s)"
  shows "\<exists>s1 w. flush_cycles (Suc m) s = Some (replicate m flush_feedback @ [trap_feedback h], s1) \<and>
    cm_cur_state s1 = St_normal \<and> fifo_contents (cm_rob s1) = [] \<and> rat_same r0 (cm_rat s1) \<and>
    (\<forall>a. rat_get_phy_id (cm_rat s1) a = rat_get_phy_id r0 a) \<and>
    csr_sync_request_q (cm_csr_file s1) = csr_sync_request_q (cm_csr_file s) @
      trap_requests (cm_interrupt_pc s) 0 (0x80000000 OR interrupt_code (cm_interrupt_id s)) @ [Csr_write_sys CSR_MSTATUS w] \<and>
    \<not> bit w 3 \<and> (bit w 7 \<longleftrightarrow> bit v 3) \<and>
    intif_sync_request_q (cm_interrupt_interface s1) = intif_sync_request_q (cm_interrupt_interface s) @ [Set_ack (cm_interrupt_id s)]"
proof -
  let ?w = "csr_get_value (mstatus_set_mie False (mstatus_set_mpie (mstatus_get_mie (csr_load v mstatus_new)) (csr_load v mstatus_new)))"
  have w: "\<not> bit ?w 3" "bit ?w 7 \<longleftrightarrow> bit v 3"
    using and_single_bit [of v 3]
    by (simp_all add: csr_get_value_def mstatus_set_mie_def mstatus_set_mpie_def mstatus_get_mie_def csr_setbit_def csr_getbit_def
        csr_load_def mstatus_new_def csr_base_new_def mstatus_filter_def bit_simps bit_numeral_rec and_single_bit)
  have all: "take (Suc m) (drop 0 (fifo_contents (cm_rob s))) = fifo_contents (cm_rob s)"
    using assms(3) by simp
  obtain t where t: "rollback (rev (undo_log (fifo_contents (cm_rob s)))) (cm_rat s) = Some t" "rat_same r0 t"
    "\<And>a. rat_get_phy_id t a = rat_get_phy_id r0 a" by (rule flush_undoes [OF assms(6-8)]) (rule that)
  obtain s1 where s1: "flush_cycles m s = Some (replicate m flush_feedback, s1)" "flushing_at s1 0 0" "cm_rob s1 = cm_rob s"
    "cm_cur_state s1 = cm_cur_state s" "cm_csr_file s1 = cm_csr_file s" "cm_interrupt_pc s1 = cm_interrupt_pc s"
    "cm_interrupt_id s1 = cm_interrupt_id s" "cm_interrupt_interface s1 = cm_interrupt_interface s"
    "rollback (rev (undo_log [fifo_contents (cm_rob s) ! 0])) (cm_rat s1) = Some t"
    using flush_cycles_walk [OF assms(2) disjI2 [OF assms(1)]] t(1) unfolding all by blast
  obtain s2 where s2: "flush_cycles 1 s1 = Some ([trap_feedback h], s2)"
    "flushed s1 t (trap_requests (cm_interrupt_pc s1) 0 (0x80000000 OR interrupt_code (cm_interrupt_id s1)) @ [Csr_write_sys CSR_MSTATUS ?w]) s2"
    "intif_sync_request_q (cm_interrupt_interface s2) = intif_sync_request_q (cm_interrupt_interface s1) @ [Set_ack (cm_interrupt_id s1)]"
    using interrupt_last_cycle [OF s1(2), of h v t] s1(3-9) assms(1,4,5) by auto
  have "flush_cycles (m + 1) s = Some (replicate m flush_feedback @ [trap_feedback h], s2)"
    unfolding flush_cycles_add using s1(1) s2(1) by (simp del: flush_cycles.simps One_nat_def)
  with s2(2,3) s1(3,5-8) t(2,3) w show ?thesis by (intro exI [of _ s2] exI [of _ ?w]) (auto simp: flushed_def)
qed

text \<open>The cycle that takes an interrupt retires nothing and turns to the oldest entry.\<close>

definition interrupt_feedback :: "nat \<Rightarrow> commit_feedback_pack_t" where
  "interrupt_feedback i = flush_feedback \<lparr> cf_next_handle_rob_id := i, cf_next_handle_rob_id_valid := True \<rparr>"

definition interrupted :: "riscv_interrupt_t \<Rightarrow> commit_state \<Rightarrow> commit_state" where
  "interrupted c s = s \<lparr> cm_cur_state := St_interrupt_flush, cm_rob_item := hd (fifo_contents (cm_rob s)), cm_rob_item_id := hd (fifo_ids (cm_rob s)),
     cm_restore_rob_item_id := last (fifo_ids (cm_rob s)), cm_interrupt_pc := rob_pc (hd (fifo_contents (cm_rob s))), cm_interrupt_id := c \<rparr>"

lemma interrupt_entry:
  assumes "cm_cur_state s = St_normal" "fifo_ring (cm_rob s)" "fifo_contents (cm_rob s) \<noteq> []" "rat_sync_request_q (cm_rat s) = []"
    and "intif_get_cause (cm_csr_file s) (cm_interrupt_interface s) = Some (Some c)"
  shows "commit_run s = Some (interrupt_feedback (hd (fifo_ids (cm_rob s))), interrupted c s)"
    and "flushing_at (interrupted c s) 0 (fifo_fill (cm_rob s) - 1)"
    and "flush_cycles (Suc n) s = do { (fbs, s1) \<leftarrow> flush_cycles n (interrupted c s); Some (interrupt_feedback (hd (fifo_ids (cm_rob s))) # fbs, s1) }"
proof -
  let ?q = "cm_rob s"
  have fill: "0 < fifo_fill ?q" using assms(3) by (simp flip: length_greater_0_conv)
  then have ids: "fifo_ids ?q \<noteq> []" by (simp flip: length_greater_0_conv)
  have front: "rob_get_front_id ?q = Some (hd (fifo_ids ?q))" "\<not> fifo_is_empty ?q" "rob_get_tail_id ?q = Some (last (fifo_ids ?q))"
    using rob_slots.front_id_hd [OF assms(2)] ids is_empty_fill [OF assms(2)] fill rob_get_tail_id_last [OF assms(2) ids] by simp_all
  have item: "rob_get_item ?q (hd (fifo_ids ?q)) = Some (hd (fifo_contents ?q))"
    using rob_item_at [OF assms(2) fill] ids assms(3) by (simp add: hd_conv_nth)
  show run: "commit_run s = Some (interrupt_feedback (hd (fifo_ids ?q)), interrupted c s)"
    using assms(1,5) front item
    by (simp add: commit_run_def commit_run_normal_def commit_output_def commit_interrupt_def commit_state.defs commit_loop.defs
      interrupted_def interrupt_feedback_def flush_feedback_def zero_commit_feedback_def Let_def)
  show "flushing_at (interrupted c s) 0 (fifo_fill ?q - 1)"
    using assms(2-4) fill ids by (simp add: flushing_at_def interrupted_def hd_conv_nth last_conv_nth)
  have "rat_sync (cm_rat s) = Some (cm_rat s)" using rat_sync_undo(2) [OF assms(4)] .
  then show "flush_cycles (Suc n) s = do { (fbs, s1) \<leftarrow> flush_cycles n (interrupted c s); Some (interrupt_feedback (hd (fifo_ids ?q)) # fbs, s1) }"
    using run by (simp add: interrupted_def)
qed

text \<open>C9: Interrupts are precise. When an interrupt is pending and enabled, the cycle of the normal state retires nothing and starts a
  flush; it then takes exactly one cycle per entry of the reorder buffer to undo all of them. Then the stage is back in its normal
  state with an empty reorder buffer, every register has the name it had before the oldest instruction was renamed, the trap registers
  are to be written with the address of that oldest instruction and the cause with the interrupt bit, the interrupt enable
  bit moves to its saved copy, the interrupt is acknowledged and the fetch stage is sent to the handler.\<close>

theorem interrupt_flush_precise:
  assumes "cm_cur_state s = St_normal" "fifo_ring (cm_rob s)" "fifo_contents (cm_rob s) = it # its" "rat_sync_request_q (cm_rat s) = []"
    "intif_get_cause (cm_csr_file s) (cm_interrupt_interface s) = Some (Some c)"
    "csrfile_read_sys (cm_csr_file s) CSR_MTVEC = Some h" "csrfile_read_sys (cm_csr_file s) CSR_MSTATUS = Some v"
    "rat_total r0" "rename_ok r0 xs" "rename_all xs r0 = Some (undo_log (it # its), cm_rat s)"
  shows "\<exists>s1 w. flush_cycles (Suc (Suc (length its))) s =
      Some (interrupt_feedback (hd (fifo_ids (cm_rob s))) # replicate (length its) flush_feedback @ [trap_feedback h], s1) \<and>
    cm_cur_state s1 = St_normal \<and> fifo_contents (cm_rob s1) = [] \<and> rat_same r0 (cm_rat s1) \<and>
    (\<forall>a. rat_get_phy_id (cm_rat s1) a = rat_get_phy_id r0 a) \<and>
    csr_sync_request_q (cm_csr_file s1) = csr_sync_request_q (cm_csr_file s) @
      trap_requests (rob_pc it) 0 (0x80000000 OR interrupt_code c) @ [Csr_write_sys CSR_MSTATUS w] \<and>
    \<not> bit w 3 \<and> (bit w 7 \<longleftrightarrow> bit v 3) \<and>
    intif_sync_request_q (cm_interrupt_interface s1) = intif_sync_request_q (cm_interrupt_interface s) @ [Set_ack c]"
proof -
  have ne: "fifo_contents (cm_rob s) \<noteq> []" using assms(3) by simp
  note E = interrupt_entry [OF assms(1,2) ne assms(4,5)]
  let ?s = "interrupted c s"
  have fill: "fifo_fill (cm_rob s) = Suc (length its)" using arg_cong [OF assms(3), of length] by simp
  have s: "cm_cur_state ?s = St_interrupt_flush" "flushing_at ?s 0 (length its)" "Suc (length its) = fifo_fill (cm_rob ?s)"
    "csrfile_read_sys (cm_csr_file ?s) CSR_MTVEC = Some h" "csrfile_read_sys (cm_csr_file ?s) CSR_MSTATUS = Some v"
    "rename_all xs r0 = Some (undo_log (fifo_contents (cm_rob ?s)), cm_rat ?s)"
    using E(2) fill assms(3,6,7,10) by (simp_all add: interrupted_def)
  have f: "cm_csr_file ?s = cm_csr_file s" "cm_interrupt_interface ?s = cm_interrupt_interface s" "cm_interrupt_pc ?s = rob_pc it" "cm_interrupt_id ?s = c"
    using assms(3) by (simp_all add: interrupted_def)
  from interrupt_walk [OF s(1-5) assms(8,9) s(6)] obtain s1 w where
    s1: "flush_cycles (Suc (length its)) ?s = Some (replicate (length its) flush_feedback @ [trap_feedback h], s1)"
    "cm_cur_state s1 = St_normal" "fifo_contents (cm_rob s1) = []" "rat_same r0 (cm_rat s1)" "\<forall>a. rat_get_phy_id (cm_rat s1) a = rat_get_phy_id r0 a"
    "csr_sync_request_q (cm_csr_file s1) = csr_sync_request_q (cm_csr_file s) @
       trap_requests (rob_pc it) 0 (0x80000000 OR interrupt_code c) @ [Csr_write_sys CSR_MSTATUS w]"
    "\<not> bit w 3" "bit w 7 \<longleftrightarrow> bit v 3"
    "intif_sync_request_q (cm_interrupt_interface s1) = intif_sync_request_q (cm_interrupt_interface s) @ [Set_ack c]"
    unfolding f by blast
  have "flush_cycles (Suc (Suc (length its))) s =
      Some (interrupt_feedback (hd (fifo_ids (cm_rob s))) # replicate (length its) flush_feedback @ [trap_feedback h], s1)"
    unfolding E(3) [of "Suc (length its)"] s1(1) by simp
  with s1(2-9) show ?thesis by blast
qed

definition sample_interrupt_csrs :: csrfile where
  "sample_interrupt_csrs = sample_flush_csrs \<lparr> csr_map_table := (csr_map_table sample_flush_csrs)
     (CSR_MIE \<mapsto> \<lparr> csr_readonly = False, csr_reg = csr_load 0x80 mie_new \<rparr>) \<rparr>"

definition sample_interrupt_state :: "branch_predictor \<Rightarrow> rat \<Rightarrow> commit_state" where
  "sample_interrupt_state bp r = (sample_flush_state St_normal bp r) \<lparr> cm_csr_file := sample_interrupt_csrs, cm_interrupt_pc := 0,
     cm_interrupt_interface := intif_new \<lparr> mtip := True \<rparr> \<rparr>"

lemma sample_interrupt_facts:
  "intif_get_cause sample_interrupt_csrs (intif_new \<lparr> mtip := True \<rparr>) = Some (Some machine_timer)"
  "csrfile_read_sys sample_interrupt_csrs CSR_MTVEC = Some 0x80000100" "csrfile_read_sys sample_interrupt_csrs CSR_MSTATUS = Some 8"
  "csr_sync_request_q sample_interrupt_csrs = []" "rob_pc sample_flush_item = 0x80000010"
  by code_simp+

theorem interrupt_flush_precise_witness:
  "\<exists>bp r s1 w. flush_cycles 2 (sample_interrupt_state bp r) = Some ([interrupt_feedback 0, trap_feedback 0x80000100], s1) \<and>
     cm_cur_state s1 = St_normal \<and> rat_get_phy_id (cm_rat s1) 5 = Some (Some 5) \<and>
     csr_sync_request_q (cm_csr_file s1) = trap_requests 0x80000010 0 0x80000007 @ [Csr_write_sys CSR_MSTATUS w]"
proof -
  obtain r0 r where r: "rat_total r0" "rename_ok r0 [(5, 40)]" "rename_all [(5, 40)] r0 = Some ([(40, 5)], r)" "rat_sync_request_q r = []"
    "rat_get_phy_id r0 5 = Some (Some 5)" by (rule sample_renamed)
  obtain bp :: branch_predictor where True by blast
  let ?s = "sample_interrupt_state bp r"
  have s: "cm_cur_state ?s = St_normal" "fifo_ring (cm_rob ?s)" "fifo_contents (cm_rob ?s) = [sample_flush_item]" "rat_sync_request_q (cm_rat ?s) = []"
    "intif_get_cause (cm_csr_file ?s) (cm_interrupt_interface ?s) = Some (Some machine_timer)"
    "csrfile_read_sys (cm_csr_file ?s) CSR_MTVEC = Some 0x80000100" "csrfile_read_sys (cm_csr_file ?s) CSR_MSTATUS = Some 8"
    "rename_all [(5, 40)] r0 = Some (undo_log [sample_flush_item], cm_rat ?s)" "fifo_ids (cm_rob ?s) = [0]" "csr_sync_request_q (cm_csr_file ?s) = []"
    using r(3,4) by (simp_all add: sample_interrupt_state_def sample_flush_state_def sample_flush_rob_facts sample_interrupt_facts)
  have code: "0x80000000 OR interrupt_code machine_timer = 0x80000007" by code_simp
  from interrupt_flush_precise [OF s(1-7) r(1,2) s(8)] obtain s1 w where
    "flush_cycles (Suc (Suc 0)) ?s = Some ([interrupt_feedback 0, trap_feedback 0x80000100], s1)" "cm_cur_state s1 = St_normal"
    "\<forall>a. rat_get_phy_id (cm_rat s1) a = rat_get_phy_id r0 a"
    "csr_sync_request_q (cm_csr_file s1) = trap_requests 0x80000010 0 0x80000007 @ [Csr_write_sys CSR_MSTATUS w]"
    unfolding s(9,10) code sample_interrupt_facts(5) list.size replicate_0 append_Nil list.sel by blast
  with r(5) show ?thesis unfolding numeral_2_eq_2 by metis
qed

end
