(* ===== verification/Commit_Retire.thy ===== *)
theory Commit_Retire
  imports Commit_Flush Bp_Props
begin

text \<open>
  Retiring. In a cycle of the normal state the commit stage retires a prefix of the reorder buffer: the finished
  instructions up to the width, up to the first one with an exception and up to the first branch. What retiring does to
  the alias table, the register files and the reorder buffer is a list of requests in program order.
\<close>

subsection \<open>The plan of a cycle\<close>

text \<open>How many entries are retired, and whether the next one has an exception.\<close>

fun retire_plan :: "nat \<Rightarrow> rob_item_t list \<Rightarrow> nat \<times> bool" where
  "retire_plan 0 its = (0, False)"
| "retire_plan (Suc w) [] = (0, False)"
| "retire_plan (Suc w) (it # its) =
     (if \<not> rob_finish it then (0, False)
      else if rob_has_exception it then (0, True)
      else if rob_bru_op it then (1, False)
      else (case retire_plan w its of (k, e) \<Rightarrow> (Suc k, e)))"

definition mispredicted :: "rob_item_t \<Rightarrow> bool" where
  "mispredicted it \<longleftrightarrow> rob_bru_op it \<and> rob_predicted it \<and> \<not> prediction_hit it"

definition retire_rat :: "rob_item_t \<Rightarrow> rat_request list" where
  "retire_rat it = (if rob_old_phy_reg_id_valid it
     then [Rat_release_map (rob_old_phy_reg_id it), Rat_commit_map (rob_new_phy_reg_id it)] else [])"

definition retire_reg :: "rob_item_t \<Rightarrow> phy_regfile_item_t regfile_request list" where
  "retire_reg it = (if rob_old_phy_reg_id_valid it then [Regfile_write (rob_old_phy_reg_id it) zero_phy_regfile_item False] else [])"

definition mret_value :: "u32 \<Rightarrow> u32" where
  "mret_value v = csr_get_value (mstatus_set_mie (mstatus_get_mpie (csr_load v mstatus_new)) (csr_load v mstatus_new))"

definition retire_csr :: "u32 \<Rightarrow> rob_item_t \<Rightarrow> csr_request list" where
  "retire_csr v it = (if rob_csr_newvalue_valid it then [Csr_write (rob_csr_addr it) (rob_csr_newvalue it)] else []) @
     (if rob_bru_op it \<and> rob_is_mret it then [Csr_write_sys CSR_MSTATUS (mret_value v)] else [])"

definition retires :: "u32 \<Rightarrow> rob_item_t list \<Rightarrow> 'a commit_state_scheme \<Rightarrow> 'b commit_state_scheme \<Rightarrow> bool" where
  "retires v its s s1 \<longleftrightarrow>
     cm_rat s1 = (cm_rat s) \<lparr> rat_sync_request_q := rat_sync_request_q (cm_rat s) @ concat (map retire_rat its) \<rparr> \<and>
     cm_phy_regfile s1 = (cm_phy_regfile s)
       \<lparr> regfile_sync_request_q := regfile_sync_request_q (cm_phy_regfile s) @ concat (map retire_reg its) \<rparr> \<and>
     cm_csr_file s1 = (cm_csr_file s) \<lparr> csr_sync_request_q := csr_sync_request_q (cm_csr_file s) @ concat (map (retire_csr v) its) \<rparr> \<and>
     rob_sync_request_q (cm_rob s1) = rob_sync_request_q (cm_rob s) @ replicate (length its) Rob_pop \<and>
     rob_commit_num (cm_rob s1) = rob_commit_num (cm_rob s) + of_nat (length its) \<and>
     fifo.truncate (cm_rob s1) = fifo.truncate (cm_rob s) \<and> cm_wb_commit_port s1 = cm_wb_commit_port s \<and>
     bp_inv (cm_branch_predictor s1)"

lemma same_ring:
  assumes "fifo.truncate q1 = fifo.truncate (q :: rob)"
  shows "fifo_ring q1 = fifo_ring q" "fifo_ids q1 = fifo_ids q" "fifo_contents q1 = fifo_contents q" "fifo_fill q1 = fifo_fill q"
    "rob_get_item q1 = rob_get_item q" "rob_get_next_id q1 = rob_get_next_id q" "rob_get_tail_id q1 = rob_get_tail_id q"
    "length (buffer q1) = length (buffer q)"
  using assms
  by (auto simp: fifo.defs fifo_ring_def fifo_ids_def fifo_contents_def fifo_fill_def rob_get_item_def rob_get_next_id_def
      rob_check_id_valid_def fifo_is_empty_def rob_get_tail_id_def fun_eq_iff)

lemma retires_trans: "retires v xs s s1 \<Longrightarrow> retires v ys s1 s2 \<Longrightarrow> retires v (xs @ ys) s s2"
  by (simp add: retires_def replicate_add)

lemma retires_Nil: "bp_inv (cm_branch_predictor s) \<Longrightarrow> retires v [] s s"
  by (simp add: retires_def)

text \<open>The registers do not matter to \<open>retires\<close> beyond the components it names.\<close>

lemma retires_other [simp]:
  "retires v its s (s1 \<lparr> cl_feedback := x \<rparr>) = retires v its s s1" "retires v its s (s1 \<lparr> cm_rob_item_id := n \<rparr>) = retires v its s s1"
  "retires v its s (s1 \<lparr> cm_rob_item := i \<rparr>) = retires v its s s1" "retires v its s (s1 \<lparr> cm_cur_state := st \<rparr>) = retires v its s s1"
  "retires v its s (s1 \<lparr> cl_need_flush := b \<rparr>) = retires v its s s1" "retires v its s (s1 \<lparr> cm_restore_rob_item_id := n \<rparr>) = retires v its s s1"
  "retires v its (s \<lparr> cl_feedback := x \<rparr>) s1 = retires v its s s1" "retires v its (s \<lparr> cm_rob_item := i \<rparr>) s1 = retires v its s s1"
  by (simp_all add: retires_def)

lemma commit_retire_fields [simp]:
  "cm_rob_item_id (commit_retire it s) = cm_rob_item_id s" "cl_feedback (commit_retire it s) = cl_feedback s"
  "cm_cur_state (commit_retire it s) = cm_cur_state s" "cl_need_flush (commit_retire it s) = cl_need_flush s"
  "cm_perf (commit_retire it s) = cm_perf s" "cm_branch_predictor (commit_retire it s) = cm_branch_predictor s"
  "cm_checkpoint_buffer (commit_retire it s) = cm_checkpoint_buffer s" "cm_rob_item (commit_retire it s) = cm_rob_item s"
  by (simp_all add: commit_retire_def Let_def)

lemma commit_retire_retires:
  assumes "bp_inv (cm_branch_predictor s)" "\<not> rob_bru_op it"
  shows "retires v [it] s (commit_retire it s)"
  using assms by (simp add: retires_def commit_retire_def Let_def rob_pop_sync_def rob_add_commit_num_def rob_set_committed_def
      rat_commit_map_sync_def rat_release_map_sync_def regfile_write_sync_def csrfile_write_sync_def retire_rat_def retire_reg_def
      retire_csr_def fifo.defs)

text \<open>A branch that was predicted right, or not predicted.\<close>

lemma commit_branch_retires:
  assumes "bp_inv (cm_branch_predictor s)" "rob_bru_op it" "\<not> mispredicted it" "csrfile_read_sys (cm_csr_file s) CSR_MSTATUS = Some v"
  obtains s1 where "commit_branch it (commit_retire it s) = Some s1" "retires v [it] s s1" "cm_cur_state s1 = cm_cur_state s"
    "cl_need_flush s1 = cl_need_flush s" "cf_flush (cl_feedback s1) = cf_flush (cl_feedback s)"
    "cf_committed_rob_id (cl_feedback s1) = cf_committed_rob_id (cl_feedback s)"
    "cf_committed_rob_id_valid (cl_feedback s1) = cf_committed_rob_id_valid (cl_feedback s)"
proof -
  let ?s = "commit_retire it s"
  have csr: "csrfile_read_sys (cm_csr_file ?s) CSR_MSTATUS = Some v"
    using assms(4) by (simp add: commit_retire_def Let_def csrfile_read_sys_def csrfile_write_sync_def split: option.splits)
  obtain bp1 where bp1: "bp_update_prediction (rob_pc it) (rob_inst_value it) (rob_bru_jump it) (rob_bru_next_pc it) True
      (cm_branch_predictor s) = Some bp1" "bp_inv bp1"
    using bp_update_prediction_ok [OF assms(1)] by blast
  note d = retires_def commit_retire_def Let_def rob_pop_sync_def rob_add_commit_num_def rob_set_committed_def
      rat_commit_map_sync_def rat_release_map_sync_def regfile_write_sync_def csrfile_write_sync_def retire_rat_def retire_reg_def
      retire_csr_def fifo.defs mret_value_def csrfile_write_sys_sync_def
  let ?m = "if rob_is_mret it then (?s \<lparr> cm_perf := branch_num_add (cm_perf ?s) \<rparr>)
      \<lparr> cm_csr_file := csrfile_write_sys_sync CSR_MSTATUS (mret_value v) (cm_csr_file ?s) \<rparr>
    else ?s \<lparr> cm_perf := branch_num_add (cm_perf ?s) \<rparr>"
  have m: "commit_mret it (?s \<lparr> cm_perf := branch_num_add (cm_perf ?s) \<rparr>) = Some ?m"
    using csr by (simp add: commit_mret_def Let_def mret_value_def)
  have mr: "retires v [it] s ?m" using assms(1,2) by (simp add: d)
  have bp: "cm_branch_predictor ?m = cm_branch_predictor s" by simp
  show thesis
  proof (cases "rob_predicted it")
    case True
    then have hit: "prediction_hit it" using assms(2,3) by (simp add: mispredicted_def)
    let ?s1 = "?m \<lparr> cm_perf := branch_hit_add (branch_predicted_add (cm_perf ?m)), cm_branch_predictor := bp1,
      cm_checkpoint_buffer := cpbuf_pop_sync (cm_checkpoint_buffer ?m) \<rparr>"
    have "commit_branch it ?s = Some ?s1"
      unfolding commit_branch_def m using True hit bp1(1) by (simp add: Let_def bp del: commit_retire_fields)
    moreover have "retires v [it] s ?s1" using mr bp1(2) by (simp add: retires_def)
    ultimately show thesis by (rule that) simp_all
  next
    case False
    let ?s1 = "?m \<lparr> cl_feedback := (cl_feedback ?m) \<lparr> cf_enable := True, cf_jump_enable := True,
         cf_jump := rob_bru_jump it, cf_next_pc := commit_next_pc it \<rparr> \<rparr>"
    have "commit_branch it ?s = Some ?s1" unfolding commit_branch_def m using False by simp
    moreover have "retires v [it] s ?s1" using mr by (simp add: retires_def)
    ultimately show thesis by (rule that) simp_all
  qed
qed

subsection \<open>The loop\<close>

definition reported :: "nat \<Rightarrow> nat list \<Rightarrow> commit_feedback_pack_t \<Rightarrow> commit_feedback_pack_t \<Rightarrow> bool" where
  "reported i ids fb fb1 \<longleftrightarrow>
     cf_committed_rob_id fb1 = take i (cf_committed_rob_id fb) @ ids @ drop (i + length ids) (cf_committed_rob_id fb) \<and>
     cf_committed_rob_id_valid fb1 = take i (cf_committed_rob_id_valid fb) @ replicate (length ids) True @
       drop (i + length ids) (cf_committed_rob_id_valid fb)"

lemma upd_nth_split: "i < length xs \<Longrightarrow> xs[i := x] = take i xs @ [x] @ drop (i + 1) xs"
  by (simp add: upd_conv_take_nth_drop)

lemma reported_one:
  assumes "i < length (cf_committed_rob_id fb)" "i < length (cf_committed_rob_id_valid fb)"
    "cf_committed_rob_id fb1 = (cf_committed_rob_id fb)[i := j]" "cf_committed_rob_id_valid fb1 = (cf_committed_rob_id_valid fb)[i := True]"
  shows "reported i [j] fb fb1"
  using assms by (simp add: reported_def upd_nth_split)

lemma reported_trans:
  assumes "reported i [j] fb fb1" "reported (Suc i) ids fb1 fb2" "i < length (cf_committed_rob_id fb)" "i < length (cf_committed_rob_id_valid fb)"
  shows "reported i (j # ids) fb fb2"
  using assms by (simp add: reported_def add.commute [of i])

lemma reported_length:
  "reported i [j] fb fb1 \<Longrightarrow> i < length (cf_committed_rob_id fb) \<Longrightarrow> i < length (cf_committed_rob_id_valid fb) \<Longrightarrow>
    length (cf_committed_rob_id fb1) = length (cf_committed_rob_id fb) \<and>
    length (cf_committed_rob_id_valid fb1) = length (cf_committed_rob_id_valid fb)"
  by (auto simp: reported_def)

lemma reported_Nil: "reported i [] fb fb"
  by (simp add: reported_def)

lemma reported_cong:
  "cf_committed_rob_id fb2 = cf_committed_rob_id fb1 \<Longrightarrow> cf_committed_rob_id_valid fb2 = cf_committed_rob_id_valid fb1 \<Longrightarrow>
    reported i ids fb fb2 = reported i ids fb fb1"
  by (simp add: reported_def)

text \<open>What the loop leaves behind: the retired entries, the reported slots, and the start of a flush.\<close>

definition commit_outcome :: "u32 \<Rightarrow> nat \<Rightarrow> nat \<Rightarrow> bool \<Rightarrow> commit_loop \<Rightarrow> commit_loop \<Rightarrow> bool" where
  "commit_outcome v i k exc s s1 \<longleftrightarrow>
     retires v (take k (drop i (fifo_contents (cm_rob s)))) s s1 \<and>
     reported i (take (k + (if exc then 1 else 0)) (drop i (fifo_ids (cm_rob s)))) (cl_feedback s) (cl_feedback s1) \<and>
     cm_cur_state s1 = (if exc then St_flush else cm_cur_state s) \<and> cl_need_flush s1 = (exc \<or> cl_need_flush s) \<and>
     cf_flush (cl_feedback s1) = (exc \<or> cf_flush (cl_feedback s)) \<and>
     (exc \<longrightarrow> i + k < fifo_fill (cm_rob s) \<and> cf_enable (cl_feedback s1) \<and> cm_rob_item_id s1 = fifo_ids (cm_rob s) ! (i + k) \<and>
        cm_rob_item s1 = fifo_contents (cm_rob s) ! (i + k) \<and> cm_restore_rob_item_id s1 = last (fifo_ids (cm_rob s)))"

lemma csr_retires: "retires v its s s1 \<Longrightarrow> csrfile_read_sys (cm_csr_file s1) = csrfile_read_sys (cm_csr_file s)"
  by (rule ext) (simp add: retires_def csrfile_read_sys_def split: option.split)

lemma rob_next_position:
  assumes "fifo_ring q" "i < fifo_fill q"
  obtains ok n where "rob_get_next_id q (fifo_ids q ! i) = Some (ok, n)"
    "(\<not> ok \<or> n = hd (fifo_ids q)) \<longleftrightarrow> Suc i = fifo_fill q" "Suc i < fifo_fill q \<Longrightarrow> n = fifo_ids q ! Suc i"
proof (cases "Suc i < fifo_fill q")
  case True
  then have n: "rob_get_next_id q (fifo_ids q ! i) = Some (True, fifo_ids q ! Suc i)"
    using rob_slots.next_id_Suc [OF assms(1), of i] by simp
  have "fifo_ids q ! Suc i \<noteq> hd (fifo_ids q)"
    using True ids_distinct [OF assms(1)] hd_conv_nth [of "fifo_ids q"] nth_eq_iff_index_eq [of "fifo_ids q" "Suc i" 0]
    by (auto simp flip: length_greater_0_conv)
  with n True show thesis by (intro that [of True "fifo_ids q ! Suc i"]) auto
next
  case False
  then have l: "Suc i = fifo_fill q" using assms(2) by simp
  then have "fifo_ids q \<noteq> []" "last (fifo_ids q) = fifo_ids q ! i" by (auto simp: last_conv_nth simp flip: length_0_conv l)
  with rob_slots.next_id_last [OF assms(1)] obtain ok n where "rob_get_next_id q (fifo_ids q ! i) = Some (ok, n)" "ok \<longrightarrow> n = hd (fifo_ids q)"
    by auto
  with l show thesis by (intro that [of ok n]) auto
qed

text \<open>The loop at position \<open>i\<close> of the reorder buffer.\<close>

definition at_entry :: "nat \<Rightarrow> nat \<Rightarrow> commit_loop \<Rightarrow> bool" where
  "at_entry first i s \<longleftrightarrow> fifo_ring (cm_rob s) \<and> i < fifo_fill (cm_rob s) \<and> i < COMMIT_WIDTH \<and>
     cm_rob_item_id s = fifo_ids (cm_rob s) ! i \<and> first = hd (fifo_ids (cm_rob s)) \<and> bp_inv (cm_branch_predictor s) \<and>
     length (cf_committed_rob_id (cl_feedback s)) = COMMIT_WIDTH \<and> length (cf_committed_rob_id_valid (cl_feedback s)) = COMMIT_WIDTH"

definition entry_feedback :: "nat \<Rightarrow> bool \<Rightarrow> nat \<Rightarrow> nat \<Rightarrow> commit_loop \<Rightarrow> commit_loop" where
  "entry_feedback first ok n i s = s \<lparr> cm_rob_item := fifo_contents (cm_rob s) ! i,
     cl_feedback := (cl_feedback s) \<lparr> cf_next_handle_rob_id := n, cf_next_handle_rob_id_valid := ok \<and> n \<noteq> first,
       cf_committed_rob_id_valid := (cf_committed_rob_id_valid (cl_feedback s))[i := True],
       cf_committed_rob_id := (cf_committed_rob_id (cl_feedback s))[i := cm_rob_item_id s] \<rparr> \<rparr>"

lemma at_entry_reads:
  assumes "at_entry first i s"
  obtains ok n where "rob_get_item (cm_rob s) (cm_rob_item_id s) = Some (fifo_contents (cm_rob s) ! i)"
    "rob_get_next_id (cm_rob s) (cm_rob_item_id s) = Some (ok, n)" "(\<not> ok \<or> n = first) \<longleftrightarrow> Suc i = fifo_fill (cm_rob s)"
    "Suc i < fifo_fill (cm_rob s) \<longrightarrow> n = fifo_ids (cm_rob s) ! Suc i"
    "reported i [fifo_ids (cm_rob s) ! i] (cl_feedback s) (cl_feedback (entry_feedback first ok n i s))"
proof -
  note e = assms [unfolded at_entry_def]
  obtain ok n where "rob_get_next_id (cm_rob s) (cm_rob_item_id s) = Some (ok, n)"
    "(\<not> ok \<or> n = hd (fifo_ids (cm_rob s))) \<longleftrightarrow> Suc i = fifo_fill (cm_rob s)" "Suc i < fifo_fill (cm_rob s) \<Longrightarrow> n = fifo_ids (cm_rob s) ! Suc i"
    using rob_next_position [of "cm_rob s" i] e by metis
  moreover have "rob_get_item (cm_rob s) (cm_rob_item_id s) = Some (fifo_contents (cm_rob s) ! i)" using e rob_item_at by simp
  moreover have "reported i [fifo_ids (cm_rob s) ! i] (cl_feedback s) (cl_feedback (entry_feedback first ok n i s))"
    using e by (intro reported_one) (simp_all add: entry_feedback_def)
  ultimately show thesis using e by (intro that [of ok n]) simp_all
qed

lemma entry_feedback_simps [simp]:
  "cm_rob (entry_feedback first ok n i s) = cm_rob s" "cm_rat (entry_feedback first ok n i s) = cm_rat s"
  "cm_branch_predictor (entry_feedback first ok n i s) = cm_branch_predictor s" "cm_csr_file (entry_feedback first ok n i s) = cm_csr_file s"
  "cm_cur_state (entry_feedback first ok n i s) = cm_cur_state s" "cl_need_flush (entry_feedback first ok n i s) = cl_need_flush s"
  "cf_flush (cl_feedback (entry_feedback first ok n i s)) = cf_flush (cl_feedback s)" "cm_rob_item_id (entry_feedback first ok n i s) = cm_rob_item_id s"
  "cm_checkpoint_buffer (entry_feedback first ok n i s) = cm_checkpoint_buffer s" "cm_phy_regfile (entry_feedback first ok n i s) = cm_phy_regfile s"
  "cm_rob_item (entry_feedback first ok n i s) = fifo_contents (cm_rob s) ! i"
  "cm_wb_commit_port (entry_feedback first ok n i s) = cm_wb_commit_port s"
  "retires v its (entry_feedback first ok n i s) s1 = retires v its s s1"
  by (simp_all add: entry_feedback_def retires_def)

definition plain_entry :: "rob_item_t \<Rightarrow> bool" where
  "plain_entry it \<longleftrightarrow> rob_finish it \<and> \<not> rob_has_exception it \<and> \<not> rob_bru_op it"

lemma commit_step_plain:
  assumes "at_entry first i s" "plain_entry (fifo_contents (cm_rob s) ! i)"
  obtains s1 where "commit_step first i s = Some (Suc i = fifo_fill (cm_rob s), s1)" "retires v [fifo_contents (cm_rob s) ! i] s s1"
    "reported i [fifo_ids (cm_rob s) ! i] (cl_feedback s) (cl_feedback s1)" "cm_cur_state s1 = cm_cur_state s"
    "cl_need_flush s1 = cl_need_flush s" "cf_flush (cl_feedback s1) = cf_flush (cl_feedback s)"
    "cm_checkpoint_buffer s1 = cm_checkpoint_buffer s" "cf_has_exception (cl_feedback s1) = cf_has_exception (cl_feedback s)"
    "Suc i < fifo_fill (cm_rob s) \<Longrightarrow> Suc i < COMMIT_WIDTH \<Longrightarrow> at_entry first (Suc i) s1"
proof -
  let ?it = "fifo_contents (cm_rob s) ! i"
  obtain ok n where e: "rob_get_item (cm_rob s) (cm_rob_item_id s) = Some ?it"
    "rob_get_next_id (cm_rob s) (cm_rob_item_id s) = Some (ok, n)" "(\<not> ok \<or> n = first) \<longleftrightarrow> Suc i = fifo_fill (cm_rob s)"
    "Suc i < fifo_fill (cm_rob s) \<longrightarrow> n = fifo_ids (cm_rob s) ! Suc i"
    "reported i [fifo_ids (cm_rob s) ! i] (cl_feedback s) (cl_feedback (entry_feedback first ok n i s))"
    by (rule at_entry_reads [OF assms(1)]) (rule that, assumption+)
  note a = assms(1) [unfolded at_entry_def]
  define s1 where "s1 = commit_retire ?it (entry_feedback first ok n i s)"
  have r: "retires v [?it] s s1"
    using commit_retire_retires [of "entry_feedback first ok n i s" ?it v] assms(2) a by (simp add: plain_entry_def s1_def)
  then have "fifo.truncate (cm_rob s1) = fifo.truncate (cm_rob s)" by (simp add: retires_def)
  note sr = same_ring [OF this]
  have s1: "length (cf_committed_rob_id (cl_feedback s1)) = COMMIT_WIDTH" "length (cf_committed_rob_id_valid (cl_feedback s1)) = COMMIT_WIDTH"
    "cm_branch_predictor s1 = cm_branch_predictor s" "cm_cur_state s1 = cm_cur_state s" "cl_need_flush s1 = cl_need_flush s"
    "cf_flush (cl_feedback s1) = cf_flush (cl_feedback s)" "cm_checkpoint_buffer s1 = cm_checkpoint_buffer s"
    "cl_feedback s1 = cl_feedback (entry_feedback first ok n i s)" "cm_rob_item_id s1 = cm_rob_item_id s"
    "cf_has_exception (cl_feedback s1) = cf_has_exception (cl_feedback s)"
    using a by (simp_all add: s1_def) (simp_all add: entry_feedback_def)
  have step: "commit_step first i s = Some (Suc i = fifo_fill (cm_rob s), s1 \<lparr> cm_rob_item_id := n \<rparr>)"
    using assms(2) e(1-3) sr(6) s1(9) by (simp add: commit_step_def Let_def plain_entry_def entry_feedback_def s1_def)
  show thesis
  proof (rule that [OF step])
    show "at_entry first (Suc i) (s1 \<lparr> cm_rob_item_id := n \<rparr>)" if "Suc i < fifo_fill (cm_rob s)" "Suc i < COMMIT_WIDTH"
      using that a s1(1-3) e(4) by (simp add: at_entry_def sr)
    show "reported i [fifo_ids (cm_rob s) ! i] (cl_feedback s) (cl_feedback (s1 \<lparr> cm_rob_item_id := n \<rparr>))" using e(5) s1(8) by simp
  qed (use r s1(4-7,10) in simp_all)
qed

lemma commit_step_exception:
  assumes "at_entry first i s" "rob_finish (fifo_contents (cm_rob s) ! i)" "rob_has_exception (fifo_contents (cm_rob s) ! i)"
  obtains s1 where "commit_step first i s = Some (True, s1)" "commit_outcome v i 0 True s s1"
proof -
  obtain ok n where e: "rob_get_item (cm_rob s) (cm_rob_item_id s) = Some (fifo_contents (cm_rob s) ! i)"
    "rob_get_next_id (cm_rob s) (cm_rob_item_id s) = Some (ok, n)"
    "reported i [fifo_ids (cm_rob s) ! i] (cl_feedback s) (cl_feedback (entry_feedback first ok n i s))"
    by (rule at_entry_reads [OF assms(1)]) (rule that, assumption+)
  note a = assms(1) [unfolded at_entry_def]
  have tail: "rob_get_tail_id (cm_rob s) = Some (last (fifo_ids (cm_rob s)))"
    using rob_get_tail_id_last [of "cm_rob s"] a by (auto simp flip: length_greater_0_conv)
  let ?s = "entry_feedback first ok n i s"
  let ?fb = "(cl_feedback ?s) \<lparr> cf_enable := True, cf_flush := True \<rparr>"
  let ?s1 = "?s \<lparr> cm_restore_rob_item_id := last (fifo_ids (cm_rob s)), cm_cur_state := St_flush, cl_need_flush := True, cl_feedback := ?fb \<rparr>"
  have "commit_step first i s = Some (True, ?s1)"
    using assms(2,3) e(1,2) tail by (simp add: commit_step_def Let_def entry_feedback_def)
  moreover have "reported i [fifo_ids (cm_rob s) ! i] (cl_feedback s) ?fb"
    using e(3) by (subst reported_cong [where ?fb1.0 = "cl_feedback ?s"]) simp_all
  moreover have "drop i (fifo_ids (cm_rob s)) = fifo_ids (cm_rob s) ! i # drop (Suc i) (fifo_ids (cm_rob s))"
    using a by (simp add: Cons_nth_drop_Suc)
  moreover have "retires v [] s ?s" using a by (simp add: retires_def)
  ultimately show thesis using a by (intro that [of ?s1]) (simp_all add: commit_outcome_def)
qed

lemma commit_step_branch:
  assumes "at_entry first i s" "rob_finish (fifo_contents (cm_rob s) ! i)" "\<not> rob_has_exception (fifo_contents (cm_rob s) ! i)"
    "rob_bru_op (fifo_contents (cm_rob s) ! i)" "\<not> mispredicted (fifo_contents (cm_rob s) ! i)"
    "csrfile_read_sys (cm_csr_file s) CSR_MSTATUS = Some v"
  obtains s1 where "commit_step first i s = Some (True, s1)" "commit_outcome v i 1 False s s1"
proof -
  let ?it = "fifo_contents (cm_rob s) ! i"
  obtain ok n where e: "rob_get_item (cm_rob s) (cm_rob_item_id s) = Some ?it" "rob_get_next_id (cm_rob s) (cm_rob_item_id s) = Some (ok, n)"
    "reported i [fifo_ids (cm_rob s) ! i] (cl_feedback s) (cl_feedback (entry_feedback first ok n i s))"
    by (rule at_entry_reads [OF assms(1)]) (rule that, assumption+)
  note a = assms(1) [unfolded at_entry_def]
  let ?s = "entry_feedback first ok n i s"
  obtain s1 where s1: "commit_branch ?it (commit_retire ?it ?s) = Some s1" "retires v [?it] ?s s1" "cm_cur_state s1 = cm_cur_state ?s"
      "cl_need_flush s1 = cl_need_flush ?s" "cf_flush (cl_feedback s1) = cf_flush (cl_feedback ?s)"
      "cf_committed_rob_id (cl_feedback s1) = cf_committed_rob_id (cl_feedback ?s)"
      "cf_committed_rob_id_valid (cl_feedback s1) = cf_committed_rob_id_valid (cl_feedback ?s)"
    using commit_branch_retires [of ?s ?it v] assms(4-6) a by auto
  have "commit_step first i s = Some (True, s1)"
    using assms(2-4) e(1,2) s1(1) by (simp add: commit_step_def Let_def entry_feedback_def)
  moreover have "reported i [fifo_ids (cm_rob s) ! i] (cl_feedback s) (cl_feedback s1)"
    using e(3) s1(6,7) by (subst reported_cong [where ?fb1.0 = "cl_feedback ?s"]) simp_all
  moreover have "drop i (fifo_contents (cm_rob s)) = ?it # drop (Suc i) (fifo_contents (cm_rob s))"
    "drop i (fifo_ids (cm_rob s)) = fifo_ids (cm_rob s) ! i # drop (Suc i) (fifo_ids (cm_rob s))"
    using a by (simp_all add: Cons_nth_drop_Suc)
  ultimately show thesis using s1(2-5) by (intro that [of s1]) (simp_all add: commit_outcome_def)
qed

lemma commit_outcome_Suc:
  assumes "at_entry first i s" "retires v [fifo_contents (cm_rob s) ! i] s s1"
    "reported i [fifo_ids (cm_rob s) ! i] (cl_feedback s) (cl_feedback s1)" "cm_cur_state s1 = cm_cur_state s"
    "cl_need_flush s1 = cl_need_flush s" "cf_flush (cl_feedback s1) = cf_flush (cl_feedback s)" "commit_outcome v (Suc i) k exc s1 s2"
  shows "commit_outcome v i (Suc k) exc s s2"
proof -
  note a = assms(1) [unfolded at_entry_def]
  have "fifo.truncate (cm_rob s1) = fifo.truncate (cm_rob s)" using assms(2) by (simp add: retires_def)
  note sr = same_ring [OF this]
  let ?cs = "fifo_contents (cm_rob s)"
  have its: "drop i ?cs = ?cs ! i # drop (Suc i) ?cs" "drop i (fifo_ids (cm_rob s)) = fifo_ids (cm_rob s) ! i # drop (Suc i) (fifo_ids (cm_rob s))"
    using a by (simp_all add: Cons_nth_drop_Suc)
  note o = assms(7) [unfolded commit_outcome_def sr]
  have "retires v (?cs ! i # take k (drop (Suc i) ?cs)) s s2" using retires_trans [OF assms(2), of "take k (drop (Suc i) ?cs)" s2] o by simp
  moreover have "reported i (fifo_ids (cm_rob s) ! i # take (k + (if exc then 1 else 0)) (drop (Suc i) (fifo_ids (cm_rob s)))) (cl_feedback s) (cl_feedback s2)"
    using o a by (intro reported_trans [OF assms(3)]) simp_all
  ultimately show ?thesis using o assms(4-6) by (simp add: commit_outcome_def its)
qed

lemma commit_loop_plan:
  assumes "i + w = COMMIT_WIDTH" "w \<noteq> 0 \<longrightarrow> at_entry first i s" "bp_inv (cm_branch_predictor s)"
    "retire_plan w (drop i (fifo_contents (cm_rob s))) = (k, exc)"
    "\<forall>it \<in> set (take k (drop i (fifo_contents (cm_rob s)))). \<not> mispredicted it"
    "csrfile_read_sys (cm_csr_file s) CSR_MSTATUS = Some v"
  shows "\<exists>s1. for_break (commit_step first) [i..<COMMIT_WIDTH] s = Some s1 \<and> commit_outcome v i k exc s s1"
  using assms
proof (induction w arbitrary: i s k)
  case 0
  then show ?case by (simp add: commit_outcome_def retires_Nil reported_Nil)
next
  case (Suc w)
  let ?q = "cm_rob s" and ?it = "fifo_contents (cm_rob s) ! i"
  have at: "at_entry first i s" and upt: "[i..<COMMIT_WIDTH] = i # [Suc i..<COMMIT_WIDTH]"
    using Suc.prems(1,2) by (simp_all add: upt_conv_Cons)
  have its: "drop i (fifo_contents ?q) = ?it # drop (Suc i) (fifo_contents ?q)"
    using at by (simp add: Cons_nth_drop_Suc at_entry_def)
  have item: "rob_get_item ?q (cm_rob_item_id s) = Some ?it" using at rob_item_at by (simp add: at_entry_def)
  consider (wait) "\<not> rob_finish ?it" | (exc) "rob_finish ?it" "rob_has_exception ?it"
    | (branch) "rob_finish ?it" "\<not> rob_has_exception ?it" "rob_bru_op ?it" | (plain) "plain_entry ?it" by (auto simp: plain_entry_def)
  then show ?case
  proof cases
    case wait
    then have "k = 0" "\<not> exc" using Suc.prems(4) unfolding its by auto
    moreover have "commit_step first i s = Some (True, s \<lparr> cm_rob_item := ?it \<rparr>)"
      using wait item by (simp add: commit_step_def)
    ultimately show ?thesis using Suc.prems(3) unfolding upt by (simp add: commit_outcome_def retires_Nil reported_Nil)
  next
    case exc
    then have "k = 0" "exc" using Suc.prems(4) unfolding its by auto
    moreover obtain s1 where "commit_step first i s = Some (True, s1)" "commit_outcome v i 0 True s s1"
      by (rule commit_step_exception [OF at exc])
    ultimately show ?thesis unfolding upt by simp
  next
    case branch
    then have k: "k = 1" "\<not> exc" using Suc.prems(4) unfolding its by auto
    then have "\<not> mispredicted ?it" using Suc.prems(5) unfolding its by simp
    then obtain s1 where "commit_step first i s = Some (True, s1)" "commit_outcome v i 1 False s s1"
      by (rule commit_step_branch [OF at branch _ Suc.prems(6)])
    with k show ?thesis unfolding upt by simp
  next
    case plain
    obtain k1 where k: "retire_plan w (drop (Suc i) (fifo_contents ?q)) = (k1, exc)" "k = Suc k1"
      using Suc.prems(4) plain unfolding its by (auto simp: plain_entry_def split: prod.splits)
    obtain s1 where s1: "commit_step first i s = Some (Suc i = fifo_fill ?q, s1)" "retires v [?it] s s1"
      "reported i [fifo_ids ?q ! i] (cl_feedback s) (cl_feedback s1)" "cm_cur_state s1 = cm_cur_state s"
      "cl_need_flush s1 = cl_need_flush s" "cf_flush (cl_feedback s1) = cf_flush (cl_feedback s)"
      "Suc i < fifo_fill ?q \<Longrightarrow> Suc i < COMMIT_WIDTH \<Longrightarrow> at_entry first (Suc i) s1"
      using commit_step_plain [OF at plain, of v] by blast
    have bp1: "bp_inv (cm_branch_predictor s1)" and ring: "fifo.truncate (cm_rob s1) = fifo.truncate ?q"
      using s1(2) by (simp_all add: retires_def)
    note sr = same_ring [OF ring] and more = commit_outcome_Suc [OF at s1(2-6)]
    show ?thesis
    proof (cases "Suc i = fifo_fill ?q")
      case True
      then have "k1 = 0" "\<not> exc" using k(1) by (cases w; simp)+
      then have "commit_outcome v (Suc i) k1 exc s1 s1" using bp1 by (simp add: commit_outcome_def retires_Nil reported_Nil)
      with True s1(1) k(2) more show ?thesis unfolding upt by auto
    next
      case False
      then have fill: "Suc i < fifo_fill ?q" using at by (simp add: at_entry_def)
      have "\<exists>s2. for_break (commit_step first) [Suc i..<COMMIT_WIDTH] s1 = Some s2 \<and> commit_outcome v (Suc i) k1 exc s1 s2"
        by (rule Suc.IH) (use Suc.prems(1,5,6) k s1(7) fill bp1 csr_retires [OF s1(2)] in \<open>auto simp: sr its\<close>)
      with False s1(1) k(2) more show ?thesis unfolding upt by auto
    qed
  qed
qed

subsection \<open>The whole cycle\<close>

text \<open>The instructions that finished in this cycle are marked in the reorder buffer, with what execution found.\<close>

definition finish_requests :: "rob \<Rightarrow> wb_commit_op_info_t list \<Rightarrow> rob_request list" where
  "finish_requests q ps = map (\<lambda>p. Rob_set_item (o_rob_id p) (commit_finish p (buffer q ! o_rob_id p))) (filter o_enable ps)"

lemma commit_input_requests:
  assumes "\<forall>p \<in> set ps. o_enable p \<longrightarrow> o_rob_id p < length (buffer q)"
  shows "drain commit_input_step ps q = Some (q \<lparr> rob_sync_request_q := rob_sync_request_q q @ finish_requests q ps \<rparr>)"
  using assms
proof (induction ps arbitrary: q)
  case Nil
  then show ?case by (simp add: finish_requests_def)
next
  case (Cons p ps)
  let ?q1 = "rob_set_item_sync (o_rob_id p) (commit_finish p (buffer q ! o_rob_id p)) q"
  have "drain commit_input_step ps ?q1 = Some (?q1 \<lparr> rob_sync_request_q := rob_sync_request_q ?q1 @ finish_requests ?q1 ps \<rparr>)"
    using Cons.prems by (intro Cons.IH) (simp add: rob_set_item_sync_def)
  moreover have "finish_requests ?q1 ps = finish_requests q ps" by (simp add: finish_requests_def rob_set_item_sync_def)
  moreover have "drain commit_input_step ps q = Some (q \<lparr> rob_sync_request_q := rob_sync_request_q q @ finish_requests q ps \<rparr>)"
    using Cons.prems by (intro Cons.IH) simp
  ultimately show ?case
    using Cons.prems
    by (simp add: commit_input_step_def [of p] rob_get_item_def finish_requests_def rob_set_item_sync_def)
qed

text \<open>The loop is entered at the oldest entry.\<close>

definition commit_enter :: "commit_state \<Rightarrow> commit_loop" where
  "commit_enter s = (commit_state.extend s (commit_loop.fields (zero_commit_feedback \<lparr> cf_enable := True,
      cf_next_handle_rob_id := hd (fifo_ids (cm_rob s)), cf_next_handle_rob_id_valid := True \<rparr>) False))
      \<lparr> cm_rob_item_id := hd (fifo_ids (cm_rob s)), cm_rob_item := fifo_contents (cm_rob s) ! 0 \<rparr>"

lemma commit_enter_simps [simp]:
  "cm_rob (commit_enter s) = cm_rob s" "cm_wb_commit_port (commit_enter s) = cm_wb_commit_port s" "cm_cur_state (commit_enter s) = cm_cur_state s"
  "cl_need_flush (commit_enter s) = False" "cf_flush (cl_feedback (commit_enter s)) = False" "cm_rat (commit_enter s) = cm_rat s"
  "cm_phy_regfile (commit_enter s) = cm_phy_regfile s" "cm_csr_file (commit_enter s) = cm_csr_file s"
  "cm_branch_predictor (commit_enter s) = cm_branch_predictor s" "cm_checkpoint_buffer (commit_enter s) = cm_checkpoint_buffer s"
  "cf_committed_rob_id (cl_feedback (commit_enter s)) = replicate COMMIT_WIDTH 0" "cf_has_exception (cl_feedback (commit_enter s)) = False"
  "cf_committed_rob_id_valid (cl_feedback (commit_enter s)) = replicate COMMIT_WIDTH False"
  "cm_rob_item_id (commit_enter s) = hd (fifo_ids (cm_rob s))"
  by (simp_all add: commit_enter_def commit_state.defs commit_loop.defs zero_commit_feedback_def)

lemma commit_output_enter:
  assumes "fifo_ring (cm_rob s)" "fifo_contents (cm_rob s) \<noteq> []" "bp_inv (cm_branch_predictor s)"
    "intif_get_cause (cm_csr_file s) (cm_interrupt_interface s) = Some None"
  shows "commit_output (commit_state.extend s (commit_loop.fields zero_commit_feedback False)) =
      for_break (commit_step (hd (fifo_ids (cm_rob s)))) [0..<COMMIT_WIDTH] (commit_enter s)"
    "at_entry (hd (fifo_ids (cm_rob s))) 0 (commit_enter s)"
proof -
  let ?q = "cm_rob s"
  have fill: "0 < fifo_fill ?q" using assms(2) by (simp flip: length_greater_0_conv)
  then have ids: "fifo_ids ?q \<noteq> []" by (simp flip: length_greater_0_conv)
  have front: "rob_get_front_id ?q = Some (hd (fifo_ids ?q))" "\<not> fifo_is_empty ?q"
    using rob_slots.front_id_hd [OF assms(1)] ids is_empty_fill [OF assms(1)] fill by simp_all
  have item: "rob_get_item ?q (hd (fifo_ids ?q)) = Some (fifo_contents ?q ! 0)"
    using rob_item_at [OF assms(1) fill] ids by (simp add: hd_conv_nth)
  show "commit_output (commit_state.extend s (commit_loop.fields zero_commit_feedback False)) =
      for_break (commit_step (hd (fifo_ids ?q))) [0..<COMMIT_WIDTH] (commit_enter s)"
    using front item assms(4) by (simp add: commit_output_def commit_enter_def commit_state.defs commit_loop.defs)
  show "at_entry (hd (fifo_ids ?q)) 0 (commit_enter s)"
    using assms(1,3) fill ids by (simp add: at_entry_def hd_conv_nth)
qed

lemma retire_plan_bound:
  "retire_plan w its = (k, exc) \<Longrightarrow> k + (if exc then 1 else 0) \<le> w \<and> k + (if exc then 1 else 0) \<le> length its"
  by (induction w its arbitrary: k rule: retire_plan.induct) (auto split: if_splits prod.splits)

text \<open>C4: a cycle of the commit stage in the normal state with no interrupt pending retires, in program order, the finished
  instructions at the head of the reorder buffer - up to four, up to the first exception, up to the first branch - when none
  of the branches among them was mispredicted. For each of them the old physical register is released and the new one
  committed in the alias table, the register file entry of the old one is invalidated, the CSR is written and one entry is
  popped, in this order and nothing else; their slots, and the one of an instruction with an exception, are reported to the
  store buffer as committed. The stage starts a flush exactly when the next instruction has an exception, from the youngest
  entry down to it, and otherwise marks the entries written back in this cycle as finished.\<close>

theorem commit_retires_in_order:
  assumes "cm_cur_state s = St_normal" "fifo_ring (cm_rob s)" "fifo_contents (cm_rob s) \<noteq> []"
    and "intif_get_cause (cm_csr_file s) (cm_interrupt_interface s) = Some None" "csrfile_read_sys (cm_csr_file s) CSR_MSTATUS = Some v"
    and "bp_inv (cm_branch_predictor s)" "retire_plan COMMIT_WIDTH (fifo_contents (cm_rob s)) = (k, exc)"
    and "\<forall>it \<in> set (take k (fifo_contents (cm_rob s))). \<not> mispredicted it"
    and "\<forall>p \<in> set (port_get (cm_wb_commit_port s)). o_enable p \<longrightarrow> o_rob_id p < length (buffer (cm_rob s))"
  defines "its \<equiv> take k (fifo_contents (cm_rob s))" and "n \<equiv> k + (if exc then 1 else 0)"
  shows "\<exists>fb s1. commit_run s = Some (fb, s1) \<and>
    cm_rat s1 = (cm_rat s) \<lparr> rat_sync_request_q := rat_sync_request_q (cm_rat s) @ concat (map retire_rat its) \<rparr> \<and>
    cm_phy_regfile s1 = (cm_phy_regfile s)
      \<lparr> regfile_sync_request_q := regfile_sync_request_q (cm_phy_regfile s) @ concat (map retire_reg its) \<rparr> \<and>
    cm_csr_file s1 = (cm_csr_file s) \<lparr> csr_sync_request_q := csr_sync_request_q (cm_csr_file s) @ concat (map (retire_csr v) its) \<rparr> \<and>
    rob_sync_request_q (cm_rob s1) = rob_sync_request_q (cm_rob s) @ replicate k Rob_pop @
      (if exc then [] else finish_requests (cm_rob s) (port_get (cm_wb_commit_port s))) \<and>
    fifo.truncate (cm_rob s1) = fifo.truncate (cm_rob s) \<and> bp_inv (cm_branch_predictor s1) \<and>
    take n (cf_committed_rob_id fb) = take n (fifo_ids (cm_rob s)) \<and>
    cf_committed_rob_id_valid fb = replicate n True @ replicate (COMMIT_WIDTH - n) False \<and> cf_flush fb = exc \<and>
    cm_cur_state s1 = (if exc then St_flush else St_normal) \<and>
    (exc \<longrightarrow> cm_rob_item_id s1 = fifo_ids (cm_rob s) ! k \<and> cm_rob_item s1 = fifo_contents (cm_rob s) ! k \<and>
       cm_restore_rob_item_id s1 = last (fifo_ids (cm_rob s)))"
proof -
  let ?q = "cm_rob s"
  note enter = commit_output_enter [OF assms(2,3,6,4)]
  obtain l where l: "for_break (commit_step (hd (fifo_ids ?q))) [0..<COMMIT_WIDTH] (commit_enter s) = Some l"
    "commit_outcome v 0 k exc (commit_enter s) l"
    using commit_loop_plan [of 0 COMMIT_WIDTH "hd (fifo_ids ?q)" "commit_enter s" k exc v] enter(2) assms(5-8) by auto
  note out = enter(1) [unfolded l(1)]
  have nl: "n \<le> COMMIT_WIDTH \<and> n \<le> fifo_fill ?q" using retire_plan_bound [OF assms(7)] by (simp add: n_def)
  have mins: "min (fifo_fill ?q) n = n" "min (fifo_fill ?q) k = k" using nl by (simp_all add: n_def)
  note c = l(2) [unfolded commit_outcome_def retires_def reported_def commit_enter_simps add_0 drop_0 take_0 append_Nil, folded n_def its_def]
  have f: "cm_rat l = (cm_rat s) \<lparr> rat_sync_request_q := rat_sync_request_q (cm_rat s) @ concat (map retire_rat its) \<rparr>"
    "cm_phy_regfile l = (cm_phy_regfile s) \<lparr> regfile_sync_request_q := regfile_sync_request_q (cm_phy_regfile s) @ concat (map retire_reg its) \<rparr>"
    "cm_csr_file l = (cm_csr_file s) \<lparr> csr_sync_request_q := csr_sync_request_q (cm_csr_file s) @ concat (map (retire_csr v) its) \<rparr>"
    "bp_inv (cm_branch_predictor l)" "cf_flush (cl_feedback l) = exc" "cm_cur_state l = (if exc then St_flush else St_normal)"
    "cl_need_flush l = exc" "exc \<longrightarrow> cm_rob_item_id l = fifo_ids ?q ! k \<and> cm_rob_item l = fifo_contents ?q ! k \<and>
       cm_restore_rob_item_id l = last (fifo_ids ?q)" "cm_wb_commit_port l = cm_wb_commit_port s" "fifo.truncate (cm_rob l) = fifo.truncate ?q"
    using c assms(1) by simp_all
  have g: "rob_sync_request_q (cm_rob l) = rob_sync_request_q ?q @ replicate k Rob_pop" "take n (cf_committed_rob_id (cl_feedback l)) = take n (fifo_ids ?q)"
    "cf_committed_rob_id_valid (cl_feedback l) = replicate n True @ replicate (COMMIT_WIDTH - n) False"
    using c mins by (simp_all add: its_def)
  let ?s1 = "commit_state.truncate l"
  have t: "cm_rob ?s1 = cm_rob l" "cm_wb_commit_port ?s1 = cm_wb_commit_port s" "cm_rat ?s1 = cm_rat l" "cm_phy_regfile ?s1 = cm_phy_regfile l"
    "cm_csr_file ?s1 = cm_csr_file l" "cm_branch_predictor ?s1 = cm_branch_predictor l" "cm_cur_state ?s1 = cm_cur_state l"
    "cm_rob_item_id ?s1 = cm_rob_item_id l" "cm_rob_item ?s1 = cm_rob_item l" "cm_restore_rob_item_id ?s1 = cm_restore_rob_item_id l"
    using f(9) by (simp_all add: commit_state.defs)
  let ?r = "cm_rob l \<lparr> rob_sync_request_q := rob_sync_request_q (cm_rob l) @
    (if exc then [] else finish_requests (cm_rob s) (port_get (cm_wb_commit_port s))) \<rparr>"
  have fr: "finish_requests (cm_rob l) ps = finish_requests (cm_rob s) ps" "buffer (cm_rob l) = buffer (cm_rob s)"
    "fifo.truncate (cm_rob l \<lparr> rob_sync_request_q := x \<rparr>) = fifo.truncate (cm_rob s)" for ps x
    using f(10) by (simp_all add: fifo.defs finish_requests_def)
  have run: "commit_run s = Some (cl_feedback l, ?s1 \<lparr> cm_rob := ?r \<rparr>)"
    using assms(1,9) out f(7) commit_input_requests [of "port_get (cm_wb_commit_port s)" "cm_rob l"]
    by (simp add: commit_run_def commit_run_normal_def t fr(1,2))
  show ?thesis
    by (intro exI conjI, rule run) (use f(8) in \<open>simp_all add: t f(1-7,9,10) g fr(3)\<close>)
qed

definition sample_retire_item :: rob_item_t where
  "sample_retire_item = zero_rob_item \<lparr> rob_new_phy_reg_id := 41, rob_old_phy_reg_id := 6, rob_old_phy_reg_id_valid := True,
     rob_finish := True, rob_pc := 0x8000000C \<rparr>"

definition sample_retire_rob :: rob where
  "sample_retire_rob = snd (fifo_push sample_flush_item (snd (fifo_push sample_retire_item (rob_new 4 (replicate 4 zero_rob_item) 0 False))))"

lemma sample_retire_facts:
  "fifo_ring sample_retire_rob" "fifo_contents sample_retire_rob = [sample_retire_item, sample_flush_item]"
  "fifo_ids sample_retire_rob = [0, 1]" "rob_sync_request_q sample_retire_rob = []" "retire_plan 4 [sample_retire_item, sample_flush_item] = (1, True)"
  "mispredicted sample_retire_item = False" "length (buffer sample_retire_rob) = 4"
  "retire_rat sample_retire_item = [Rat_release_map 6, Rat_commit_map 41]" "intif_get_cause sample_flush_csrs intif_new = Some None"
  by code_simp+

theorem commit_retires_in_order_witness:
  "\<exists>bp r fb s1. commit_run (sample_flush_state St_normal bp r \<lparr> cm_rob := sample_retire_rob \<rparr>) = Some (fb, s1) \<and>
     rat_sync_request_q (cm_rat s1) = rat_sync_request_q r @ [Rat_release_map 6, Rat_commit_map 41] \<and>
     rob_sync_request_q (cm_rob s1) = [Rob_pop] \<and> cf_committed_rob_id_valid fb = [True, True, False, False] \<and>
     cm_cur_state s1 = St_flush \<and> cm_restore_rob_item_id s1 = 1"
proof -
  have "bp_inv (bp_new (replicate 4096 0) (replicate 256 \<lparr> ras_addr = 0, ras_cnt = 0 \<rparr>))"
    by (rule bp_new_inv) (simp_all add: histories_def small_def RAS_SIZE_def)
  then obtain bp where bp: "bp_inv bp" by blast
  obtain r :: rat where True by blast
  let ?s = "sample_flush_state St_normal bp r \<lparr> cm_rob := sample_retire_rob \<rparr>"
  have s: "cm_rob ?s = sample_retire_rob" "cm_cur_state ?s = St_normal" "cm_branch_predictor ?s = bp" "cm_rat ?s = r"
    "cm_csr_file ?s = sample_flush_csrs" "cm_interrupt_interface ?s = intif_new"
    "\<forall>p \<in> set (port_get (cm_wb_commit_port ?s)). \<not> o_enable p"
    by (simp_all add: sample_flush_state_def port_get_def port_new_def zero_execute_wb_pack_def zero_readreg_issue_op_info_def readreg_issue_op_info_t.defs execute_wb_pack_t.defs
        rename_readreg_op_info_t.defs zero_rename_readreg_op_info_def decode_rename_pack_t.defs zero_decode_rename_pack_def)
  obtain fb s1 where "commit_run ?s = Some (fb, s1)" 
     "rat_sync_request_q (cm_rat s1) = rat_sync_request_q r @ [Rat_release_map 6, Rat_commit_map 41]"
     "rob_sync_request_q (cm_rob s1) = [Rob_pop]" "cf_committed_rob_id_valid fb = [True, True, False, False]"
     "cm_cur_state s1 = St_flush" "cm_restore_rob_item_id s1 = 1"
    using commit_retires_in_order [of ?s 8 1 True] s(7) bp unfolding s(1-6) sample_retire_facts(2-4)
    by (auto simp: sample_retire_facts sample_flush_rob_facts numeral_2_eq_2 simp del: retire_plan.simps)
  then show ?thesis by blast
qed

end
