(* ===== verification/Commit_Miss.thy ===== *)
theory Commit_Miss
  imports Commit_Retire Rename_Props
begin

text \<open>
  A mispredicted branch. The checkpoint taken when the branch was renamed is made ready for the state in which nothing but
  the visible names is in use, and restored at the end of the cycle; the reorder buffer and the checkpoints are emptied and
  fetch is sent to the right address.
\<close>

subsection \<open>Repairing the checkpoint\<close>

lemma repair_steps:
  assumes "phy_reg_num r = N" "regfile_size rf = N" "n \<le> N"
    and "N \<le> 64 * length (rat_phy_map_table_valid cp)" "N \<le> 64 * length (phy_regfile_data_valid cp)"
  shows "\<exists>cp1. drain (repair_step r rf) [0..<n] (cp, 0) =
      Some (cp1, card {p. p < n \<and> bitmap_get (rat_phy_map_table_visible cp) p}) \<and>
    rat_phy_map_table_visible cp1 = rat_phy_map_table_visible cp \<and>
    length (rat_phy_map_table_valid cp1) = length (rat_phy_map_table_valid cp) \<and>
    length (phy_regfile_data_valid cp1) = length (phy_regfile_data_valid cp) \<and>
    (\<forall>p < N. bitmap_get (rat_phy_map_table_valid cp1) p =
       (bitmap_get (rat_phy_map_table_valid cp) p \<and> (p < n \<longrightarrow> bitmap_get (rat_phy_map_table_visible cp) p))) \<and>
    (\<forall>p < n. bitmap_get (phy_regfile_data_valid cp1) p = bitmap_get (rat_phy_map_table_visible cp) p)"
  using assms(3)
proof (induction n)
  case 0
  then show ?case by simp
next
  case (Suc n)
  let ?vis = "bitmap_get (rat_phy_map_table_visible cp)"
  obtain cp1 where cp1: "drain (repair_step r rf) [0..<n] (cp, 0) = Some (cp1, card {p. p < n \<and> ?vis p})"
    "rat_phy_map_table_visible cp1 = rat_phy_map_table_visible cp"
    "length (rat_phy_map_table_valid cp1) = length (rat_phy_map_table_valid cp)"
    "length (phy_regfile_data_valid cp1) = length (phy_regfile_data_valid cp)"
    "\<And>p. p < N \<Longrightarrow> bitmap_get (rat_phy_map_table_valid cp1) p = (bitmap_get (rat_phy_map_table_valid cp) p \<and> (p < n \<longrightarrow> ?vis p))"
    "\<And>p. p < n \<Longrightarrow> bitmap_get (phy_regfile_data_valid cp1) p = ?vis p"
    using Suc by auto
  have n: "n < N" using Suc.prems by simp
  have card: "card {p. p < Suc n \<and> ?vis p} = card {p. p < n \<and> ?vis p} + (if ?vis n then 1 else 0)"
  proof (cases "?vis n")
    case True
    then have "{p. p < Suc n \<and> ?vis p} = insert n {p. p < n \<and> ?vis p}" by (auto simp: less_Suc_eq)
    with True show ?thesis by simp
  next
    case False
    then have "{p. p < Suc n \<and> ?vis p} = {p. p < n \<and> ?vis p}" by (auto simp: less_Suc_eq)
    with False show ?thesis by simp
  qed
  have step: "repair_step r rf n (cp1, c) = Some (if ?vis n then (cp1 \<lparr> phy_regfile_data_valid := bitmap_set (phy_regfile_data_valid cp1) n True \<rparr>, c + 1)
      else (cp1 \<lparr> rat_phy_map_table_valid := bitmap_set (rat_phy_map_table_valid cp1) n False,
        phy_regfile_data_valid := bitmap_set (phy_regfile_data_valid cp1) n False \<rparr>, c))" for c
    using n assms(1,2) cp1(2) by (simp add: repair_step_def cp_get_visible_def cp_set_valid_def cp_set_data_valid_def)
  have cap: "p < N \<Longrightarrow> p < 64 * length (rat_phy_map_table_valid cp1) \<and> p < 64 * length (phy_regfile_data_valid cp1)" for p
    using assms(4,5) cp1(3,4) by simp
  show ?case
    unfolding upt_Suc_append [OF le0] drain_snoc cp1(1) bind.bind_lunit step card
    using cp1(2-6) n cap by (auto simp: bitmap_get_set less_Suc_eq)
qed

lemma total_visibles_card:
  assumes "rat_total v"
  shows "card (rat_visibles v) = arch_reg_num v - 1"
proof -
  have "(\<lambda>p. phy_map_table v ! p) ` rat_visibles v = {1..<arch_reg_num v}"
  proof (intro equalityI subsetI)
    fix a assume "a \<in> {1..<arch_reg_num v}"
    then obtain p where "p \<in> rat_visibles v" "phy_map_table v ! p = a" using assms by (auto simp: rat_total_def Suc_le_eq)
    then show "a \<in> (\<lambda>p. phy_map_table v ! p) ` rat_visibles v" by blast
  qed (use assms in \<open>auto simp: rat_total_def rat_inv_def Suc_le_eq\<close>)
  moreover have "inj_on (\<lambda>p. phy_map_table v ! p) (rat_visibles v)" using assms by (simp add: rat_total_def rat_inv_def)
  ultimately show ?thesis using card_image [of "\<lambda>p. phy_map_table v ! p" "rat_visibles v"] by simp
qed

text \<open>The table \<open>v\<close> at the branch, and a checkpoint that was taken of it.\<close>

definition branch_table :: "rat \<Rightarrow> checkpoint_t \<Rightarrow> rob_item_t \<Rightarrow> bool" where
  "branch_table v cp it \<longleftrightarrow> rat_total v \<and> arch_reg_num v = 32 \<and> phy_reg_num v = PHY_REG_NUM \<and> cp_shows cp v \<and>
     PHY_REG_NUM \<le> 64 * length (phy_regfile_data_valid cp) \<and>
     (rob_old_phy_reg_id_valid it \<longrightarrow> rob_old_phy_reg_id it \<in> rat_valids v - rat_visibles v)"

lemma repair_checkpoint_ok:
  assumes "branch_table v cp it" "phy_reg_num r = PHY_REG_NUM" "regfile_size rf = PHY_REG_NUM"
  obtains cp1 where "repair_checkpoint r rf it cp = Some cp1" "rat_phy_map_table_visible cp1 = phy_map_table_visible v"
    "length (rat_phy_map_table_valid cp1) = length (phy_map_table_valid v)" "PHY_REG_NUM \<le> 64 * length (phy_regfile_data_valid cp1)"
    "\<forall>p < PHY_REG_NUM. bitmap_get (rat_phy_map_table_valid cp1) p \<longleftrightarrow> p \<in> rat_visibles v"
    "\<forall>p < PHY_REG_NUM. bitmap_get (phy_regfile_data_valid cp1) p \<longleftrightarrow> p \<in> rat_visibles v"
proof -
  note b = assms(1) [unfolded branch_table_def cp_shows_def]
  have wf: "rat_wf v" and sub: "rat_visibles v \<subseteq> rat_valids v" using b by (auto simp: rat_total_def rat_inv_def)
  have len: "PHY_REG_NUM \<le> 64 * length (rat_phy_map_table_valid cp)" using wf b by (simp add: rat_wf_def)
  obtain cp1 where cp1: "(if rob_old_phy_reg_id_valid it then cp_release_map r (rob_old_phy_reg_id it) cp else Some cp) = Some cp1"
    "rat_phy_map_table_visible cp1 = phy_map_table_visible v" "length (rat_phy_map_table_valid cp1) = length (phy_map_table_valid v)"
    "phy_regfile_data_valid cp1 = phy_regfile_data_valid cp"
    "\<And>p. p < PHY_REG_NUM \<Longrightarrow> p \<in> rat_visibles v \<Longrightarrow> bitmap_get (rat_phy_map_table_valid cp1) p"
  proof (cases "rob_old_phy_reg_id_valid it")
    case True
    let ?o = "rob_old_phy_reg_id it" and ?cp = "cp \<lparr> rat_phy_map_table_valid := bitmap_set (rat_phy_map_table_valid cp) (rob_old_phy_reg_id it) False \<rparr>"
    have o: "?o < PHY_REG_NUM" "?o \<notin> rat_visibles v" "bitmap_get (rat_phy_map_table_valid cp) ?o" "\<not> bitmap_get (rat_phy_map_table_visible cp) ?o"
      using b True by (auto simp: rat_sets)
    then have "cp_release_map r ?o cp = Some ?cp"
      using assms(2) by (simp add: cp_release_map_def cp_get_valid_def cp_get_visible_def cp_set_valid_def)
    with True show thesis using b sub o len by (intro that [of ?cp]) (auto simp: bitmap_get_set rat_sets)
  next
    case False
    with b sub show thesis by (intro that [of cp]) (auto simp: rat_sets)
  qed
  have lens: "PHY_REG_NUM \<le> 64 * length (rat_phy_map_table_valid cp1)" "PHY_REG_NUM \<le> 64 * length (phy_regfile_data_valid cp1)"
    using len b cp1(3,4) by simp_all
  have vis: "{p. p < PHY_REG_NUM \<and> bitmap_get (rat_phy_map_table_visible cp1) p} = rat_visibles v"
    using b cp1(2) by (auto simp: rat_visibles_def)
  have n: "card (rat_visibles v) = 31" using total_visibles_card [of v] b by simp
  from repair_steps [OF assms(2,3) le_refl lens, unfolded vis n] obtain cp2 where cp2: "drain (repair_step r rf) [0..<PHY_REG_NUM] (cp1, 0) = Some (cp2, 31)"
    "rat_phy_map_table_visible cp2 = rat_phy_map_table_visible cp1" "length (rat_phy_map_table_valid cp2) = length (rat_phy_map_table_valid cp1)"
    "length (phy_regfile_data_valid cp2) = length (phy_regfile_data_valid cp1)"
    "\<And>p. p < PHY_REG_NUM \<Longrightarrow> bitmap_get (rat_phy_map_table_valid cp2) p = (bitmap_get (rat_phy_map_table_valid cp1) p \<and> bitmap_get (rat_phy_map_table_visible cp1) p)"
    "\<And>p. p < PHY_REG_NUM \<Longrightarrow> bitmap_get (phy_regfile_data_valid cp2) p = bitmap_get (rat_phy_map_table_visible cp1) p" by auto
  have v1: "p < PHY_REG_NUM \<Longrightarrow> bitmap_get (rat_phy_map_table_visible cp1) p \<longleftrightarrow> p \<in> rat_visibles v" for p
    using vis by blast
  have "repair_checkpoint r rf it cp = Some cp2" using cp1(1) cp2(1) by (simp add: repair_checkpoint_def)
  then show thesis by (rule that) (use cp1 cp2 lens v1 in auto)
qed

text \<open>Restoring it over a table whose visible names at the branch have not been given away.\<close>

lemma rat_restore_repaired:
  assumes "rat_total v" "rat_wf r" "phy_reg_num r = phy_reg_num v" "arch_reg_num r = arch_reg_num v"
    "rat_phy_map_table_visible cp = phy_map_table_visible v" "phy_reg_num v \<le> 64 * length (rat_phy_map_table_valid cp)"
    "\<forall>p < phy_reg_num v. bitmap_get (rat_phy_map_table_valid cp) p \<longleftrightarrow> p \<in> rat_visibles v"
    "\<forall>p \<in> rat_visibles v. phy_map_table r ! p = phy_map_table v ! p"
  shows "rat_total (rat_restore cp r)" "rat_valids (rat_restore cp r) = rat_visibles v" "rat_visibles (rat_restore cp r) = rat_visibles v"
    "rat_get_phy_id (rat_restore cp r) a = rat_get_phy_id v a"
proof -
  let ?r = "rat_restore cp r"
  have wfv: "rat_wf v" using assms(1) by simp
  show val: "rat_valids ?r = rat_visibles v" using assms(3,7) by (auto simp: rat_restore_def rat_sets)
  show vis: "rat_visibles ?r = rat_visibles v" using assms(3,5) by (auto simp: rat_restore_def rat_sets)
  have wf: "rat_wf ?r" using assms(2,3,5,6) wfv by (simp add: rat_wf_def rat_restore_def)
  have tab: "phy_map_table ?r = phy_map_table r" "arch_reg_num ?r = arch_reg_num v" using assms(4) by (simp_all add: rat_restore_def)
  have inj: "inj_on (\<lambda>p. phy_map_table r ! p) (rat_visibles v)"
    using assms(1,8) by (subst inj_on_cong [where g = "\<lambda>p. phy_map_table v ! p"]) (auto simp: rat_total_def rat_inv_def)
  have inv: "rat_inv ?r" using wf assms(1,8) inj unfolding rat_inv_def vis val tab by (auto simp: rat_total_def rat_inv_def)
  show "rat_total ?r" using inv assms(1,8) unfolding rat_total_def vis tab by auto
  show "rat_get_phy_id ?r a = rat_get_phy_id v a"
    using inv assms(1,8) by (intro rat_get_phy_id_cong) (simp_all add: tab vis)
qed

subsection \<open>The branch in the commit loop\<close>

lemma repair_checkpoint_cong:
  assumes "phy_reg_num r1 = phy_reg_num r" "regfile_size f1 = regfile_size f"
  shows "repair_checkpoint r1 f1 it cp = repair_checkpoint r f it cp"
proof -
  have "repair_step r1 f1 = repair_step r f"
    using assms by (simp add: repair_step_def fun_eq_iff cp_get_visible_def cp_set_valid_def cp_set_data_valid_def cong: if_cong)
  then show ?thesis
    using assms by (simp add: repair_checkpoint_def cp_release_map_def cp_get_valid_def cp_get_visible_def cp_set_valid_def)
qed

text \<open>What a mispredicted branch adds to retiring it.\<close>

definition misses :: "checkpoint_t \<Rightarrow> rob_item_t \<Rightarrow> commit_loop \<Rightarrow> commit_loop \<Rightarrow> bool" where
  "misses cp it s s1 \<longleftrightarrow> cm_rat s1 = rat_restore_sync cp (cm_rat s) \<and> cm_phy_regfile s1 = regfile_restore_sync cp (cm_phy_regfile s) \<and>
     cm_rob s1 = fifo_flush (cm_rob s) \<and> cm_checkpoint_buffer s1 = fifo_flush (cm_checkpoint_buffer s) \<and> cl_need_flush s1 \<and>
     cm_cur_state s1 = cm_cur_state s \<and> cm_csr_file s1 = cm_csr_file s \<and> bp_inv (cm_branch_predictor s1) \<and>
     cf_flushing (cl_feedback s1) \<and> cf_jump_enable (cl_feedback s1) \<and> cf_next_pc (cl_feedback s1) = commit_next_pc it \<and>
     cf_has_exception (cl_feedback s1) = cf_has_exception (cl_feedback s) \<and>
     cf_committed_rob_id (cl_feedback s1) = cf_committed_rob_id (cl_feedback s) \<and>
     cf_committed_rob_id_valid (cl_feedback s1) = cf_committed_rob_id_valid (cl_feedback s)"

lemma commit_branch_misses:
  assumes "bp_inv (cm_branch_predictor s)" "mispredicted it" "rob_checkpoint_id_valid it" "csrfile_read_sys (cm_csr_file s) CSR_MSTATUS = Some v"
    "cpbuf_get_item (cm_checkpoint_buffer s) (rob_checkpoint_id it) = Some cp0" "repair_checkpoint (cm_rat s) (cm_phy_regfile s) it cp0 = Some cp"
  obtains s1 s2 where "commit_branch it (commit_retire it s) = Some s2" "retires v [it] s s1" "misses cp it s1 s2"
    "cm_cur_state s1 = cm_cur_state s" "cl_feedback s1 = cl_feedback s" "cm_checkpoint_buffer s1 = cm_checkpoint_buffer s"
proof -
  let ?s = "commit_retire it s"
  have it: "rob_bru_op it" "rob_predicted it" "\<not> prediction_hit it" using assms(2) by (auto simp: mispredicted_def)
  have csr: "csrfile_read_sys (cm_csr_file ?s) CSR_MSTATUS = Some v"
    using assms(4) by (simp add: commit_retire_def Let_def csrfile_read_sys_def csrfile_write_sync_def split: option.splits)
  obtain bp1 where bp1: "bp_update_prediction (rob_pc it) (rob_inst_value it) (rob_bru_jump it) (rob_bru_next_pc it) False
      (cm_branch_predictor s) = Some bp1" "bp_inv bp1"
    using bp_update_prediction_ok [OF assms(1)] by blast
  define m where "m = (if rob_is_mret it then (?s \<lparr> cm_perf := branch_num_add (cm_perf ?s) \<rparr>)
      \<lparr> cm_csr_file := csrfile_write_sys_sync CSR_MSTATUS (mret_value v) (cm_csr_file ?s) \<rparr>
    else ?s \<lparr> cm_perf := branch_num_add (cm_perf ?s) \<rparr>)"
  have mr: "commit_mret it (?s \<lparr> cm_perf := branch_num_add (cm_perf ?s) \<rparr>) = Some m"
    using csr by (simp add: commit_mret_def Let_def mret_value_def m_def)
  have m: "cm_branch_predictor m = cm_branch_predictor s" "cm_checkpoint_buffer m = cm_checkpoint_buffer s" "cl_feedback m = cl_feedback s"
    "cm_cur_state m = cm_cur_state s" by (simp_all add: m_def)
  have r: "retires v [it] s m"
    using assms(1) it(1) by (simp add: m_def retires_def commit_retire_def Let_def rob_pop_sync_def rob_add_commit_num_def rob_set_committed_def
        rat_commit_map_sync_def rat_release_map_sync_def regfile_write_sync_def csrfile_write_sync_def retire_rat_def retire_reg_def
        retire_csr_def fifo.defs mret_value_def csrfile_write_sys_sync_def)
  have rep: "repair_checkpoint (cm_rat m) (cm_phy_regfile m) it cp0 = Some cp"
    using r assms(6) by (subst repair_checkpoint_cong [where r = "cm_rat s" and f = "cm_phy_regfile s"]) (simp_all add: retires_def)
  let ?m = "m \<lparr> cm_perf := branch_predicted_add (cm_perf m) \<rparr>"
  obtain s2 where s2: "commit_miss it ?m = Some s2" "misses cp it m s2"
    using bp1 assms(5) rep by (auto simp: commit_miss_def Let_def m misses_def cf_flushing_def)
  have "commit_branch it ?s = Some s2" unfolding commit_branch_def mr using it assms(3) s2(1) by simp
  from that [OF this r s2(2) m(4,3,2)] show thesis .
qed

lemma commit_loop_plain:
  assumes "at_entry first i s" "\<forall>j < m. plain_entry (fifo_contents (cm_rob s) ! (i + j))" "i + m < fifo_fill (cm_rob s)" "i + m < COMMIT_WIDTH"
  shows "\<exists>s1. for_break (commit_step first) [i..<COMMIT_WIDTH] s = for_break (commit_step first) [i + m..<COMMIT_WIDTH] s1 \<and>
    at_entry first (i + m) s1 \<and> retires v (take m (drop i (fifo_contents (cm_rob s)))) s s1 \<and> cm_cur_state s1 = cm_cur_state s \<and>
    cm_checkpoint_buffer s1 = cm_checkpoint_buffer s \<and> reported i (take m (drop i (fifo_ids (cm_rob s)))) (cl_feedback s) (cl_feedback s1) \<and>
    cf_has_exception (cl_feedback s1) = cf_has_exception (cl_feedback s)"
  using assms
proof (induction m arbitrary: i s)
  case 0
  then show ?case by (intro exI [of _ s]) (simp add: retires_Nil reported_Nil at_entry_def)
next
  case (Suc m)
  let ?q = "cm_rob s"
  obtain s1 where s1: "commit_step first i s = Some (Suc i = fifo_fill ?q, s1)" "retires v [fifo_contents ?q ! i] s s1"
    "reported i [fifo_ids ?q ! i] (cl_feedback s) (cl_feedback s1)" "cm_cur_state s1 = cm_cur_state s"
    "cm_checkpoint_buffer s1 = cm_checkpoint_buffer s" "Suc i < fifo_fill ?q \<Longrightarrow> Suc i < COMMIT_WIDTH \<Longrightarrow> at_entry first (Suc i) s1"
    "cf_has_exception (cl_feedback s1) = cf_has_exception (cl_feedback s)"
    using commit_step_plain [OF Suc.prems(1), of v] Suc.prems(2) by (metis add_0_right zero_less_Suc)
  have "fifo.truncate (cm_rob s1) = fifo.truncate ?q" using s1(2) by (simp add: retires_def)
  note sr = same_ring [OF this]
  have "\<exists>s2. for_break (commit_step first) [Suc i..<COMMIT_WIDTH] s1 = for_break (commit_step first) [Suc i + m..<COMMIT_WIDTH] s2 \<and>
    at_entry first (Suc i + m) s2 \<and> retires v (take m (drop (Suc i) (fifo_contents (cm_rob s1)))) s1 s2 \<and> cm_cur_state s2 = cm_cur_state s1 \<and>
    cm_checkpoint_buffer s2 = cm_checkpoint_buffer s1 \<and> reported (Suc i) (take m (drop (Suc i) (fifo_ids (cm_rob s1)))) (cl_feedback s1) (cl_feedback s2) \<and>
    cf_has_exception (cl_feedback s2) = cf_has_exception (cl_feedback s1)"
    by (rule Suc.IH) (use Suc.prems s1(6) in \<open>auto simp: sr\<close>)
  then obtain s2 where s2: "for_break (commit_step first) [Suc i..<COMMIT_WIDTH] s1 = for_break (commit_step first) [Suc i + m..<COMMIT_WIDTH] s2"
    "at_entry first (Suc i + m) s2" "retires v (take m (drop (Suc i) (fifo_contents ?q))) s1 s2" "cm_cur_state s2 = cm_cur_state s1"
    "cm_checkpoint_buffer s2 = cm_checkpoint_buffer s1" "reported (Suc i) (take m (drop (Suc i) (fifo_ids ?q))) (cl_feedback s1) (cl_feedback s2)"
    "cf_has_exception (cl_feedback s2) = cf_has_exception (cl_feedback s1)"
    unfolding sr by blast
  have its: "drop i (fifo_contents ?q) = fifo_contents ?q ! i # drop (Suc i) (fifo_contents ?q)" "drop i (fifo_ids ?q) = fifo_ids ?q ! i # drop (Suc i) (fifo_ids ?q)"
    using Suc.prems(3) by (simp_all add: Cons_nth_drop_Suc)
  have "[i..<COMMIT_WIDTH] = i # [Suc i..<COMMIT_WIDTH]" using Suc.prems(4) by (simp add: upt_conv_Cons)
  with s1(1) s2(1) Suc.prems(3) have "for_break (commit_step first) [i..<COMMIT_WIDTH] s = for_break (commit_step first) [i + Suc m..<COMMIT_WIDTH] s2"
    by simp
  moreover have "retires v (take (Suc m) (drop i (fifo_contents ?q))) s s2" using retires_trans [OF s1(2) s2(3)] by (simp add: its)
  moreover have "reported i (take (Suc m) (drop i (fifo_ids ?q))) (cl_feedback s) (cl_feedback s2)"
    using reported_trans [OF s1(3) s2(6)] Suc.prems(1) by (simp add: its at_entry_def)
  ultimately show ?case using s2(2,4,5,7) s1(4,5,7) by (intro exI [of _ s2]) simp
qed

subsection \<open>The cycle\<close>

lemma retire_requests_rat:
  assumes "drain rat_handle (concat (map retire_rat its)) r = Some r1" "rat_wf r"
    "\<forall>it \<in> set its. rob_old_phy_reg_id_valid it \<longrightarrow> rob_old_phy_reg_id it \<notin> P"
  shows "rat_wf r1 \<and> phy_reg_num r1 = phy_reg_num r \<and> arch_reg_num r1 = arch_reg_num r \<and>
    rat_sync_request_q r1 = rat_sync_request_q r \<and> (\<forall>p \<in> P. phy_map_table r1 ! p = phy_map_table r ! p) \<and>
    (\<forall>it \<in> set its. rob_old_phy_reg_id_valid it \<longrightarrow> rob_old_phy_reg_id it < phy_reg_num r)"
  using assms
proof (induction its arbitrary: r)
  case (Cons it its)
  obtain r2 where r2: "drain rat_handle (retire_rat it) r = Some r2" "drain rat_handle (concat (map retire_rat its)) r2 = Some r1"
    using Cons.prems(1) by (auto simp: drain_append bind_eq_Some_conv)
  have "rat_wf r2 \<and> phy_reg_num r2 = phy_reg_num r \<and> arch_reg_num r2 = arch_reg_num r \<and>
    rat_sync_request_q r2 = rat_sync_request_q r \<and> (\<forall>p \<in> P. phy_map_table r2 ! p = phy_map_table r ! p) \<and>
    (rob_old_phy_reg_id_valid it \<longrightarrow> rob_old_phy_reg_id it < phy_reg_num r)"
    using r2(1) Cons.prems(2,3)
    by (auto simp: retire_rat_def rat_release_map_def rat_commit_map_def rat_set_valid_def rat_set_commit_def Let_def bind_eq_Some_conv
        rat_wf_def nth_list_update split: if_splits)
  with Cons.IH [OF r2(2)] Cons.prems(3) show ?case by auto
qed simp

lemma rob_pops_empty:
  "fifo_ring q \<Longrightarrow> fifo_contents q = [] \<Longrightarrow> drain rob_handle (replicate n Rob_pop) q = Some q"
proof (induction n)
  case (Suc n)
  have "fifo_is_empty q" using Suc.prems is_empty_fill [of q] by (metis length_0_conv contents_length)
  then have "snd (rob_pop q) = q" by (simp add: rob_pop_def pop_empty)
  with Suc show ?case by simp
qed simp

lemma retire_requests_reg:
  assumes "regfile_wf f" "\<forall>it \<in> set its. rob_old_phy_reg_id_valid it \<longrightarrow> rob_old_phy_reg_id it < regfile_size f"
  shows "\<exists>f1. drain regfile_handle (concat (map retire_reg its)) f = Some f1 \<and> regfile_size f1 = regfile_size f"
  using assms
proof (induction its arbitrary: f)
  case (Cons it its)
  obtain f2 where f2: "drain regfile_handle (retire_reg it) f = Some f2" "regfile_wf f2" "regfile_size f2 = regfile_size f"
    using Cons.prems regfile_write_read [OF Cons.prems(1), of "rob_old_phy_reg_id it" zero_phy_regfile_item False]
    by (cases "rob_old_phy_reg_id_valid it") (auto simp: retire_reg_def)
  with Cons.IH [OF f2(2)] Cons.prems(2) show ?case by (simp add: drain_append)
qed simp

lemma commit_loop_misses:
  fixes s m
  defines "it \<equiv> fifo_contents (cm_rob s) ! m" and "its \<equiv> take (Suc m) (fifo_contents (cm_rob s))"
  assumes "at_entry first 0 s" "m < fifo_fill (cm_rob s)" "m < COMMIT_WIDTH" "\<forall>j < m. plain_entry (fifo_contents (cm_rob s) ! j)"
    "rob_finish it" "\<not> rob_has_exception it" "mispredicted it" "rob_checkpoint_id_valid it" "csrfile_read_sys (cm_csr_file s) CSR_MSTATUS = Some v"
    "cpbuf_get_item (cm_checkpoint_buffer s) (rob_checkpoint_id it) = Some cp0" "repair_checkpoint (cm_rat s) (cm_phy_regfile s) it cp0 = Some cp"
  shows "\<exists>s1 s2. for_break (commit_step first) [0..<COMMIT_WIDTH] s = Some s2 \<and> retires v its s s1 \<and> misses cp it s1 s2 \<and>
    cm_cur_state s1 = cm_cur_state s \<and> cm_checkpoint_buffer s1 = cm_checkpoint_buffer s \<and>
    cf_has_exception (cl_feedback s1) = cf_has_exception (cl_feedback s)"
proof -
  let ?q = "cm_rob s"
  obtain u where u: "for_break (commit_step first) [0..<COMMIT_WIDTH] s = for_break (commit_step first) [m..<COMMIT_WIDTH] u"
    "at_entry first m u" "retires v (take m (fifo_contents ?q)) s u" "cm_cur_state u = cm_cur_state s" "cm_checkpoint_buffer u = cm_checkpoint_buffer s"
    "cf_has_exception (cl_feedback u) = cf_has_exception (cl_feedback s)"
    using commit_loop_plain [of first 0 s m v] assms(3-6) by auto
  have "fifo.truncate (cm_rob u) = fifo.truncate ?q" using u(3) by (simp add: retires_def)
  note sr = same_ring [OF this]
  obtain ok n where e: "rob_get_item (cm_rob u) (cm_rob_item_id u) = Some it" "rob_get_next_id (cm_rob u) (cm_rob_item_id u) = Some (ok, n)"
    using at_entry_reads [OF u(2)] unfolding it_def sr by metis
  let ?u = "entry_feedback first ok n m u"
  have rep: "repair_checkpoint (cm_rat ?u) (cm_phy_regfile ?u) it cp0 = Some cp"
    using u(3) assms(13) by (subst repair_checkpoint_cong [where r = "cm_rat s" and f = "cm_phy_regfile s"]) (simp_all add: retires_def)
  have pre: "bp_inv (cm_branch_predictor ?u)" "csrfile_read_sys (cm_csr_file ?u) CSR_MSTATUS = Some v"
    "cpbuf_get_item (cm_checkpoint_buffer ?u) (rob_checkpoint_id it) = Some cp0"
    using u(2,5) assms(11,12) csr_retires [OF u(3)] by (simp_all add: at_entry_def)
  obtain s1 s2 where b: "commit_branch it (commit_retire it ?u) = Some s2" "retires v [it] ?u s1" "misses cp it s1 s2"
    "cm_cur_state s1 = cm_cur_state ?u" "cl_feedback s1 = cl_feedback ?u" "cm_checkpoint_buffer s1 = cm_checkpoint_buffer ?u"
    by (rule commit_branch_misses [OF pre(1) assms(9,10) pre(2,3) rep])
  have bru: "rob_bru_op it" using assms(9) by (simp add: mispredicted_def)
  have item: "fifo_contents (cm_rob u) ! m = it" by (simp add: it_def sr)
  have step: "commit_step first m u = Some (True, s2)"
    using assms(7,8) bru e b(1) item by (simp add: commit_step_def Let_def entry_feedback_def)
  have upt: "[m..<COMMIT_WIDTH] = m # [Suc m..<COMMIT_WIDTH]" using assms(5) by (simp add: upt_conv_Cons)
  have fb: "for_break (commit_step first) [0..<COMMIT_WIDTH] s = Some s2" using u(1) step unfolding upt by simp
  have "its = take m (fifo_contents ?q) @ [it]" using assms(4) by (simp add: its_def it_def take_Suc_conv_app_nth)
  then have "retires v its s s1" using retires_trans [OF u(3), of "[it]" s1] b(2) by simp
  moreover have "cf_has_exception (cl_feedback s1) = cf_has_exception (cl_feedback s)"
    using u(6) b(5) by (simp add: entry_feedback_def)
  ultimately show ?thesis using fb b(3,4,6) u(4,5) by (intro exI [of _ s1] exI [of _ s2]) simp
qed

text \<open>The three request queues at the end of such a cycle.\<close>

lemma rat_sync_retire_restore:
  assumes "rat_sync_request_q r = []" "drain rat_handle reqs r = Some r1"
  shows "rat_sync (rat_restore_sync cp (r \<lparr> rat_sync_request_q := reqs \<rparr>)) = Some (rat_restore cp r1)"
proof -
  have "r \<lparr> rat_sync_request_q := [] \<rparr> = r" using assms(1) by (cases r) simp
  then show ?thesis using assms(2) by (simp add: rat_sync_def rat_restore_sync_def drain_append)
qed

lemma regfile_sync_retire_restore:
  assumes "regfile_sync_request_q f = []" "drain regfile_handle reqs f = Some f1" "regfile_size f1 = PHY_REG_NUM"
    "\<forall>p < PHY_REG_NUM. bitmap_get (phy_regfile_data_valid cp) p \<longleftrightarrow> p \<in> P"
  shows "\<exists>f2. regfile_sync (regfile_restore_sync cp (f \<lparr> regfile_sync_request_q := reqs \<rparr>)) = Some f2 \<and>
    (\<forall>p < PHY_REG_NUM. read_data_valid f2 p = Some (p \<in> P))"
proof -
  have "f \<lparr> regfile_sync_request_q := [] \<rparr> = f" using assms(1) by (cases f) simp
  then have "regfile_sync (regfile_restore_sync cp (f \<lparr> regfile_sync_request_q := reqs \<rparr>)) = Some (regfile_restore cp f1)"
    using assms(2) by (simp add: regfile_sync_def regfile_restore_sync_def drain_append)
  with assms(3,4) show ?thesis by (simp add: read_data_valid_def regfile_restore_def)
qed

lemma rob_sync_flushed:
  assumes "fifo_ring q" "rob_sync_request_q q = replicate n Rob_pop"
  shows "\<exists>q2. rob_sync (fifo_flush q) = Some q2 \<and> fifo_contents q2 = []"
proof -
  let ?q = "(fifo_flush q) \<lparr> rob_sync_request_q := [] \<rparr>"
  have q: "fifo_ring ?q" "fifo_contents ?q = []"
    using flush_ring [OF assms(1)] by (simp_all add: fifo_ring_def fifo_contents_def fifo_ids_def fifo_fill_def)
  have "rob_sync_request_q (fifo_flush q) = replicate n Rob_pop" using assms(2) by (simp add: fifo_flush_def)
  with rob_pops_empty [OF q] q(2) show ?thesis by (simp add: rob_sync_def)
qed

text \<open>C11: when a mispredicted branch reaches the head of the reorder buffer, behind at most three other finished instructions,
  one cycle of the commit stage retires them with it and repairs the machine. At the end of the cycle every architectural
  register has the name it had when the branch was renamed, exactly those names are allocated and have a value, the reorder
  buffer and the checkpoints are empty, and fetch is sent to the address where the branch really goes. For this the
  checkpoint of the branch has to show the table at the branch, whose names have not been given away since, and retiring the
  instructions has to be possible.\<close>

theorem misprediction_restores_branch_state:
  fixes s m
  defines "it \<equiv> fifo_contents (cm_rob s) ! m" and "its \<equiv> take (Suc m) (fifo_contents (cm_rob s))"
  assumes "cm_cur_state s = St_normal" "fifo_ring (cm_rob s)" "m < fifo_fill (cm_rob s)" "m < COMMIT_WIDTH"
    and "\<forall>j < m. plain_entry (fifo_contents (cm_rob s) ! j)" "rob_finish it" "\<not> rob_has_exception it" "mispredicted it" "rob_checkpoint_id_valid it"
    and "intif_get_cause (cm_csr_file s) (cm_interrupt_interface s) = Some None" "csrfile_read_sys (cm_csr_file s) CSR_MSTATUS = Some ms"
    and "bp_inv (cm_branch_predictor s)" "fifo_ring (cm_checkpoint_buffer s)"
    and "cpbuf_get_item (cm_checkpoint_buffer s) (rob_checkpoint_id it) = Some cp" "branch_table v cp it"
    and "rat_wf (cm_rat s)" "phy_reg_num (cm_rat s) = PHY_REG_NUM" "arch_reg_num (cm_rat s) = 32" "rat_sync_request_q (cm_rat s) = []"
    and "\<forall>p \<in> rat_visibles v. phy_map_table (cm_rat s) ! p = phy_map_table v ! p"
    and "\<forall>e \<in> set its. rob_old_phy_reg_id_valid e \<longrightarrow> rob_old_phy_reg_id e \<notin> rat_visibles v"
    and "drain rat_handle (concat (map retire_rat its)) (cm_rat s) = Some r1"
    and "regfile_wf (cm_phy_regfile s)" "regfile_size (cm_phy_regfile s) = PHY_REG_NUM" "regfile_sync_request_q (cm_phy_regfile s) = []"
    and "rob_sync_request_q (cm_rob s) = []"
  shows "\<exists>fb s1 r2 f2 q2. commit_run s = Some (fb, s1) \<and> cm_cur_state s1 = St_normal \<and>
    cf_flushing fb \<and> \<not> cf_has_exception fb \<and> cf_jump_enable fb \<and> cf_next_pc fb = commit_next_pc it \<and>
    rat_sync (cm_rat s1) = Some r2 \<and> rat_total r2 \<and> (\<forall>a. rat_get_phy_id r2 a = rat_get_phy_id v a) \<and> rat_valids r2 = rat_visibles v \<and>
    regfile_sync (cm_phy_regfile s1) = Some f2 \<and> (\<forall>p < PHY_REG_NUM. read_data_valid f2 p = Some (p \<in> rat_visibles v)) \<and>
    rob_sync (cm_rob s1) = Some q2 \<and> fifo_contents q2 = [] \<and> fifo_contents (cm_checkpoint_buffer s1) = []"
proof -
  let ?q = "cm_rob s" and ?P = "rat_visibles v"
  have ne: "fifo_contents ?q \<noteq> []" using assms(5) by (auto simp flip: length_greater_0_conv)
  obtain cp1 where cp1: "repair_checkpoint (cm_rat s) (cm_phy_regfile s) it cp = Some cp1" "rat_phy_map_table_visible cp1 = phy_map_table_visible v"
    "length (rat_phy_map_table_valid cp1) = length (phy_map_table_valid v)" "PHY_REG_NUM \<le> 64 * length (phy_regfile_data_valid cp1)"
    "\<forall>p < PHY_REG_NUM. bitmap_get (rat_phy_map_table_valid cp1) p \<longleftrightarrow> p \<in> ?P"
    "\<forall>p < PHY_REG_NUM. bitmap_get (phy_regfile_data_valid cp1) p \<longleftrightarrow> p \<in> ?P"
    by (rule repair_checkpoint_ok [OF assms(17,19,26)])
  note enter = commit_output_enter [OF assms(4) ne assms(14,12)]
  obtain u l where l: "for_break (commit_step (hd (fifo_ids ?q))) [0..<COMMIT_WIDTH] (commit_enter s) = Some l"
    "retires ms its (commit_enter s) u" "misses cp1 it u l" "cm_cur_state u = St_normal" "cm_checkpoint_buffer u = cm_checkpoint_buffer s"
    "\<not> cf_has_exception (cl_feedback u)"
    using commit_loop_misses [OF enter(2), of m ms cp cp1] assms(3,5-11,13,16) cp1(1) unfolding it_def its_def commit_enter_simps by auto
  let ?s1 = "commit_state.truncate l"
  have run: "commit_run s = Some (cl_feedback l, ?s1)"
    using assms(3) enter(1) l(1,3) by (simp add: commit_run_def commit_run_normal_def misses_def commit_state.defs)
  note r = l(2) [unfolded retires_def commit_enter_simps] and x = l(3) [unfolded misses_def]
  have its: "length its = Suc m" using assms(5) by (simp add: its_def)
  note rq = retire_requests_rat [OF assms(24,18,23)]
  have rat: "rat_sync (cm_rat l) = Some (rat_restore cp1 r1)"
    using r x rat_sync_retire_restore [OF assms(21,24)] assms(21) by simp
  have b: "rat_total v" "phy_reg_num v = PHY_REG_NUM" "arch_reg_num v = 32" using assms(17) by (auto simp: branch_table_def)
  note R = rat_restore_repaired [of v r1 cp1]
  have vlen: "PHY_REG_NUM \<le> 64 * length (rat_phy_map_table_valid cp1)"
    using cp1(3) b rat_inv_wf [OF rat_total_inv [OF b(1)]] by (simp add: rat_wf_def)
  have tab: "\<forall>p \<in> ?P. phy_map_table r1 ! p = phy_map_table v ! p" using rq assms(22) by simp
  have new: "rat_total (rat_restore cp1 r1)" "rat_valids (rat_restore cp1 r1) = ?P" "\<forall>a. rat_get_phy_id (rat_restore cp1 r1) a = rat_get_phy_id v a"
    using R [OF b(1) _ _ _ cp1(2) _ _ tab] rq assms(19,20) b vlen cp1(5) by auto
  obtain f1 where f1: "drain regfile_handle (concat (map retire_reg its)) (cm_phy_regfile s) = Some f1" "regfile_size f1 = PHY_REG_NUM"
    using retire_requests_reg [OF assms(25), of its] rq assms(19,26) by auto
  obtain f2 where f2: "regfile_sync (cm_phy_regfile l) = Some f2" "\<forall>p < PHY_REG_NUM. read_data_valid f2 p = Some (p \<in> ?P)"
    using regfile_sync_retire_restore [OF assms(27) f1 cp1(6)] r x assms(27) by auto
  have "fifo.truncate (cm_rob u) = fifo.truncate ?q" using r by simp
  from same_ring(1) [OF this] have "fifo_ring (cm_rob u)" "rob_sync_request_q (cm_rob u) = replicate (Suc m) Rob_pop"
    using assms(4,28) r its by simp_all
  then obtain q2 where q2: "rob_sync (cm_rob l) = Some q2" "fifo_contents q2 = []" using rob_sync_flushed x by metis
  have cpb: "fifo_contents (cm_checkpoint_buffer l) = []" using x l(5) flush_ring [OF assms(15)] by simp
  have t: "cm_rat ?s1 = cm_rat l" "cm_phy_regfile ?s1 = cm_phy_regfile l" "cm_rob ?s1 = cm_rob l" "cm_checkpoint_buffer ?s1 = cm_checkpoint_buffer l"
    "cm_cur_state ?s1 = St_normal" using x l(4) by (simp_all add: commit_state.defs)
  have fb: "cf_flushing (cl_feedback l)" "\<not> cf_has_exception (cl_feedback l)" "cf_jump_enable (cl_feedback l)"
    "cf_next_pc (cl_feedback l) = commit_next_pc it" using x l(6) by simp_all
  show ?thesis
    by (rule exI [of _ "cl_feedback l"], rule exI [of _ ?s1], rule exI [of _ "rat_restore cp1 r1"], rule exI [of _ f2], rule exI [of _ q2])
      (simp add: run t rat new f2 q2 cpb fb)
qed

definition sample_branch_item :: rob_item_t where
  "sample_branch_item = zero_rob_item \<lparr> rob_finish := True, rob_pc := 0x80000010, rob_bru_op := True, rob_predicted := True,
     rob_predicted_jump := False, rob_checkpoint_id_valid := True, rob_checkpoint_id := 0, rob_bru_jump := True, rob_bru_next_pc := 0x80000100 \<rparr>"

definition sample_branch_checkpoint :: "rat \<Rightarrow> checkpoint_t" where
  "sample_branch_checkpoint v = rat_save v (sample_checkpoint \<lparr> phy_regfile_data_valid := [0, 0] \<rparr>)"

definition sample_branch_state :: "branch_predictor \<Rightarrow> rat \<Rightarrow> commit_state" where
  "sample_branch_state bp v = (sample_flush_state St_normal bp v)
     \<lparr> cm_rob := snd (fifo_push sample_branch_item (rob_new 4 (replicate 4 zero_rob_item) 0 False)),
       cm_checkpoint_buffer := cpbuf_new 1 [sample_branch_checkpoint v] 0 False \<rparr>"

lemma sample_branch_rob:
  "fifo_ring (snd (fifo_push sample_branch_item (rob_new 4 (replicate 4 zero_rob_item) 0 False)))"
  "fifo_contents (snd (fifo_push sample_branch_item (rob_new 4 (replicate 4 zero_rob_item) 0 False))) = [sample_branch_item]"
  "fifo_fill (snd (fifo_push sample_branch_item (rob_new 4 (replicate 4 zero_rob_item) 0 False))) = 1"
  "rob_sync_request_q (snd (fifo_push sample_branch_item (rob_new 4 (replicate 4 zero_rob_item) 0 False))) = []"
  "mispredicted sample_branch_item" "commit_next_pc sample_branch_item = 0x80000100" "retire_rat sample_branch_item = []"
  "rob_finish sample_branch_item" "\<not> rob_has_exception sample_branch_item" "rob_checkpoint_id_valid sample_branch_item"
  "rob_checkpoint_id sample_branch_item = 0" "\<not> rob_old_phy_reg_id_valid sample_branch_item"
  by code_simp+

theorem misprediction_restores_branch_state_witness:
  "\<exists>bp v fb s1 r2. commit_run (sample_branch_state bp v) = Some (fb, s1) \<and> cf_flushing fb \<and> cf_next_pc fb = 0x80000100 \<and>
     rat_sync (cm_rat s1) = Some r2 \<and> rat_get_phy_id r2 5 = Some (Some 5) \<and> rat_valids r2 = {1..<32}"
proof -
  have "bp_inv (bp_new (replicate 4096 0) (replicate 256 \<lparr> ras_addr = 0, ras_cnt = 0 \<rparr>))"
    by (rule bp_new_inv) (simp_all add: histories_def small_def RAS_SIZE_def)
  then obtain bp where bp: "bp_inv bp" by blast
  obtain b where b: "rat_total b" "rat_valids b = {1..<32}" "phy_reg_num b = 128" "arch_reg_num b = 32" "rat_visibles b = {1..<32}"
    "\<forall>i \<in> {1..<32}. phy_map_table b ! i = i" using rat_boot_total [of 128 "[]" "[]" "[]" "[]"] by auto
  let ?v = "b \<lparr> rat_sync_request_q := [] \<rparr>"
  have sets: "rat_valids ?v = {1..<32}" "rat_visibles ?v = {1..<32}" using b(2,5) by (simp_all add: rat_sets)
  have v: "rat_total ?v" "rat_wf ?v" using b(1,2,5) sets by (simp_all add: rat_total_def rat_inv_def rat_wf_def)
  have five: "rat_get_phy_id ?v 5 = Some (Some 5)" using rat_get_phy_id_iff [of ?v 5 5] v(1) sets b(4,6) by simp
  let ?s = "sample_branch_state bp ?v" and ?cp = "sample_branch_checkpoint ?v"
  have q: "cm_rob ?s = snd (fifo_push sample_branch_item (rob_new 4 (replicate 4 zero_rob_item) 0 False))" by (simp add: sample_branch_state_def)
  note Q = sample_branch_rob [folded q]
  have table: "branch_table ?v ?cp sample_branch_item"
    using v(1) b(3,4) sample_branch_rob(12) by (simp add: branch_table_def sample_branch_checkpoint_def cp_shows_def rat_save_def PHY_REG_NUM_def)
  have c: "fifo_ring (cm_checkpoint_buffer ?s)" "cpbuf_get_item (cm_checkpoint_buffer ?s) 0 = Some ?cp"
    by (simp_all add: sample_branch_state_def cpbuf_new_def fifo.defs checkpoint_buffer.defs fifo_new_def fifo_ring_def ring_ok_def cpbuf_get_item_def)
  have f: "regfile_wf (cm_phy_regfile ?s)" "regfile_size (cm_phy_regfile ?s) = PHY_REG_NUM" "regfile_sync_request_q (cm_phy_regfile ?s) = []"
    using regfile_new_wf [of zero_phy_regfile_item 128]
    by (simp_all add: sample_branch_state_def sample_flush_state_def regfile_new_def PHY_REG_NUM_def)
  have o: "cm_cur_state ?s = St_normal" "cm_rat ?s = ?v" "cm_branch_predictor ?s = bp" "cm_csr_file ?s = sample_flush_csrs"
    "cm_interrupt_interface ?s = intif_new" by (simp_all add: sample_branch_state_def sample_flush_state_def)
  have its: "take (Suc 0) [sample_branch_item] = [sample_branch_item]" by simp
  from misprediction_restores_branch_state [of ?s 0 8 ?cp ?v ?v] show ?thesis
    using v five sets b(3,4) bp table Q c f sample_retire_facts(9) sample_flush_rob_facts(7) unfolding o
    by (simp add: PHY_REG_NUM_def) metis
qed

end
