(* ===== verification/Fetch.thy ===== *)
theory Fetch
  imports Pipeline_Types Perf Bus Store_Buffer Branch_Predictor
begin

text \<open>
  \<open>pipeline/fetch.cpp\<close>: the fetch stage reads up to \<open>FETCH_WIDTH\<close> consecutive instructions per cycle, up to and including
  the first jump. It follows the prediction of a jump, or waits for the commit stage when there is none or no checkpoint
  is free.
\<close>

unbundle bit_operations_syntax

record fetch_state =
  ft_bus :: bus
  ft_fetch_decode_fifo :: "fetch_decode_pack_t fifo"
  ft_checkpoint_buffer :: checkpoint_buffer
  ft_branch_predictor :: branch_predictor
  ft_store_buffer :: store_buffer
  ft_init_pc :: u32
  ft_pc :: u32
  ft_jump_wait :: bool
  ft_wait_first_memory_result :: bool
  ft_perf :: perf

definition fetch_reset :: "fetch_state \<Rightarrow> fetch_state" where
  "fetch_reset s = s \<lparr> ft_pc := ft_init_pc s, ft_jump_wait := False, ft_wait_first_memory_result := True \<rparr>"

definition zero_fetch_decode_pack :: fetch_decode_pack_t where
  "zero_fetch_decode_pack = \<lparr> fd_pc = 0, fd_value = 0, fd_enable = False, fd_has_exception = False,
     fd_exception_id = instruction_address_misaligned, fd_exception_value = 0, fd_predicted = False, fd_predicted_jump = False,
     fd_predicted_next_pc = 0, fd_checkpoint_id_valid = False, fd_checkpoint_id = 0 \<rparr>"

definition fetch_is_jump :: "u32 \<Rightarrow> bool" where
  "fetch_is_jump w \<longleftrightarrow> w AND 0x7f = 0x6f \<or> w AND 0x7f = 0x67 \<or> w AND 0x7f = 0x63 \<or> w = 0x30200073"

definition fetch_is_fence_i :: "u32 \<Rightarrow> bool" where
  "fetch_is_fence_i w \<longleftrightarrow> w AND 0x7f = 0x0f \<and> drop_bit 12 w AND 0x07 = 0x01"

text \<open>The prediction of a jump: the pack and the state with the new program counter.\<close>

definition fetch_jump :: "checkpoint_t \<Rightarrow> u32 \<Rightarrow> u32 \<Rightarrow> fetch_decode_pack_t \<Rightarrow> fetch_state \<Rightarrow>
    (fetch_decode_pack_t \<times> fetch_state) option" where
  "fetch_jump uninit cur_pc w pack s = do {
     (prediction, bp1, pf1) \<leftarrow> bp_get_prediction cur_pc w (ft_branch_predictor s, ft_perf s);
     let s1 = s \<lparr> ft_branch_predictor := bp1, ft_perf := pf1 \<rparr>;
     case prediction of
       Some (jump_result, jump_next_pc) \<Rightarrow> do {
         cp \<leftarrow> bp_save uninit cur_pc (ft_branch_predictor s1);
         let (id_valid, cp_id, cpb1) = cpbuf_push cp (ft_checkpoint_buffer s1);
         let pack1 = pack \<lparr> fd_checkpoint_id_valid := id_valid, fd_checkpoint_id := cp_id \<rparr>;
         bp2 \<leftarrow> bp_update_prediction_guess cur_pc w jump_result jump_next_pc (ft_branch_predictor s1);
         let s2 = s1 \<lparr> ft_checkpoint_buffer := cpb1, ft_branch_predictor := bp2 \<rparr>;
         Some (if \<not> id_valid
           then (pack1, s2 \<lparr> ft_perf := checkpoint_buffer_full_add (ft_perf s2), ft_jump_wait := True, ft_pc := cur_pc + 4 \<rparr>)
           else (pack1 \<lparr> fd_predicted := True, fd_predicted_jump := jump_result, fd_predicted_next_pc := jump_next_pc \<rparr>,
                 s2 \<lparr> ft_pc := if jump_result then jump_next_pc else cur_pc + 4, ft_jump_wait := False \<rparr>)) }
     | None \<Rightarrow> Some (pack, s1 \<lparr> ft_jump_wait := True, ft_pc := cur_pc + 4 \<rparr>) }"

definition fetch_read :: "u32 \<Rightarrow> bus \<Rightarrow> (bool \<times> u32 \<times> bus) option" where
  "fetch_read cur_pc b =
     (if \<not> bus_check_align cur_pc 4 then Some (True, 0, b)
      else do { (w, b1) \<leftarrow> bus_read32 cur_pc b; Some (False, w, b1) })"

definition fetch_step :: "checkpoint_t \<Rightarrow> decode_feedback_pack_t \<Rightarrow> rename_feedback_pack_t \<Rightarrow> commit_feedback_pack_t \<Rightarrow> u32 \<Rightarrow> nat \<Rightarrow>
    fetch_state \<Rightarrow> (bool \<times> fetch_state) option" where
  "fetch_step uninit df rf cf old_pc i s =
     (if \<not> fifo_is_full (ft_fetch_decode_fifo s) then do {
        let cur_pc = old_pc + of_nat i * 4;
        (has_exception, w, b1) \<leftarrow> fetch_read cur_pc (ft_bus s);
        let s1 = s \<lparr> ft_bus := b1 \<rparr>;
        if fetch_is_fence_i w \<and> (i \<noteq> 0 \<or> \<not> df_idle df \<or> \<not> rf_idle rf \<or> cf_enable cf \<or> \<not> fifo_is_empty (ft_store_buffer s1))
        then Some (True, s1)
        else do {
          (pack, s2) \<leftarrow> (if fetch_is_jump w then fetch_jump uninit cur_pc w zero_fetch_decode_pack s1
             else Some (zero_fetch_decode_pack, s1 \<lparr> ft_pc := cur_pc + 4 \<rparr>));
          let pack1 = pack \<lparr> fd_value := w, fd_enable := True, fd_pc := cur_pc, fd_has_exception := has_exception,
            fd_exception_id := if \<not> bus_check_align cur_pc 4 then instruction_address_misaligned else instruction_access_fault,
            fd_exception_value := cur_pc \<rparr>;
          let s3 = s2 \<lparr> ft_fetch_decode_fifo := snd (fifo_push pack1 (ft_fetch_decode_fifo s2)) \<rparr>;
          Some (if fetch_is_jump w then (True, s3 \<lparr> ft_perf := fetch_not_full_add (ft_perf s3) \<rparr>) else (False, s3)) } }
      else Some (False, s \<lparr> ft_perf := fetch_decode_fifo_full_add (ft_perf s) \<rparr>))"

text \<open>Tracing the fetched words reads the bus, so it fails where reading fails: the four words from the program counter on, for
  the bus, for the slave that is mapped there and for the data coming back.\<close>

definition fetch_trace_word :: "u32 \<Rightarrow> nat \<Rightarrow> bus \<Rightarrow> bus option" where
  "fetch_trace_word old_pc i b = map_option snd (bus_read32 (old_pc + of_nat i * 4) b)"

definition fetch_trace :: "u32 \<Rightarrow> bus \<Rightarrow> bus option" where
  "fetch_trace old_pc b = do {
     b1 \<leftarrow> drain (fetch_trace_word old_pc) [0..<FETCH_WIDTH] b;
     b2 \<leftarrow> (if bus_get_slave_obj b1 old_pc \<noteq> None then drain (fetch_trace_word old_pc) [0..<FETCH_WIDTH] b1 else Some b1);
     drain (fetch_trace_word old_pc) [0..<FETCH_WIDTH] b2 }"

definition fetch_flush :: "commit_feedback_pack_t \<Rightarrow> fetch_state \<Rightarrow> fetch_state" where
  "fetch_flush cf s = s \<lparr> ft_fetch_decode_fifo := fifo_flush (ft_fetch_decode_fifo s), ft_jump_wait := False,
     ft_pc := if cf_has_exception cf then cf_exception_pc cf else if cf_jump_enable cf then cf_next_pc cf else ft_pc s \<rparr>"

definition fetch_run :: "checkpoint_t \<Rightarrow> decode_feedback_pack_t \<Rightarrow> rename_feedback_pack_t \<Rightarrow> commit_feedback_pack_t \<Rightarrow>
    fetch_state \<Rightarrow> fetch_state option" where
  "fetch_run uninit df rf cf s =
     (if ft_wait_first_memory_result s then Some (s \<lparr> ft_wait_first_memory_result := False \<rparr>)
      else if \<not> cf_flushing cf then
        if ft_jump_wait s then
          Some (if cf_jump_enable cf
            then s \<lparr> ft_jump_wait := False, ft_pc := if cf_jump cf then cf_next_pc cf else ft_pc s \<rparr> else s)
        else do {
          b1 \<leftarrow> fetch_trace (ft_pc s) (ft_bus s);
          for_break (fetch_step uninit df rf cf (ft_pc s)) [0..<FETCH_WIDTH] (s \<lparr> ft_bus := b1 \<rparr>) }
      else Some (fetch_flush cf s))"

definition fetch_get_pc :: "fetch_state \<Rightarrow> u32" where
  "fetch_get_pc s = ft_pc s"

end
