(* ===== verification/Fetch_Props.thy ===== *)
theory Fetch_Props
  imports Fetch Bp_Props
begin

text \<open>
  A cycle of the fetch stage as a path through the program: the packs it sends to decode are the instructions that follow
  one another from the program counter on, up to the first jump.
\<close>

subsection \<open>The fetched path\<close>

text \<open>Where the stage goes on after an instruction.\<close>

definition pack_next :: "fetch_decode_pack_t \<Rightarrow> u32" where
  "pack_next p = (if fd_predicted p \<and> fd_predicted_jump p then fd_predicted_next_pc p else fd_pc p + 4)"

text \<open>A run of instructions: each is the word of the program at its address, only a jump is predicted and no jump is
  followed by another instruction.\<close>

inductive fetch_path :: "(u32 \<Rightarrow> u32) \<Rightarrow> u32 \<Rightarrow> fetch_decode_pack_t list \<Rightarrow> u32 \<Rightarrow> bool" where
  path_Nil: "fetch_path code pc [] pc"
| path_Cons: "fd_pc p = pc \<Longrightarrow> fd_value p = code pc \<Longrightarrow> \<not> fd_has_exception p \<Longrightarrow> fd_enable p \<Longrightarrow>
    (fd_predicted p \<longrightarrow> fetch_is_jump (code pc) \<and> fd_checkpoint_id_valid p) \<Longrightarrow> (fetch_is_jump (code pc) \<longrightarrow> ps = []) \<Longrightarrow>
    fetch_path code (pack_next p) ps pc1 \<Longrightarrow> fetch_path code pc (p # ps) pc1"

inductive_cases path_NilE: "fetch_path code pc [] pc1"
inductive_cases path_ConsE: "fetch_path code pc (p # ps) pc1"

text \<open>The four words from an address on, as the bus has them.\<close>

definition code_at :: "(u32 \<Rightarrow> u32) \<Rightarrow> u32 \<Rightarrow> bus \<Rightarrow> bool" where
  "code_at code pc b \<longleftrightarrow> bus_check_align pc 4 \<and>
     (\<forall>k < FETCH_WIDTH. bus_read32 (pc + of_nat k * 4) b = Some (code (pc + of_nat k * 4), b))"

lemma drain_same:
  assumes "\<And>x. x \<in> set xs \<Longrightarrow> f x s = Some s"
  shows "drain f xs s = Some s"
  using assms by (induction xs) simp_all

lemma fetch_trace_ok: "code_at code pc b \<Longrightarrow> fetch_trace pc b = Some b"
  using drain_same [of "[0..<FETCH_WIDTH]" "fetch_trace_word pc" b]
  by (simp add: code_at_def fetch_trace_def fetch_trace_word_def del: FETCH_WIDTH_def)

lemma align_step:
  fixes pc :: u32
  assumes "bus_check_align pc 4"
  shows "bus_check_align (pc + of_nat k * 4) 4"
proof -
  have al: "bus_check_align x 4 \<longleftrightarrow> 4 dvd uint x" for x :: u32
    using is_align_dvd [of 2 x] by (simp add: bus_check_align_def is_align_def)
  have k: "uint (of_nat k * 4 :: u32) = int k * 4 mod 2 ^ 32" using uint_word_of_int [where 'a = 32, of "int k * 4"] by simp
  have "4 dvd int k * 4 mod 2 ^ 32" by (rule dvd_mod) simp_all
  then have "4 dvd uint pc + uint (of_nat k * 4 :: u32)" using assms by (simp add: al k)
  then show ?thesis unfolding al uint_word_arith_bintrs(1) take_bit_eq_mod by (rule dvd_mod) simp
qed


subsection \<open>One instruction\<close>

lemma fetch_jump_ok:
  assumes "bp_inv (ft_branch_predictor s)" "fifo_inv (ft_checkpoint_buffer s)"
  obtains p s1 where "fetch_jump uninit pc w zero_fetch_decode_pack s = Some (p, s1)" "bp_inv (ft_branch_predictor s1)"
    "fifo_inv (ft_checkpoint_buffer s1)" "ft_bus s1 = ft_bus s" "ft_fetch_decode_fifo s1 = ft_fetch_decode_fifo s"
    "ft_store_buffer s1 = ft_store_buffer s" "ft_jump_wait s1 = (\<not> fd_predicted p)" "fd_predicted p \<longrightarrow> fd_checkpoint_id_valid p"
    "ft_pc s1 = (if fd_predicted p \<and> fd_predicted_jump p then fd_predicted_next_pc p else pc + 4)"
    "fifo_ids (ft_checkpoint_buffer s1) = fifo_ids (ft_checkpoint_buffer s) @ (if fd_predicted p then [fd_checkpoint_id p] else [])"
proof -
  obtain r bp1 pf1 where g: "bp_get_prediction pc w (ft_branch_predictor s, ft_perf s) = Some (r, bp1, pf1)" "bp_inv bp1"
    using bp_get_prediction_ok [OF assms(1)] by blast
  show thesis
  proof (cases r)
    case None
    with g have "fetch_jump uninit pc w zero_fetch_decode_pack s = Some (zero_fetch_decode_pack,
        s \<lparr> ft_branch_predictor := bp1, ft_perf := pf1, ft_jump_wait := True, ft_pc := pc + 4 \<rparr>)" by (simp add: fetch_jump_def)
    then show thesis by (rule that) (use g assms(2) in \<open>simp_all add: zero_fetch_decode_pack_def\<close>)
  next
    case (Some jn)
    obtain j n where jn: "jn = (j, n)" by (cases jn)
    obtain cp where cp: "bp_save uninit pc bp1 = Some cp" using bp_save_ok [OF g(2)] by blast
    obtain bp2 where bp2: "bp_update_prediction_guess pc w j n bp1 = Some bp2" "bp_inv bp2" using bp_guess_ok [OF g(2)] by blast
    let ?q = "ft_checkpoint_buffer s"
    show thesis
    proof (cases "fifo_is_full ?q")
      case True
      with Some jn g cp bp2 have "fetch_jump uninit pc w zero_fetch_decode_pack s =
          Some (zero_fetch_decode_pack \<lparr> fd_checkpoint_id_valid := False, fd_checkpoint_id := wptr ?q \<rparr>,
            s \<lparr> ft_branch_predictor := bp2, ft_checkpoint_buffer := ?q, ft_perf := checkpoint_buffer_full_add pf1, ft_jump_wait := True,
              ft_pc := pc + 4 \<rparr>)"
        by (simp add: fetch_jump_def cpbuf_push_def Let_def push_full)
      then show thesis by (rule that) (use bp2 assms(2) in \<open>simp_all add: zero_fetch_decode_pack_def\<close>)
    next
      case False
      obtain q1 where q1: "fifo_push cp ?q = (True, q1)" using push_ok [OF False, of cp] by (metis prod.collapse)
      with Some jn g cp bp2 have "fetch_jump uninit pc w zero_fetch_decode_pack s =
          Some (zero_fetch_decode_pack \<lparr> fd_checkpoint_id_valid := True, fd_checkpoint_id := wptr ?q, fd_predicted := True,
              fd_predicted_jump := j, fd_predicted_next_pc := n \<rparr>,
            s \<lparr> ft_branch_predictor := bp2, ft_checkpoint_buffer := q1, ft_perf := pf1, ft_jump_wait := False,
              ft_pc := if j then n else pc + 4 \<rparr>)"
        by (simp add: fetch_jump_def cpbuf_push_def Let_def)
      then show thesis
        by (rule that) (use bp2 push_inv [OF assms(2), of cp] push_ids [OF assms(2) False, of cp] q1 in \<open>simp_all add: zero_fetch_decode_pack_def\<close>)
    qed
  qed
qed

text \<open>What the loop of a cycle keeps, and what one of its steps sends.\<close>

definition fetch_ok :: "bus \<Rightarrow> fetch_state \<Rightarrow> bool" where
  "fetch_ok b s \<longleftrightarrow> ft_bus s = b \<and> bp_inv (ft_branch_predictor s) \<and> fifo_inv (ft_checkpoint_buffer s) \<and> fifo_inv (ft_fetch_decode_fifo s)"

definition fence_waits :: "decode_feedback_pack_t \<Rightarrow> rename_feedback_pack_t \<Rightarrow> commit_feedback_pack_t \<Rightarrow> nat \<Rightarrow> fetch_state \<Rightarrow> bool" where
  "fence_waits df rf cf i s \<longleftrightarrow> i \<noteq> 0 \<or> \<not> df_idle df \<or> \<not> rf_idle rf \<or> cf_enable cf \<or> \<not> fifo_is_empty (ft_store_buffer s)"

lemma fetch_step_sends:
  assumes "fetch_ok b s" "code_at code old_pc b" "i < FETCH_WIDTH" "\<not> fifo_is_full (ft_fetch_decode_fifo s)" "\<not> ft_jump_wait s"
    "ft_pc s = old_pc + of_nat i * 4" "\<not> (fetch_is_fence_i (code (ft_pc s)) \<and> fence_waits df rf cf i s)"
  obtains p s1 where "fetch_step uninit df rf cf old_pc i s = Some (fetch_is_jump (code (ft_pc s)), s1)" "fetch_ok b s1"
    "fifo_contents (ft_fetch_decode_fifo s1) = fifo_contents (ft_fetch_decode_fifo s) @ [p]"
    "fetch_path code (ft_pc s) [p] (ft_pc s1)" "ft_store_buffer s1 = ft_store_buffer s"
    "ft_jump_wait s1 = (fetch_is_jump (code (ft_pc s)) \<and> \<not> fd_predicted p)"
    "\<not> fetch_is_jump (code (ft_pc s)) \<longrightarrow> ft_pc s1 = ft_pc s + 4"
    "fifo_ids (ft_checkpoint_buffer s1) = fifo_ids (ft_checkpoint_buffer s) @ (if fd_predicted p then [fd_checkpoint_id p] else [])"
proof -
  let ?pc = "old_pc + of_nat i * 4 :: u32"
  have al: "bus_check_align ?pc 4" using assms(2) align_step by (simp add: code_at_def)
  have rd: "fetch_read ?pc (ft_bus s) = Some (False, code ?pc, b)"
    using assms(1-3) al by (simp add: fetch_read_def code_at_def fetch_ok_def)
  obtain p0 s2 where j: "(if fetch_is_jump (code ?pc) then fetch_jump uninit ?pc (code ?pc) zero_fetch_decode_pack (s \<lparr> ft_bus := b \<rparr>)
      else Some (zero_fetch_decode_pack, s \<lparr> ft_bus := b, ft_pc := ?pc + 4 \<rparr>)) = Some (p0, s2)" "bp_inv (ft_branch_predictor s2)"
    "fifo_inv (ft_checkpoint_buffer s2)" "ft_bus s2 = b" "ft_fetch_decode_fifo s2 = ft_fetch_decode_fifo s"
    "ft_store_buffer s2 = ft_store_buffer s" "ft_jump_wait s2 = (fetch_is_jump (code ?pc) \<and> \<not> fd_predicted p0)"
    "fd_predicted p0 \<longrightarrow> fd_checkpoint_id_valid p0 \<and> fetch_is_jump (code ?pc)"
    "ft_pc s2 = (if fd_predicted p0 \<and> fd_predicted_jump p0 then fd_predicted_next_pc p0 else ?pc + 4)"
    "fifo_ids (ft_checkpoint_buffer s2) = fifo_ids (ft_checkpoint_buffer s) @ (if fd_predicted p0 then [fd_checkpoint_id p0] else [])"
  proof (cases "fetch_is_jump (code ?pc)")
    case True
    have "bp_inv (ft_branch_predictor (s \<lparr> ft_bus := b \<rparr>))" "fifo_inv (ft_checkpoint_buffer (s \<lparr> ft_bus := b \<rparr>))"
      using assms(1) by (simp_all add: fetch_ok_def)
    then show thesis
      by (rule fetch_jump_ok [where uninit = uninit and pc = ?pc and w = "code ?pc"]) (rule that, use True in simp_all)
  next
    case False
    then show thesis using assms(1,5)
      by (intro that [of zero_fetch_decode_pack "s \<lparr> ft_bus := b, ft_pc := ?pc + 4 \<rparr>"]) (simp_all add: fetch_ok_def zero_fetch_decode_pack_def)
  qed
  let ?p = "p0 \<lparr> fd_value := code ?pc, fd_enable := True, fd_pc := ?pc, fd_has_exception := False,
     fd_exception_id := instruction_access_fault, fd_exception_value := ?pc \<rparr>"
  let ?s3 = "s2 \<lparr> ft_fetch_decode_fifo := snd (fifo_push ?p (ft_fetch_decode_fifo s)) \<rparr>"
  let ?s1 = "if fetch_is_jump (code ?pc) then ?s3 \<lparr> ft_perf := fetch_not_full_add (ft_perf ?s3) \<rparr> else ?s3"
  have q: "fifo_inv (ft_fetch_decode_fifo s)" using assms(1) by (simp add: fetch_ok_def)
  have run: "fetch_step uninit df rf cf old_pc i s = Some (fetch_is_jump (code (ft_pc s)), ?s1)"
    using assms(4,6,7) rd j(1,5) al by (auto simp: fetch_step_def Let_def fence_waits_def split: if_splits)
  have path: "fetch_path code (ft_pc s) [?p] (ft_pc ?s1)"
    using j(8,9) assms(6) by (auto intro!: fetch_path.intros simp: pack_next_def intro: path_Nil)
  show thesis
    by (rule that [OF run _ _ path]) (use j(2-10) assms(6) push_inv [OF q] push_contents [OF q assms(4)] in \<open>auto simp: fetch_ok_def\<close>)
qed

subsection \<open>The cycle\<close>

lemma path_snoc:
  "fetch_path code pc [p] pc1 \<Longrightarrow> fetch_path code pc1 ps pc2 \<Longrightarrow> \<not> fetch_is_jump (code pc) \<Longrightarrow> fetch_path code pc (p # ps) pc2"
  by (elim path_ConsE path_NilE) (auto intro: path_Cons)

lemma path_last_not_jump:
  "fetch_path code pc ps pc1 \<Longrightarrow> ps \<noteq> [] \<Longrightarrow> fd_predicted (last ps) \<Longrightarrow> fetch_is_jump (fd_value (last ps))"
  by (induction rule: fetch_path.induct) auto

lemma path_value: "fetch_path code pc [p] pc1 \<Longrightarrow> fd_value p = code pc \<and> (fd_predicted p \<longrightarrow> fetch_is_jump (code pc))"
  by (elim path_ConsE) simp

text \<open>A full queue stays full and only the counter of such cycles changes.\<close>

lemma fetch_full_loop:
  "fifo_is_full (ft_fetch_decode_fifo s) \<Longrightarrow> \<exists>pf. for_break (fetch_step uninit df rf cf old_pc) js s = Some (s \<lparr> ft_perf := pf \<rparr>)"
proof (induction js arbitrary: s)
  case Nil
  show ?case by (rule exI [of _ "ft_perf s"]) simp
next
  case (Cons j js)
  let ?s = "s \<lparr> ft_perf := fetch_decode_fifo_full_add (ft_perf s) \<rparr>"
  obtain pf where "for_break (fetch_step uninit df rf cf old_pc) js ?s = Some (?s \<lparr> ft_perf := pf \<rparr>)" using Cons.IH [of ?s] Cons.prems by auto
  moreover have "fetch_step uninit df rf cf old_pc j s = Some (False, ?s)" using Cons.prems by (simp add: fetch_step_def)
  ultimately show ?case by (intro exI [of _ pf]) simp
qed

definition last_predicted :: "fetch_decode_pack_t list \<Rightarrow> nat list" where
  "last_predicted ps = (if ps \<noteq> [] \<and> fd_predicted (last ps) then [fd_checkpoint_id (last ps)] else [])"

definition last_jump :: "fetch_decode_pack_t list \<Rightarrow> bool" where
  "last_jump ps \<longleftrightarrow> ps \<noteq> [] \<and> fetch_is_jump (fd_value (last ps))"

definition fetched :: "(u32 \<Rightarrow> u32) \<Rightarrow> fetch_decode_pack_t list \<Rightarrow> fetch_state \<Rightarrow> fetch_state \<Rightarrow> bool" where
  "fetched code ps s s1 \<longleftrightarrow> fetch_path code (ft_pc s) ps (ft_pc s1) \<and>
     fifo_contents (ft_fetch_decode_fifo s1) = fifo_contents (ft_fetch_decode_fifo s) @ ps \<and>
     ft_jump_wait s1 = (last_jump ps \<and> \<not> fd_predicted (last ps)) \<and>
     fifo_ids (ft_checkpoint_buffer s1) = fifo_ids (ft_checkpoint_buffer s) @ last_predicted ps \<and>
     ft_store_buffer s1 = ft_store_buffer s"

lemma fetch_loop_path:
  assumes "i + w = FETCH_WIDTH" "fetch_ok b s" "code_at code old_pc b" "\<not> ft_jump_wait s" "ft_pc s = old_pc + of_nat i * 4"
  shows "\<exists>s1 ps. for_break (fetch_step uninit df rf cf old_pc) [i..<FETCH_WIDTH] s = Some s1 \<and> fetch_ok b s1 \<and> fetched code ps s s1 \<and>
    (i + length ps = FETCH_WIDTH \<or> fifo_is_full (ft_fetch_decode_fifo s1) \<or> last_jump ps \<or>
     fetch_is_fence_i (code (ft_pc s1)) \<and> fence_waits df rf cf (i + length ps) s1)"
  using assms
proof (induction w arbitrary: i s)
  case 0
  then show ?case
    by (intro exI [of _ s] exI [of _ "[]"]) (simp add: fetched_def last_jump_def last_predicted_def path_Nil)
next
  case (Suc w)
  have i: "i < FETCH_WIDTH" and upt: "[i..<FETCH_WIDTH] = i # [Suc i..<FETCH_WIDTH]" using Suc.prems(1) by (simp_all add: upt_conv_Cons)
  consider (full) "fifo_is_full (ft_fetch_decode_fifo s)"
    | (fence) "\<not> fifo_is_full (ft_fetch_decode_fifo s)" "fetch_is_fence_i (code (ft_pc s)) \<and> fence_waits df rf cf i s"
    | (sends) "\<not> fifo_is_full (ft_fetch_decode_fifo s)" "\<not> (fetch_is_fence_i (code (ft_pc s)) \<and> fence_waits df rf cf i s)" by blast
  then show ?case
  proof cases
    case full
    then obtain pf where "for_break (fetch_step uninit df rf cf old_pc) [i..<FETCH_WIDTH] s = Some (s \<lparr> ft_perf := pf \<rparr>)"
      using fetch_full_loop by blast
    with full Suc.prems(2,4) show ?thesis
      by (intro exI [of _ "s \<lparr> ft_perf := pf \<rparr>"] exI [of _ "[]"])
        (simp add: fetched_def last_jump_def last_predicted_def path_Nil fetch_ok_def)
  next
    case fence
    have rd: "fetch_read (ft_pc s) (ft_bus s) = Some (False, code (ft_pc s), b)"
      using Suc.prems(2,3,5) i align_step [of old_pc i] by (simp add: fetch_read_def code_at_def fetch_ok_def)
    with fence Suc.prems(5) have "fetch_step uninit df rf cf old_pc i s = Some (True, s \<lparr> ft_bus := b \<rparr>)"
      by (auto simp: fetch_step_def Let_def fence_waits_def)
    with fence(2) Suc.prems(2,4) show ?thesis unfolding upt
      by (intro exI [of _ "s \<lparr> ft_bus := b \<rparr>"] exI [of _ "[]"])
        (simp add: fetched_def last_jump_def last_predicted_def path_Nil fetch_ok_def fence_waits_def)
  next
    case sends
    obtain p s1 where p: "fetch_step uninit df rf cf old_pc i s = Some (fetch_is_jump (code (ft_pc s)), s1)" "fetch_ok b s1"
      "fifo_contents (ft_fetch_decode_fifo s1) = fifo_contents (ft_fetch_decode_fifo s) @ [p]"
      "fetch_path code (ft_pc s) [p] (ft_pc s1)" "ft_store_buffer s1 = ft_store_buffer s"
      "ft_jump_wait s1 = (fetch_is_jump (code (ft_pc s)) \<and> \<not> fd_predicted p)"
      "\<not> fetch_is_jump (code (ft_pc s)) \<longrightarrow> ft_pc s1 = ft_pc s + 4"
      "fifo_ids (ft_checkpoint_buffer s1) = fifo_ids (ft_checkpoint_buffer s) @ (if fd_predicted p then [fd_checkpoint_id p] else [])"
      by (rule fetch_step_sends [OF Suc.prems(2,3) i sends(1) Suc.prems(4,5) sends(2)])
    note pv = path_value [OF p(4)]
    show ?thesis
    proof (cases "fetch_is_jump (code (ft_pc s))")
      case True
      with p pv show ?thesis unfolding upt
        by (intro exI [of _ s1] exI [of _ "[p]"]) (simp add: fetched_def last_jump_def last_predicted_def)
    next
      case False
      have "\<exists>s2 ps. for_break (fetch_step uninit df rf cf old_pc) [Suc i..<FETCH_WIDTH] s1 = Some s2 \<and> fetch_ok b s2 \<and> fetched code ps s1 s2 \<and>
        (Suc i + length ps = FETCH_WIDTH \<or> fifo_is_full (ft_fetch_decode_fifo s2) \<or> last_jump ps \<or>
         fetch_is_fence_i (code (ft_pc s2)) \<and> fence_waits df rf cf (Suc i + length ps) s2)"
        by (rule Suc.IH) (use Suc.prems p(2,6,7) False in \<open>simp_all add: algebra_simps\<close>)
      then obtain s2 ps where s2: "for_break (fetch_step uninit df rf cf old_pc) [Suc i..<FETCH_WIDTH] s1 = Some s2" "fetch_ok b s2"
        "fetched code ps s1 s2" "Suc i + length ps = FETCH_WIDTH \<or> fifo_is_full (ft_fetch_decode_fifo s2) \<or> last_jump ps \<or>
         fetch_is_fence_i (code (ft_pc s2)) \<and> fence_waits df rf cf (Suc i + length ps) s2" by blast
      have np: "\<not> fd_predicted p" using pv False by blast
      have "fetched code (p # ps) s s2"
        using s2(3) p(3,4,5,8) np pv False by (auto simp: fetched_def last_jump_def last_predicted_def intro: path_snoc)
      moreover have "last_jump ps \<Longrightarrow> last_jump (p # ps)" by (simp add: last_jump_def)
      ultimately show ?thesis using p(1) False s2(1,2,4) unfolding upt
        by (intro exI [of _ s2] exI [of _ "p # ps"]) auto
    qed
  qed
qed

text \<open>C12: in a cycle without flush, redirection or wait, the fetch stage sends to decode a run of the program from its program
  counter on: every pack is the word in memory at its address, each follows the one before, and only the last can be a
  jump. The program counter is left where the run leads: behind it, or at the predicted target. A predicted jump holds the one
  checkpoint that was allocated, and the stage waits exactly after a jump it could not predict. It stops early only at a jump,
  at a full queue or at a \<open>fence.i\<close> that has to wait for the pipeline and the store buffer to drain.\<close>

theorem fetch_follows_path:
  assumes "\<not> ft_wait_first_memory_result s" "\<not> cf_flushing cf" "\<not> ft_jump_wait s" "code_at code (ft_pc s) (ft_bus s)"
    and "bp_inv (ft_branch_predictor s)" "fifo_inv (ft_checkpoint_buffer s)" "fifo_inv (ft_fetch_decode_fifo s)"
  shows "\<exists>s1 ps. fetch_run uninit df rf cf s = Some s1 \<and> fetch_path code (ft_pc s) ps (ft_pc s1) \<and>
    fifo_contents (ft_fetch_decode_fifo s1) = fifo_contents (ft_fetch_decode_fifo s) @ ps \<and>
    ft_jump_wait s1 = (last_jump ps \<and> \<not> fd_predicted (last ps)) \<and>
    fifo_ids (ft_checkpoint_buffer s1) = fifo_ids (ft_checkpoint_buffer s) @ last_predicted ps \<and>
    ft_bus s1 = ft_bus s \<and> bp_inv (ft_branch_predictor s1) \<and>
    (length ps = FETCH_WIDTH \<or> fifo_is_full (ft_fetch_decode_fifo s1) \<or> last_jump ps \<or>
     fetch_is_fence_i (code (ft_pc s1)) \<and> fence_waits df rf cf (length ps) s1)"
proof -
  have ok: "fetch_ok (ft_bus s) s" using assms(5-7) by (simp add: fetch_ok_def)
  have run: "fetch_run uninit df rf cf s = for_break (fetch_step uninit df rf cf (ft_pc s)) [0..<FETCH_WIDTH] s"
    using assms(1-3) fetch_trace_ok [OF assms(4)] by (simp add: fetch_run_def)
  show ?thesis
    using fetch_loop_path [OF _ ok assms(4,3), of 0 FETCH_WIDTH uninit df rf cf] unfolding run by (auto simp: fetched_def fetch_ok_def)
qed

definition sample_fetch_state :: "u32 \<Rightarrow> branch_predictor \<Rightarrow> fetch_state" where
  "sample_fetch_state pc bp = \<lparr> ft_bus = sample_bus, ft_fetch_decode_fifo = fifo_new 4 (replicate 4 zero_fetch_decode_pack) 0 False,
     ft_checkpoint_buffer = cpbuf_new 1 [sample_checkpoint] 0 False, ft_branch_predictor = bp,
     ft_store_buffer = sb_new 1 [sample_store False 0 0 0 1] 0 False, ft_init_pc = 0x80000000, ft_pc = pc, ft_jump_wait = False,
     ft_wait_first_memory_result = False, ft_perf = perf_zero \<rparr>"

lemma sample_code: "code_at (\<lambda>_. 0) 0x80000000 sample_bus"
proof -
  have "bus_read32 (0x80000000 + of_nat k * 4) sample_bus = Some (0, sample_bus)" if "k < FETCH_WIDTH" for k
  proof -
    from that consider "k = 0" | "k = 1" | "k = 2" | "k = 3" by (auto simp: less_Suc_eq eval_nat_numeral)
    then show ?thesis by cases (simp only:, code_simp)+
  qed
  then show ?thesis by (simp add: code_at_def bus_check_align_def)
qed

theorem fetch_follows_path_witness:
  "\<exists>bp s1 ps. fetch_run sample_checkpoint \<lparr> df_idle = True \<rparr> \<lparr> rf_idle = True \<rparr> (sample_commit_feedback False) (sample_fetch_state 0x80000000 bp) = Some s1 \<and>
     fetch_path (\<lambda>_. 0) 0x80000000 ps (ft_pc s1) \<and> fifo_contents (ft_fetch_decode_fifo s1) = ps"
proof -
  have "bp_inv (bp_new (replicate 4096 0) (replicate 256 \<lparr> ras_addr = 0, ras_cnt = 0 \<rparr>))"
    by (rule bp_new_inv) (simp_all add: histories_def small_def RAS_SIZE_def)
  then obtain bp where bp: "bp_inv bp" by blast
  let ?s = "sample_fetch_state 0x80000000 bp"
  have s: "\<not> ft_wait_first_memory_result ?s" "\<not> cf_flushing (sample_commit_feedback False)" "\<not> ft_jump_wait ?s"
    "code_at (\<lambda>_. 0) (ft_pc ?s) (ft_bus ?s)" "bp_inv (ft_branch_predictor ?s)" "fifo_inv (ft_fetch_decode_fifo ?s)"
    using bp sample_code fifo_new_inv [of 4 "replicate 4 zero_fetch_decode_pack"]
    by (simp_all add: sample_fetch_state_def sample_commit_feedback_def cf_flushing_def)
  have c: "fifo_inv (ft_checkpoint_buffer ?s)" "fifo_contents (ft_fetch_decode_fifo ?s) = []" "ft_pc ?s = 0x80000000"
    by (simp_all add: sample_fetch_state_def cpbuf_new_def fifo.defs checkpoint_buffer.defs fifo_new_def fifo_inv_def fifo_ring_def
        fifo_contents_def fifo_ids_def fifo_fill_def ring_dist_def ring_ok_def)
  from fetch_follows_path [OF s(1-5) c(1) s(6)] show ?thesis unfolding c append_Nil by blast
qed

subsection \<open>A misaligned program counter\<close>

lemma low_bits_shift:
  fixes x y :: u32
  assumes "y AND 3 = 0"
  shows "(x + y) AND 3 = x AND 3"
proof -
  have low: "w AND 3 = take_bit 2 w" for w :: u32 by (simp add: take_bit_eq_mask mask_eq_exp_minus_1)
  have "take_bit 2 (uint y) = 0" using assms by (simp add: low flip: unsigned_take_bit_eq)
  then have "take_bit 2 (uint x + uint y) = take_bit 2 (uint x)"
    using take_bit_add [of 2 "uint x" "uint y"] by simp
  then have "uint (take_bit 2 (x + y)) = uint (take_bit 2 x)"
    by (simp add: unsigned_take_bit_eq uint_word_arith_bintrs(1))
  then show ?thesis unfolding low by (rule word_uint_eqI)
qed

lemma times_four_low: "(of_nat k * 4 :: u32) AND 3 = 0"
  using align_step [of 0 k] by (simp add: bus_check_align_def)

lemma misaligned_read:
  assumes "bus_wf b" "a AND 3 \<noteq> 0"
  shows "bus_read32 a b = (if find_slave_info b a = None then Some (0, b) else None)"
proof (cases "find_slave_info b a")
  case (Some i)
  let ?e = "slave_info_list b ! i"
  have "slave_ok ?e" using find_slave_info_iff [OF assms(1), of a i] Some assms(1) by (simp add: bus_wf_def)
  then have e: "slv_base ?e AND 3 = 0" "\<not> test_mode (slv ?e)" by (simp_all add: slave_ok_def)
  have "(a - slv_base ?e) AND 3 \<noteq> 0" using low_bits_shift [OF e(1), of "a - slv_base ?e"] assms(2) by simp
  with Some e(2) show ?thesis by (simp add: bus_read32_def slave_read32_def slave_check_def assert_that_def)
qed (simp add: bus_read32_def)

definition mapped_words :: "bus \<Rightarrow> u32 \<Rightarrow> bool" where
  "mapped_words b pc \<longleftrightarrow> (\<exists>k \<in> set [0..<FETCH_WIDTH]. find_slave_info b (pc + of_nat k * 4) \<noteq> None)"

lemma drain_stops:
  assumes "\<And>x. x \<in> set xs \<Longrightarrow> f x s = Some s \<or> f x s = None" "x \<in> set xs" "f x s = None"
  shows "drain f xs s = None"
  using assms
proof (induction xs)
  case (Cons y ys)
  then have "f y s = Some s \<or> f y s = None" by simp
  with Cons show ?case by (elim disjE) auto
qed simp

lemma fetch_trace_misaligned:
  assumes "bus_wf b" "pc AND 3 \<noteq> 0"
  shows "fetch_trace pc b = (if mapped_words b pc then None else Some b)"
proof -
  have w: "fetch_trace_word pc k b = (if find_slave_info b (pc + of_nat k * 4) = None then Some b else None)" for k
    using misaligned_read [OF assms(1), of "pc + of_nat k * 4"] low_bits_shift [OF times_four_low, of pc k] assms(2)
    by (simp add: fetch_trace_word_def)
  have "drain (fetch_trace_word pc) [0..<FETCH_WIDTH] b = (if mapped_words b pc then None else Some b)"
  proof (cases "mapped_words b pc")
    case True
    then obtain k where "k \<in> set [0..<FETCH_WIDTH]" "fetch_trace_word pc k b = None" by (auto simp: mapped_words_def w)
    with True w show ?thesis using drain_stops [of "[0..<FETCH_WIDTH]" "fetch_trace_word pc" b k] by simp
  next
    case False
    then show ?thesis using drain_same [of "[0..<FETCH_WIDTH]" "fetch_trace_word pc" b] by (auto simp: mapped_words_def w)
  qed
  then show ?thesis by (simp add: fetch_trace_def)
qed

text \<open>What the stage sends for an address that is not a multiple of four.\<close>

definition misaligned_pack :: "u32 \<Rightarrow> fetch_decode_pack_t" where
  "misaligned_pack pc = zero_fetch_decode_pack \<lparr> fd_enable := True, fd_pc := pc, fd_has_exception := True,
     fd_exception_id := instruction_address_misaligned, fd_exception_value := pc \<rparr>"

lemma fetch_step_misaligned:
  assumes "\<not> fifo_is_full (ft_fetch_decode_fifo s)" "old_pc AND 3 \<noteq> 0" "ft_pc s = old_pc + of_nat i * 4"
  shows "fetch_step uninit df rf cf old_pc i s =
    Some (False, s \<lparr> ft_pc := ft_pc s + 4,
      ft_fetch_decode_fifo := snd (fifo_push (misaligned_pack (ft_pc s)) (ft_fetch_decode_fifo s)) \<rparr>)"
proof -
  have "\<not> bus_check_align (old_pc + of_nat i * 4) 4"
    using assms(2) low_bits_shift [OF times_four_low, of old_pc i] by (simp add: bus_check_align_def)
  with assms show ?thesis
    by (simp add: fetch_step_def fetch_read_def Let_def fetch_is_fence_i_def fetch_is_jump_def misaligned_pack_def zero_fetch_decode_pack_def)
qed

lemma fetch_loop_misaligned:
  assumes "i + w = FETCH_WIDTH" "fifo_inv (ft_fetch_decode_fifo s)" "old_pc AND 3 \<noteq> 0" "ft_pc s = old_pc + of_nat i * 4"
    and "n = min w (fifo_get_remain_space (ft_fetch_decode_fifo s))"
  shows "\<exists>q pf. for_break (fetch_step uninit df rf cf old_pc) [i..<FETCH_WIDTH] s =
      Some (s \<lparr> ft_pc := ft_pc s + of_nat n * 4, ft_fetch_decode_fifo := q, ft_perf := pf \<rparr>) \<and>
    fifo_contents q = fifo_contents (ft_fetch_decode_fifo s) @ map (\<lambda>k. misaligned_pack (ft_pc s + of_nat k * 4)) [0..<n]"
  using assms
proof (induction w arbitrary: i s n)
  case 0
  then show ?case by (intro exI [of _ "ft_fetch_decode_fifo s"] exI [of _ "ft_perf s"]) simp
next
  case (Suc w)
  let ?q = "ft_fetch_decode_fifo s"
  have upt: "[i..<FETCH_WIDTH] = i # [Suc i..<FETCH_WIDTH]" using Suc.prems(1) by (simp add: upt_conv_Cons)
  have full: "fifo_is_full ?q \<longleftrightarrow> fifo_get_remain_space ?q = 0"
    using occupied_le_size [OF Suc.prems(2)] is_full_occupied [OF Suc.prems(2)] get_remain_space_occupied [OF Suc.prems(2)] by linarith
  show ?case
  proof (cases "fifo_is_full ?q")
    case True
    then obtain pf where "for_break (fetch_step uninit df rf cf old_pc) [i..<FETCH_WIDTH] s = Some (s \<lparr> ft_perf := pf \<rparr>)"
      using fetch_full_loop by blast
    with True full Suc.prems(5) show ?thesis by (intro exI [of _ ?q] exI [of _ pf]) simp
  next
    case False
    let ?q1 = "snd (fifo_push (misaligned_pack (ft_pc s)) ?q)"
    let ?s1 = "s \<lparr> ft_pc := ft_pc s + 4, ft_fetch_decode_fifo := ?q1 \<rparr>"
    have room: "fifo_get_remain_space ?q1 = fifo_get_remain_space ?q - 1" "0 < fifo_get_remain_space ?q"
      using full False fifo_queue.push_room [OF Suc.prems(2), of "misaligned_pack (ft_pc s)"] by blast+
    define m where "m = min w (fifo_get_remain_space ?q1)"
    have m: "n = Suc m" unfolding Suc.prems(5) m_def room(1) using room(2) by linarith
    have "\<exists>q pf. for_break (fetch_step uninit df rf cf old_pc) [Suc i..<FETCH_WIDTH] ?s1 =
        Some (?s1 \<lparr> ft_pc := ft_pc ?s1 + of_nat m * 4, ft_fetch_decode_fifo := q, ft_perf := pf \<rparr>) \<and>
      fifo_contents q = fifo_contents (ft_fetch_decode_fifo ?s1) @ map (\<lambda>k. misaligned_pack (ft_pc ?s1 + of_nat k * 4)) [0..<m]"
    proof (rule Suc.IH)
      show "Suc i + w = FETCH_WIDTH" using Suc.prems(1) by simp
      show "fifo_inv (ft_fetch_decode_fifo ?s1)" using push_inv [OF Suc.prems(2)] by simp
      show "old_pc AND 3 \<noteq> 0" by (rule Suc.prems(3))
      show "ft_pc ?s1 = old_pc + of_nat (Suc i) * 4" using Suc.prems(4) by (simp add: distrib_right)
      show "m = min w (fifo_get_remain_space (ft_fetch_decode_fifo ?s1))" using m_def by simp
    qed
    then obtain q pf where q: "for_break (fetch_step uninit df rf cf old_pc) [Suc i..<FETCH_WIDTH] ?s1 =
        Some (?s1 \<lparr> ft_pc := ft_pc ?s1 + of_nat m * 4, ft_fetch_decode_fifo := q, ft_perf := pf \<rparr>)"
      "fifo_contents q = fifo_contents (ft_fetch_decode_fifo ?s1) @ map (\<lambda>k. misaligned_pack (ft_pc ?s1 + of_nat k * 4)) [0..<m]" by blast
    have four: "ft_pc s + of_nat (Suc k) * 4 = ft_pc s + 4 + of_nat k * 4" for k by (simp add: distrib_right)
    have shift: "map (\<lambda>k. misaligned_pack (ft_pc s + of_nat k * 4)) [0..<n] =
        misaligned_pack (ft_pc s) # map (\<lambda>k. misaligned_pack (ft_pc s + 4 + of_nat k * 4)) [0..<m]"
      unfolding m map_upt_Suc four by simp
    have "for_break (fetch_step uninit df rf cf old_pc) [i..<FETCH_WIDTH] s =
        Some (s \<lparr> ft_pc := ft_pc s + of_nat n * 4, ft_fetch_decode_fifo := q, ft_perf := pf \<rparr>)"
      unfolding upt for_break.simps fetch_step_misaligned [OF False Suc.prems(3,4)] m four using q(1) by simp
    moreover have "fifo_contents q = fifo_contents ?q @ map (\<lambda>k. misaligned_pack (ft_pc s + of_nat k * 4)) [0..<n]"
      unfolding shift using q(2) push_contents [OF Suc.prems(2) False] by simp
    ultimately show ?thesis by blast
  qed
qed

text \<open>C40: What a program counter that is not a multiple of four leads to, when the stage does not wait and is not redirected. The
  stage prepares instruction-address-misaligned exceptions, but reads the words at the program counter for the trace first. If a
  slave is mapped at one of the \<open>FETCH_WIDTH\<close> addresses, the assertion of that slave ends the simulation. Only if none is
  mapped does the stage send the exceptions, one for each address as far as the queue has room, with the word 0.\<close>

theorem fetch_misaligned_outcome:
  assumes "\<not> ft_wait_first_memory_result s" "\<not> cf_flushing cf" "\<not> ft_jump_wait s"
    and "bus_wf (ft_bus s)" "fifo_inv (ft_fetch_decode_fifo s)" "\<not> bus_check_align (ft_pc s) 4"
    and "n = min FETCH_WIDTH (fifo_get_remain_space (ft_fetch_decode_fifo s))"
  shows "if mapped_words (ft_bus s) (ft_pc s) then fetch_run uninit df rf cf s = None
    else \<exists>q pf. fetch_run uninit df rf cf s =
        Some (s \<lparr> ft_pc := ft_pc s + of_nat n * 4, ft_fetch_decode_fifo := q, ft_perf := pf \<rparr>) \<and>
      fifo_contents q = fifo_contents (ft_fetch_decode_fifo s) @ map (\<lambda>k. misaligned_pack (ft_pc s + of_nat k * 4)) [0..<n]"
proof -
  have low: "ft_pc s AND 3 \<noteq> 0" using assms(6) by (simp add: bus_check_align_def)
  have run: "fetch_run uninit df rf cf s =
      (if mapped_words (ft_bus s) (ft_pc s) then None else for_break (fetch_step uninit df rf cf (ft_pc s)) [0..<FETCH_WIDTH] s)"
    using assms(1-3) fetch_trace_misaligned [OF assms(4) low] by (simp add: fetch_run_def)
  from fetch_loop_misaligned [OF _ assms(5) low _ assms(7), of 0 uninit df rf cf] show ?thesis by (simp add: run)
qed

theorem fetch_misaligned_outcome_witness:
  "\<exists>bp q pf. fetch_run sample_checkpoint \<lparr> df_idle = True \<rparr> \<lparr> rf_idle = True \<rparr> (sample_commit_feedback False) (sample_fetch_state 0x80000002 bp) = None \<and>
     fetch_run sample_checkpoint \<lparr> df_idle = True \<rparr> \<lparr> rf_idle = True \<rparr> (sample_commit_feedback False) (sample_fetch_state 0x10000002 bp) =
       Some (sample_fetch_state 0x10000012 bp \<lparr> ft_fetch_decode_fifo := q, ft_perf := pf \<rparr>) \<and>
     fifo_contents q = map misaligned_pack [0x10000002, 0x10000006, 0x1000000A, 0x1000000E]"
proof -
  obtain bp :: branch_predictor where True by blast
  let ?s = "\<lambda>pc. sample_fetch_state pc bp"
  have wb: "bus_wf (ft_bus (?s pc))" for pc using sample_bus_wf by (simp add: sample_fetch_state_def)
  have q: "fifo_inv (ft_fetch_decode_fifo (?s pc))" "fifo_contents (ft_fetch_decode_fifo (?s pc)) = []"
    "4 = min FETCH_WIDTH (fifo_get_remain_space (ft_fetch_decode_fifo (?s pc)))" for pc
    using fifo_new_inv [of 4 "replicate 4 zero_fetch_decode_pack"]
    by (simp_all add: sample_fetch_state_def fifo_new_def fifo_contents_def fifo_ids_def fifo_fill_def ring_dist_def
        fifo_get_remain_space_def fifo_get_size_def fifo_is_full_def)
  have c: "\<not> ft_wait_first_memory_result (?s pc)" "\<not> cf_flushing (sample_commit_feedback False)" "\<not> ft_jump_wait (?s pc)" for pc
    by (simp_all add: sample_fetch_state_def sample_commit_feedback_def cf_flushing_def)
  have upt: "[0..<FETCH_WIDTH] = [0, 1, 2, 3]" "[0..<4] = [0, 1, 2, 3 :: nat]" by (simp_all add: upt_conv_Cons)
  have m: "mapped_words (ft_bus (?s 0x80000002)) (ft_pc (?s 0x80000002))" "\<not> mapped_words (ft_bus (?s 0x10000002)) (ft_pc (?s 0x10000002))"
    "\<not> bus_check_align (ft_pc (?s 0x80000002)) 4" "\<not> bus_check_align (ft_pc (?s 0x10000002)) 4"
    by (simp_all add: sample_fetch_state_def mapped_words_def find_slave_info_def sample_bus_def sample_memory_def bus_check_align_def upt)
  have "fetch_run sample_checkpoint \<lparr> df_idle = True \<rparr> \<lparr> rf_idle = True \<rparr> (sample_commit_feedback False) (?s 0x80000002) = None"
    using fetch_misaligned_outcome [OF c wb q(1) m(3) q(3)] m(1) by simp
  moreover have "\<exists>q pf. fetch_run sample_checkpoint \<lparr> df_idle = True \<rparr> \<lparr> rf_idle = True \<rparr> (sample_commit_feedback False) (?s 0x10000002) =
       Some (?s 0x10000012 \<lparr> ft_fetch_decode_fifo := q, ft_perf := pf \<rparr>) \<and>
     fifo_contents q = map misaligned_pack [0x10000002, 0x10000006, 0x1000000A, 0x1000000E]"
    using fetch_misaligned_outcome [OF c wb q(1) m(4) q(3)] m(2) q(2) by (simp add: sample_fetch_state_def upt)
  ultimately show ?thesis by blast
qed

end
