(* ===== verification/Core.thy ===== *)
theory Core
  imports Fetch Decode Rename Readreg Issue Execute Wb Commit Interrupt
begin

text \<open>
  \<open>top_source/main.cpp\<close>: the components of the core, their connections, \<open>reset\<close>, and one cycle of the main loop.

  A stage holds pointers to the components it works on. In the record of a stage such a field is the component itself, so the
  components, of which there is one each, are kept in the core: a stage starts its cycle with them as they are at that moment and leaves
  them as it changed them. The fields of a stage that are its own stay in its record.
\<close>

record core =
  co_fetch_decode_fifo :: "fetch_decode_pack_t fifo"
  co_decode_rename_fifo :: "decode_rename_pack_t fifo"
  co_rename_readreg_port :: "rename_readreg_pack_t port"
  co_readreg_issue_port :: "readreg_issue_pack_t port"
  co_unit_fifo :: "op_unit_t \<Rightarrow> issue_execute_pack_t fifo list"
  co_unit_wb_port :: "op_unit_t \<Rightarrow> execute_wb_pack_t port list"
  co_wb_commit_port :: "wb_commit_pack_t port"
  co_bus :: bus
  co_rat :: rat
  co_rob :: rob
  co_phy_regfile :: "phy_regfile_item_t regfile"
  co_csr_file :: csrfile
  co_store_buffer :: store_buffer
  co_checkpoint_buffer :: checkpoint_buffer
  co_branch_predictor :: branch_predictor
  co_interrupt_interface :: interrupt_interface
  co_perf :: perf
  co_fetch :: fetch_state
  co_rename :: rename_state
  co_issue :: issue_state
  co_csr_unit :: "csr_unit list"
  co_lsu_unit :: "lsu_unit list"
  co_commit :: commit_state

subsection \<open>The timer\<close>

text \<open>The object \<open>clint\<close> is the second slave that \<open>init\<close> maps; the loop calls it directly.\<close>

definition core_clint :: "core \<Rightarrow> clint option" where
  "core_clint c = do {
     assert_that (1 < length (slave_info_list (co_bus c)));
     (case device (slv (slave_info_list (co_bus c) ! 1)) of Clint k \<Rightarrow> Some k | Memory m \<Rightarrow> None) }"

definition core_set_clint :: "clint \<Rightarrow> core \<Rightarrow> core" where
  "core_set_clint k c = c \<lparr> co_bus := set_slave 1 ((slv (slave_info_list (co_bus c) ! 1)) \<lparr> device := Clint k \<rparr>) (co_bus c) \<rparr>"

text \<open>The start of a cycle, before the stages.\<close>

definition core_start :: "core \<Rightarrow> core option" where
  "core_start c = do {
     let c1 = c \<lparr> co_rob := rob_set_committed False (co_rob c), co_fetch_decode_fifo := reset_pop_status (co_fetch_decode_fifo c),
       co_decode_rename_fifo := reset_pop_status (co_decode_rename_fifo c) \<rparr>;
     k \<leftarrow> core_clint c1;
     Some (c1 \<lparr> co_interrupt_interface := clint_run_pre k (co_interrupt_interface c1) \<rparr>) }"

definition core_clint_post :: "core \<Rightarrow> core option" where
  "core_clint_post c = do {
     k \<leftarrow> core_clint c;
     Some (core_set_clint (clint_run_post k) c) }"

subsection \<open>The stages behind issue\<close>

definition core_commit :: "core \<Rightarrow> (commit_feedback_pack_t \<times> core) option" where
  "core_commit c = do {
     (cf, s) \<leftarrow> commit_run ((co_commit c) \<lparr> cm_wb_commit_port := co_wb_commit_port c, cm_rat := co_rat c, cm_rob := co_rob c,
       cm_csr_file := co_csr_file c, cm_phy_regfile := co_phy_regfile c, cm_checkpoint_buffer := co_checkpoint_buffer c,
       cm_branch_predictor := co_branch_predictor c, cm_interrupt_interface := co_interrupt_interface c, cm_perf := co_perf c \<rparr>);
     Some (cf, c \<lparr> co_commit := s, co_wb_commit_port := cm_wb_commit_port s, co_rat := cm_rat s, co_rob := cm_rob s, co_csr_file := cm_csr_file s,
       co_phy_regfile := cm_phy_regfile s, co_checkpoint_buffer := cm_checkpoint_buffer s, co_branch_predictor := cm_branch_predictor s,
       co_interrupt_interface := cm_interrupt_interface s, co_perf := cm_perf s \<rparr>) }"

definition core_wb :: "commit_feedback_pack_t \<Rightarrow> core \<Rightarrow> (wb_feedback_pack_t \<times> core) option" where
  "core_wb cf c = do {
     (fb, s) \<leftarrow> wb_run cf \<lparr> wb_execute_wb_port = wb_init (co_unit_wb_port c Unit_alu) (co_unit_wb_port c Unit_bru) (co_unit_wb_port c Unit_csr)
         (co_unit_wb_port c Unit_div) (co_unit_wb_port c Unit_lsu) (co_unit_wb_port c Unit_mul),
       wb_wb_commit_port = co_wb_commit_port c, wb_phy_regfile = co_phy_regfile c \<rparr>;
     Some (fb, c \<lparr> co_wb_commit_port := wb_wb_commit_port s, co_phy_regfile := wb_phy_regfile s \<rparr>) }"

text \<open>The queue and the port of one unit.\<close>

definition unit_io :: "op_unit_t \<Rightarrow> nat \<Rightarrow> core \<Rightarrow> exec_io option" where
  "unit_io u i c = do {
     assert_that (i < length (co_unit_fifo c u) \<and> i < length (co_unit_wb_port c u));
     Some \<lparr> eu_fifo = co_unit_fifo c u ! i, eu_wb_port = co_unit_wb_port c u ! i \<rparr> }"

definition put_io :: "op_unit_t \<Rightarrow> nat \<Rightarrow> 'a exec_io_scheme \<Rightarrow> core \<Rightarrow> core" where
  "put_io u i s c = c \<lparr> co_unit_fifo := (co_unit_fifo c)(u := (co_unit_fifo c u)[i := eu_fifo s]),
     co_unit_wb_port := (co_unit_wb_port c)(u := (co_unit_wb_port c u)[i := eu_wb_port s]) \<rparr>"

text \<open>One execution unit; the CSR unit's channel is partly uninitialised in a flush.\<close>

definition core_unit :: "execute_feedback_channel_t \<Rightarrow> commit_feedback_pack_t \<Rightarrow> op_unit_t \<Rightarrow> nat \<Rightarrow> core \<Rightarrow>
    (execute_feedback_channel_t \<times> core) option" where
  "core_unit uninit_ch cf u i c = do {
     io \<leftarrow> unit_io u i c;
     (case u of
        Unit_alu \<Rightarrow> do { (fb, s) \<leftarrow> alu_run cf io; Some (fb, put_io u i s c) }
      | Unit_bru \<Rightarrow> do {
          (fb, s, bp) \<leftarrow> bru_run (co_csr_file c) (co_checkpoint_buffer c) cf (io, co_branch_predictor c);
          Some (fb, (put_io u i s c) \<lparr> co_branch_predictor := bp \<rparr>) }
      | Unit_csr \<Rightarrow> do {
          assert_that (i < length (co_csr_unit c));
          (fb, s) \<leftarrow> csr_run uninit_ch (co_csr_file c) cf ((co_csr_unit c ! i) \<lparr> eu_fifo := eu_fifo io, eu_wb_port := eu_wb_port io \<rparr>);
          Some (fb, (put_io u i s c) \<lparr> co_csr_unit := (co_csr_unit c)[i := s] \<rparr>) }
      | Unit_div \<Rightarrow> do { (fb, s) \<leftarrow> div_run cf io; Some (fb, put_io u i s c) }
      | Unit_lsu \<Rightarrow> do {
          assert_that (i < length (co_lsu_unit c));
          (fb, s, m) \<leftarrow> lsu_run cf ((co_lsu_unit c ! i) \<lparr> eu_fifo := eu_fifo io, eu_wb_port := eu_wb_port io \<rparr>,
            \<lparr> lm_bus = co_bus c, lm_store_buffer = co_store_buffer c \<rparr>);
          Some (fb, (put_io u i s c) \<lparr> co_lsu_unit := (co_lsu_unit c)[i := s], co_bus := lm_bus m, co_store_buffer := lm_store_buffer m \<rparr>) }
      | Unit_mul \<Rightarrow> do { (fb, s) \<leftarrow> mul_run cf io; Some (fb, put_io u i s c) }) }"

text \<open>The six loops over the units of a kind, in the order of the channels.\<close>

definition unit_order :: "(op_unit_t \<times> nat) list" where
  "unit_order = concat (map (\<lambda>u. map (Pair u) [0..<unit_cnt u]) [Unit_alu, Unit_bru, Unit_csr, Unit_div, Unit_lsu, Unit_mul])"

definition core_execute :: "execute_feedback_channel_t \<Rightarrow> commit_feedback_pack_t \<Rightarrow> core \<Rightarrow> (execute_feedback_pack_t \<times> core) option" where
  "core_execute uninit_ch cf c = drain (\<lambda>(u, i) (fbs, c). do {
     (fb, c1) \<leftarrow> core_unit uninit_ch cf u i c;
     Some (fbs @ [fb], c1) }) unit_order ([], c)"

subsection \<open>The stages up to issue\<close>

definition core_issue :: "execute_feedback_pack_t \<Rightarrow> wb_feedback_pack_t \<Rightarrow> commit_feedback_pack_t \<Rightarrow> core \<Rightarrow>
    (issue_feedback_pack_t \<times> core) option" where
  "core_issue ef wbf cf c = do {
     (fb, s) \<leftarrow> issue_run ef wbf cf ((co_issue c) \<lparr> is_readreg_issue_port := co_readreg_issue_port c, is_unit_fifo := co_unit_fifo c,
       is_phy_regfile := co_phy_regfile c, is_store_buffer := co_store_buffer c, is_perf := co_perf c \<rparr>);
     Some (fb, c \<lparr> co_issue := s, co_unit_fifo := is_unit_fifo s, co_perf := is_perf s \<rparr>) }"

definition core_readreg :: "issue_feedback_pack_t \<Rightarrow> execute_feedback_pack_t \<Rightarrow> wb_feedback_pack_t \<Rightarrow> commit_feedback_pack_t \<Rightarrow>
    core \<Rightarrow> core option" where
  "core_readreg isf ef wbf cf c = do {
     s \<leftarrow> readreg_run isf ef wbf cf \<lparr> rr_rename_readreg_port = co_rename_readreg_port c, rr_readreg_issue_port = co_readreg_issue_port c,
       rr_phy_regfile = co_phy_regfile c \<rparr>;
     Some (c \<lparr> co_readreg_issue_port := rr_readreg_issue_port s \<rparr>) }"

definition core_rename :: "checkpoint_t \<Rightarrow> issue_feedback_pack_t \<Rightarrow> commit_feedback_pack_t \<Rightarrow> core \<Rightarrow> (rename_feedback_pack_t \<times> core) option" where
  "core_rename uninit isf cf c = do {
     (fb, s) \<leftarrow> rename_run uninit isf cf ((co_rename c) \<lparr> rn_decode_rename_fifo := co_decode_rename_fifo c,
       rn_rename_readreg_port := co_rename_readreg_port c, rn_rat := co_rat c, rn_rob := co_rob c,
       rn_checkpoint_buffer := co_checkpoint_buffer c, rn_perf := co_perf c \<rparr>);
     Some (fb, c \<lparr> co_rename := s, co_decode_rename_fifo := rn_decode_rename_fifo s, co_rename_readreg_port := rn_rename_readreg_port s,
       co_rat := rn_rat s, co_rob := rn_rob s, co_checkpoint_buffer := rn_checkpoint_buffer s, co_perf := rn_perf s \<rparr>) }"

definition core_decode :: "commit_feedback_pack_t \<Rightarrow> core \<Rightarrow> (decode_feedback_pack_t \<times> core) option" where
  "core_decode cf c = do {
     (fb, s) \<leftarrow> decode_run cf \<lparr> ds_fetch_decode_fifo = co_fetch_decode_fifo c, ds_decode_rename_fifo = co_decode_rename_fifo c,
       ds_perf = co_perf c \<rparr>;
     Some (fb, c \<lparr> co_fetch_decode_fifo := ds_fetch_decode_fifo s, co_decode_rename_fifo := ds_decode_rename_fifo s, co_perf := ds_perf s \<rparr>) }"

definition core_fetch :: "checkpoint_t \<Rightarrow> decode_feedback_pack_t \<Rightarrow> rename_feedback_pack_t \<Rightarrow> commit_feedback_pack_t \<Rightarrow> core \<Rightarrow>
    core option" where
  "core_fetch uninit df rf cf c = do {
     s \<leftarrow> fetch_run uninit df rf cf ((co_fetch c) \<lparr> ft_bus := co_bus c, ft_fetch_decode_fifo := co_fetch_decode_fifo c,
       ft_checkpoint_buffer := co_checkpoint_buffer c, ft_branch_predictor := co_branch_predictor c, ft_store_buffer := co_store_buffer c,
       ft_perf := co_perf c \<rparr>);
     Some (c \<lparr> co_fetch := s, co_bus := ft_bus s, co_fetch_decode_fifo := ft_fetch_decode_fifo s, co_checkpoint_buffer := ft_checkpoint_buffer s,
       co_branch_predictor := ft_branch_predictor s, co_perf := ft_perf s \<rparr>) }"

subsection \<open>The cycle\<close>

text \<open>The calls up to \<open>fetch_stage.run\<close>, with the feedback of the commit stage; then the rest.\<close>

definition core_stages :: "checkpoint_t \<Rightarrow> execute_feedback_channel_t \<Rightarrow> core \<Rightarrow> (commit_feedback_pack_t \<times> core) option" where
  "core_stages uninit uninit_ch c = do {
     c1 \<leftarrow> core_start c;
     (cf, c2) \<leftarrow> core_commit c1;
     (wbf, c3) \<leftarrow> core_wb cf c2;
     (ef, c4) \<leftarrow> core_execute uninit_ch cf c3;
     (isf, c5) \<leftarrow> core_issue ef wbf cf c4;
     c6 \<leftarrow> core_readreg isf ef wbf cf c5;
     (rf, c7) \<leftarrow> core_rename uninit isf cf c6;
     (df, c8) \<leftarrow> core_decode cf c7;
     c9 \<leftarrow> core_fetch uninit df rf cf c8;
     Some (cf, c9) }"

text \<open>The registers that show the 64-bit counters.\<close>

definition counter_csrs :: "perf \<Rightarrow> (u32 \<times> u32 \<times> u64) list" where
  "counter_csrs p =
     [(CSR_MCYCLE, CSR_MCYCLEH, cpu_clock_cycle p), (CSR_MINSTRET, CSR_MINSTRETH, committed_instruction_num p),
      (CSR_BRANCHNUM, CSR_BRANCHNUMH, branch_num p), (CSR_BRANCHPREDICTED, CSR_BRANCHPREDICTEDH, branch_predicted p),
      (CSR_BRANCHHIT, CSR_BRANCHHITH, branch_hit p), (CSR_BRANCHMISS, CSR_BRANCHMISSH, branch_miss p),
      (CSR_FD, CSR_FDH, fetch_decode_fifo_full p), (CSR_DR, CSR_DRH, decode_rename_fifo_full p), (CSR_IQ, CSR_IQH, issue_queue_full p),
      (CSR_IE, CSR_IEH, issue_execute_fifo_full p), (CSR_CB, CSR_CBH, checkpoint_buffer_full p), (CSR_ROB, CSR_ROBH, rob_full p),
      (CSR_PHY, CSR_PHYH, phy_regfile_full p), (CSR_RAS, CSR_RASH, ras_full p), (CSR_FNF, CSR_FNFH, fetch_not_full p)]"

definition write_counter :: "u32 \<times> u32 \<times> u64 \<Rightarrow> csrfile \<Rightarrow> csrfile option" where
  "write_counter = (\<lambda>(lo, hi, v) f. do {
     f1 \<leftarrow> csrfile_write_sys lo (ucast v) f;
     csrfile_write_sys hi (ucast (drop_bit 32 v)) f1 })"

definition core_sync :: "commit_feedback_pack_t \<Rightarrow> core \<Rightarrow> core option" where
  "core_sync cf c = do {
     (f1, i1) \<leftarrow> intif_run (co_csr_file c, co_interrupt_interface c);
     c1 \<leftarrow> core_clint_post (c \<lparr> co_csr_file := f1, co_interrupt_interface := i1 \<rparr>);
     r \<leftarrow> rat_sync (co_rat c1);
     q \<leftarrow> rob_sync (co_rob c1);
     rf \<leftarrow> regfile_sync (co_phy_regfile c1);
     f2 \<leftarrow> csrfile_sync (co_csr_file c1);
     (sb, b) \<leftarrow> sb_run cf (co_store_buffer c1) (co_bus c1);
     b1 \<leftarrow> bus_sync b;
     sb1 \<leftarrow> sb_sync sb;
     cpb \<leftarrow> cpbuf_sync (co_checkpoint_buffer c1);
     bp \<leftarrow> bp_sync (co_branch_predictor c1);
     i2 \<leftarrow> intif_sync (co_interrupt_interface c1);
     let p = (co_perf c1) \<lparr> cpu_clock_cycle := cpu_clock_cycle (co_perf c1) + 1, committed_instruction_num := rob_get_global_commit_num q \<rparr>;
     f3 \<leftarrow> drain write_counter (counter_csrs p) f2;
     Some (c1 \<lparr> co_rat := r, co_rob := q, co_phy_regfile := rf, co_csr_file := f3, co_store_buffer := sb1, co_bus := b1,
       co_checkpoint_buffer := cpb, co_branch_predictor := bp, co_interrupt_interface := i2, co_perf := p \<rparr>) }"

definition core_cycle :: "checkpoint_t \<Rightarrow> execute_feedback_channel_t \<Rightarrow> core \<Rightarrow> core option" where
  "core_cycle uninit uninit_ch c = do {
     (cf, c1) \<leftarrow> core_stages uninit uninit_ch c;
     core_sync cf c1 }"

subsection \<open>Reset\<close>

definition core_reset_boot :: "nat \<Rightarrow> rat \<times> phy_regfile_item_t regfile \<Rightarrow> (rat \<times> phy_regfile_item_t regfile) option" where
  "core_reset_boot i = (\<lambda>(r, rf). do {
     r1 \<leftarrow> rat_boot_step i r;
     rf1 \<leftarrow> regfile_write i \<lparr> phy_value = 0 \<rparr> True rf;
     Some (r1, rf1) })"

definition core_reset :: "core \<Rightarrow> core option" where
  "core_reset c = do {
     (r, rf) \<leftarrow> drain core_reset_boot [1..<32] (rat_init_start (co_rat c), regfile_reset \<lparr> phy_value = 0 \<rparr> (co_phy_regfile c));
     m \<leftarrow> find_slave_info (co_bus c) 0x80000000;
     let c1 = c \<lparr> co_fetch_decode_fifo := fifo_reset (co_fetch_decode_fifo c), co_decode_rename_fifo := fifo_reset (co_decode_rename_fifo c),
       co_rename_readreg_port := port_reset (co_rename_readreg_port c), co_readreg_issue_port := port_reset (co_readreg_issue_port c),
       co_unit_fifo := (\<lambda>u. map fifo_reset (co_unit_fifo c u)), co_unit_wb_port := (\<lambda>u. map port_reset (co_unit_wb_port c u)),
       co_csr_unit := map csr_unit_reset (co_csr_unit c), co_lsu_unit := map lsu_reset (co_lsu_unit c),
       co_wb_commit_port := port_reset (co_wb_commit_port c), co_bus := set_slave m (slave_reset (slv (slave_info_list (co_bus c) ! m))) (bus_reset (co_bus c)), co_phy_regfile := rf, co_rat := rat_init_finish r,
       co_rob := rob_reset (co_rob c), co_csr_file := csrfile_reset (co_csr_file c), co_store_buffer := sb_reset (co_store_buffer c),
       co_checkpoint_buffer := cpbuf_reset (co_checkpoint_buffer c), co_branch_predictor := bp_reset (co_branch_predictor c),
       co_interrupt_interface := intif_reset (co_interrupt_interface c) \<rparr>;
     k \<leftarrow> core_clint c1;
     Some ((core_set_clint (clint_reset k) c1) \<lparr> co_fetch := fetch_reset (co_fetch c), co_rename := rename_reset (co_rename c),
       co_issue := issue_reset (co_issue c), co_commit := commit_reset (co_commit c),
       co_perf := perf_zero \<lparr> fetch_not_full := fetch_not_full (co_perf c) \<rparr> \<rparr>) }"

definition get_current_pc :: "core \<Rightarrow> u32" where
  "get_current_pc c =
     (let fetch_pc = (case fifo_get_front (co_fetch_decode_fifo c) of
            Some fdpack \<Rightarrow> if fd_enable fdpack then fd_pc fdpack else fetch_get_pc (co_fetch c)
          | None \<Rightarrow> fetch_get_pc (co_fetch c))
      in if \<not> fifo_is_empty (co_rob c) then rob_pc (rob_get_front (co_rob c))
         else case fifo_get_front (co_decode_rename_fifo c) of
           Some drpack \<Rightarrow> if o_enable drpack then o_pc drpack else fetch_pc
         | None \<Rightarrow> fetch_pc)"

end
