(* ===== verification/Core_Props.thy ===== *)
theory Core_Props
  imports Core Commit_Flush Bp_Props
begin

text \<open>
  The whole core: \<open>reset\<close>, and what a flush does to the instructions in flight.
\<close>

subsection \<open>Flush\<close>

text \<open>Nothing is under way between fetch and the reorder buffer.\<close>

definition drained :: "core \<Rightarrow> bool" where
  "drained c \<longleftrightarrow> fifo_is_empty (co_fetch_decode_fifo c) \<and> fifo_is_empty (co_decode_rename_fifo c) \<and>
     (\<forall>x \<in> set (port_get (co_rename_readreg_port c)). \<not> o_enable x) \<and> (\<forall>x \<in> set (port_get (co_readreg_issue_port c)). \<not> o_enable x) \<and>
     fifo_is_empty (is_issue_q (co_issue c)) \<and> \<not> is_busy (co_issue c) \<and> \<not> is_inst_waiting (co_issue c) \<and>
     (\<forall>u. (\<forall>q \<in> set (co_unit_fifo c u). fifo_is_empty q) \<and> (\<forall>p \<in> set (co_unit_wb_port c u). \<not> o_enable (port_get p))) \<and>
     (\<forall>s \<in> set (co_lsu_unit c). \<not> lu_busy s) \<and> (\<forall>x \<in> set (port_get (co_wb_commit_port c)). \<not> o_enable x) \<and> \<not> ft_jump_wait (co_fetch c)"

definition wired :: "core \<Rightarrow> bool" where
  "wired c \<longleftrightarrow> (\<forall>u. length (co_unit_fifo c u) = unit_cnt u \<and> length (co_unit_wb_port c u) = unit_cnt u) \<and>
     length (co_csr_unit c) = CSR_UNIT_NUM \<and> length (co_lsu_unit c) = LSU_UNIT_NUM"

lemma zero_disabled [simp]:
  "\<not> o_enable zero_execute_wb_pack" "\<not> o_enable zero_readreg_issue_op_info" "\<not> o_enable zero_rename_readreg_op_info"
  by code_simp+

lemma flush_empty [simp]: "fifo_is_empty (fifo_flush q)"
  by (simp add: fifo_flush_def fifo_is_empty_def)

text \<open>The execution units of a core that is flushed: their queues are left alone, their ports cleared.\<close>

definition cleared :: "(op_unit_t \<times> nat) set \<Rightarrow> core \<Rightarrow> bool" where
  "cleared D c \<longleftrightarrow> (\<forall>(u, i) \<in> D. \<not> o_enable (port_get (co_unit_wb_port c u ! i)) \<and> (u = Unit_lsu \<longrightarrow> \<not> lu_busy (co_lsu_unit c ! i)))"

definition units_frame :: "core \<Rightarrow> core \<Rightarrow> bool" where
  "units_frame c c1 \<longleftrightarrow> (\<exists>w x y. c1 = c \<lparr> co_unit_wb_port := w, co_csr_unit := x, co_lsu_unit := y \<rparr>)"

lemma unit_runs_flush:
  assumes "cf_flushing cf"
  shows "exec_run f cf s = Some (exec_feedback zero_execute_wb_pack, s \<lparr> eu_wb_port := port_set zero_execute_wb_pack (eu_wb_port s) \<rparr>)"
    and "bru_run csrs cpb cf (s, bp) = Some (exec_feedback zero_execute_wb_pack, s \<lparr> eu_wb_port := port_set zero_execute_wb_pack (eu_wb_port s) \<rparr>, bp)"
    and "csr_run uninit_ch csrs cf cu = Some (uninit_ch \<lparr> ch_enable := False \<rparr>, cu \<lparr> eu_wb_port := port_set zero_execute_wb_pack (eu_wb_port cu) \<rparr>)"
    and "lsu_run cf (lu, m) = Some (exec_feedback zero_execute_wb_pack, lu \<lparr> lu_busy := False, eu_wb_port := port_set zero_execute_wb_pack (eu_wb_port lu) \<rparr>, m)"
  using assms by (simp_all add: cf_flushing_def exec_run_def exec_take_def exec_put_def bru_run_def csr_run_def lsu_run_def lsu_take_def)

lemma core_unit_flush:
  assumes "cf_flushing cf" "wired c" "i < unit_cnt u"
  shows "\<exists>fb c1. core_unit uninit_ch cf u i c = Some (fb, c1) \<and> wired c1 \<and> units_frame c c1 \<and> (\<forall>D. cleared D c \<longrightarrow> cleared (insert (u, i) D) c1)"
proof -
  have len: "length (co_unit_fifo c u) = unit_cnt u" "length (co_unit_wb_port c u) = unit_cnt u"
    "u = Unit_csr \<longrightarrow> i < length (co_csr_unit c)" "u = Unit_lsu \<longrightarrow> i < length (co_lsu_unit c)" using assms(2,3) by (auto simp: wired_def)
  define p where "p = port_set zero_execute_wb_pack (co_unit_wb_port c u ! i)"
  let ?io = "\<lparr> eu_fifo = co_unit_fifo c u ! i, eu_wb_port = co_unit_wb_port c u ! i \<rparr>"
  have io: "unit_io u i c = Some ?io" using assms(3) len by (simp add: unit_io_def)
  define w where "w = (co_unit_wb_port c)(u := (co_unit_wb_port c u)[i := p])"
  let ?lsu = "(co_lsu_unit c)[i := (co_lsu_unit c ! i) \<lparr> eu_fifo := co_unit_fifo c u ! i, lu_busy := False, eu_wb_port := p \<rparr>]"
  let ?csr = "(co_csr_unit c)[i := (co_csr_unit c ! i) \<lparr> eu_fifo := co_unit_fifo c u ! i, eu_wb_port := p \<rparr>]"
  define c1 where "c1 = (if u = Unit_csr then c \<lparr> co_unit_wb_port := w, co_csr_unit := ?csr \<rparr>
    else if u = Unit_lsu then c \<lparr> co_unit_wb_port := w, co_lsu_unit := ?lsu \<rparr> else c \<lparr> co_unit_wb_port := w \<rparr>)"
  note flush = unit_runs_flush [OF assms(1)]
  define fb where "fb = (if u = Unit_csr then uninit_ch \<lparr> ch_enable := False \<rparr> else exec_feedback zero_execute_wb_pack)"
  have "core_unit uninit_ch cf u i c = Some (fb, c1)"
  proof (cases u)
    case Unit_alu
    then show ?thesis using io by (simp add: core_unit_def alu_run_def flush put_io_def c1_def w_def p_def fb_def)
  next
    case Unit_bru
    then show ?thesis using io by (simp add: core_unit_def flush put_io_def c1_def w_def p_def fb_def)
  next
    case Unit_csr
    then show ?thesis using io len(3) by (simp add: core_unit_def flush put_io_def c1_def w_def p_def fb_def)
  next
    case Unit_div
    then show ?thesis using io by (simp add: core_unit_def div_run_def flush put_io_def c1_def w_def p_def fb_def)
  next
    case Unit_lsu
    then show ?thesis using io len(4) by (simp add: core_unit_def flush put_io_def c1_def w_def p_def fb_def)
  next
    case Unit_mul
    then show ?thesis using io by (simp add: core_unit_def mul_run_def flush put_io_def c1_def w_def p_def fb_def)
  qed
  moreover have "wired c1" using assms(2) by (simp add: wired_def c1_def w_def)
  moreover have "units_frame c c1"
  proof -
    have "c1 = c \<lparr> co_unit_wb_port := w, co_csr_unit := co_csr_unit c1, co_lsu_unit := co_lsu_unit c1 \<rparr>" by (simp add: c1_def)
    then show ?thesis unfolding units_frame_def by blast
  qed
  moreover have "cleared (insert (u, i) D) c1" if "cleared D c" for D
  proof -
    have "o_enable (port_get (co_unit_wb_port c1 v ! j)) = (if v = u \<and> j = i then False else o_enable (port_get (co_unit_wb_port c v ! j)))" for v j
    proof -
      have "co_unit_wb_port c1 = w" by (simp add: c1_def)
      then show ?thesis using assms(3) len(2) by (simp add: w_def p_def nth_list_update)
    qed
    moreover have "lu_busy (co_lsu_unit c1 ! j) = (if u = Unit_lsu \<and> j = i then False else lu_busy (co_lsu_unit c ! j))" for j
      using len(4) by (simp add: c1_def nth_list_update)
    ultimately show ?thesis using that by (simp add: cleared_def split_beta)
  qed
  ultimately show ?thesis by blast
qed

lemma units_frame_trans:
  assumes "units_frame c c1" "units_frame c1 c2"
  shows "units_frame c c2"
proof -
  obtain w x y where "c1 = c \<lparr> co_unit_wb_port := w, co_csr_unit := x, co_lsu_unit := y \<rparr>" using assms(1) unfolding units_frame_def by blast
  moreover obtain w1 x1 y1 where "c2 = c1 \<lparr> co_unit_wb_port := w1, co_csr_unit := x1, co_lsu_unit := y1 \<rparr>" using assms(2) unfolding units_frame_def by blast
  ultimately have "c2 = c \<lparr> co_unit_wb_port := w1, co_csr_unit := x1, co_lsu_unit := y1 \<rparr>" by simp
  then show ?thesis unfolding units_frame_def by blast
qed

lemma core_units_flush:
  assumes "cf_flushing cf" "wired c" "\<forall>(u, i) \<in> set xs. i < unit_cnt u" "cleared D c"
  shows "\<exists>fbs1 c1. drain (\<lambda>(u, i) (fbs, c). do { (fb, c1) \<leftarrow> core_unit uninit_ch cf u i c; Some (fbs @ [fb], c1) }) xs (fbs, c) = Some (fbs1, c1) \<and>
    wired c1 \<and> units_frame c c1 \<and> cleared (D \<union> set xs) c1"
  using assms(2-4)
proof (induction xs arbitrary: fbs c D)
  case Nil
  have "c = c \<lparr> co_unit_wb_port := co_unit_wb_port c, co_csr_unit := co_csr_unit c, co_lsu_unit := co_lsu_unit c \<rparr>" by simp
  then have "units_frame c c" unfolding units_frame_def by blast
  with Nil show ?case by simp
next
  case (Cons x xs)
  obtain u i where x: "x = (u, i)" by (cases x)
  have i: "i < unit_cnt u" using Cons.prems(2) by (simp add: x)
  obtain fb c1 where c1: "core_unit uninit_ch cf u i c = Some (fb, c1)" "wired c1" "units_frame c c1" "cleared (insert (u, i) D) c1"
    using core_unit_flush [OF assms(1) Cons.prems(1) i] Cons.prems(3) by blast
  have "\<forall>(u, i) \<in> set xs. i < unit_cnt u" using Cons.prems(2) by simp
  then obtain fbs2 c2 where "drain (\<lambda>(u, i) (fbs, c). do { (fb, c1) \<leftarrow> core_unit uninit_ch cf u i c; Some (fbs @ [fb], c1) }) xs (fbs @ [fb], c1) = Some (fbs2, c2)"
    "wired c2" "units_frame c1 c2" "cleared (insert (u, i) D \<union> set xs) c2" using Cons.IH [OF c1(2) _ c1(4)] by blast
  with c1 units_frame_trans [of c c1 c2] show ?case by (simp add: x)
qed

lemma core_execute_flush:
  assumes "cf_flushing cf" "wired c"
  shows "\<exists>ef c1. core_execute uninit_ch cf c = Some (ef, c1) \<and> wired c1 \<and> units_frame c c1 \<and>
    (\<forall>u. \<forall>p \<in> set (co_unit_wb_port c1 u). \<not> o_enable (port_get p)) \<and> (\<forall>s \<in> set (co_lsu_unit c1). \<not> lu_busy s)"
proof -
  have order: "set unit_order = {(u, i). i < unit_cnt u}"
  proof -
    have "(u, i) \<in> set unit_order \<longleftrightarrow> i < unit_cnt u" for u i by (cases u) (auto simp: unit_order_def)
    then show ?thesis by auto
  qed
  have "cleared {} c" by (simp add: cleared_def)
  from core_units_flush [OF assms _ this, where xs = unit_order and fbs = "[]" and uninit_ch = uninit_ch] obtain ef c1 where
    c1: "core_execute uninit_ch cf c = Some (ef, c1)" "wired c1" "units_frame c c1" "cleared {(u, i). i < unit_cnt u} c1"
    unfolding core_execute_def order by auto
  have "\<not> o_enable (port_get (co_unit_wb_port c1 u ! i))" if "i < unit_cnt u" for u i using c1(4) that by (auto simp: cleared_def)
  moreover have "\<not> lu_busy (co_lsu_unit c1 ! i)" if "i < LSU_UNIT_NUM" for i using c1(4) that by (force simp: cleared_def)
  ultimately show ?thesis using c1 by (auto simp: wired_def in_set_conv_nth)
qed

lemma core_wb_flush:
  assumes "cf_flushing cf"
  shows "core_wb cf c = Some (replicate EXECUTE_UNIT_NUM zero_feedback_channel,
    c \<lparr> co_wb_commit_port := port_set (replicate EXECUTE_UNIT_NUM zero_execute_wb_pack) (co_wb_commit_port c) \<rparr>)"
  using assms by (simp add: core_wb_def wb_run_def)

lemma core_issue_flush:
  assumes "cf_flushing cf"
  shows "\<exists>s. core_issue ef wbf cf c = Some (\<lparr> if_stall = False \<rparr>, c \<lparr> co_issue := s, co_unit_fifo := (\<lambda>u. map fifo_flush (co_unit_fifo c u)) \<rparr>) \<and>
    fifo_is_empty (is_issue_q s) \<and> \<not> is_busy s \<and> \<not> is_inst_waiting s"
  by (rule exI [of _ "issue_flush ((co_issue c) \<lparr> is_readreg_issue_port := co_readreg_issue_port c, is_unit_fifo := co_unit_fifo c,
       is_phy_regfile := co_phy_regfile c, is_store_buffer := co_store_buffer c, is_perf := co_perf c \<rparr>)"])
    (use assms in \<open>simp add: core_issue_def issue_run_def issue_flush_def\<close>)

lemma core_readreg_flush:
  assumes "cf_flushing cf"
  shows "core_readreg isf ef wbf cf c = Some (c \<lparr> co_readreg_issue_port := port_set (replicate READREG_WIDTH zero_readreg_issue_op_info) (co_readreg_issue_port c) \<rparr>)"
  using assms by (simp add: core_readreg_def readreg_run_def)

lemma core_rename_flush:
  assumes "cf_flushing cf"
  shows "\<exists>fb s. core_rename uninit isf cf c =
    Some (fb, c \<lparr> co_rename := s, co_rename_readreg_port := port_set (replicate RENAME_WIDTH zero_rename_readreg_op_info) (co_rename_readreg_port c) \<rparr>)"
  using assms by (simp add: core_rename_def rename_run_def) blast

lemma core_decode_flush:
  assumes "cf_flushing cf"
  shows "\<exists>fb. core_decode cf c = Some (fb, c \<lparr> co_decode_rename_fifo := fifo_flush (co_decode_rename_fifo c) \<rparr>)"
  using assms by (simp add: core_decode_def decode_run_def cf_flushing_def)

lemma core_fetch_flush:
  assumes "cf_flushing cf" "\<not> ft_wait_first_memory_result (co_fetch c)"
  shows "\<exists>s. core_fetch uninit df rf cf c = Some (c \<lparr> co_fetch := s, co_fetch_decode_fifo := fifo_flush (co_fetch_decode_fifo c) \<rparr>) \<and> \<not> ft_jump_wait s \<and>
    ft_pc s = (if cf_has_exception cf then cf_exception_pc cf else if cf_jump_enable cf then cf_next_pc cf else ft_pc (co_fetch c))"
  by (rule exI [of _ "fetch_flush cf ((co_fetch c) \<lparr> ft_bus := co_bus c, ft_fetch_decode_fifo := co_fetch_decode_fifo c,
       ft_checkpoint_buffer := co_checkpoint_buffer c, ft_branch_predictor := co_branch_predictor c, ft_store_buffer := co_store_buffer c,
       ft_perf := co_perf c \<rparr>)"])
    (use assms in \<open>simp add: core_fetch_def fetch_run_def fetch_flush_def\<close>)

text \<open>The requests at the end of a cycle touch none of the queues and ports between the stages.\<close>

lemma core_sync_frame:
  assumes "core_sync cf c = Some c1"
  shows "co_fetch c1 = co_fetch c \<and> co_issue c1 = co_issue c \<and> co_lsu_unit c1 = co_lsu_unit c \<and> co_unit_fifo c1 = co_unit_fifo c \<and> co_unit_wb_port c1 = co_unit_wb_port c \<and>
    co_fetch_decode_fifo c1 = co_fetch_decode_fifo c \<and> co_decode_rename_fifo c1 = co_decode_rename_fifo c \<and> co_rename_readreg_port c1 = co_rename_readreg_port c \<and>
    co_readreg_issue_port c1 = co_readreg_issue_port c \<and> co_wb_commit_port c1 = co_wb_commit_port c"
  using assms by (auto simp: core_sync_def core_clint_post_def core_set_clint_def Let_def bind_eq_Some_conv)

lemma core_start_frame:
  assumes "core_start c = Some c0" "core_commit c0 = Some (cf, c1)"
  shows "co_fetch c1 = co_fetch c \<and> co_bus c1 = co_bus c \<and> co_store_buffer c1 = co_store_buffer c \<and> co_unit_fifo c1 = co_unit_fifo c \<and>
    co_unit_wb_port c1 = co_unit_wb_port c \<and> co_csr_unit c1 = co_csr_unit c \<and> co_lsu_unit c1 = co_lsu_unit c"
  using assms by (auto simp: core_start_def core_commit_def Let_def bind_eq_Some_conv)

text \<open>C10: when the commit stage flushes, the rest of the cycle removes every instruction under way between fetch and the reorder buffer:
  all queues are empty, all ports carry disabled packs, no unit and no stage holds an instruction back, and fetch continues at the
  exception's or the jump's address. The other stages cannot abort in such a cycle and do not touch the alias table, the reorder
  buffer, the registers, the predictor, the checkpoints or the stores: what the commit stage restored is what the next cycle starts with.\<close>

theorem core_flush_drains:
  assumes "wired c" "\<not> ft_wait_first_memory_result (co_fetch c)" "core_start c = Some c0" "core_commit c0 = Some (cf, c1)" "cf_flushing cf"
  shows "\<exists>c2. core_stages uninit uninit_ch c = Some (cf, c2) \<and> drained c2 \<and>
    ft_pc (co_fetch c2) = (if cf_has_exception cf then cf_exception_pc cf else if cf_jump_enable cf then cf_next_pc cf else ft_pc (co_fetch c)) \<and>
    co_rat c2 = co_rat c1 \<and> co_rob c2 = co_rob c1 \<and> co_phy_regfile c2 = co_phy_regfile c1 \<and> co_csr_file c2 = co_csr_file c1 \<and>
    co_checkpoint_buffer c2 = co_checkpoint_buffer c1 \<and> co_branch_predictor c2 = co_branch_predictor c1 \<and>
    co_store_buffer c2 = co_store_buffer c \<and> co_bus c2 = co_bus c \<and>
    (\<forall>c3. core_sync cf c2 = Some c3 \<longrightarrow> drained c3 \<and> co_fetch c3 = co_fetch c2)"
proof -
  have s: "wired c1" "\<not> ft_wait_first_memory_result (co_fetch c1)" "ft_pc (co_fetch c1) = ft_pc (co_fetch c)" "co_store_buffer c1 = co_store_buffer c" "co_bus c1 = co_bus c"
    using assms(1,2) core_start_frame [OF assms(3,4)] by (simp_all add: wired_def)
  let ?c2 = "c1 \<lparr> co_wb_commit_port := port_set (replicate EXECUTE_UNIT_NUM zero_execute_wb_pack) (co_wb_commit_port c1) \<rparr>"
  have "wired ?c2" using s(1) by (simp add: wired_def)
  then obtain ef c3 where c3: "core_execute uninit_ch cf ?c2 = Some (ef, c3)" "units_frame ?c2 c3"
    "\<forall>u. \<forall>p \<in> set (co_unit_wb_port c3 u). \<not> o_enable (port_get p)" "\<forall>s \<in> set (co_lsu_unit c3). \<not> lu_busy s"
    using core_execute_flush [OF assms(5)] by blast
  let ?wbf = "replicate EXECUTE_UNIT_NUM zero_feedback_channel" and ?isf = "\<lparr> if_stall = False \<rparr>"
  obtain iss where i: "core_issue ef ?wbf cf c3 = Some (?isf, c3 \<lparr> co_issue := iss, co_unit_fifo := (\<lambda>u. map fifo_flush (co_unit_fifo c3 u)) \<rparr>)"
    "fifo_is_empty (is_issue_q iss)" "\<not> is_busy iss" "\<not> is_inst_waiting iss" using core_issue_flush [OF assms(5)] by blast
  define c4 where "c4 = c3 \<lparr> co_issue := iss, co_unit_fifo := (\<lambda>u. map fifo_flush (co_unit_fifo c3 u)) \<rparr>"
  define c5 where "c5 = c4 \<lparr> co_readreg_issue_port := port_set (replicate READREG_WIDTH zero_readreg_issue_op_info) (co_readreg_issue_port c4) \<rparr>"
  obtain rf rs where r: "core_rename uninit ?isf cf c5 =
      Some (rf, c5 \<lparr> co_rename := rs, co_rename_readreg_port := port_set (replicate RENAME_WIDTH zero_rename_readreg_op_info) (co_rename_readreg_port c5) \<rparr>)"
    using core_rename_flush [OF assms(5)] by blast
  define c6 where "c6 = c5 \<lparr> co_rename := rs, co_rename_readreg_port := port_set (replicate RENAME_WIDTH zero_rename_readreg_op_info) (co_rename_readreg_port c5) \<rparr>"
  obtain df where d: "core_decode cf c6 = Some (df, c6 \<lparr> co_decode_rename_fifo := fifo_flush (co_decode_rename_fifo c6) \<rparr>)"
    using core_decode_flush [OF assms(5)] by blast
  define c7 where "c7 = c6 \<lparr> co_decode_rename_fifo := fifo_flush (co_decode_rename_fifo c6) \<rparr>"
  obtain w x y where fr: "c3 = ?c2 \<lparr> co_unit_wb_port := w, co_csr_unit := x, co_lsu_unit := y \<rparr>" using c3(2) unfolding units_frame_def by blast
  have f7: "\<not> ft_wait_first_memory_result (co_fetch c7)" "co_fetch c7 = co_fetch c1" using s(2) by (simp_all add: c7_def c6_def c5_def c4_def fr)
  obtain fs where f: "core_fetch uninit df rf cf c7 = Some (c7 \<lparr> co_fetch := fs, co_fetch_decode_fifo := fifo_flush (co_fetch_decode_fifo c7) \<rparr>)" "\<not> ft_jump_wait fs"
    "ft_pc fs = (if cf_has_exception cf then cf_exception_pc cf else if cf_jump_enable cf then cf_next_pc cf else ft_pc (co_fetch c))"
    using core_fetch_flush [OF assms(5) f7(1), of uninit df rf] f7(2) s(3) by auto
  define c8 where "c8 = c7 \<lparr> co_fetch := fs, co_fetch_decode_fifo := fifo_flush (co_fetch_decode_fifo c7) \<rparr>"
  have run: "core_stages uninit uninit_ch c = Some (cf, c8)"
    using assms(3,4) core_wb_flush [OF assms(5), of c1] c3(1) i(1) core_readreg_flush [OF assms(5), of ?isf ef ?wbf c4] r d f(1)
    by (simp add: core_stages_def c8_def c7_def c6_def c5_def c4_def)
  have dr: "drained c8" using i(2-4) f(2) c3(3,4) by (simp add: drained_def c8_def c7_def c6_def c5_def c4_def fr)
  have "drained c9 \<and> co_fetch c9 = co_fetch c8" if "core_sync cf c8 = Some c9" for c9
    using dr core_sync_frame [OF that] unfolding drained_def by simp
  with run dr f(3) s show ?thesis by (intro exI [of _ c8]) (simp add: c8_def c7_def c6_def c5_def c4_def fr)
qed

text \<open>A core in the last cycle of an exception flush, with instructions in its ports and a load that is held.\<close>

definition sample_core_bus :: bus where
  "sample_core_bus = \<lparr> bus_sync_request_q = [], slave_info_list =
     [\<lparr> slv_base = 0x80000000, slv_size = 16, slv = sample_memory 16 \<rparr>,
      \<lparr> slv_base = 0x20000000, slv_size = 0x10000, slv = slave_new (Clint clint_new) \<rparr>] \<rparr>"

definition sample_queue :: "'a fifo" where
  "sample_queue = fifo_new 1 [] 0 False"

definition sample_fetch_state :: "branch_predictor \<Rightarrow> fetch_state" where
  "sample_fetch_state bp = \<lparr> ft_bus = sample_core_bus, ft_fetch_decode_fifo = sample_queue, ft_checkpoint_buffer = cpbuf_new 1 [] 0 False,
     ft_branch_predictor = bp, ft_store_buffer = sb_new 1 [] 0 False, ft_init_pc = 0x80000000, ft_pc = 0x80000020, ft_jump_wait = True,
     ft_wait_first_memory_result = False, ft_perf = perf_zero \<rparr>"

definition sample_rename_state :: "rat \<Rightarrow> rename_state" where
  "sample_rename_state r = \<lparr> rn_decode_rename_fifo = sample_queue, rn_rename_readreg_port = port_new [], rn_rat = r, rn_rob = sample_flush_rob,
     rn_checkpoint_buffer = cpbuf_new 1 [] 0 False, rn_perf = perf_zero, rn_busy = False, rn_rev_pack = zero_decode_rename_pack \<rparr>"

definition sample_issue_state :: issue_state where
  "sample_issue_state = \<lparr> is_readreg_issue_port = port_new [], is_unit_fifo = (\<lambda>u. []), is_phy_regfile = regfile_new zero_phy_regfile_item PHY_REG_NUM,
     is_store_buffer = sb_new 1 [] 0 False, is_issue_q = iq_new 2 [] 0 False, is_busy = False, is_inst_waiting = True, is_inst_waiting_rob_id = 0,
     is_last_index = 0, is_unit_index = (\<lambda>u. 0), is_perf = perf_zero \<rparr>"

definition sample_core :: "branch_predictor \<Rightarrow> rat \<Rightarrow> core" where
  "sample_core bp r = \<lparr> co_fetch_decode_fifo = sample_queue, co_decode_rename_fifo = sample_queue,
     co_rename_readreg_port = port_set [zero_rename_readreg_op_info \<lparr> o_enable := True \<rparr>] (port_new []), co_readreg_issue_port = port_new [],
     co_unit_fifo = (\<lambda>u. replicate (unit_cnt u) sample_queue),
     co_unit_wb_port = (\<lambda>u. replicate (unit_cnt u) (port_set (zero_execute_wb_pack \<lparr> o_enable := True \<rparr>) (port_new zero_execute_wb_pack))),
     co_wb_commit_port = port_new [], co_bus = sample_core_bus, co_rat = r, co_rob = sample_flush_rob,
     co_phy_regfile = regfile_new zero_phy_regfile_item PHY_REG_NUM, co_csr_file = sample_flush_csrs, co_store_buffer = sb_new 1 [] 0 False,
     co_checkpoint_buffer = cpbuf_new 1 [] 0 False, co_branch_predictor = bp, co_interrupt_interface = intif_new, co_perf = perf_zero,
     co_fetch = sample_fetch_state bp, co_rename = sample_rename_state r, co_issue = sample_issue_state,
     co_csr_unit = [\<lparr> eu_fifo = sample_queue, eu_wb_port = port_new zero_execute_wb_pack, cu_rev_pack = zero_issue_execute_pack \<rparr>],
     co_lsu_unit = [\<lparr> eu_fifo = sample_queue, eu_wb_port = port_new zero_execute_wb_pack, lu_busy = True, lu_hold_rev_pack = zero_issue_execute_pack \<rparr>],
     co_commit = sample_flush_state St_flush bp r \<rparr>"

lemma commit_run_last_flush:
  assumes "flushing_at s e 0" "cm_cur_state s = St_flush" "csrfile_read_sys (cm_csr_file s) CSR_MTVEC = Some h"
  shows "\<exists>s1. commit_run s = Some (trap_feedback h, s1)"
proof -
  obtain s1 where "commit_walk_back s = Some (False, s1)" "cm_csr_file s1 = cm_csr_file s"
    using commit_walk_back_item [OF assms(1)] by (metis (no_types))
  with assms(2,3) show ?thesis by (simp add: commit_run_def commit_run_flush_def trap_feedback_def Let_def)
qed

lemma sample_core_clint: "core_clint (sample_core bp r) = Some clint_new"
  by (simp add: core_clint_def sample_core_def sample_core_bus_def slave_new_def)

lemma sample_core_wired: "wired (sample_core bp r)"
  by (simp add: wired_def sample_core_def)

lemma sample_rob_started:
  "fifo_ring (rob_set_committed False sample_flush_rob)" "fifo_fill (rob_set_committed False sample_flush_rob) = 1"
  "fifo_ids (rob_set_committed False sample_flush_rob) = [0]" "fifo_contents (rob_set_committed False sample_flush_rob) = [sample_flush_item]"
  by code_simp+

lemma sample_core_commits:
  assumes "rat_sync_request_q r = []"
  shows "\<exists>c0 c1. core_start (sample_core bp r) = Some c0 \<and> core_commit c0 = Some (trap_feedback 0x80000100, c1)"
proof -
  obtain c0 where c0: "core_start (sample_core bp r) = Some c0" "co_commit c0 = sample_flush_state St_flush bp r" "co_rat c0 = r"
    "co_rob c0 = rob_set_committed False sample_flush_rob" "co_csr_file c0 = sample_flush_csrs"
    using sample_core_clint [of bp r] by (simp add: core_start_def core_clint_def Let_def sample_core_def)
  let ?s = "(co_commit c0) \<lparr> cm_wb_commit_port := co_wb_commit_port c0, cm_rat := co_rat c0, cm_rob := co_rob c0, cm_csr_file := co_csr_file c0,
    cm_phy_regfile := co_phy_regfile c0, cm_checkpoint_buffer := co_checkpoint_buffer c0, cm_branch_predictor := co_branch_predictor c0,
    cm_interrupt_interface := co_interrupt_interface c0, cm_perf := co_perf c0 \<rparr>"
  have "flushing_at ?s 0 0" "cm_cur_state ?s = St_flush" "csrfile_read_sys (cm_csr_file ?s) CSR_MTVEC = Some 0x80000100"
    using assms by (simp_all add: c0 flushing_at_def sample_flush_state_def sample_rob_started sample_flush_rob_facts)
  then obtain s1 where "commit_run ?s = Some (trap_feedback 0x80000100, s1)" using commit_run_last_flush by blast
  with c0(1) show ?thesis by (simp add: core_commit_def)
qed

theorem core_flush_drains_witness:
  "\<exists>bp r cf c2. core_stages sample_checkpoint zero_feedback_channel (sample_core bp r) = Some (cf, c2) \<and> drained c2 \<and>
     ft_pc (co_fetch c2) = 0x80000100 \<and> \<not> drained (sample_core bp r)"
proof -
  obtain bp :: branch_predictor where True by blast
  let ?c = "sample_core bp (rat_new PHY_REG_NUM 32 [] [] [] [])"
  obtain c0 c1 where c: "core_start ?c = Some c0" "core_commit c0 = Some (trap_feedback 0x80000100, c1)"
    using sample_core_commits [of "rat_new PHY_REG_NUM 32 [] [] [] []" bp] by (auto simp: rat_new_def)
  have "\<not> ft_wait_first_memory_result (co_fetch ?c)" "cf_flushing (trap_feedback 0x80000100)" "cf_has_exception (trap_feedback 0x80000100)"
    "cf_exception_pc (trap_feedback 0x80000100) = 0x80000100"
    by (simp_all add: sample_core_def sample_fetch_state_def cf_flushing_def trap_feedback_def flush_feedback_def)
  with core_flush_drains [OF sample_core_wired _ c, of sample_checkpoint zero_feedback_channel] obtain c2 where
    "core_stages sample_checkpoint zero_feedback_channel ?c = Some (trap_feedback 0x80000100, c2)" "drained c2" "ft_pc (co_fetch c2) = 0x80000100"
    by auto
  moreover have "\<not> drained ?c" by (simp add: drained_def sample_core_def)
  ultimately show ?thesis by blast
qed

subsection \<open>Reset\<close>

lemma core_boot_loop:
  assumes "drain rat_boot_step xs r = Some r1" "drain (\<lambda>i. regfile_write i \<lparr> phy_value = 0 \<rparr> True) xs rf = Some rf1"
  shows "drain core_reset_boot xs (r, rf) = Some (r1, rf1)"
  using assms
proof (induction xs arbitrary: r rf)
  case (Cons x xs)
  then show ?case by (auto simp: core_reset_boot_def bind_eq_Some_conv)
qed simp

lemma boot_writes:
  assumes "regfile_wf rf" "\<forall>i \<in> set xs. i < regfile_size rf"
  shows "\<exists>rf1. drain (\<lambda>i. regfile_write i z True) xs rf = Some rf1 \<and> regfile_wf rf1 \<and> regfile_size rf1 = regfile_size rf \<and>
    (\<forall>i < regfile_size rf. regfile_read rf1 i = (if i \<in> set xs then Some z else regfile_read rf i) \<and>
       read_data_valid rf1 i = (if i \<in> set xs then Some True else read_data_valid rf i))"
  using assms
proof (induction xs arbitrary: rf)
  case (Cons x xs)
  obtain g where g: "regfile_write x z True rf = Some g" "regfile_wf g" "regfile_size g = regfile_size rf"
    "\<forall>i < regfile_size rf. regfile_read g i = (if i = x then Some z else regfile_read rf i) \<and> read_data_valid g i = (if i = x then Some True else read_data_valid rf i)"
    using regfile_write_read [OF Cons.prems(1), of x z True] Cons.prems(2) by auto
  with Cons.IH [OF g(2)] Cons.prems(2) show ?case by auto
qed simp

lemma core_clint_after_reset:
  assumes "core_clint c = Some k"
  shows "\<exists>k1. core_clint (c \<lparr> co_bus := set_slave m (slave_reset (slv (slave_info_list (co_bus c) ! m))) (bus_reset (co_bus c)) \<rparr>) = Some k1"
  using assms
  by (cases "m = 1") (auto simp: core_clint_def set_slave_def bus_reset_def slave_reset_def bind_eq_Some_conv split: device.splits)

lemma resets_empty [simp]:
  "fifo_is_empty (fifo_reset q)" "fifo_is_empty (rob_reset b)" "fifo_is_empty (sb_reset sb)" "fifo_is_empty (cpbuf_reset cpb)" "fifo_is_empty (iq_reset iq)"
  by (simp_all add: fifo_is_empty_def fifo_reset_def rob_reset_def sb_reset_def cpbuf_reset_def iq_reset_def)

text \<open>The fixed sizes of the core and what the constructors of its ports leave in them.\<close>

definition built :: "core \<Rightarrow> bool" where
  "built c \<longleftrightarrow> phy_reg_num (co_rat c) = PHY_REG_NUM \<and> arch_reg_num (co_rat c) = 32 \<and> PHY_REG_NUM \<le> 64 * rat_bitmap_size (co_rat c) \<and>
     regfile_size (co_phy_regfile c) = PHY_REG_NUM \<and> PHY_REG_NUM \<le> 64 * regfile_bitmap_size (co_phy_regfile c) \<and>
     find_slave_info (co_bus c) 0x80000000 \<noteq> None \<and> core_clint c \<noteq> None \<and>
     (\<forall>x \<in> set (init_value (co_rename_readreg_port c)). \<not> o_enable x) \<and> (\<forall>x \<in> set (init_value (co_readreg_issue_port c)). \<not> o_enable x) \<and>
     (\<forall>x \<in> set (init_value (co_wb_commit_port c)). \<not> o_enable x) \<and> (\<forall>u. \<forall>p \<in> set (co_unit_wb_port c u). \<not> o_enable (init_value p))"

text \<open>C19: resetting the core, whatever state it is in, gives a core with no instruction under way and no store, checkpoint or reorder buffer entry
  left, which fetches at the start address; every architectural register except the constant zero is named by the physical register of the same number,
  these registers hold zero and no others have a value.\<close>

theorem core_reset_ready:
  assumes "built c"
  shows "\<exists>c1. core_reset c = Some c1 \<and> drained c1 \<and> fifo_is_empty (co_rob c1) \<and> fifo_is_empty (co_store_buffer c1) \<and> fifo_is_empty (co_checkpoint_buffer c1) \<and>
    ft_pc (co_fetch c1) = ft_init_pc (co_fetch c) \<and> get_current_pc c1 = ft_init_pc (co_fetch c) \<and> cm_cur_state (co_commit c1) = St_normal \<and>
    rat_total (co_rat c1) \<and> rat_valids (co_rat c1) = {1..<32} \<and> (\<forall>a \<in> {1..<32}. rat_get_phy_id (co_rat c1) a = Some (Some a)) \<and>
    (\<forall>p < PHY_REG_NUM. regfile_read (co_phy_regfile c1) p = Some \<lparr> phy_value = 0 \<rparr> \<and> read_data_valid (co_phy_regfile c1) p = Some (p \<in> {1..<32}))"
proof -
  note B = assms [unfolded built_def]
  obtain r where r: "drain rat_boot_step [1..<32] (rat_init_start (co_rat c)) = Some r" "boot_inv PHY_REG_NUM 32 32 r"
    using boot_loop [OF boot_start [of "co_rat c"], of 32] B by (auto simp: PHY_REG_NUM_def)
  let ?z = "\<lparr> phy_value = 0 \<rparr> :: phy_regfile_item_t" and ?f = "regfile_reset \<lparr> phy_value = 0 \<rparr> (co_phy_regfile c)"
  have f: "regfile_wf ?f" "regfile_size ?f = PHY_REG_NUM" "\<forall>i \<in> set [1..<32]. i < regfile_size ?f"
    "\<forall>i < PHY_REG_NUM. regfile_read ?f i = Some ?z \<and> read_data_valid ?f i = Some False"
    using B by (auto simp: regfile_reset_def regfile_wf_def regfile_read_def read_data_valid_def PHY_REG_NUM_def)
  obtain rf where rf: "drain (\<lambda>i. regfile_write i ?z True) [1..<32] ?f = Some rf"
    "\<forall>i < PHY_REG_NUM. regfile_read rf i = Some ?z \<and> read_data_valid rf i = Some (i \<in> {1..<32})"
    using boot_writes [OF f(1,3), of ?z] f(2,4) by auto
  obtain m k where m: "find_slave_info (co_bus c) 0x80000000 = Some m" "core_clint c = Some k" using B by auto
  have phy: "rat_get_phy_id (rat_init_finish r) a = Some (Some a)" if "a \<in> {1..<32}" for a
    using that boot_finish [OF r(2)] rat_get_phy_id_iff [of "rat_init_finish r" a a] by (simp add: rat_total_inv)
  obtain k1 where k1: "core_clint (c \<lparr> co_bus := set_slave m (slave_reset (slv (slave_info_list (co_bus c) ! m))) (bus_reset (co_bus c)) \<rparr>) = Some k1"
    using core_clint_after_reset [OF m(2)] by blast
  note boot = core_boot_loop [OF r(1) rf(1)]
  obtain c1 where c1: "core_reset c = Some c1" "co_rat c1 = rat_init_finish r" "co_phy_regfile c1 = rf"
    "co_fetch_decode_fifo c1 = fifo_reset (co_fetch_decode_fifo c)" "co_decode_rename_fifo c1 = fifo_reset (co_decode_rename_fifo c)"
    "co_rename_readreg_port c1 = port_reset (co_rename_readreg_port c)" "co_readreg_issue_port c1 = port_reset (co_readreg_issue_port c)"
    "co_unit_fifo c1 = (\<lambda>u. map fifo_reset (co_unit_fifo c u))" "co_unit_wb_port c1 = (\<lambda>u. map port_reset (co_unit_wb_port c u))"
    "co_lsu_unit c1 = map lsu_reset (co_lsu_unit c)" "co_wb_commit_port c1 = port_reset (co_wb_commit_port c)" "co_rob c1 = rob_reset (co_rob c)"
    "co_store_buffer c1 = sb_reset (co_store_buffer c)" "co_checkpoint_buffer c1 = cpbuf_reset (co_checkpoint_buffer c)"
    "co_fetch c1 = fetch_reset (co_fetch c)" "co_issue c1 = issue_reset (co_issue c)" "co_commit c1 = commit_reset (co_commit c)"
    using boot m(1) k1 by (simp add: core_reset_def core_clint_def core_set_clint_def Let_def bind_eq_Some_conv)
  show ?thesis
    using B boot_finish [OF r(2)] phy rf(2)
    by (intro exI [of _ c1]) (simp add: c1 drained_def issue_reset_def fetch_reset_def lsu_reset_def commit_reset_def get_current_pc_def
      fetch_get_pc_def fifo_get_front_def)
qed

theorem core_reset_ready_witness:
  "\<exists>bp r c1. core_reset (sample_core bp r) = Some c1 \<and> drained c1 \<and> get_current_pc c1 = 0x80000000 \<and> rat_get_phy_id (co_rat c1) 5 = Some (Some 5) \<and>
     \<not> drained (sample_core bp r)"
proof -
  obtain bp :: branch_predictor where True by blast
  let ?c = "sample_core bp (rat_new PHY_REG_NUM 32 [] [] [] [])"
  have "built ?c"
    using sample_core_clint
    by (simp add: built_def sample_core_def sample_core_bus_def rat_new_def regfile_new_def PHY_REG_NUM_def find_slave_info_def port_new_def port_set_def)
  from core_reset_ready [OF this] obtain c1 where "core_reset ?c = Some c1" "drained c1" "get_current_pc c1 = ft_init_pc (co_fetch ?c)"
    "\<forall>a \<in> {1..<32}. rat_get_phy_id (co_rat c1) a = Some (Some a)" by blast
  moreover have "ft_init_pc (co_fetch ?c) = 0x80000000" "\<not> drained ?c" by (simp_all add: sample_core_def sample_fetch_state_def drained_def)
  ultimately show ?thesis by (intro exI [of _ bp] exI [of _ "rat_new PHY_REG_NUM 32 [] [] [] []"] exI [of _ c1]) simp
qed

end
