(* ===== verification/Core_Counters.thy ===== *)
theory Core_Counters
  imports Core_Props
begin

text \<open>
  The performance counters as the program sees them: at the end of every cycle the core writes its 64-bit counters into pairs of
  registers of the register file.
\<close>

unbundle bit_operations_syntax

subsection \<open>The registers of the core\<close>

text \<open>Address, access and class of every register; no write changes them.\<close>

definition csr_kind :: "csrfile \<Rightarrow> u32 \<Rightarrow> (bool \<times> csr_class) option" where
  "csr_kind f a = map_option (\<lambda>t. (csr_readonly t, csr_class (csr_reg t))) (csr_map_table f a)"

definition core_registers :: "csrfile \<Rightarrow> bool" where
  "core_registers f \<longleftrightarrow> csr_kind f = (\<lambda>a. map_option (\<lambda>(ro, c). (ro, csr_class c)) (map_of csr_map_list a))"

lemma init_registers: "\<exists>f. csrfile_init (csrfile_new cq) = Some f \<and> core_registers f \<and> csr_sync_request_q f = []"
proof -
  have "csr_map_table (csrfile_new cq) a = None" for a by (simp add: csrfile_new_def)
  from map_list_fold [OF csr_map_list_distinct this] obtain f where
    f: "csrfile_init (csrfile_new cq) = Some f" "csr_sync_request_q f = csr_sync_request_q (csrfile_new cq)"
      "\<forall>a. csr_map_table f a = (case map_of csr_map_list a of Some (ro, c) \<Rightarrow> Some \<lparr> csr_readonly = ro, csr_reg = c \<rparr>
        | None \<Rightarrow> csr_map_table (csrfile_new cq) a)"
    unfolding csrfile_init_def by blast
  have "csr_kind f a = map_option (\<lambda>(ro, c). (ro, csr_class c)) (map_of csr_map_list a)" for a
    using f(3) by (cases "map_of csr_map_list a") (auto simp: csr_kind_def csrfile_new_def)
  with f(1,2) show ?thesis by (auto simp: core_registers_def csrfile_new_def)
qed

lemma csr_store_kind: "csr_map_table f a = Some t \<Longrightarrow> csr_store a v t f = Some g \<Longrightarrow> csr_kind g = csr_kind f"
  by (auto simp: csr_store_def csr_write_def csr_kind_def fun_eq_iff bind_eq_Some_conv split: if_splits)

lemma csrfile_write_sys_kind: "csrfile_write_sys a v f = Some g \<Longrightarrow> csr_kind g = csr_kind f"
  by (auto simp: csrfile_write_sys_def dest: csr_store_kind split: option.splits)

lemma csrfile_handle_kind: "csrfile_handle r f = Some g \<Longrightarrow> csr_kind g = csr_kind f"
  by (cases r) (auto simp: csrfile_write_def bind_eq_Some_conv dest: csr_store_kind csrfile_write_sys_kind split: if_splits option.splits)

lemma drain_handle_kind: "drain csrfile_handle rs f = Some g \<Longrightarrow> csr_kind g = csr_kind f"
  by (induction rs arbitrary: f) (auto simp: bind_eq_Some_conv dest: csrfile_handle_kind)

lemma csrfile_sync_kind: "csrfile_sync f = Some g \<Longrightarrow> csr_kind g = csr_kind f"
  using drain_handle_kind [of "csr_sync_request_q f" "f \<lparr> csr_sync_request_q := [] \<rparr>" g]
  by (simp add: csrfile_sync_def csr_kind_def fun_eq_iff)

subsection \<open>Registers without a filter\<close>

definition plain_class :: "csr_class \<Rightarrow> bool" where
  "plain_class c \<longleftrightarrow> c \<in> {Mcycle, Mcycleh, Minstret, Minstreth, Mhpmcounter, Mhpmcounterh}"

definition plain_csr :: "csrfile \<Rightarrow> u32 \<Rightarrow> bool" where
  "plain_csr f a \<longleftrightarrow> (\<exists>ro c. csr_kind f a = Some (ro, c) \<and> plain_class c)"

lemma plain_csr_write:
  assumes "plain_csr f a"
  shows "\<exists>g. csrfile_write_sys a v f = Some g \<and> csr_kind g = csr_kind f \<and> csrfile_read g = (csrfile_read f)(a \<mapsto> v)"
proof -
  obtain t where t: "csr_map_table f a = Some t"
    "plain_class (csr_class (csr_reg t))"
    using assms by (auto simp: plain_csr_def csr_kind_def)
  then have n: "csr_class (csr_reg t) \<noteq> Charfifo" "csr_filter (csr_class (csr_reg t)) v = v" by (auto simp: plain_class_def)
  let ?g = "f \<lparr> csr_map_table := (csr_map_table f)(a \<mapsto> t \<lparr> csr_reg := (csr_reg t) \<lparr> csr_value := v \<rparr> \<rparr>) \<rparr>"
  have w: "csrfile_write_sys a v f = Some ?g" using t(1) csr_store_plain [OF n(1), of a v f] n(2) by (simp add: csrfile_write_sys_def)
  moreover have "csrfile_read ?g = (csrfile_read f)(a \<mapsto> v)" using n(1)
    by (auto simp: fun_eq_iff csrfile_read_def csr_read_def split: option.splits)
  ultimately show ?thesis using csrfile_write_sys_kind [OF w] by blast
qed

lemma plain_csr_writes:
  assumes "\<forall>w \<in> set ws. plain_csr f (fst w)" "distinct (map fst ws)"
  shows "\<exists>g. drain (\<lambda>(a, v). csrfile_write_sys a v) ws f = Some g \<and> csr_kind g = csr_kind f \<and> csrfile_read g = csrfile_read f ++ map_of ws"
  using assms
proof (induction ws arbitrary: f)
  case (Cons w ws)
  obtain a v where w: "w = (a, v)" by (cases w)
  obtain g where g: "csrfile_write_sys a v f = Some g" "csr_kind g = csr_kind f" "csrfile_read g = (csrfile_read f)(a \<mapsto> v)"
    using plain_csr_write [of f a v] Cons.prems(1) w by auto
  have "\<forall>x \<in> set ws. plain_csr g (fst x)" using Cons.prems(1) g(2) by (simp add: plain_csr_def)
  then obtain h where h: "drain (\<lambda>(a, v). csrfile_write_sys a v) ws g = Some h" "csr_kind h = csr_kind g"
    "csrfile_read h = csrfile_read g ++ map_of ws" using Cons.IH [of g] Cons.prems(2) by auto
  have "map_of ws a = None" using Cons.prems(2) w by (auto simp: map_of_eq_None_iff)
  then have r: "csrfile_read h = csrfile_read f ++ map_of (w # ws)"
    using h(3) g(3) w by (auto simp: fun_eq_iff map_add_def split: option.splits)
  have "drain (\<lambda>(a, v). csrfile_write_sys a v) (w # ws) f = Some h" using g(1) h(1) w by simp
  with r g(2) h(2) show ?case by metis
qed simp

subsection \<open>The counters\<close>

text \<open>The writes of a counter list, one half after the other.\<close>

definition halves :: "u32 \<times> u32 \<times> u64 \<Rightarrow> (u32 \<times> u32) list" where
  "halves = (\<lambda>(lo, hi, v). [(lo, ucast v), (hi, ucast (drop_bit 32 v))])"

lemma drain_write_counter:
  "drain write_counter cs f = drain (\<lambda>(a, v). csrfile_write_sys a v) (concat (map halves cs)) f"
proof (induction cs arbitrary: f)
  case (Cons x cs)
  have "write_counter x f = drain (\<lambda>(a, v). csrfile_write_sys a v) (halves x) f"
    by (cases x) (auto simp: write_counter_def halves_def split: bind_split)
  then show ?case by (auto simp: drain_append Cons.IH split: bind_split)
qed simp

text \<open>The counters by the address of their low half; the high half is \<open>0x80\<close> further on, as the manual has it for \<open>mcycle\<close>, \<open>minstret\<close>
  and \<open>mhpmcounter3\<close> to \<open>mhpmcounter15\<close>.\<close>

definition counter_values :: "perf \<Rightarrow> (u32 \<times> u64) list" where
  "counter_values p = [(0xB00, cpu_clock_cycle p), (0xB02, committed_instruction_num p), (0xB03, branch_num p), (0xB04, branch_predicted p),
     (0xB05, branch_hit p), (0xB06, branch_miss p), (0xB07, fetch_decode_fifo_full p), (0xB08, decode_rename_fifo_full p),
     (0xB09, issue_queue_full p), (0xB0A, issue_execute_fifo_full p), (0xB0B, checkpoint_buffer_full p), (0xB0C, rob_full p),
     (0xB0D, phy_regfile_full p), (0xB0E, ras_full p), (0xB0F, fetch_not_full p)]"

definition csr64 :: "csrfile \<Rightarrow> u32 \<Rightarrow> u64 option" where
  "csr64 f a = do { lo \<leftarrow> csrfile_read f a; hi \<leftarrow> csrfile_read f (a + 0x80); Some (push_bit 32 (ucast hi) OR ucast lo) }"

definition counter_address :: "u32 \<Rightarrow> bool" where
  "counter_address a \<longleftrightarrow> (\<exists>x \<in> set (counter_values perf_zero). a = fst x \<or> a = fst x + 0x80)"

lemma halves_join: "push_bit 32 (ucast (ucast (drop_bit 32 v) :: u32)) OR ucast (ucast v :: u32) = (v :: u64)"
  by (intro bit_word_eqI) (auto simp: bit_simps)

lemma counter_addresses:
  "map fst (concat (map halves (counter_csrs p))) = map fst (concat (map halves (counter_csrs perf_zero)))"
  by (simp add: counter_csrs_def halves_def)

lemma counter_addresses_plain:
  assumes "core_registers f"
  shows "\<forall>w \<in> set (concat (map halves (counter_csrs p))). plain_csr f (fst w)"
proof -
  let ?P = "\<lambda>a. case map_of csr_map_list a of None \<Rightarrow> False | Some (ro, c) \<Rightarrow> plain_class (csr_class c)"
  have "list_all ?P (map fst (concat (map halves (counter_csrs perf_zero))))" by code_simp
  then have P: "list_all ?P (map fst (concat (map halves (counter_csrs p))))" unfolding counter_addresses [of p] .
  have k: "?P a \<Longrightarrow> plain_csr f a" for a
    using assms by (auto simp: plain_csr_def core_registers_def split: option.splits)
  show ?thesis
  proof
    fix w assume "w \<in> set (concat (map halves (counter_csrs p)))"
    then have "fst w \<in> set (map fst (concat (map halves (counter_csrs p))))" by (metis image_eqI list.set_map)
    with P show "plain_csr f (fst w)" unfolding list_all_iff by (intro k) blast
  qed
qed

lemma counter_addresses_distinct: "distinct (map fst (concat (map halves (counter_csrs p))))"
  unfolding counter_addresses [of p] by code_simp

lemma counter_csrs_values: "counter_csrs p = map (\<lambda>(a, v). (a, a + 0x80, v)) (counter_values p)"
  by (simp add: counter_csrs_def counter_values_def)

lemma counter_address_values: "counter_address a \<longleftrightarrow> (\<exists>x \<in> set (counter_values p). a = fst x \<or> a = fst x + 0x80)"
proof -
  have "map fst (counter_values perf_zero) = map fst (counter_values p)" by (simp add: counter_values_def)
  then have "fst ` set (counter_values perf_zero) = fst ` set (counter_values p)" by (metis list.set_map)
  then show ?thesis unfolding counter_address_def by (metis (no_types, lifting) image_iff)
qed

lemma counters_written:
  assumes "core_registers f"
  shows "\<exists>g. drain write_counter (counter_csrs p) f = Some g \<and> core_registers g \<and>
    (\<forall>(a, v) \<in> set (counter_values p). csr64 g a = Some v) \<and> (\<forall>a. \<not> counter_address a \<longrightarrow> csrfile_read g a = csrfile_read f a)"
proof -
  let ?ws = "concat (map halves (counter_csrs p))"
  obtain g where g: "drain write_counter (counter_csrs p) f = Some g" "csr_kind g = csr_kind f" "csrfile_read g = csrfile_read f ++ map_of ?ws"
    using plain_csr_writes [OF counter_addresses_plain [OF assms, of p] counter_addresses_distinct [of p]]
    unfolding drain_write_counter by blast
  have ws: "map_of ?ws a = Some (ucast v) \<and> map_of ?ws (a + 0x80) = Some (ucast (drop_bit 32 v))"
    if "(a, v) \<in> set (counter_values p)" for a v
  proof -
    have "(a, ucast v) \<in> set ?ws \<and> (a + 0x80, ucast (drop_bit 32 v)) \<in> set ?ws"
      using that unfolding counter_csrs_values by (force simp: halves_def)
    then show ?thesis using map_of_is_SomeI [OF counter_addresses_distinct [of p]] by blast
  qed
  have "csr64 g a = Some v" if "(a, v) \<in> set (counter_values p)" for a v
    using ws [OF that] by (simp add: csr64_def g(3) map_add_def halves_join)
  moreover have "csrfile_read g a = csrfile_read f a" if "\<not> counter_address a" for a
  proof -
    have "a \<notin> fst ` set ?ws"
      using that unfolding counter_csrs_values counter_address_values [of a p] by (auto simp: halves_def)
    then show ?thesis by (simp add: g(3) map_add_def map_of_eq_None_iff [THEN iffD2])
  qed
  ultimately show ?thesis using g(1,2) assms by (auto simp: core_registers_def)
qed

subsection \<open>Properties\<close>

text \<open>C30: The program reads the right counters. Whatever writes were queued for the register file, after the end of a cycle each of the fifteen
  64-bit counters of the core is what the register with its number and the one \<open>0x80\<close> further on hold as low and high half; the
  cycle counter is one more than before, and the counter of retired instructions is the number the reorder buffer has committed. A write
  of the program to a counter is lost. All other registers hold what the queued writes, and the pending interrupts written to
  \<open>mip\<close>, made of them, and no register changes its access or its class.\<close>

theorem counters_published:
  assumes "core_sync cf c = Some c1" "core_registers (co_csr_file c)"
  shows "cpu_clock_cycle (co_perf c1) = cpu_clock_cycle (co_perf c) + 1 \<and>
    committed_instruction_num (co_perf c1) = rob_get_global_commit_num (co_rob c1) \<and>
    (\<forall>(a, v) \<in> set (counter_values (co_perf c1)). csr64 (co_csr_file c1) a = Some v) \<and> core_registers (co_csr_file c1) \<and>
    (\<exists>mip f. csrfile_sync (csrfile_write_sys_sync CSR_MIP mip (co_csr_file c)) = Some f \<and>
      (\<forall>a. \<not> counter_address a \<longrightarrow> csrfile_read (co_csr_file c1) a = csrfile_read f a))"
proof -
  let ?p = "co_perf c1"
  obtain f1 i1 f where s: "intif_run (co_csr_file c, co_interrupt_interface c) = Some (f1, i1)" "csrfile_sync f1 = Some f"
    "drain write_counter (counter_csrs ?p) f = Some (co_csr_file c1)" "cpu_clock_cycle ?p = cpu_clock_cycle (co_perf c) + 1"
    "committed_instruction_num ?p = rob_get_global_commit_num (co_rob c1)"
    using assms(1) by (auto simp: core_sync_def core_clint_post_def core_set_clint_def Let_def bind_eq_Some_conv)
  obtain mip where mip: "f1 = csrfile_write_sys_sync CSR_MIP mip (co_csr_file c)"
    using s(1) by (auto simp: intif_run_def Let_def bind_eq_Some_conv)
  have "csr_kind f = csr_kind f1" by (rule csrfile_sync_kind [OF s(2)])
  then have "core_registers f" using assms(2) by (simp add: core_registers_def mip csr_kind_def csrfile_write_sys_sync_def fun_eq_iff)
  with counters_written [of f ?p] s mip show ?thesis by auto
qed

text \<open>A core whose program writes \<open>0x1234\<close> to \<open>mcycle\<close> in its first cycle.\<close>

definition sample_counting_core :: "branch_predictor \<Rightarrow> csrfile \<Rightarrow> core" where
  "sample_counting_core bp f = (sample_core bp (rat_new PHY_REG_NUM 32 [] [] [] []))
     \<lparr> co_csr_file := csrfile_write_sync CSR_MCYCLE 0x1234 f \<rparr>"

lemma sample_core_syncs:
  "\<exists>r. rat_sync (rat_new PHY_REG_NUM 32 [] [] [] []) = Some r" "\<exists>q. rob_sync sample_flush_rob = Some q"
  "\<exists>x. regfile_sync (regfile_new zero_phy_regfile_item PHY_REG_NUM) = Some x" "\<exists>q. cpbuf_sync (cpbuf_new 1 [] 0 False) = Some q"
  "\<exists>q. sb_run (sample_commit_feedback False) (sb_new 1 [] 0 False) b = Some (q, b) \<and> (\<exists>q1. sb_sync q = Some q1)"
  "\<exists>i. intif_sync (intif_new \<lparr> mei_ack := False, msi_ack := False, mti_ack := False \<rparr>) = Some i"
proof -
  show "\<exists>r. rat_sync (rat_new PHY_REG_NUM 32 [] [] [] []) = Some r" by (simp add: rat_sync_def rat_new_def)
  show "\<exists>q. rob_sync sample_flush_rob = Some q" by (simp add: rob_sync_def sample_flush_rob_def rob_new_def fifo_push_def rob.defs fifo.defs Let_def)
  show "\<exists>x. regfile_sync (regfile_new zero_phy_regfile_item PHY_REG_NUM) = Some x" by (simp add: regfile_sync_def regfile_new_def)
  show "\<exists>q. cpbuf_sync (cpbuf_new 1 [] 0 False) = Some q" by (simp add: cpbuf_sync_def cpbuf_new_def checkpoint_buffer.defs fifo.defs)
  show "\<exists>q. sb_run (sample_commit_feedback False) (sb_new 1 [] 0 False) b = Some (q, b) \<and> (\<exists>q1. sb_sync q = Some q1)"
    by (simp add: sb_run_def sample_commit_feedback_def sb_write_back_def sb_feedback_def sb_new_def fifo_new_def store_buffer.defs fifo.defs
        fifo_get_front_def fifo_is_empty_def sb_get_front_id_def sb_sync_def)
  show "\<exists>i. intif_sync (intif_new \<lparr> mei_ack := False, msi_ack := False, mti_ack := False \<rparr>) = Some i" by (simp add: intif_sync_def intif_new_def)
qed

lemma sample_csr_requests:
  assumes "core_registers f" "csr_sync_request_q f = []"
  shows "\<exists>m f1. intif_run (csrfile_write_sync CSR_MCYCLE 0x1234 f, i) = Some (csrfile_write_sys_sync CSR_MIP m (csrfile_write_sync CSR_MCYCLE 0x1234 f),
      i \<lparr> mei_ack := False, msi_ack := False, mti_ack := False \<rparr>) \<and>
    csrfile_sync (csrfile_write_sys_sync CSR_MIP m (csrfile_write_sync CSR_MCYCLE 0x1234 f)) = Some f1 \<and> core_registers f1"
proof -
  have "map_of csr_map_list 0xB00 = Some (False, mcycle_new)" "map_of csr_map_list 0x344 = Some (False, mip_new)"
    by (simp_all add: csr_map_list_def map_add_def)
  then have "csr_kind f 0xB00 = Some (False, Mcycle)" "csr_kind f 0x344 = Some (False, Mip)"
    using assms(1) by (simp_all add: core_registers_def mcycle_new_def mip_new_def csr_base_new_def)
  then obtain t u where t: "csr_map_table f 0xB00 = Some t" "\<not> csr_readonly t" "csr_class (csr_reg t) = Mcycle"
    and u: "csr_map_table f 0x344 = Some u" "csr_class (csr_reg u) = Mip" by (auto simp: csr_kind_def)
  let ?g = "csrfile_write_sync CSR_MCYCLE 0x1234 f"
  obtain m where m: "intif_run (?g, i) = Some (csrfile_write_sys_sync CSR_MIP m ?g, i \<lparr> mei_ack := False, msi_ack := False, mti_ack := False \<rparr>)"
    using u(1) by (simp add: intif_run_def csrfile_read_sys_def csrfile_write_sync_def Let_def)
  obtain f1 where f1: "csrfile_sync (csrfile_write_sys_sync CSR_MIP m ?g) = Some f1"
    using t u assms(2) by (simp add: csrfile_sync_def csrfile_write_sys_sync_def csrfile_write_sync_def csrfile_write_def csrfile_write_check_def
        csrfile_write_sys_def csr_store_plain)
  have "core_registers f1" using csrfile_sync_kind [OF f1] assms(1)
    by (simp add: core_registers_def csr_kind_def csrfile_write_sys_sync_def csrfile_write_sync_def fun_eq_iff)
  with m f1 show ?thesis by blast
qed

theorem counters_published_witness:
  "\<exists>bp f c1. csrfile_init (csrfile_new \<lparr> send_fifo = [], rev_fifo = [] \<rparr>) = Some f \<and>
     core_sync (sample_commit_feedback False) (sample_counting_core bp f) = Some c1 \<and> csr64 (co_csr_file c1) 0xB00 = Some 1"
proof -
  have "bp_sync_request_q (bp_new (replicate 4096 0) []) = []" by (simp add: bp_new_def)
  then obtain bp bp1 where bp: "bp_sync bp = Some bp1" by (metis bp_sync_def drain.simps(1))
  obtain f where f: "csrfile_init (csrfile_new \<lparr> send_fifo = [], rev_fifo = [] \<rparr>) = Some f" "core_registers f" "csr_sync_request_q f = []"
    using init_registers by blast
  let ?c = "sample_counting_core bp f" and ?i = "intif_new \<lparr> mei_ack := False, msi_ack := False, mti_ack := False \<rparr>"
  obtain m f1 where m: "intif_run (csrfile_write_sync CSR_MCYCLE 0x1234 f, intif_new) =
      Some (csrfile_write_sys_sync CSR_MIP m (csrfile_write_sync CSR_MCYCLE 0x1234 f), ?i)"
    "csrfile_sync (csrfile_write_sys_sync CSR_MIP m (csrfile_write_sync CSR_MCYCLE 0x1234 f)) = Some f1" "core_registers f1"
    using sample_csr_requests [OF f(2,3), of intif_new] by blast
  obtain r q x cp i where p: "rat_sync (rat_new PHY_REG_NUM 32 [] [] [] []) = Some r" "rob_sync sample_flush_rob = Some q"
    "regfile_sync (regfile_new zero_phy_regfile_item PHY_REG_NUM) = Some x" "cpbuf_sync (cpbuf_new 1 [] 0 False) = Some cp"
    "intif_sync ?i = Some i" using sample_core_syncs(1-4,6) by blast
  let ?b = "co_bus (core_set_clint (clint_run_post clint_new) ?c)"
  obtain sb sb1 where sb: "sb_run (sample_commit_feedback False) (sb_new 1 [] 0 False) ?b = Some (sb, ?b)" "sb_sync sb = Some sb1"
    using sample_core_syncs(5) by blast
  have b: "bus_sync ?b = Some (?b \<lparr> bus_sync_request_q := [] \<rparr>)" "core_clint ?c = Some clint_new"
    by (simp_all add: bus_sync_def core_set_clint_def set_slave_def sample_counting_core_def sample_core_def sample_core_bus_def core_clint_def
        slave_new_def)
  obtain c1 where c1: "core_sync (sample_commit_feedback False) ?c = Some c1"
  proof -
    let ?p = "(co_perf ?c) \<lparr> cpu_clock_cycle := cpu_clock_cycle (co_perf ?c) + 1, committed_instruction_num := rob_get_global_commit_num q \<rparr>"
    obtain f2 where "drain write_counter (counter_csrs ?p) f1 = Some f2" using counters_written [OF m(3)] by blast
    with m(1,2) p sb b bp that show thesis
      by (simp add: core_sync_def core_clint_post_def core_set_clint_def core_clint_def sample_counting_core_def sample_core_def Let_def)
  qed
  have "core_registers (co_csr_file ?c)"
    using f(2) by (simp add: sample_counting_core_def csrfile_write_sync_def core_registers_def csr_kind_def fun_eq_iff)
  with counters_published [OF c1] have "csr64 (co_csr_file c1) 0xB00 = Some (cpu_clock_cycle (co_perf ?c) + 1)"
    by (auto simp: counter_values_def)
  with f(1) c1 show ?thesis by (auto simp: sample_counting_core_def sample_core_def perf_zero_def)
qed

end
