(* ===== verification/Spec2Isabelle.thy ===== *)
theory Spec2Isabelle
  imports Common Fifo Rob Checkpoint_Buffer Rat Regfile Perf Ras Issue_Queue Csr Interrupt Slave Bus
    Pipeline_Types Store_Buffer Decode_Props Bp_Props Execute_Props
    Rename_Props Issue_Props Wb Commit_Miss Fetch_Props Core_Counters
begin

text \<open>
  A verification development for MyRISC-VCore_Model, a cycle-level C++ model of an out-of-order
  RV32IM core. The program's own code is under \<open>src/src\<close>: \<open>component\<close> (the storage and bus
  components), \<open>pipeline\<close> (the stages), \<open>top_header\<close> and \<open>top_source\<close> (configuration and the cycle
  loop).

  Conventions. Data and addresses (\<open>uint32_t\<close>) are words of that width; slot numbers, register numbers and
  sizes are natural numbers. A failed \<open>assert\<close> ends the process, so an operation that contains one
  returns an option and \<open>None\<close> is the abort. An out-parameter with a success flag is an option, a class derived
  from another is an extension of its record, memory a constructor leaves uninitialised is an argument of
  the constructor. Operations ending in \<open>_sync\<close> append to the component's request queue, which \<open>sync\<close>
  drains at the end of the cycle. The \<open>do ... while\<close> loops over ring slots are \<open>do_while\<close>, a partial
  function whose value is \<open>None\<close> if it does not end; the loop lemmas prove that it does.

  Theories, in the order of the code they model:

  \<^item> \<open>Prelude\<close>: machine integers, assertions as options, the loop over ring positions, request queues.
  \<^item> \<open>Common\<close>: \<open>top_header/config.h\<close> and \<open>top_header/common.h\<close>.
  \<^item> \<open>Fifo\<close>: \<open>component/fifo.h\<close>, the ring buffer every queue of the core derives from.
  \<^item> \<open>Bitmap\<close>: the bit maps of the alias table, the register file and the checkpoints.
  \<^item> \<open>Checkpoint_Buffer\<close>, \<open>Rob\<close>, \<open>Issue_Queue\<close>, \<open>Ras\<close>: the queues and stacks of \<open>component\<close>.
  \<^item> \<open>Rat\<close>, \<open>Regfile\<close>: register renaming and the physical registers.
  \<^item> \<open>Csr\<close>, \<open>Interrupt\<close>: the control and status registers and the interrupt lines.
  \<^item> \<open>Slave\<close>, \<open>Bus\<close>: memory, the timer, and the address map.
  \<^item> \<open>Pipeline_Types\<close>: the packs that travel between the stages.
  \<^item> \<open>Store_Buffer\<close>: stores between execution and memory.
  \<^item> \<open>Decode\<close>, \<open>Decode_Isa\<close>, \<open>Decode_Props\<close>: \<open>pipeline/decode.cpp\<close>, the instruction table of the manual, which the decoder is compared with,
    and the two places where it differs from it, its properties.
  \<^item> \<open>Branch_Predictor\<close>, \<open>Bp_Props\<close>: \<open>component/branch_predictor.h\<close> and its properties; the return address stack is compared with
    the call stack of the program.
  \<^item> \<open>Execute\<close>, \<open>Execute_Isa\<close>, \<open>Execute_Props\<close>: the units of \<open>pipeline/execute\<close>, the manual's arithmetic they are compared
    with, their properties.
  \<^item> \<open>Fetch\<close>, \<open>Fetch_Props\<close>: \<open>pipeline/fetch.cpp\<close>, the packs of a cycle as a path through the program. The trace output of
    this stage reads the bus and so can fail; these reads are modelled, and what they do to a misaligned program counter is shown.
  \<^item> \<open>Rename\<close>, \<open>Rename_Props\<close>: \<open>pipeline/rename.cpp\<close>; a group renamed in one cycle is the group renamed one after another.
  \<^item> \<open>Readreg\<close>, \<open>Issue\<close>, \<open>Issue_Props\<close>: \<open>pipeline/readreg.cpp\<close> and \<open>pipeline/issue.cpp\<close>, the operands and the choice of the
    instructions to execute; no instruction is lost, repeated or sent with a wrong operand, no forwarded result is missed. The six arrays of unit queues and the six round robin counters are functions of the kind of unit.
  \<^item> \<open>Wb\<close>: \<open>pipeline/wb.cpp\<close>, the results into the register file.
  \<^item> \<open>Commit\<close>, \<open>Commit_Flush\<close>, \<open>Commit_Retire\<close>, \<open>Commit_Miss\<close>: \<open>pipeline/commit.cpp\<close>; the flushes after exceptions and
    interrupts restore the state before the faulting instruction, the normal cycle retires in program order, a misprediction
    restores the state at the branch.
  \<^item> \<open>Core\<close>, \<open>Core_Props\<close>, \<open>Core_Counters\<close>: the components of \<open>top_source/main.cpp\<close>, one cycle of its loop over all stages and components, and
    \<open>reset\<close>; a flush leaves nothing under way in any stage, a reset core is ready to fetch its first instruction,
    the counters can be read from their registers.
  \<^item> \<open>Perf\<close>: the performance counters of \<open>top_source/main.cpp\<close>.

  Not modelled: tracing (\<open>tools/trace\<close>, the \<open>trace_pre\<close>, \<open>trace_post\<close> and \<open>tdb\<close> calls), printing and JSON
  output, the remote control and console threads of \<open>main.cpp\<close>, and the vendored libraries; none of them
  changes the state of the core.
\<close>

end
